(* ===== verification/Py_Prelude.thy ===== *)
theory Py_Prelude
  imports Main "HOL-Library.AList" "HOL-Library.Multiset"
begin

text \<open>
  Shared vocabulary of the development: Python's exceptions as a datatype, results as sums,
  dictionaries as association lists, and the string and list operations of the standard library
  that the modelled scripts call.  A string is a list of characters; a dictionary is an
  association list in insertion order with distinct keys.
\<close>

section \<open>Collections of hints\<close>

named_theorems py_str \<open>facts on the string operations\<close>
named_theorems py_dict \<open>facts on dictionaries\<close>

section \<open>Exceptions and results\<close>

datatype py_exn =
    AssertionError
  | AttributeError
  | IndexError
  | KeyError
  | TypeError
  | UnboundLocalError
  | ValueError
  | ZeroDivisionError
  | OtherError string

type_synonym 'a result = "py_exn + 'a"

definition rbind :: "'e + 'a \<Rightarrow> ('a \<Rightarrow> 'e + 'b) \<Rightarrow> 'e + 'b" where
  "rbind r f = (case r of Inl e \<Rightarrow> Inl e | Inr x \<Rightarrow> f x)"

lemma rbind_Inl [simp]: "rbind (Inl e) f = Inl e"
  by (simp add: rbind_def)

lemma rbind_Inr [simp]: "rbind (Inr x) f = f x"
  by (simp add: rbind_def)

lemma rbind_eq_Inr: "rbind r f = Inr y \<longleftrightarrow> (\<exists>x. r = Inr x \<and> f x = Inr y)"
  by (cases r) simp_all

lemma rbind_eq_Inl: "rbind r f = Inl e \<longleftrightarrow> r = Inl e \<or> (\<exists>x. r = Inr x \<and> f x = Inl e)"
  by (cases r) auto

lemmas rbind_simps = rbind_eq_Inr rbind_eq_Inl

text \<open>Running a fallible function over a list, stopping at the first exception.\<close>

fun rmap :: "('a \<Rightarrow> 'e + 'b) \<Rightarrow> 'a list \<Rightarrow> 'e + 'b list" where
  "rmap f [] = Inr []"
| "rmap f (x # xs) = rbind (f x) (\<lambda>y. rbind (rmap f xs) (\<lambda>ys. Inr (y # ys)))"

fun rfold :: "('a \<Rightarrow> 's \<Rightarrow> 'e + 's) \<Rightarrow> 'a list \<Rightarrow> 's \<Rightarrow> 'e + 's" where
  "rfold f [] s = Inr s"
| "rfold f (x # xs) s = rbind (f x s) (rfold f xs)"

lemma rfold_append: "rfold f (xs @ ys) s = rbind (rfold f xs s) (rfold f ys)"
  by (induction xs arbitrary: s) (auto simp: rbind_def split: sum.splits)

lemma rfold_Inl_split:
  "rfold f xs s = Inl e \<Longrightarrow> \<exists>pre x post t. xs = pre @ x # post \<and> rfold f pre s = Inr t \<and> f x t = Inl e"
proof (induction xs arbitrary: s)
  case Nil
  then show ?case by simp
next
  case (Cons x xs)
  show ?case
  proof (cases "f x s")
    case (Inl e')
    then have "rfold f [] s = Inr s" "f x s = Inl e" using Cons.prems by auto
    then show ?thesis by blast
  next
    case (Inr s')
    with Cons obtain pre y post t where "xs = pre @ y # post" "rfold f pre s' = Inr t" "f y t = Inl e" by fastforce
    with Inr have "x # xs = (x # pre) @ y # post" "rfold f (x # pre) s = Inr t" "f y t = Inl e" by auto
    then show ?thesis by blast
  qed
qed

lemma rmap_Inr_iff: "rmap f xs = Inr ys \<longleftrightarrow> list_all2 (\<lambda>x y. f x = Inr y) xs ys"
  by (induction xs arbitrary: ys) (auto simp: rbind_eq_Inr list_all2_Cons1)

lemma rmap_pure: "\<forall>x \<in> set xs. f x = Inr (g x) \<Longrightarrow> rmap f xs = Inr (map g xs)"
  by (induction xs) auto

section \<open>Dictionaries\<close>

type_synonym ('k, 'v) dict = "('k \<times> 'v) list"

abbreviation dict_keys :: "('k, 'v) dict \<Rightarrow> 'k list" where
  "dict_keys d \<equiv> map fst d"

abbreviation dict_ok :: "('k, 'v) dict \<Rightarrow> bool" where
  "dict_ok d \<equiv> distinct (dict_keys d)"

abbreviation dict_get :: "('k, 'v) dict \<Rightarrow> 'k \<Rightarrow> 'v option" where
  "dict_get d k \<equiv> map_of d k"

abbreviation dict_set :: "('k, 'v) dict \<Rightarrow> 'k \<Rightarrow> 'v \<Rightarrow> ('k, 'v) dict" where
  "dict_set d k v \<equiv> AList.update k v d"

abbreviation dict_del :: "('k, 'v) dict \<Rightarrow> 'k \<Rightarrow> ('k, 'v) dict" where
  "dict_del d k \<equiv> AList.delete k d"

lemma dict_get_set [simp, py_dict]: "dict_get (dict_set d k v) j = (if j = k then Some v else dict_get d j)"
  by (simp add: update_conv)

lemma dict_get_del [simp, py_dict]: "dict_get (dict_del d k) j = (if j = k then None else dict_get d j)"
  by (simp add: delete_conv)

lemma set_keys_set [simp, py_dict]: "set (dict_keys (dict_set d k v)) = insert k (set (dict_keys d))"
  by (induction d) auto

lemma set_keys_del [simp, py_dict]: "set (dict_keys (dict_del d k)) = set (dict_keys d) - {k}"
  by (simp add: delete_keys)

lemma dict_ok_set [simp, py_dict]: "dict_ok d \<Longrightarrow> dict_ok (dict_set d k v)"
  by (rule distinct_update)

lemma dict_ok_del [simp, py_dict]: "dict_ok d \<Longrightarrow> dict_ok (dict_del d k)"
  by (rule distinct_delete)

lemma dict_get_None_iff [py_dict]: "dict_get d k = None \<longleftrightarrow> k \<notin> set (dict_keys d)"
  by (simp add: map_of_eq_None_iff)

lemma dict_get_Some_key [py_dict]: "dict_get d k = Some v \<Longrightarrow> k \<in> set (dict_keys d)"
  by (metis dict_get_None_iff option.discI)

lemma dict_key_get: "k \<in> set (dict_keys d) \<Longrightarrow> \<exists>v. dict_get d k = Some v"
  by (metis dict_get_None_iff not_None_eq)

lemma length_dict_del_less: "k \<in> set (dict_keys d) \<Longrightarrow> length (dict_del d k) < length d"
  by (induction d) (auto simp: less_Suc_eq_le AList.delete_eq image_iff Suc_le_eq intro: le_SucI)

lemma dict_set_new: "k \<notin> set (dict_keys d) \<Longrightarrow> dict_set d k v = d @ [(k, v)]"
  by (induction d) auto

lemma keys_dict_set_old: "k \<in> set (dict_keys d) \<Longrightarrow> dict_keys (dict_set d k v) = dict_keys d"
  by (induction d) auto

lemma keys_dict_set_new: "k \<notin> set (dict_keys d) \<Longrightarrow> dict_keys (dict_set d k v) = dict_keys d @ [k]"
  by (induction d) auto

text \<open>
  Python 2 enumerates a dictionary in an arbitrary order.  A script that iterates over one is
  modelled with the enumeration as a parameter: any function that permutes the key list.
\<close>

definition dict_enum :: "('k list \<Rightarrow> 'k list) \<Rightarrow> bool" where
  "dict_enum enum \<longleftrightarrow> (\<forall>ks. mset (enum ks) = mset ks)"

lemma dict_enum_set: "dict_enum enum \<Longrightarrow> set (enum ks) = set ks"
  by (metis dict_enum_def set_mset_mset)

lemma dict_enum_distinct: "dict_enum enum \<Longrightarrow> distinct (enum ks) = distinct ks"
  by (metis dict_enum_def mset_eq_imp_distinct_iff)

lemma dict_enum_id: "dict_enum id"
  by (simp add: dict_enum_def)

lemma dict_enum_rev: "dict_enum rev"
  by (simp add: dict_enum_def)

section \<open>Strings\<close>

text \<open>
  \<open>str.isspace\<close> on the characters below 256, \<open>str.strip\<close>, \<open>str.split(c)\<close> for a one-character
  separator, \<open>str.split(c, 1)\<close>, \<open>sep.join(xs)\<close>, \<open>in\<close>, \<open>startswith\<close> and \<open>endswith\<close>.
\<close>

abbreviation newline :: string where
  "newline \<equiv> [CHR 0x0A]"

abbreviation quote :: string where
  "quote \<equiv> [CHR 0x22]"

definition py_space :: "char \<Rightarrow> bool" where
  "py_space c \<longleftrightarrow> of_char c \<in> {9, 10, 11, 12, 13, 28, 29, 30, 31, 32, 133, 160 :: nat}"

definition lstrip :: "string \<Rightarrow> string" where
  "lstrip s = dropWhile py_space s"

definition rstrip :: "string \<Rightarrow> string" where
  "rstrip s = rev (dropWhile py_space (rev s))"

definition strip :: "string \<Rightarrow> string" where
  "strip s = rstrip (lstrip s)"

fun split_on :: "char \<Rightarrow> string \<Rightarrow> string list" where
  "split_on c [] = [[]]"
| "split_on c (x # xs) =
     (if x = c then [] # split_on c xs
      else (case split_on c xs of [] \<Rightarrow> [[x]] | w # ws \<Rightarrow> (x # w) # ws))"

definition split_once :: "char \<Rightarrow> string \<Rightarrow> string list" where
  "split_once c s =
     (if c \<in> set s then [takeWhile (\<lambda>x. x \<noteq> c) s, tl (dropWhile (\<lambda>x. x \<noteq> c) s)] else [s])"

fun join_with :: "string \<Rightarrow> string list \<Rightarrow> string" where
  "join_with sep [] = []"
| "join_with sep [w] = w"
| "join_with sep (w # v # ws) = w @ sep @ join_with sep (v # ws)"

definition startswith :: "string \<Rightarrow> string \<Rightarrow> bool" where
  "startswith s p \<longleftrightarrow> take (length p) s = p"

definition endswith :: "string \<Rightarrow> string \<Rightarrow> bool" where
  "endswith s p \<longleftrightarrow> startswith (rev s) (rev p)"

fun contains_str :: "string \<Rightarrow> string \<Rightarrow> bool" where
  "contains_str p [] \<longleftrightarrow> p = []"
| "contains_str p (x # xs) \<longleftrightarrow> startswith (x # xs) p \<or> contains_str p xs"

text \<open>The text of lines, and \<open>readlines\<close>, which keeps the ends of the lines.\<close>

definition text_lines :: "string list \<Rightarrow> string" where
  "text_lines ls = concat (map (\<lambda>l. l @ newline) ls)"

fun readlines :: "string \<Rightarrow> string list" where
  "readlines [] = []"
| "readlines (c # s) =
     (if c = CHR 0x0A then newline # readlines s
      else (case readlines s of [] \<Rightarrow> [[c]] | l # ls \<Rightarrow> (c # l) # ls))"

lemma concat_readlines [simp]: "concat (readlines s) = s"
  by (induction s rule: readlines.induct) (auto split: list.splits)

lemma split_on_nonempty [simp, py_str]: "split_on c s \<noteq> []"
  by (cases s) (auto split: list.splits)

lemma join_with_Cons: "ws \<noteq> [] \<Longrightarrow> join_with sep (w # ws) = w @ sep @ join_with sep ws"
  by (cases ws) auto

lemma join_split [simp, py_str]: "join_with [c] (split_on c s) = s"
proof (induction s)
  case Nil
  then show ?case by simp
next
  case (Cons x xs)
  then show ?case
    by (cases "split_on c xs"; cases "tl (split_on c xs)") (auto simp: join_with_Cons)
qed

lemma split_on_no_sep: "c \<notin> set s \<Longrightarrow> split_on c s = [s]"
  by (induction s) auto

lemma split_on_append_sep: "c \<notin> set w \<Longrightarrow> split_on c (w @ c # s) = w # split_on c s"
  by (induction w) (auto split: list.splits)

lemma split_join [py_str]:
  "ws \<noteq> [] \<Longrightarrow> \<forall>w \<in> set ws. c \<notin> set w \<Longrightarrow> split_on c (join_with [c] ws) = ws"
  by (induction "[c]" ws rule: join_with.induct) (auto simp: split_on_no_sep split_on_append_sep)

lemma split_on_sep_free [py_str]: "w \<in> set (split_on c s) \<Longrightarrow> c \<notin> set w"
proof (induction s arbitrary: w)
  case Nil
  then show ?case by simp
next
  case (Cons x xs)
  then show ?case
    by (cases "split_on c xs") (auto split: if_splits)
qed

lemma startswith_append [simp, py_str]: "startswith (p @ s) p"
  by (simp add: startswith_def)

lemma startswith_iff [py_str]: "startswith s p \<longleftrightarrow> (\<exists>t. s = p @ t)"
  unfolding startswith_def by (metis append_eq_conv_conj append_take_drop_id)

lemma contains_str_iff [py_str]: "contains_str p s \<longleftrightarrow> (\<exists>a b. s = a @ p @ b)"
proof (induction s)
  case Nil
  then show ?case by simp
next
  case (Cons x xs)
  show ?case
  proof
    assume "contains_str p (x # xs)"
    then consider "startswith (x # xs) p" | "contains_str p xs" by auto
    then show "\<exists>a b. x # xs = a @ p @ b"
    proof cases
      case 1
      then show ?thesis unfolding startswith_iff by (metis append_Nil)
    next
      case 2
      then show ?thesis using Cons.IH by (metis append_Cons)
    qed
  next
    assume "\<exists>a b. x # xs = a @ p @ b"
    then obtain a b where ab: "x # xs = a @ p @ b" by blast
    show "contains_str p (x # xs)"
    proof (cases a)
      case Nil
      with ab have "startswith (x # xs) p" by (simp add: startswith_def)
      then show ?thesis by simp
    next
      case (Cons y ys)
      with ab have "xs = ys @ p @ b" by simp
      then have "contains_str p xs" using Cons.IH by blast
      then show ?thesis by simp
    qed
  qed
qed

text \<open>Decimal numerals: \<open>str(n)\<close> and \<open>'%d' % n\<close>.\<close>

definition digit_char :: "nat \<Rightarrow> char" where
  "digit_char d = char_of (48 + d)"

fun nat_str :: "nat \<Rightarrow> string" where
  "nat_str n = (if n < 10 then [digit_char n] else nat_str (n div 10) @ [digit_char (n mod 10)])"

declare nat_str.simps [simp del]

definition int_str :: "int \<Rightarrow> string" where
  "int_str i = (if i < 0 then CHR ''-'' # nat_str (nat (- i)) else nat_str (nat i))"

definition is_digit :: "char \<Rightarrow> bool" where
  "is_digit c \<longleftrightarrow> 48 \<le> (of_char c :: nat) \<and> (of_char c :: nat) \<le> 57"

definition digit_val :: "char \<Rightarrow> nat" where
  "digit_val c = of_char c - 48"

definition nat_of_str :: "string \<Rightarrow> nat" where
  "nat_of_str s = foldl (\<lambda>n c. 10 * n + digit_val c) 0 s"

lemma of_char_digit [simp]: "d < 10 \<Longrightarrow> (of_char (digit_char d) :: nat) = 48 + d"
  by (simp add: digit_char_def)

lemma is_digit_digit_char [simp]: "d < 10 \<Longrightarrow> is_digit (digit_char d)"
  by (simp add: is_digit_def)

lemma digit_val_digit_char [simp]: "d < 10 \<Longrightarrow> digit_val (digit_char d) = d"
  by (simp add: digit_val_def)

lemma nat_str_nonempty [simp]: "nat_str n \<noteq> []"
  by (subst nat_str.simps) simp

lemma nat_str_digits: "list_all is_digit (nat_str n)"
proof (induction n rule: nat_str.induct)
  case (1 n)
  then show ?case by (subst nat_str.simps) simp
qed

lemma nat_of_nat_str [simp, py_str]: "nat_of_str (nat_str n) = n"
proof (induction n rule: nat_str.induct)
  case (1 n)
  show ?case
  proof (cases "n < 10")
    case True
    then show ?thesis by (subst nat_str.simps) (simp add: nat_of_str_def)
  next
    case False
    with 1 have "nat_of_str (nat_str (n div 10)) = n div 10" by simp
    with False show ?thesis
      by (subst nat_str.simps) (simp add: nat_of_str_def)
  qed
qed

lemma nat_str_inject [simp]: "nat_str m = nat_str n \<longleftrightarrow> m = n"
  by (metis nat_of_nat_str)

text \<open>A text that begins and ends without space is not changed by \<open>strip\<close>.\<close>

lemma strip_text: "s \<noteq> [] \<Longrightarrow> \<not> py_space (hd s) \<Longrightarrow> \<not> py_space (last s) \<Longrightarrow> strip s = s"
  by (simp add: strip_def lstrip_def rstrip_def dropWhile_eq_self_iff hd_rev dropWhile_eq_self_iff [THEN iffD2])

lemma digit_not_space: "is_digit c \<Longrightarrow> \<not> py_space c"
  by (auto simp: is_digit_def py_space_def)

text \<open>The end of the program by \<open>sys.exit(n)\<close> or \<open>raise SystemExit(n)\<close>, and the letters of another case.\<close>

definition sys_exit :: "nat \<Rightarrow> py_exn" where
  "sys_exit n = OtherError (''SystemExit '' @ nat_str n)"

definition upper_char :: "char \<Rightarrow> char" where
  "upper_char c = (if 97 \<le> (of_char c :: nat) \<and> (of_char c :: nat) \<le> 122 then char_of (of_char c - 32 :: nat) else c)"

definition lower_char :: "char \<Rightarrow> char" where
  "lower_char c = (if 65 \<le> (of_char c :: nat) \<and> (of_char c :: nat) \<le> 90 then char_of (of_char c + 32 :: nat) else c)"

text \<open>POSIX paths: \<open>os.path.join\<close> of two parts and \<open>os.path.basename\<close>.\<close>

definition path_join :: "string \<Rightarrow> string \<Rightarrow> string" where
  "path_join a b =
     (if startswith b ''/'' then b
      else if a = [] \<or> endswith a ''/'' then a @ b
      else a @ ''/'' @ b)"

definition path_basename :: "string \<Rightarrow> string" where
  "path_basename p = rev (takeWhile (\<lambda>c. c \<noteq> CHR ''/'') (rev p))"

lemma path_basename_no_sep: "CHR ''/'' \<notin> set (path_basename p)"
  unfolding path_basename_def by (auto dest: set_takeWhileD)

lemma path_basename_append:
  assumes "CHR ''/'' \<notin> set b"
  shows "path_basename (a @ ''/'' @ b) = b"
proof -
  have "\<forall>c \<in> set (rev b). c \<noteq> CHR ''/''" using assms by auto
  then have "takeWhile (\<lambda>c. c \<noteq> CHR ''/'') (rev b @ ''/'' @ rev a) = rev b"
    by (subst takeWhile_append2) auto
  then show ?thesis by (simp add: path_basename_def)
qed

section \<open>Slices\<close>

text \<open>\<open>xs[:e]\<close> and \<open>xs[b:]\<close>, whose bounds count from the end when negative.\<close>

definition slice_to :: "'a list \<Rightarrow> int \<Rightarrow> 'a list" where
  "slice_to xs e = take (nat (if e < 0 then int (length xs) + e else e)) xs"

definition slice_from :: "'a list \<Rightarrow> int \<Rightarrow> 'a list" where
  "slice_from xs b = drop (nat (if b < 0 then int (length xs) + b else b)) xs"

lemma slice_split: "slice_to xs k @ slice_from xs k = xs"
  by (simp add: slice_to_def slice_from_def)

section \<open>Printers and readers\<close>

text \<open>
  A printer of items and a reader of tokens fit together when reading the tokens of one item puts the
  item into the state; then a whole list of items reads back.
\<close>

locale printed_items =
  fixes print :: "'a \<Rightarrow> string list"
    and step :: "string \<Rightarrow> 's \<Rightarrow> 's result"
    and put :: "'a \<Rightarrow> 's \<Rightarrow> 's"
    and ok :: "'a \<Rightarrow> bool"
    and inv :: "'s \<Rightarrow> bool"
  assumes read_one: "ok a \<Longrightarrow> inv s \<Longrightarrow> rfold step (print a) s = Inr (put a s)"
    and inv_put: "ok a \<Longrightarrow> inv s \<Longrightarrow> inv (put a s)"
begin

lemma read_all:
  "list_all ok as \<Longrightarrow> inv s \<Longrightarrow> rfold step (concat (map print as)) s = Inr (fold put as s)"
  by (induction as arbitrary: s) (simp_all add: rfold_append read_one inv_put)

end

end
