(* ===== verification/Rad_Util.thy ===== *)
theory Rad_Util
  imports Py_Prelude "HOL-Library.Sublist"
begin

text \<open>
  The general-purpose functions of \<open>bindings/python/rad_util.py\<close> on integers, strings and lists.
  Integers are unbounded; strings are over characters below 256; dictionaries enumerate their keys
  in an arbitrary order, a parameter where it shows.  The functions on floating point numbers are in
  \<open>Rad_Float\<close> and \<open>Nice_Units\<close>.
\<close>

section \<open>Binary strings\<close>

text \<open>\<open>hex2bin\<close> maps each hexadecimal digit to its four binary digits.\<close>

definition hex2bin :: "string list" where
  "hex2bin =
     [''0000'', ''0001'', ''0010'', ''0011'',
      ''0100'', ''0101'', ''0110'', ''0111'',
      ''1000'', ''1001'', ''1010'', ''1011'',
      ''1100'', ''1101'', ''1110'', ''1111'']"

text \<open>The digits that \<open>hex(i)\<close> prints after the prefix \<open>0x\<close> of a non-negative number.\<close>

fun hex_digits :: "nat \<Rightarrow> nat list" where
  "hex_digits n = (if n < 16 then [n] else hex_digits (n div 16) @ [n mod 16])"

declare hex_digits.simps [simp del]

text \<open>
  A negative number prints as \<open>-0x...\<close>, so that the slice \<open>[2:]\<close> starts with the letter \<open>x\<close>,
  which is no key of the table.
\<close>

definition int2bin :: "int \<Rightarrow> int \<Rightarrow> string result" where
  "int2bin i n =
     (if i < 0 then Inl KeyError
      else
        (let r = concat (map (\<lambda>d. hex2bin ! d) (hex_digits (nat i)))
         in if CHR ''1'' \<in> set (slice_to r (- n)) then Inl ValueError
            else let r' = slice_from r (- n)
                 in Inr (replicate (nat (n - int (length r'))) CHR ''0'' @ r')))"

definition bin_val :: "string \<Rightarrow> int" where
  "bin_val s = foldl (\<lambda>v c. 2 * v + (if c = CHR ''1'' then 1 else 0)) 0 s"

definition bin_digits :: "string \<Rightarrow> bool" where
  "bin_digits s \<longleftrightarrow> list_all (\<lambda>c. c = CHR ''0'' \<or> c = CHR ''1'') s"

text \<open>
  \<open>int(bin_string, 2)\<close>: surrounding white space, a sign and the prefix \<open>0b\<close> are accepted, then at
  least one binary digit is required.
\<close>

definition bin2int :: "string \<Rightarrow> int result" where
  "bin2int s =
     (let t = strip s;
          neg = startswith t ''-'';
          t1 = (if startswith t ''-'' \<or> startswith t ''+'' then drop 1 t else t);
          t2 = (if startswith t1 ''0b'' \<or> startswith t1 ''0B'' then drop 2 t1 else t1)
      in if t2 \<noteq> [] \<and> bin_digits t2 then Inr (if neg then - bin_val t2 else bin_val t2)
         else Inl ValueError)"

lemma bin_val_foldl:
  "foldl (\<lambda>v c. 2 * v + (if c = CHR ''1'' then 1 else 0)) a s = a * 2 ^ length s + bin_val s"
proof (induction s rule: rev_induct)
  case Nil
  then show ?case by (simp add: bin_val_def)
next
  case (snoc x xs)
  then show ?case by (simp add: bin_val_def algebra_simps)
qed

lemma bin_val_Nil [simp]: "bin_val [] = 0"
  by (simp add: bin_val_def)

lemma bin_val_append: "bin_val (a @ b) = bin_val a * 2 ^ length b + bin_val b"
  by (metis bin_val_def bin_val_foldl foldl_append)

lemma bin_val_Cons: "bin_val (c # s) = (if c = CHR ''1'' then 2 ^ length s else 0) + bin_val s"
  using bin_val_append [of "[c]" s] by (simp add: bin_val_def)

lemma bin_val_nonneg [simp]: "0 \<le> bin_val s"
  by (induction s) (auto simp: bin_val_Cons)

lemma bin_val_less: "bin_val s < 2 ^ length s"
proof (induction s)
  case (Cons c s)
  have "(0::int) < 2 ^ length s" by simp
  with Cons have "bin_val s < 2 * 2 ^ length s" by linarith
  with Cons show ?case by (simp add: bin_val_Cons)
qed simp

lemma bin_val_zero_iff: "bin_val s = 0 \<longleftrightarrow> CHR ''1'' \<notin> set s"
proof (induction s)
  case Nil
  then show ?case by simp
next
  case (Cons c s)
  have "0 < (2::int) ^ length s + bin_val s"
    by (simp add: add_pos_nonneg)
  with Cons show ?case by (auto simp: bin_val_Cons)
qed

lemma bin_val_pad [simp]: "bin_val (replicate k CHR ''0'' @ s) = bin_val s"
  by (induction k) (auto simp: bin_val_Cons)

lemma bin_digits_simps [simp]:
  "bin_digits []" "bin_digits (c # s) \<longleftrightarrow> (c = CHR ''0'' \<or> c = CHR ''1'') \<and> bin_digits s"
  "bin_digits (s @ t) \<longleftrightarrow> bin_digits s \<and> bin_digits t"
  "bin_digits (replicate k CHR ''0'')"
  by (auto simp: bin_digits_def list_all_iff)

lemma bin_digits_take: "bin_digits s \<Longrightarrow> bin_digits (take k s)"
  by (auto simp: bin_digits_def list_all_iff dest: in_set_takeD)

lemma bin_digits_drop: "bin_digits s \<Longrightarrow> bin_digits (drop k s)"
  by (auto simp: bin_digits_def list_all_iff dest: in_set_dropD)

lemma bin_val_inject:
  "length s = length t \<Longrightarrow> bin_digits s \<Longrightarrow> bin_digits t \<Longrightarrow> bin_val s = bin_val t \<Longrightarrow> s = t"
proof (induction s t rule: list_induct2)
  case Nil
  then show ?case by simp
next
  case (Cons x xs y ys)
  have "bin_val xs < 2 ^ length ys" "bin_val ys < 2 ^ length ys"
    using bin_val_less [of xs] bin_val_less [of ys] Cons.hyps by simp_all
  moreover have "0 \<le> bin_val xs" "0 \<le> bin_val ys" by (rule bin_val_nonneg)+
  ultimately have "(x = CHR ''1'') = (y = CHR ''1'')"
    using Cons.prems(3) Cons.hyps by (cases "x = CHR ''1''"; cases "y = CHR ''1''"; simp add: bin_val_Cons)
  moreover from this have "bin_val xs = bin_val ys"
    using Cons.prems(3) Cons.hyps by (simp add: bin_val_Cons split: if_splits)
  ultimately show ?case using Cons by auto
qed

lemma hex2bin_table:
  "list_all (\<lambda>d. length (hex2bin ! d) = 4 \<and> bin_digits (hex2bin ! d) \<and> bin_val (hex2bin ! d) = int d)
     [0..<16]"
  by code_simp

lemma hex2bin_digit:
  "d < 16 \<Longrightarrow> length (hex2bin ! d) = 4 \<and> bin_digits (hex2bin ! d) \<and> bin_val (hex2bin ! d) = int d"
  using hex2bin_table by (simp add: list_all_iff)

lemma hex_string_val:
  "bin_digits (concat (map (\<lambda>d. hex2bin ! d) (hex_digits n)))
   \<and> bin_val (concat (map (\<lambda>d. hex2bin ! d) (hex_digits n))) = int n"
proof (induction n rule: hex_digits.induct)
  case (1 n)
  show ?case
  proof (cases "n < 16")
    case True
    then show ?thesis using hex2bin_digit [OF True] by (subst (1 2) hex_digits.simps) simp
  next
    case False
    have "n mod 16 < 16" by simp
    note low = hex2bin_digit [OF this]
    have "int n = int (n div 16) * 16 + int (n mod 16)" by presburger
    with 1 [OF False] low False show ?thesis
      by (subst (1 2) hex_digits.simps) (simp add: bin_val_append)
  qed
qed

text \<open>The table-driven conversion yields the \<open>n\<close> binary digits of \<open>i\<close>, or an error when they are too few.\<close>

lemma int2bin_fits:
  assumes "0 \<le> i" "0 < n" "i < 2 ^ nat n"
  shows "\<exists>s. int2bin i n = Inr s \<and> length s = nat n \<and> bin_digits s \<and> bin_val s = i"
proof -
  define r where "r = concat (map (\<lambda>d. hex2bin ! d) (hex_digits (nat i)))"
  have dig: "bin_digits r" and val: "bin_val r = i"
    using hex_string_val [of "nat i"] assms(1) by (simp_all add: r_def)
  define k where "k = length r - nat n"
  have front: "slice_to r (- n) = take k r" and rear: "slice_from r (- n) = drop k r"
    using assms(2) by (simp_all add: slice_to_def slice_from_def k_def nat_minus_as_int)
  have split: "i = bin_val (take k r) * 2 ^ length (drop k r) + bin_val (drop k r)"
    using val bin_val_append [of "take k r" "drop k r"] by simp
  have no_one: "CHR ''1'' \<notin> set (take k r)"
  proof (cases "k = 0")
    case False
    then have len: "length (drop k r) = nat n" by (simp add: k_def)
    have "bin_val (take k r) * 2 ^ nat n \<le> i"
      using split len by simp
    moreover have "2 ^ nat n \<le> bin_val (take k r) * 2 ^ nat n" if "1 \<le> bin_val (take k r)"
      using mult_right_mono [OF that, of "2 ^ nat n"] by simp
    ultimately have "\<not> 1 \<le> bin_val (take k r)"
      using assms(3) by linarith
    then have "bin_val (take k r) = 0"
      using bin_val_nonneg [of "take k r"] by linarith
    then show ?thesis by (simp add: bin_val_zero_iff)
  qed simp
  then have "bin_val (drop k r) = i"
    using split by (simp add: bin_val_zero_iff [symmetric])
  moreover have "nat (n - int (length (drop k r))) + length (drop k r) = nat n"
    using assms(2) by (simp add: k_def)
  ultimately show ?thesis
    using no_one dig assms(1)
    by (simp add: int2bin_def Let_def r_def [symmetric] front rear bin_digits_drop)
qed

lemma int2bin_too_large:
  assumes "0 < n" "2 ^ nat n \<le> i"
  shows "int2bin i n = Inl ValueError"
proof -
  define r where "r = concat (map (\<lambda>d. hex2bin ! d) (hex_digits (nat i)))"
  have i0: "0 \<le> i" using assms(2) by (meson order_trans zero_le_numeral zero_le_power)
  have val: "bin_val r = i"
    using hex_string_val [of "nat i"] i0 by (simp add: r_def)
  define k where "k = length r - nat n"
  have front: "slice_to r (- n) = take k r"
    using assms(1) by (simp add: slice_to_def k_def nat_minus_as_int)
  have "CHR ''1'' \<in> set (take k r)"
  proof (rule ccontr)
    assume "CHR ''1'' \<notin> set (take k r)"
    then have "bin_val (take k r) = 0" by (simp add: bin_val_zero_iff)
    then have "i = bin_val (drop k r)"
      using val bin_val_append [of "take k r" "drop k r"] by simp
    also have "\<dots> < 2 ^ length (drop k r)" by (rule bin_val_less)
    also have "\<dots> \<le> 2 ^ nat n" by (rule power_increasing) (auto simp: k_def)
    finally show False using assms(2) by simp
  qed
  then show ?thesis
    using i0 by (simp add: int2bin_def Let_def r_def [symmetric] front)
qed

lemma py_space_bin [simp]: "\<not> py_space CHR ''0''" "\<not> py_space CHR ''1''"
  by (simp_all add: py_space_def)

lemma strip_bin_digits:
  assumes "bin_digits s"
  shows "strip s = s"
proof -
  have nosp: "\<not> py_space c" if "c \<in> set s" for c
  proof -
    from assms that have "c = CHR ''0'' \<or> c = CHR ''1''"
      by (simp add: bin_digits_def list_all_iff)
    then show ?thesis using py_space_bin by (elim disjE) simp_all
  qed
  have l: "dropWhile py_space t = t" if "set t \<subseteq> set s" for t
    using that nosp by (cases t) simp_all
  have "dropWhile py_space s = s" "dropWhile py_space (rev s) = rev s"
    by (rule l, simp)+
  then show ?thesis by (simp add: strip_def lstrip_def rstrip_def)
qed

lemma bin2int_digits:
  assumes "bin_digits s" "s \<noteq> []"
  shows "bin2int s = Inr (bin_val s)"
proof -
  from assms obtain c t where s: "s = c # t" and c: "c = CHR ''0'' \<or> c = CHR ''1''"
    by (cases s) auto
  have "\<not> startswith s ''-''" "\<not> startswith s ''+''"
    "\<not> startswith s ''0b''" "\<not> startswith s ''0B''"
    using assms c s by (cases t; auto simp: startswith_def)+
  then show ?thesis
    using assms by (simp add: bin2int_def Let_def strip_bin_digits)
qed

section \<open>Sequences\<close>

definition reverse :: "string \<Rightarrow> string" where
  "reverse s = rev s"

text \<open>\<open>zip(*matrix)\<close> stops at the shortest row.\<close>

definition zip_star :: "'a list list \<Rightarrow> 'a list list" where
  "zip_star m =
     (case m of [] \<Rightarrow> []
      | r # rs \<Rightarrow> map (\<lambda>j. map (\<lambda>row. row ! j) (r # rs)) [0..<foldr min (map length rs) (length r)])"

definition transpose_matrix :: "'a list list \<Rightarrow> 'a list list" where
  "transpose_matrix m = map (\<lambda>t. t) (zip_star m)"

definition rectangular :: "nat \<Rightarrow> 'a list list \<Rightarrow> bool" where
  "rectangular w m \<longleftrightarrow> list_all (\<lambda>row. length row = w) m"

lemma foldr_min_const: "list_all (\<lambda>n. n = w) ns \<Longrightarrow> foldr min ns w = (w::nat)"
  by (induction ns) auto

lemma transpose_rectangular:
  assumes "rectangular w m" "m \<noteq> []"
  shows "transpose_matrix m = map (\<lambda>j. map (\<lambda>row. row ! j) m) [0..<w]"
proof -
  from assms obtain r rs where m: "m = r # rs" by (cases m) auto
  have "foldr min (map length rs) (length r) = w"
    using assms foldr_min_const [of w "map length rs"]
    by (simp add: m rectangular_def list_all_iff)
  then show ?thesis by (simp add: transpose_matrix_def zip_star_def m)
qed

lemma nth_map_upt_id: "length xs = n \<Longrightarrow> map (\<lambda>i. xs ! i) [0..<n] = xs"
  by (auto intro: nth_equalityI)

lemma transpose_transpose:
  assumes "rectangular w m" "m \<noteq> []" "0 < w"
  shows "transpose_matrix (transpose_matrix m) = m"
proof -
  let ?t = "map (\<lambda>j. map (\<lambda>row. row ! j) m) [0..<w]"
  have t: "transpose_matrix m = ?t" by (rule transpose_rectangular [OF assms(1,2)])
  have "rectangular (length m) ?t" "?t \<noteq> []"
    using assms(3) by (auto simp: rectangular_def list_all_iff)
  then have "transpose_matrix ?t = map (\<lambda>i. map (\<lambda>row. row ! i) ?t) [0..<length m]"
    by (rule transpose_rectangular)
  also have "\<dots> = m"
    using assms(1)
    by (intro nth_equalityI) (auto simp: rectangular_def list_all_length comp_def)
  finally show ?thesis by (simp add: t)
qed

text \<open>
  The permutations of a list: the first element is inserted at every position of every permutation
  of the rest.
\<close>

fun permutations :: "'a list \<Rightarrow> 'a list list" where
  "permutations [] = [[]]"
| "permutations [x] = [[x]]"
| "permutations (x # y # ys) =
     concat (map (\<lambda>sub. map (\<lambda>i. take i sub @ x # drop i sub) [0..<length (x # y # ys)])
                 (permutations (y # ys)))"

lemma permutations_mset: "p \<in> set (permutations xs) \<Longrightarrow> mset p = mset xs"
proof (induction xs arbitrary: p rule: permutations.induct)
  case (3 x y ys)
  then obtain sub i where sub: "sub \<in> set (permutations (y # ys))"
    and p: "p = take i sub @ x # drop i sub" by auto
  have "mset (take i sub) + mset (drop i sub) = mset sub"
    by (metis append_take_drop_id mset_append)
  with 3 sub p show ?case by simp
qed auto

lemma permutations_complete: "mset p = mset xs \<Longrightarrow> p \<in> set (permutations xs)"
proof (induction xs arbitrary: p rule: permutations.induct)
  case (3 x y ys)
  then have "x \<in> set p" by (metis list.set_intros(1) set_mset_mset)
  then obtain a b where p: "p = a @ x # b" by (meson split_list)
  with 3 have ab: "mset (a @ b) = mset (y # ys)" by simp
  then have "a @ b \<in> set (permutations (y # ys))" by (rule "3.IH")
  moreover have "length a < length (x # y # ys)"
    using mset_eq_length [OF ab] by simp
  moreover have "p = take (length a) (a @ b) @ x # drop (length a) (a @ b)" by (simp add: p)
  ultimately show ?case
    unfolding permutations.simps set_concat set_map set_upt image_image UN_iff image_iff
    by (intro bexI [of _ "a @ b"] exI conjI) (auto simp: p intro!: bexI [of _ "length a"])
qed auto

lemma length_permutations: "length (permutations xs) = fact (length xs)"
proof (induction xs rule: permutations.induct)
  case (3 x y ys)
  have "length (permutations (x # y # ys))
        = (\<Sum>s\<leftarrow>permutations (y # ys). length (x # y # ys))"
    by (simp add: length_concat comp_def)
  also have "\<dots> = length (x # y # ys) * length (permutations (y # ys))"
    by (simp add: sum_list_triv)
  also have "\<dots> = fact (length (x # y # ys))" using 3 by simp
  finally show ?case .
qed auto

text \<open>
  \<open>uniquify\<close> puts the items in a dictionary; an unhashable item raises \<open>TypeError\<close> there, and the
  whole sequence is then handled by a linear search in the result list.
\<close>

fun uniq_fast :: "'a list \<Rightarrow> 'a list \<Rightarrow> 'a list" where
  "uniq_fast d [] = []"
| "uniq_fast d (x # xs) = (if x \<in> set d then uniq_fast d xs else x # uniq_fast (d @ [x]) xs)"

definition uniquify :: "('a \<Rightarrow> bool) \<Rightarrow> ('a list \<Rightarrow> 'a list) \<Rightarrow> 'a list \<Rightarrow> bool \<Rightarrow> 'a list" where
  "uniquify hashable enum xs preserve_order =
     (if list_all hashable xs then
        (if preserve_order then uniq_fast [] xs
         else enum (dict_keys (foldl (\<lambda>d x. dict_set d x (0::int)) [] xs)))
      else foldl (\<lambda>result x. if x \<in> set result then result else result @ [x]) [] xs)"

lemma remdups_rev_snoc:
  "rev (remdups (rev (xs @ [x]))) =
   (if x \<in> set xs then rev (remdups (rev xs)) else rev (remdups (rev xs)) @ [x])"
  by simp

lemma uniq_fast_spec: "distinct d \<Longrightarrow> d @ uniq_fast d xs = rev (remdups (rev xs @ rev d))"
proof (induction xs arbitrary: d)
  case Nil
  then show ?case by (simp add: distinct_remdups_id)
next
  case (Cons x xs)
  show ?case
  proof (cases "x \<in> set d")
    case True
    then obtain a b where "d = a @ x # b" by (meson split_list)
    have "remdups (rev xs @ [x] @ rev d) = remdups (rev xs @ rev d)"
    proof (induction "rev xs")
      case Nil
      then show ?case using True by simp
    next
      case (Cons y ys)
      show ?case using True by (induction xs rule: rev_induct) auto
    qed
    then show ?thesis using True Cons by simp
  next
    case False
    then show ?thesis using Cons.IH [of "d @ [x]"] Cons.prems by simp
  qed
qed

lemma uniq_keys:
  "dict_keys (foldl (\<lambda>d x. dict_set d x (0::int)) [] xs) = rev (remdups (rev xs))"
proof (induction xs rule: rev_induct)
  case (snoc x xs)
  let ?d = "foldl (\<lambda>d x. dict_set d x (0::int)) [] xs"
  have "set (dict_keys ?d) = set xs" by (simp only: snoc) simp
  then show ?case using snoc
    by (cases "x \<in> set xs") (simp_all del: rev_append add: remdups_rev_snoc keys_dict_set_old keys_dict_set_new)
qed simp

lemma uniq_slow:
  "foldl (\<lambda>result x. if x \<in> set result then result else result @ [x]) [] xs = rev (remdups (rev xs))"
proof (induction xs rule: rev_induct)
  case (snoc x xs)
  then show ?case by (simp del: rev_append add: remdups_rev_snoc)
qed simp

definition reverse_dict :: "('k, 'v) dict \<Rightarrow> ('v, 'k) dict" where
  "reverse_dict d = foldl (\<lambda>result (key, value). dict_set result value key) [] d"

lemma reverse_dict_snoc: "reverse_dict (d @ [(k, v)]) = dict_set (reverse_dict d) v k"
  by (simp add: reverse_dict_def)

lemma reverse_dict_sound: "dict_get (reverse_dict d) v = Some k \<Longrightarrow> (k, v) \<in> set d"
proof (induction d rule: rev_induct)
  case Nil
  then show ?case by (simp add: reverse_dict_def)
next
  case (snoc x d)
  then show ?case by (cases x) (auto simp: reverse_dict_snoc split: if_splits)
qed

lemma reverse_dict_keys: "set (dict_keys (reverse_dict d)) = snd ` set d"
proof (induction d rule: rev_induct)
  case Nil
  then show ?case by (simp add: reverse_dict_def)
next
  case (snoc x d)
  obtain k v where x: "x = (k, v)" by (cases x)
  have "set (dict_keys (reverse_dict (d @ [x]))) = insert v (set (dict_keys (reverse_dict d)))"
    by (simp only: x reverse_dict_snoc set_keys_set)
  then show ?case using snoc by (simp add: x)
qed

section \<open>Divisors and fractions\<close>

text \<open>The loop of Euclid's algorithm: the pair is \<open>(result, remainder)\<close>.\<close>

function gcf_loop :: "int \<Rightarrow> int \<Rightarrow> int" where
  "gcf_loop result remainder =
     (if remainder \<noteq> 0 then gcf_loop remainder (result mod remainder) else \<bar>result\<bar>)"
  by auto

termination by (relation "measure (\<lambda>(_, r). nat \<bar>r\<bar>)") (auto simp: abs_mod_less)

declare gcf_loop.simps [simp del]

definition gcf :: "int \<Rightarrow> int \<Rightarrow> int" where
  "gcf a b = gcf_loop (max a b) (min a b)"

definition py_lcm :: "int \<Rightarrow> int \<Rightarrow> int" where
  "py_lcm a b = (let denom = gcf a b in if denom = 0 then 0 else a * (b div denom))"

definition reduce_fraction :: "int \<times> int \<Rightarrow> (int \<times> int) result" where
  "reduce_fraction fraction =
     (case fraction of (numerator, denominator) \<Rightarrow>
        let common_factor = \<bar>gcf numerator denominator\<bar>
        in if common_factor = 0 then Inl ZeroDivisionError
           else Inr (numerator div common_factor, denominator div common_factor))"

lemma gcf_loop_gcd: "gcf_loop a b = gcd a b"
proof (induction a b rule: gcf_loop.induct)
  case (1 a b)
  then show ?case
    by (subst gcf_loop.simps) (auto simp: gcd.commute gcd_red_int [symmetric])
qed

lemma gcf_gcd: "gcf a b = gcd a b"
  by (simp add: gcf_def gcf_loop_gcd max_def min_def gcd.commute)

section \<open>Bits\<close>

unbundle bit_operations_syntax

text \<open>\<open>2 ** n\<close> is a float for a negative \<open>n\<close>, which \<open>&\<close> rejects.\<close>

definition lsb :: "int \<Rightarrow> int \<Rightarrow> int result" where
  "lsb x n = (if n < 0 then Inl TypeError else Inr (x AND (2 ^ nat n - 1)))"

definition gray_encode :: "int \<Rightarrow> int" where
  "gray_encode i = i XOR drop_bit 1 i"

lemma gray_encode_bit: "bit (gray_encode i) n \<longleftrightarrow> bit i n \<noteq> bit i (Suc n)"
  by (simp add: gray_encode_def bit_simps)

lemma gray_encode_xor: "gray_encode (a XOR b) = gray_encode a XOR gray_encode b"
  by (rule bit_eqI) (auto simp: gray_encode_bit bit_simps)

lemma xor_succ_mask: "0 \<le> (i::int) \<Longrightarrow> \<exists>k. i XOR (i + 1) = mask (Suc k)"
proof (induction "nat i" arbitrary: i rule: less_induct)
  case less
  show ?case
  proof (cases "even i")
    case True
    then obtain j where i: "i = 2 * j" by (elim evenE)
    have "i XOR (i + 1) = mask (Suc 0)"
    proof (rule bit_eqI)
      fix n
      show "bit (i XOR (i + 1)) n = bit (mask (Suc 0) :: int) n"
        unfolding bit_xor_iff i
        by (cases n) (simp_all add: bit_Suc bit_0 mask_Suc_double bit_simps)
    qed
    then show ?thesis by blast
  next
    case False
    then obtain j where i: "i = 2 * j + 1" by (auto elim: oddE)
    with less.prems have j: "0 \<le> j" "nat j < nat i" by auto
    then obtain k where k: "j XOR (j + 1) = mask (Suc k)" using less.hyps by blast
    have "i XOR (i + 1) = 2 * (j XOR (j + 1)) + 1"
    proof (rule bit_eqI)
      fix n
      show "bit (i XOR (i + 1)) n = bit (2 * (j XOR (j + 1)) + 1) n"
        unfolding bit_xor_iff i
        by (cases n) (simp_all add: bit_Suc bit_0 bit_xor_iff add.commute [of 1 j])
    qed
    also have "\<dots> = mask (Suc (Suc k))" by (simp add: k mask_eq_exp_minus_1)
    finally show ?thesis by blast
  qed
qed

lemma gray_mask: "gray_encode (mask (Suc k)) = 2 ^ k"
  by (rule bit_eqI) (auto simp: gray_encode_bit bit_simps)

lemma gray_zero:
  assumes "gray_encode c = 0" "0 \<le> c"
  shows "c = 0"
proof (rule ccontr)
  assume "c \<noteq> 0"
  have eq: "bit c n = bit c (Suc n)" for n
    using arg_cong [OF assms(1), of "\<lambda>x. bit x n"] by (simp add: gray_encode_bit)
  then have "bit c n = bit c 0" for n by (induction n) auto
  then have "c = 0 \<or> c = -1" by (cases "bit c 0") (auto intro!: bit_eqI)
  with assms \<open>c \<noteq> 0\<close> show False by simp
qed

section \<open>Enumerating the binary numbers\<close>

text \<open>
  \<open>binary_range\<close> counts in a list of digits, least significant first.  The inner loop carries: the
  flag list \<open>toggle\<close> says which digit flips, and its last entry reports the overflow that ends the
  outer loop.
\<close>

function br_carry :: "nat \<Rightarrow> nat \<Rightarrow> string \<Rightarrow> int list \<Rightarrow> string \<times> int list" where
  "br_carry bits i v toggle =
     (if i < bits \<and> toggle ! i = 1 then
        (if v ! i = CHR ''0'' then br_carry bits (i + 1) (v[i := CHR ''1'']) (toggle[i + 1 := 0])
         else br_carry bits (i + 1) (v[i := CHR ''0'']) (toggle[i + 1 := 1]))
      else (v, toggle))"
  by auto

termination by (relation "measure (\<lambda>(bits, i, _, _). bits - i)") auto

declare br_carry.simps [simp del]

partial_function (option) br_loop ::
  "nat \<Rightarrow> string \<Rightarrow> int list \<Rightarrow> string list \<Rightarrow> string list option" where
  "br_loop bits v toggle l =
     (if toggle ! bits \<noteq> 1
      then (case br_carry bits 0 v (1 # replicate bits 0) of
              (v', toggle') \<Rightarrow> br_loop bits v' toggle' (l @ [rev v]))
      else Some l)"

declare br_loop.simps [code]

definition binary_range :: "nat \<Rightarrow> string list option" where
  "binary_range bits = br_loop bits (replicate bits CHR ''0'') (1 # replicate bits 0) []"

lemma br_carry_spec:
  assumes "length v = bits" "length t = Suc bits" "i \<le> bits" "t ! i = 1"
    "\<forall>j \<le> bits. i < j \<longrightarrow> t ! j = 0" "bin_digits v"
  shows "(drop i v = replicate (bits - i) CHR ''1''
          \<and> (case br_carry bits i v t of (v', t') \<Rightarrow>
               v' = take i v @ replicate (bits - i) CHR ''0'' \<and> t' ! bits = 1))
       \<or> (\<exists>m r. drop i v = replicate m CHR ''1'' @ CHR ''0'' # r
          \<and> (case br_carry bits i v t of (v', t') \<Rightarrow>
               v' = take i v @ replicate m CHR ''0'' @ CHR ''1'' # r \<and> t' ! bits = 0))"
  using assms
proof (induction bits i v t rule: br_carry.induct)
  case (1 bits i v t)
  show ?case
  proof (cases "i < bits")
    case False
    with "1.prems" show ?thesis by (subst (1) br_carry.simps) simp
  next
    case True
    have split: "drop i v = v ! i # drop (Suc i) v"
      using True "1.prems" by (simp add: Cons_nth_drop_Suc)
    show ?thesis
    proof (cases "v ! i = CHR ''0''")
      case zero: True
      have "br_carry bits i v t = br_carry bits (Suc i) (v[i := CHR ''1'']) (t[Suc i := 0])"
        using True zero "1.prems" by (subst br_carry.simps) simp
      also have "\<dots> = (v[i := CHR ''1''], t[Suc i := 0])"
        using True "1.prems" by (subst br_carry.simps) simp
      finally have "br_carry bits i v t = (take i v @ CHR ''1'' # drop (Suc i) v, t[Suc i := 0])"
        using True "1.prems" by (simp add: upd_conv_take_nth_drop)
      moreover have "t[Suc i := 0] ! bits = 0"
        using True "1.prems" by (cases "bits = Suc i") auto
      ultimately show ?thesis using split zero
        by (intro disjI2 exI [of _ 0] exI [of _ "drop (Suc i) v"]) simp
    next
      case one: False
      have "v ! i \<in> set v" using True "1.prems" by simp
      then have vi: "v ! i = CHR ''1''"
        using one "1.prems"(6) unfolding bin_digits_def list_all_iff by blast
      let ?v = "v[i := CHR ''0'']" and ?t = "t[Suc i := 1]"
      have step: "br_carry bits i v t = br_carry bits (Suc i) ?v ?t"
        using True one "1.prems" by (subst br_carry.simps) simp
      have "bin_digits ?v"
        using "1.prems"(6) set_update_subset_insert [of v i "CHR ''0''"]
        unfolding bin_digits_def list_all_iff by blast
      then have ih: "(drop (Suc i) ?v = replicate (bits - Suc i) CHR ''1''
          \<and> (case br_carry bits (Suc i) ?v ?t of (v', t') \<Rightarrow>
               v' = take (Suc i) ?v @ replicate (bits - Suc i) CHR ''0'' \<and> t' ! bits = 1))
       \<or> (\<exists>m r. drop (Suc i) ?v = replicate m CHR ''1'' @ CHR ''0'' # r
          \<and> (case br_carry bits (Suc i) ?v ?t of (v', t') \<Rightarrow>
               v' = take (Suc i) ?v @ replicate m CHR ''0'' @ CHR ''1'' # r \<and> t' ! bits = 0))"
        using "1.IH"(2) True one "1.prems" by simp
      have tk: "take (Suc i) ?v = take i v @ [CHR ''0'']" and dr: "drop (Suc i) ?v = drop (Suc i) v"
        using True "1.prems" by (simp_all add: take_Suc_conv_app_nth)
      have b: "bits - i = Suc (bits - Suc i)" using True by simp
      from ih show ?thesis
      proof (elim disjE exE conjE)
        assume "drop (Suc i) ?v = replicate (bits - Suc i) CHR ''1''"
          and "case br_carry bits (Suc i) ?v ?t of (v', t') \<Rightarrow>
               v' = take (Suc i) ?v @ replicate (bits - Suc i) CHR ''0'' \<and> t' ! bits = 1"
        then show ?thesis
          unfolding step b tk dr split vi by (intro disjI1) auto
      next
        fix m r
        assume "drop (Suc i) ?v = replicate m CHR ''1'' @ CHR ''0'' # r"
          and "case br_carry bits (Suc i) ?v ?t of (v', t') \<Rightarrow>
               v' = take (Suc i) ?v @ replicate m CHR ''0'' @ CHR ''1'' # r \<and> t' ! bits = 0"
        then show ?thesis
          unfolding step tk dr split vi
          by (intro disjI2 exI [of _ "Suc m"] exI [of _ r]) auto
      qed
    qed
  qed
qed

lemma bin_val_ones: "bin_val (replicate m CHR ''1'') = 2 ^ m - 1"
  by (induction m) (simp_all add: bin_val_Cons)

text \<open>One pass of the inner loop adds one to the number, or reports the overflow of all ones.\<close>

lemma br_carry_step:
  assumes "length v = bits" "bin_digits v"
    and "br_carry bits 0 v (1 # replicate bits 0) = (v', t')"
  shows "if bin_val (rev v) + 1 < 2 ^ bits
         then length v' = bits \<and> bin_digits v' \<and> bin_val (rev v') = bin_val (rev v) + 1 \<and> t' ! bits = 0
         else t' ! bits = 1"
proof -
  have idx: "\<forall>j \<le> bits. 0 < j \<longrightarrow> (1 # replicate bits (0::int)) ! j = 0"
    by (auto simp: nth_Cons split: nat.splits)
  consider "v = replicate bits CHR ''1''" "t' ! bits = 1"
    | m r where "v = replicate m CHR ''1'' @ CHR ''0'' # r"
        "v' = replicate m CHR ''0'' @ CHR ''1'' # r" "t' ! bits = 0"
    using br_carry_spec [of v bits "1 # replicate bits 0" 0] assms idx by auto
  then show ?thesis
  proof cases
    case 1
    then show ?thesis by (simp add: bin_val_ones)
  next
    case 2
    then have "bits = m + Suc (length r)" using assms(1) by simp
    have v: "bin_val (rev v) = bin_val (rev r) * 2 ^ Suc m + (2 ^ m - 1)"
      by (simp add: 2 bin_val_append bin_val_ones bin_val_Cons)
    have v': "bin_val (rev v') = bin_val (rev r) * 2 ^ Suc m + 2 ^ m"
      using bin_val_pad [of m "[]"] by (simp add: 2 bin_val_append bin_val_Cons)
    have "length v' = bits" "bin_digits v'"
      using assms 2 by auto
    moreover from this have "bin_val (rev v') < 2 ^ bits"
      using bin_val_less [of "rev v'"] by simp
    ultimately show ?thesis using v v' 2(3) by simp
  qed
qed

lemma br_loop_counts:
  assumes "length v = bits" "bin_digits v" "bin_val (rev v) = int k" "t ! bits \<noteq> 1"
  shows "\<exists>rest. br_loop bits v t l = Some (l @ rest)
           \<and> list_all2 (\<lambda>s i. length s = bits \<and> bin_digits s \<and> bin_val s = int i) rest [k..<2 ^ bits]"
  using assms
proof (induction "2 ^ bits - k" arbitrary: k v t l)
  case 0
  then have "(2::int) ^ bits \<le> int k" by (simp add: diff_is_0_eq flip: of_nat_power)
  then show ?case using bin_val_less [of "rev v"] "0.prems" by simp
next
  case (Suc n)
  then have k: "k < 2 ^ bits" by simp
  obtain v' t' where c: "br_carry bits 0 v (1 # replicate bits 0) = (v', t')" by fastforce
  have unfold: "br_loop bits v t l = br_loop bits v' t' (l @ [rev v])"
    using Suc.prems(4) by (subst br_loop.simps) (simp add: c)
  have digits: "bin_digits (rev v)"
    using Suc.prems(2) by (simp add: bin_digits_def)
  have upt: "[k..<2 ^ bits] = k # [Suc k..<2 ^ bits]" using k by (rule upt_conv_Cons)
  show ?case
  proof (cases "Suc k < 2 ^ bits")
    case True
    then have "bin_val (rev v) + 1 < 2 ^ bits"
      using Suc.prems(3) by (metis of_nat_Suc of_nat_less_iff of_nat_numeral of_nat_power add.commute)
    with br_carry_step [OF Suc.prems(1,2) c] Suc.prems(3)
    have "length v' = bits" "bin_digits v'" "bin_val (rev v') = int (Suc k)" "t' ! bits \<noteq> 1"
      by simp_all
    moreover have "n = 2 ^ bits - Suc k" using Suc.hyps(2) by simp
    ultimately obtain rest where
      "br_loop bits v' t' (l @ [rev v]) = Some ((l @ [rev v]) @ rest)"
      "list_all2 (\<lambda>s i. length s = bits \<and> bin_digits s \<and> bin_val s = int i) rest [Suc k..<2 ^ bits]"
      using Suc.hyps(1) by blast
    then show ?thesis using Suc.prems digits unfolding unfold upt
      by (intro exI [of _ "rev v # rest"]) simp
  next
    case False
    then have "\<not> bin_val (rev v) + 1 < 2 ^ bits"
      using Suc.prems(3) by (metis of_nat_Suc of_nat_less_iff of_nat_numeral of_nat_power add.commute)
    with br_carry_step [OF Suc.prems(1,2) c] have "t' ! bits = 1" by simp
    then have "br_loop bits v' t' (l @ [rev v]) = Some (l @ [rev v])"
      by (subst br_loop.simps) simp
    moreover have "[Suc k..<2 ^ bits] = []" using False by simp
    ultimately show ?thesis using Suc.prems digits unfolding unfold upt
      by (intro exI [of _ "[rev v]"]) simp
  qed
qed

section \<open>Common prefixes, rotations\<close>

function fcf_prefix :: "string \<Rightarrow> string \<Rightarrow> nat \<Rightarrow> string" where
  "fcf_prefix s1 s2 i =
     (if i < min (length s1) (length s2) then
        (if s1 ! i \<noteq> s2 ! i then [] else s1 ! i # fcf_prefix s1 s2 (i + 1))
      else [])"
  by auto

termination by (relation "measure (\<lambda>(s1, s2, i). min (length s1) (length s2) - i)") auto

function fcf_suffix :: "string \<Rightarrow> string \<Rightarrow> nat \<Rightarrow> string" where
  "fcf_suffix s1 s2 i =
     (if i < min (length s1) (length s2) + 1 then
        (if s1 ! (length s1 - i) \<noteq> s2 ! (length s2 - i) then []
         else s1 ! (length s1 - i) # fcf_suffix s1 s2 (i + 1))
      else [])"
  by auto

termination by (relation "measure (\<lambda>(s1, s2, i). min (length s1) (length s2) + 1 - i)") auto

declare fcf_prefix.simps [simp del] fcf_suffix.simps [simp del]

definition find_common_fixes :: "string \<Rightarrow> string \<Rightarrow> string \<times> string" where
  "find_common_fixes s1 s2 = (fcf_prefix s1 s2 0, rev (fcf_suffix s1 s2 1))"

lemma fcf_prefix_lcp: "fcf_prefix s1 s2 i = longest_common_prefix (drop i s1) (drop i s2)"
proof (induction s1 s2 i rule: fcf_prefix.induct)
  case (1 s1 s2 i)
  show ?case
  proof (cases "i < min (length s1) (length s2)")
    case True
    then have "drop i s1 = s1 ! i # drop (Suc i) s1" "drop i s2 = s2 ! i # drop (Suc i) s2"
      by (simp_all add: Cons_nth_drop_Suc)
    with 1 True show ?thesis by (subst fcf_prefix.simps) simp
  next
    case False
    then have "drop i s1 = [] \<or> drop i s2 = []" by auto
    then have "longest_common_prefix (drop i s1) (drop i s2) = []"
      by (cases "drop i s1"; cases "drop i s2") auto
    then show ?thesis using False by (subst fcf_prefix.simps) simp
  qed
qed

lemma fcf_suffix_prefix: "fcf_suffix s1 s2 (Suc i) = fcf_prefix (rev s1) (rev s2) i"
proof (induction "rev s1" "rev s2" i rule: fcf_prefix.induct)
  case (1 i)
  show ?case
  proof (cases "i < min (length s1) (length s2)")
    case True
    then have "rev s1 ! i = s1 ! (length s1 - Suc i)" "rev s2 ! i = s2 ! (length s2 - Suc i)"
      by (simp_all add: rev_nth)
    with 1 True show ?thesis
      by (subst fcf_prefix.simps, subst fcf_suffix.simps) simp
  next
    case False
    then have "fcf_suffix s1 s2 (Suc i) = []" by (subst fcf_suffix.simps) auto
    moreover have "fcf_prefix (rev s1) (rev s2) i = []"
      using False by (subst fcf_prefix.simps) auto
    ultimately show ?thesis by simp
  qed
qed

text \<open>The head item of the second sequence is read after the length check only.\<close>

definition is_rotated :: "'a list \<Rightarrow> 'a list \<Rightarrow> bool result" where
  "is_rotated seq1 seq2 =
     (if length seq1 \<noteq> length seq2 then Inr False
      else (case seq2 of [] \<Rightarrow> Inl IndexError
            | head_item # _ \<Rightarrow>
                let start_indexes = filter (\<lambda>i. seq1 ! i = head_item) [0..<length seq1];
                    double_seq1 = seq1 @ seq1
                in Inr (list_ex (\<lambda>i. take (length seq1) (drop i double_seq1) = seq2) start_indexes)))"

lemma window_rotate:
  "i \<le> length xs \<Longrightarrow> take (length xs) (drop i (xs @ xs)) = rotate i xs"
  by (cases "i = length xs") (simp_all add: rotate_drop_take)

lemma is_rotated_rotate:
  assumes "seq2 \<noteq> []"
  shows "is_rotated seq1 seq2 = Inr (\<exists>n. seq2 = rotate n seq1)"
proof (cases "length seq1 = length seq2")
  case False
  then show ?thesis by (auto simp: is_rotated_def)
next
  case True
  obtain h t where s2: "seq2 = h # t" using assms by (cases seq2) auto
  have ne: "seq1 \<noteq> []" using True assms by auto
  have "(\<exists>i < length seq1. seq1 ! i = h \<and> take (length seq1) (drop i (seq1 @ seq1)) = seq2)
        \<longleftrightarrow> (\<exists>n. seq2 = rotate n seq1)"
  proof
    assume "\<exists>i < length seq1. seq1 ! i = h \<and> take (length seq1) (drop i (seq1 @ seq1)) = seq2"
    then show "\<exists>n. seq2 = rotate n seq1" by (metis window_rotate less_imp_le)
  next
    assume "\<exists>n. seq2 = rotate n seq1"
    then obtain n where n: "seq2 = rotate n seq1" by blast
    let ?i = "n mod length seq1"
    have i: "?i < length seq1" using ne by simp
    have rot: "seq2 = rotate ?i seq1" using n rotate_conv_mod by metis
    have "h = hd (rotate ?i seq1)" using rot s2 by (metis list.sel(1))
    also have "\<dots> = seq1 ! ?i" using i ne by (simp add: hd_rotate_conv_nth)
    finally have "seq1 ! ?i = h" by simp
    then show "\<exists>i < length seq1. seq1 ! i = h \<and> take (length seq1) (drop i (seq1 @ seq1)) = seq2"
      using i rot window_rotate [of ?i seq1] by auto
  qed
  moreover have "is_rotated seq1 seq2 =
      Inr (list_ex (\<lambda>i. take (length seq1) (drop i (seq1 @ seq1)) = seq2)
             (filter (\<lambda>i. seq1 ! i = h) [0..<length seq1]))"
    using True by (simp add: is_rotated_def Let_def s2 del: take_append drop_append)
  moreover have ex: "list_ex P (filter Q [0..<n]) \<longleftrightarrow> (\<exists>i < n. Q i \<and> P i)" for P Q n
    by (auto simp: list_ex_iff)
  ultimately show ?thesis by (simp only: ex)
qed

section \<open>Random vectors, grids, units and arguments\<close>

text \<open>
  \<open>random_vec\<close> with its random draws as an argument: the list of the numbers below 1024 that
  \<open>int((2**10) * random.random())\<close> yields, one per turn of the loop.  \<open>/\<close> divides integers.
\<close>

definition random_vec_vector :: "int list \<Rightarrow> string result" where
  "random_vec_vector draws = rbind (rmap (\<lambda>i. int2bin i 10) draws) (\<lambda>parts. Inr (concat parts))"

definition random_vec :: "int list \<Rightarrow> nat \<Rightarrow> int option \<Rightarrow> string result" where
  "random_vec draws bits max_value =
     rbind (random_vec_vector (take (bits div 10 + 1) draws)) (\<lambda>vector.
       case max_value of
         None \<Rightarrow> Inr (take bits vector)
       | Some m \<Rightarrow>
           if m \<noteq> 0 \<and> m < 2 ^ bits - 1 then
             rbind (bin2int vector) (\<lambda>v.
               if 2 ^ bits - 1 = (0::int) then Inl ZeroDivisionError
               else rbind (int2bin ((v div (2 ^ bits - 1)) * m) (int bits))
                          (\<lambda>w. Inr (take bits w)))
           else Inr (take bits vector))"

text \<open>\<open>round_grid\<close> on integers, with the exceptions of a zero grid and of an unset \<open>add_one\<close>.\<close>

definition round_grid :: "int \<Rightarrow> int \<Rightarrow> int \<Rightarrow> int result" where
  "round_grid v grid mode =
     (if grid = 0 then Inl ZeroDivisionError
      else
        let off_grid = v mod grid;
            add_one = (if mode = 0 then Inr (if 2 * off_grid \<ge> grid then 1 else 0)
                       else if mode = 1 \<and> off_grid \<noteq> 0 then Inr 1
                       else if mode = - 1 \<and> off_grid \<noteq> 0 then Inr 0
                       else Inl UnboundLocalError)
        in rbind add_one (\<lambda>a. Inr ((v div grid + a) * grid)))"

text \<open>
  \<open>nice_units\<close> of an integer in mode \<open>bin\<close>, without \<open>sigfigs\<close>: the table and the search in it, which the decimal
  mode in \<open>Nice_Units\<close> shares.
\<close>

definition bin_prefixes :: "(int \<times> string \<times> string) list" where
  "bin_prefixes =
     [(1, '''', ''''), (2 ^ 10, ''K'', ''kilo''), (2 ^ 20, ''M'', ''mega''), (2 ^ 30, ''G'', ''mega''),
      (2 ^ 40, ''T'', ''tera''), (2 ^ 50, ''P'', ''peta''), (2 ^ 60, ''E'', ''exa'')]"

fun nice_mult_search :: "'a::linorder list \<Rightarrow> 'a \<Rightarrow> nat \<Rightarrow> nat option" where
  "nice_mult_search (lower # upper # ms) v i =
     (if lower \<le> v \<and> v < upper then Some i else nice_mult_search (upper # ms) v (i + 1))"
| "nice_mult_search _ v i = None"

text \<open>
  \<open>mult\<close> is never set in the loop, so that the two tests after it always run; they leave the index
  found by the loop alone.
\<close>

definition nice_mult_index :: "'a::linorder list \<Rightarrow> 'a \<Rightarrow> nat option" where
  "nice_mult_index ms v =
     (if v < hd ms then Some 0
      else if v \<ge> last ms then Some (length ms - 1)
      else nice_mult_search ms v 0)"

definition nice_units_bin :: "int \<Rightarrow> nat \<Rightarrow> string \<Rightarrow> string \<Rightarrow> bool \<Rightarrow> string result" where
  "nice_units_bin v dp unit space use_full_name =
     (let ms = map fst bin_prefixes
      in case nice_mult_index ms v of
           None \<Rightarrow> Inl UnboundLocalError
         | Some i \<Rightarrow>
             let i' = (if i < length ms - 1 \<and> v div (ms ! i) = (ms ! (i + 1)) div (ms ! i)
                       then i + 1 else i);
                 label = (if use_full_name then snd (snd (bin_prefixes ! i'))
                          else fst (snd (bin_prefixes ! i')))
             in Inr (int_str (v div (ms ! i')) @ (if dp = 0 then '''' else ''.'' @ replicate dp CHR ''0'')
                     @ space @ label @ unit))"

text \<open>\<open>get_args\<close>: an option keeps the text after its single \<open>=\<close>, or nothing.\<close>

datatype arg_value = No_Value | Text string | Arg_List "string list"

definition arg_entry :: "string \<Rightarrow> string \<times> arg_value" where
  "arg_entry a =
     (case split_on CHR ''='' (dropWhile (\<lambda>c. c = CHR ''-'') a) of
        [k, v] \<Rightarrow> (k, Text v)
      | parts \<Rightarrow> (hd parts, No_Value))"

fun get_args_loop :: "string list \<Rightarrow> (string, arg_value) dict \<Rightarrow> string list
    \<Rightarrow> (string, arg_value) dict \<times> string list" where
  "get_args_loop [] d args = (d, args)"
| "get_args_loop (a # as) d args =
     (if startswith a ''-'' then
        get_args_loop as (dict_set d (fst (arg_entry a)) (snd (arg_entry a))) args
      else get_args_loop as d (args @ [a]))"

definition get_args :: "string list \<Rightarrow> (string, arg_value) dict" where
  "get_args argv =
     (case get_args_loop argv [] [] of (d, args) \<Rightarrow> dict_set d ''args'' (Arg_List args))"

lemma get_args_loop_positional:
  "snd (get_args_loop as d args) = args @ filter (\<lambda>a. \<not> startswith a ''-'') as"
  by (induction as d args rule: get_args_loop.induct) auto

text \<open>The last option of a name wins, whatever positional arguments stand between.\<close>

lemma get_args_loop_options:
  "fst (get_args_loop as d args) =
   foldl (\<lambda>d a. dict_set d (fst (arg_entry a)) (snd (arg_entry a))) d (filter (\<lambda>a. startswith a ''-'') as)"
  by (induction as d args rule: get_args_loop.induct) auto

lemma foldl_set_get:
  "dict_get (foldl (\<lambda>d a. dict_set d (f a) (g a)) d as) k =
   (case find (\<lambda>a. f a = k) (rev as) of None \<Rightarrow> dict_get d k | Some a \<Rightarrow> Some (g a))"
  by (induction as rule: rev_induct) auto

lemma random_vec_vector_length:
  assumes "list_all (\<lambda>i. 0 \<le> i \<and> i < 1024) draws"
  shows "\<exists>v. random_vec_vector draws = Inr v \<and> length v = 10 * length draws \<and> bin_digits v"
  using assms
proof (induction draws)
  case Nil
  then show ?case by (simp add: random_vec_vector_def)
next
  case (Cons i draws)
  obtain s where "int2bin i 10 = Inr s" "length s = 10" "bin_digits s"
    using int2bin_fits [of i 10] Cons.prems by auto
  with Cons show ?case
    by (auto simp: random_vec_vector_def rbind_eq_Inr)
qed

text \<open>\<open>nice_units\<close> calls a gigabyte a megabyte when asked for full names.\<close>

lemma nice_units_giga_prints_mega: "nice_units_bin (3 * 2 ^ 30) 0 ''byte'' '' '' True = Inr ''3 megabyte''"
  by code_simp

text \<open>A multiple of the grid cannot be rounded up or down: \<open>add_one\<close> stays unset.\<close>

lemma round_grid_multiple_unbound: "round_grid 10 5 1 = Inl UnboundLocalError"
  by code_simp

text \<open>With a maximum, the integer division makes \<open>random_vec\<close> fail on an unremarkable draw.\<close>

lemma random_vec_too_large: "random_vec [1023] 8 (Some 100) = Inl ValueError"
  by code_simp

lemma random_vec_collapses: "random_vec [200] 8 (Some 100) = Inr ''00000000''"
  by code_simp

section \<open>Properties\<close>

text \<open>For a positive width the binary numeral of a number that fits is exactly as wide as asked and
  reads back as the number, a larger number is rejected with \<open>ValueError\<close>, and a numeral that
  is read and printed at its own width is unchanged.\<close>

theorem int2bin_bin2int_round_trip:
  assumes "0 < n" "0 \<le> i"
  shows "(if i < 2 ^ nat n
          then \<exists>s. int2bin i n = Inr s \<and> length s = nat n \<and> bin2int s = Inr i
          else int2bin i n = Inl ValueError)
       \<and> (length s = nat n \<and> bin_digits s \<longrightarrow> rbind (bin2int s) (\<lambda>v. int2bin v n) = Inr s)"
proof (intro conjI impI)
  show "if i < 2 ^ nat n
        then \<exists>s. int2bin i n = Inr s \<and> length s = nat n \<and> bin2int s = Inr i
        else int2bin i n = Inl ValueError"
  proof (cases "i < 2 ^ nat n")
    case True
    obtain t where t: "int2bin i n = Inr t" "length t = nat n" "bin_digits t" "bin_val t = i"
      using int2bin_fits [OF assms(2,1) True] by blast
    moreover have "t \<noteq> []" using t(2) assms(1) by auto
    ultimately show ?thesis using True bin2int_digits by auto
  next
    case False
    then show ?thesis using int2bin_too_large [OF assms(1)] by simp
  qed
next
  assume s: "length s = nat n \<and> bin_digits s"
  then have "s \<noteq> []" using assms(1) by auto
  have "bin_val s < 2 ^ nat n" using s bin_val_less [of s] by simp
  then obtain t where "int2bin (bin_val s) n = Inr t" "length t = nat n" "bin_digits t" "bin_val t = bin_val s"
    using int2bin_fits [OF bin_val_nonneg assms(1)] by blast
  then show "rbind (bin2int s) (\<lambda>v. int2bin v n) = Inr s"
    using s bin2int_digits [OF _ \<open>s \<noteq> []\<close>] bin_val_inject [of t s] by simp
qed

lemma int2bin_bin2int_round_trip_witness:
  "(\<exists>s. int2bin 123 8 = Inr s \<and> length s = 8 \<and> bin2int s = Inr 123)
   \<and> rbind (bin2int ''00101101'') (\<lambda>v. int2bin v 8) = Inr ''00101101''"
  using int2bin_bin2int_round_trip [of 8 123 "''00101101''"] by simp

text \<open>The counter with the explicit carry loop returns, for every positive width, the binary numerals
  of \<open>0, 1, ..., 2 ** bits - 1\<close> in this order, as \<open>int2bin\<close> prints them.\<close>

theorem binary_range_counts:
  assumes "0 < bits"
  shows "\<exists>l. binary_range bits = Some l
             \<and> map Inr l = map (\<lambda>k. int2bin (int k) (int bits)) [0..<2 ^ bits]"
proof -
  have z: "bin_val (rev (replicate bits CHR ''0'')) = int 0"
    using bin_val_pad [of bits "[]"] by simp
  have nz: "(1 # replicate bits (0::int)) ! bits \<noteq> 1" using assms by (simp add: nth_Cons')
  obtain l where l: "binary_range bits = Some l"
    and num: "list_all2 (\<lambda>s i. length s = bits \<and> bin_digits s \<and> bin_val s = int i) l [0..<2 ^ bits]"
    using br_loop_counts [OF _ _ z nz, of "[]"] by (auto simp: binary_range_def)
  have one: "Inr s = int2bin (int i) (int bits)"
    if "length s = bits" "bin_digits s" "bin_val s = int i" for s i
  proof -
    have "int i < 2 ^ bits" using that bin_val_less [of s] by simp
    then obtain t where "int2bin (int i) (int bits) = Inr t" "length t = bits" "bin_digits t" "bin_val t = int i"
      using int2bin_fits [of "int i" "int bits"] assms by auto
    then show ?thesis using that bin_val_inject [of t s] by simp
  qed
  from num have "list_all2 (\<lambda>s i. Inr s = int2bin (int i) (int bits)) l [0..<2 ^ bits]"
    by (rule list_all2_mono) (metis one)
  then have "map Inr l = map (\<lambda>k. int2bin (int k) (int bits)) [0..<2 ^ bits]"
    by (simp only: list.rel_map list.rel_eq [symmetric])
  with l show ?thesis by blast
qed

lemma binary_range_counts_witness:
  "\<exists>l. binary_range 2 = Some l
       \<and> map Inr l = [int2bin 0 2, int2bin 1 2, int2bin 2 2, int2bin 3 2]"
  using binary_range_counts [of 2] by (simp add: upt_rec)

text \<open>\<open>is_rotated\<close> decides rotation: it fails with \<open>IndexError\<close> on two empty sequences only, and
  otherwise answers whether the second sequence is a rotation of the first.\<close>

theorem is_rotated_decides:
  "is_rotated seq1 seq2 =
   (if seq1 = [] \<and> seq2 = [] then Inl IndexError else Inr (\<exists>n. seq2 = rotate n seq1))"
proof (cases "seq2 = []")
  case True
  moreover have "[] \<noteq> rotate n seq1" if "seq1 \<noteq> []" for n
    using that by (metis rotate_is_Nil_conv)
  ultimately show ?thesis by (auto simp: is_rotated_def)
next
  case False
  then show ?thesis by (simp add: is_rotated_rotate)
qed

text \<open>The Gray code of non-negative integers: the codes of successive numbers differ in exactly one
  bit, and different numbers have different codes.\<close>

theorem gray_encode_adjacent:
  assumes "0 \<le> i"
  shows "(\<exists>k. gray_encode i XOR gray_encode (i + 1) = 2 ^ k)
         \<and> (0 \<le> j \<and> gray_encode i = gray_encode j \<longrightarrow> i = j)"
proof (intro conjI impI)
  obtain k where k: "i XOR (i + 1) = mask (Suc k)" using xor_succ_mask [OF assms] by blast
  have "gray_encode i XOR gray_encode (i + 1) = 2 ^ k"
    by (simp only: gray_encode_xor [symmetric] k gray_mask)
  then show "\<exists>k. gray_encode i XOR gray_encode (i + 1) = 2 ^ k" by blast
next
  assume j: "0 \<le> j \<and> gray_encode i = gray_encode j"
  then have "gray_encode (i XOR j) = 0" by (simp only: gray_encode_xor xor_self_eq)
  moreover have "0 \<le> i XOR j" using assms j by simp
  ultimately have x: "i XOR j = 0" by (rule gray_zero)
  show "i = j"
  proof (rule bit_eqI)
    fix n
    show "bit i n = bit j n" using arg_cong [OF x, of "\<lambda>c. bit c n"] by (simp add: bit_xor_iff)
  qed
qed

lemma gray_encode_adjacent_witness:
  "\<exists>k. gray_encode 5 XOR gray_encode 6 = (2::int) ^ k"
  using gray_encode_adjacent [of 5 0] by simp

text \<open>\<open>permutations\<close> returns every rearrangement of the list and nothing else, \<open>n!\<close> lists in all.\<close>

theorem permutations_exact:
  "set (permutations xs) = {p. mset p = mset xs} \<and> length (permutations xs) = fact (length xs)"
  using permutations_mset permutations_complete length_permutations by blast

text \<open>\<open>gcf\<close> is the greatest common divisor of two integers of either sign, \<open>lcm\<close> is up to sign the
  least common multiple, and \<open>reduce_fraction\<close> returns an equal fraction in lowest terms, or
  divides by zero for the fraction 0/0 only.\<close>

theorem gcf_lcm_fraction:
  "gcf a b = gcd a b \<and> \<bar>py_lcm a b\<bar> = lcm a b
   \<and> (case reduce_fraction (a, b) of
        Inl e \<Rightarrow> e = ZeroDivisionError \<and> a = 0 \<and> b = 0
      | Inr (n, d) \<Rightarrow> coprime n d \<and> n * b = d * a \<and> a = n * gcd a b \<and> b = d * gcd a b)"
proof (intro conjI)
  show "gcf a b = gcd a b" by (rule gcf_gcd)
  show "\<bar>py_lcm a b\<bar> = lcm a b"
  proof (cases "gcd a b = 0")
    case False
    obtain c where c: "b = gcd a b * c" by (metis dvdE gcd_dvd2)
    have "gcd a b * \<bar>a * c\<bar> = \<bar>a\<bar> * \<bar>gcd a b * c\<bar>" by (simp add: abs_mult)
    also have "\<dots> = gcd a b * lcm a b" using prod_gcd_lcm_int [of a b] c by simp
    finally have "\<bar>a * c\<bar> = lcm a b"
      using False by (metis mult_left_cancel)
    moreover have "b div gcd a b = c" using c False by (metis nonzero_mult_div_cancel_left)
    ultimately show ?thesis using False by (simp add: py_lcm_def gcf_gcd Let_def)
  qed (simp add: py_lcm_def gcf_gcd)
  show "case reduce_fraction (a, b) of
          Inl e \<Rightarrow> e = ZeroDivisionError \<and> a = 0 \<and> b = 0
        | Inr (n, d) \<Rightarrow> coprime n d \<and> n * b = d * a \<and> a = n * gcd a b \<and> b = d * gcd a b"
  proof (cases "a = 0 \<and> b = 0")
    case False
    then have "coprime (a div gcd a b) (b div gcd a b)" by (intro div_gcd_coprime) auto
    moreover have "a div gcd a b * b = b div gcd a b * a"
      by (metis dvd_div_mult dvd_div_mult_self gcd_dvd1 gcd_dvd2 mult.commute)
    ultimately show ?thesis using False by (simp add: reduce_fraction_def gcf_gcd Let_def)
  qed (simp add: reduce_fraction_def gcf_gcd)
qed

text \<open>Whatever the enumeration order of dictionaries and whether or not the items can be hashed,
  \<open>uniquify\<close> keeps exactly one copy of every item; when the order is to be preserved or the slow
  path runs, the first occurrences stay in their order.\<close>

theorem uniquify_once:
  assumes "dict_enum enum"
  shows "distinct (uniquify hashable enum xs po) \<and> set (uniquify hashable enum xs po) = set xs
    \<and> (po \<or> \<not> list_all hashable xs \<longrightarrow> uniquify hashable enum xs po = rev (remdups (rev xs)))"
proof -
  have fast: "uniq_fast [] xs = rev (remdups (rev xs))"
    using uniq_fast_spec [of "[]" xs] by simp
  consider "uniquify hashable enum xs po = rev (remdups (rev xs))"
    | "list_all hashable xs" "\<not> po" "uniquify hashable enum xs po = enum (rev (remdups (rev xs)))"
    unfolding uniquify_def fast uniq_keys uniq_slow by metis
  then show ?thesis
    using assms by cases (auto simp: dict_enum_set dict_enum_distinct)
qed

lemma uniquify_once_witness:
  "uniquify (\<lambda>x. x \<noteq> 9) rev [3, 1, 3, 9, 1, 2] False = [3, 1, 9, 2::int]
   \<and> distinct (uniquify (\<lambda>x. x \<noteq> 9) rev [3, 1, 3, 9, 1, 2::int] False)"
  using uniquify_once [OF dict_enum_rev, of "\<lambda>x. x \<noteq> 9" "[3, 1, 3, 9, 1, 2::int]" False]
  by (simp add: uniquify_def)

text \<open>\<open>find_common_fixes\<close> returns the longest common prefix and the longest common suffix.\<close>

theorem find_common_fixes_longest:
  "find_common_fixes s1 s2 = (longest_common_prefix s1 s2, rev (longest_common_prefix (rev s1) (rev s2)))"
  using fcf_suffix_prefix [of s1 s2 0] by (simp add: find_common_fixes_def fcf_prefix_lcp)

text \<open>\<open>get_args\<close> keeps the positional arguments in order under \<open>args\<close>, and gives any other name the
  value of the last option of that name.\<close>

theorem get_args_lookup:
  "dict_get (get_args argv) k =
   (if k = ''args'' then Some (Arg_List (filter (\<lambda>a. \<not> startswith a ''-'') argv))
    else map_option (\<lambda>a. snd (arg_entry a))
           (find (\<lambda>a. fst (arg_entry a) = k) (rev (filter (\<lambda>a. startswith a ''-'') argv))))"
proof -
  obtain d args where l: "get_args_loop argv [] [] = (d, args)" by fastforce
  have d: "d = foldl (\<lambda>d a. dict_set d (fst (arg_entry a)) (snd (arg_entry a))) []
                 (filter (\<lambda>a. startswith a ''-'') argv)"
    using get_args_loop_options [of argv "[]" "[]"] l by simp
  have args: "args = filter (\<lambda>a. \<not> startswith a ''-'') argv"
    using get_args_loop_positional [of argv "[]" "[]"] l by simp
  show ?thesis by (simp add: get_args_def l foldl_set_get d args option.case_eq_if map_option_case)
qed

text \<open>On a positive grid \<open>round_grid\<close> returns a multiple within half a grid step of the value in mode
  0, and the next multiple above or below a value off the grid in modes 1 and -1; a value on the
  grid leaves \<open>add_one\<close> unset in these modes.\<close>

theorem round_grid_modes:
  assumes "0 < grid"
  shows "(\<exists>k. round_grid v grid 0 = Inr (k * grid) \<and> 2 * \<bar>v - k * grid\<bar> \<le> grid)
    \<and> (if grid dvd v then round_grid v grid 1 = Inl UnboundLocalError
                          \<and> round_grid v grid (- 1) = Inl UnboundLocalError
       else \<exists>k. k * grid < v \<and> v < (k + 1) * grid
                \<and> round_grid v grid (- 1) = Inr (k * grid) \<and> round_grid v grid 1 = Inr ((k + 1) * grid))"
proof -
  have m: "v = (v div grid) * grid + v mod grid" "0 \<le> v mod grid" "v mod grid < grid"
    using assms by simp_all
  have near: "2 * \<bar>v - v div grid * grid\<bar> \<le> grid" if "\<not> grid \<le> 2 * (v mod grid)"
    using that m by (simp add: minus_div_mult_eq_mod)
  have up: "2 * \<bar>v - (v div grid + 1) * grid\<bar> \<le> grid" if "grid \<le> 2 * (v mod grid)"
  proof -
    have "v - (v div grid + 1) * grid = v mod grid - grid" using m(1) by (simp add: algebra_simps)
    then show ?thesis using that m(2,3) by simp
  qed
  have "\<exists>k. round_grid v grid 0 = Inr (k * grid) \<and> 2 * \<bar>v - k * grid\<bar> \<le> grid"
  proof (cases "grid \<le> 2 * (v mod grid)")
    case True
    then show ?thesis using up assms
      by (intro exI [of _ "v div grid + 1"]) (simp add: round_grid_def)
  next
    case False
    then show ?thesis using near assms
      by (intro exI [of _ "v div grid"]) (simp add: round_grid_def)
  qed
  moreover have "v div grid * grid < v \<and> v < (v div grid + 1) * grid" if "\<not> grid dvd v"
  proof -
    have "0 < v mod grid" using that m(2) by (simp add: dvd_eq_mod_eq_0 order_less_le)
    moreover have "(v div grid + 1) * grid = v div grid * grid + grid" by (simp add: algebra_simps)
    ultimately show ?thesis using m by linarith
  qed
  ultimately show ?thesis
    using assms by (auto simp: round_grid_def dvd_eq_mod_eq_0 intro!: exI [of _ "v div grid"])
qed

lemma round_grid_modes_witness: "\<exists>k. round_grid 7 5 0 = Inr (k * 5) \<and> 2 * \<bar>7 - k * 5\<bar> \<le> (5::int)"
  using round_grid_modes [of 5 7] by simp

end
