(* ===== verification/Topsort.thy ===== *)
theory Topsort
  imports Rad_Util
begin

text \<open>
  \<open>bindings/python/topsort.py\<close>: topological sorting of a list of (parent, child) pairs, the
  generator of dependency levels, and the search for cycles.  The two dictionaries of the sorts are
  the fields of one record.  Python enumerates a dictionary in an arbitrary order, which is the
  parameter \<open>enum\<close> of the operations that iterate over one.
\<close>

section \<open>Building the dictionaries\<close>

record 'a sort_state =
  num_parents :: "('a, int) dict"
  children :: "('a, 'a list) dict"

text \<open>How the sorts fail: with the dictionaries as they stand, or on a missing key.\<close>

datatype 'a sort_error =
    CycleError "'a list" "('a, int) dict" "('a, 'a list) dict"
  | MissingKey

definition ensure_key :: "'a \<Rightarrow> ('a, int) dict \<Rightarrow> ('a, int) dict" where
  "ensure_key x np = (if x \<in> set (dict_keys np) then np else dict_set np x 0)"

definition add_pair :: "'a \<times> 'a \<Rightarrow> 'a sort_state \<Rightarrow> 'a sort_state" where
  "add_pair pair st =
     (case pair of (parent, child) \<Rightarrow>
        let np = ensure_key child (ensure_key parent (num_parents st))
        in st \<lparr> num_parents := dict_set np child (the (dict_get np child) + 1),
                children := dict_set (children st) parent
                  ((case dict_get (children st) parent of None \<Rightarrow> [] | Some l \<Rightarrow> l) @ [child]) \<rparr>)"

definition build_state :: "('a \<times> 'a) list \<Rightarrow> 'a sort_state" where
  "build_state pairlist = foldl (\<lambda>st pr. add_pair pr st) \<lparr> num_parents = [], children = [] \<rparr> pairlist"

text \<open>The elements of the pairs, and the number of pairs from a parent outside a set to a child.\<close>

definition elems :: "('a \<times> 'a) list \<Rightarrow> 'a set" where
  "elems pairs = fst ` set pairs \<union> snd ` set pairs"

definition in_edges :: "('a \<times> 'a) list \<Rightarrow> ('a \<Rightarrow> bool) \<Rightarrow> 'a \<Rightarrow> nat" where
  "in_edges pairs P x = length (filter (\<lambda>(p, c). c = x \<and> P p) pairs)"

definition succs :: "('a \<times> 'a) list \<Rightarrow> 'a \<Rightarrow> 'a list" where
  "succs pairs p = map snd (filter (\<lambda>(q, c). q = p) pairs)"

definition child_list :: "('a, 'a list) dict \<Rightarrow> 'a \<Rightarrow> 'a list" where
  "child_list ch p = (case dict_get ch p of None \<Rightarrow> [] | Some l \<Rightarrow> l)"

lemma elems_snoc [simp]: "elems (pairs @ [(p, c)]) = insert p (insert c (elems pairs))"
  by (auto simp: elems_def)

lemma in_edges_snoc [simp]:
  "in_edges (pairs @ [(p, c)]) P x = in_edges pairs P x + (if c = x \<and> P p then 1 else 0)"
  by (simp add: in_edges_def)

lemma succs_snoc [simp]: "succs (pairs @ [(p, c)]) q = succs pairs q @ (if q = p then [c] else [])"
  by (auto simp: succs_def)

lemma in_edges_outside: "x \<notin> elems pairs \<Longrightarrow> in_edges pairs P x = 0"
  by (force simp: in_edges_def elems_def filter_empty_conv)

lemma succs_outside: "p \<notin> elems pairs \<Longrightarrow> succs pairs p = []"
  by (force simp: succs_def elems_def filter_empty_conv)

lemma in_succs: "c \<in> set (succs pairs p) \<longleftrightarrow> (p, c) \<in> set pairs"
  by (force simp: succs_def)

lemma in_edges_zero: "in_edges pairs P x = 0 \<longleftrightarrow> (\<forall>p. (p, x) \<in> set pairs \<longrightarrow> \<not> P p)"
  by (auto simp: in_edges_def filter_empty_conv)

lemma count_succs: "count (mset (succs pairs p)) x = in_edges pairs (\<lambda>q. q = p) x"
  by (induction pairs) (auto simp: succs_def in_edges_def)

lemma in_edges_remove:
  assumes "P p"
  shows "in_edges pairs P x = in_edges pairs (\<lambda>q. P q \<and> q \<noteq> p) x + count (mset (succs pairs p)) x"
  using assms by (induction pairs) (auto simp: succs_def in_edges_def)

text \<open>
  What the dictionaries hold when the elements outside \<open>R\<close> are done: the remaining elements with the
  number of their remaining parents, and the children of the remaining parents.
\<close>

definition sort_inv :: "('a \<times> 'a) list \<Rightarrow> 'a set \<Rightarrow> 'a sort_state \<Rightarrow> bool" where
  "sort_inv pairs R st \<longleftrightarrow>
     R \<subseteq> elems pairs \<and> dict_ok (num_parents st) \<and>
     (\<forall>x. dict_get (num_parents st) x =
          (if x \<in> R then Some (int (in_edges pairs (\<lambda>p. p \<in> R) x)) else None)) \<and>
     (\<forall>p. dict_get (children st) p =
          (if p \<in> R \<and> succs pairs p \<noteq> [] then Some (succs pairs p) else None))"

lemma ensure_key_get:
  "dict_get (ensure_key x np) y = (if y = x \<and> dict_get np x = None then Some 0 else dict_get np y)"
  by (auto simp: ensure_key_def dict_get_None_iff)

lemma ensure_key_ok [simp]: "dict_ok np \<Longrightarrow> dict_ok (ensure_key x np)"
  by (simp add: ensure_key_def)

lemma build_state_inv: "sort_inv pairs (elems pairs) (build_state pairs)"
proof (induction pairs rule: rev_induct)
  case Nil
  then show ?case by (simp add: sort_inv_def build_state_def elems_def succs_def)
next
  case (snoc pr pairs)
  obtain p c where pr: "pr = (p, c)" by (cases pr)
  let ?st = "build_state pairs" and ?q = "pairs @ [(p, c)]"
  have step: "build_state ?q = add_pair (p, c) ?st" by (simp add: build_state_def)
  note inv = snoc.IH [unfolded sort_inv_def]
  have all: "in_edges ps (\<lambda>p. p \<in> elems ps) x = in_edges ps (\<lambda>_. True) x" for ps :: "('a \<times> 'a) list" and x
    unfolding in_edges_def
    by (intro arg_cong [where f = length] filter_cong refl) (force simp: elems_def)
  have "dict_get (num_parents (add_pair (p, c) ?st)) x =
        (if x \<in> elems ?q then Some (int (in_edges ?q (\<lambda>_. True) x)) else None)" for x
    using inv in_edges_outside [of x pairs "\<lambda>_. True"]
    by (auto simp: add_pair_def Let_def ensure_key_get all in_edges_outside)
  moreover have "dict_get (children (add_pair (p, c) ?st)) x =
        (if x \<in> elems ?q \<and> succs ?q x \<noteq> [] then Some (succs ?q x) else None)" for x
    using inv succs_outside [of x pairs] by (auto simp: add_pair_def Let_def split: option.splits)
  moreover have "dict_ok (num_parents (add_pair (p, c) ?st))"
    using inv by (simp add: add_pair_def Let_def)
  ultimately show ?case unfolding pr sort_inv_def step all by blast
qed

section \<open>The topological sort\<close>

text \<open>Knocking down the parent counts of the children of a done parent.\<close>

fun knock :: "'a list \<Rightarrow> ('a, int) dict \<Rightarrow> 'a list \<Rightarrow> 'a sort_error + ('a, int) dict \<times> 'a list" where
  "knock [] np answer = Inr (np, answer)"
| "knock (child # cs) np answer =
     (case dict_get np child of
        None \<Rightarrow> Inl MissingKey
      | Some n \<Rightarrow>
          knock cs (dict_set np child (n - 1)) (if n - 1 = 0 then answer @ [child] else answer))"

lemma knock_keys: "knock cs np a = Inr (np', a') \<Longrightarrow> dict_keys np' = dict_keys np"
  by (induction cs np a rule: knock.induct)
    (auto split: option.splits dest: dict_get_Some_key simp: keys_dict_set_old)

lemma knock_length: "knock cs np a = Inr (np', a') \<Longrightarrow> length np' = length np"
  using knock_keys map_eq_imp_length_eq by blast

lemma length_dict_del_entry: "(k, v) \<in> set d \<Longrightarrow> length (dict_del d k) < length d"
  by (rule length_dict_del_less) force

text \<open>
  The loop over \<open>answer\<close>, which grows while it runs: the answer is \<open>finished @ todo\<close>.
\<close>

function sort_loop :: "'a sort_state \<Rightarrow> 'a list \<Rightarrow> 'a list \<Rightarrow> 'a sort_error + 'a list \<times> 'a sort_state" where
  "sort_loop st finished [] = Inr (finished, st)"
| "sort_loop st finished (parent # todo) =
     (if parent \<notin> set (dict_keys (num_parents st)) then Inl MissingKey
      else
        (case knock (child_list (children st) parent) (dict_del (num_parents st) parent) todo of
           Inl e \<Rightarrow> Inl e
         | Inr (np, todo') \<Rightarrow>
             sort_loop (st \<lparr> num_parents := np, children := dict_del (children st) parent \<rparr>)
               (finished @ [parent]) todo'))"
  by pat_completeness auto

termination
  by (relation "measure (\<lambda>(st, _, _). length (num_parents st))")
    (auto simp: knock_length length_dict_del_entry)

definition topsort :: "('a list \<Rightarrow> 'a list) \<Rightarrow> ('a \<times> 'a) list \<Rightarrow> 'a sort_error + 'a list" where
  "topsort enum pairlist =
     (let st = build_state pairlist;
          answer = filter (\<lambda>x. dict_get (num_parents st) x = Some 0) (enum (dict_keys (num_parents st)))
      in case sort_loop st [] answer of
           Inl e \<Rightarrow> Inl e
         | Inr (answer, st) \<Rightarrow>
             if num_parents st \<noteq> [] then Inl (CycleError answer (num_parents st) (children st))
             else Inr answer)"

lemma knock_spec:
  assumes "\<forall>x \<in> set cs. \<exists>n. dict_get np x = Some n \<and> int (count (mset cs) x) \<le> n"
  shows "\<exists>np' new. knock cs np a = Inr (np', a @ new)
    \<and> (\<forall>x. dict_get np' x = map_option (\<lambda>n. n - int (count (mset cs) x)) (dict_get np x))
    \<and> distinct new \<and> set new = {x \<in> set cs. dict_get np x = Some (int (count (mset cs) x))}"
  using assms
proof (induction cs arbitrary: np a)
  case Nil
  then show ?case by (simp add: option.map_ident)
next
  case (Cons c cs)
  obtain n where n: "dict_get np c = Some n" "int (count (mset (c # cs)) c) \<le> n"
    using Cons.prems by auto
  let ?np = "dict_set np c (n - 1)" and ?a = "if n - 1 = 0 then a @ [c] else a"
  have "\<forall>x \<in> set cs. \<exists>m. dict_get ?np x = Some m \<and> int (count (mset cs) x) \<le> m"
    using Cons.prems n by (auto split: if_splits)
  then obtain np' new where ih: "knock cs ?np ?a = Inr (np', ?a @ new)"
    "\<And>x. dict_get np' x = map_option (\<lambda>n. n - int (count (mset cs) x)) (dict_get ?np x)"
    "distinct new" "set new = {x \<in> set cs. dict_get ?np x = Some (int (count (mset cs) x))}"
    using Cons.IH by blast
  have none: "n - 1 = 0 \<Longrightarrow> c \<notin> set cs"
  proof
    assume "n - 1 = 0" "c \<in> set cs"
    then have "0 < count (mset cs) c" by simp
    then show False using n \<open>n - 1 = 0\<close> by simp
  qed
  let ?new = "(if n - 1 = 0 then [c] else []) @ new"
  have "knock (c # cs) np a = Inr (np', a @ ?new)" using ih(1) n(1) by simp
  moreover have "dict_get np' x = map_option (\<lambda>n. n - int (count (mset (c # cs)) x)) (dict_get np x)" for x
    using ih(2) n(1) by simp
  moreover have "distinct ?new" using ih(3,4) none by auto
  moreover have "set ?new = {x \<in> set (c # cs). dict_get np x = Some (int (count (mset (c # cs)) x))}"
  proof (intro set_eqI)
    fix x
    show "x \<in> set ?new
      \<longleftrightarrow> x \<in> {x \<in> set (c # cs). dict_get np x = Some (int (count (mset (c # cs)) x))}"
    proof (cases "x = c")
      case False
      then show ?thesis using ih(4) by auto
    next
      case True
      have "c \<in> set new \<longleftrightarrow> c \<in> set cs \<and> n - 1 = int (count (mset cs) c)"
        using ih(4) by simp
      moreover have "count (mset cs) c = 0 \<longleftrightarrow> c \<notin> set cs" by simp
      ultimately show ?thesis using True n none by (cases "c \<in> set cs") auto
    qed
  qed
  ultimately show ?case by blast
qed

text \<open>Every element of the list comes after all its parents.\<close>

definition parents_first :: "('a \<times> 'a) list \<Rightarrow> 'a list \<Rightarrow> bool" where
  "parents_first pairs xs \<longleftrightarrow>
     (\<forall>i < length xs. \<forall>p. (p, xs ! i) \<in> set pairs \<longrightarrow> p \<in> set (take i xs))"

lemma parents_first_Nil [simp]: "parents_first pairs []"
  by (simp add: parents_first_def)

lemma parents_first_snoc:
  "parents_first pairs (xs @ [x]) \<longleftrightarrow>
     parents_first pairs xs \<and> (\<forall>p. (p, x) \<in> set pairs \<longrightarrow> p \<in> set xs)"
  by (auto simp: parents_first_def nth_append less_Suc_eq)

lemma parents_first_in:
  assumes "parents_first pairs xs" "c \<in> set xs" "(p, c) \<in> set pairs"
  shows "p \<in> set xs"
  using assms by (metis in_set_conv_nth in_set_takeD parents_first_def)

definition loop_inv :: "('a \<times> 'a) list \<Rightarrow> 'a sort_state \<Rightarrow> 'a list \<Rightarrow> 'a list \<Rightarrow> bool" where
  "loop_inv pairs st fin todo \<longleftrightarrow>
     sort_inv pairs (elems pairs - set fin) st \<and> distinct (fin @ todo) \<and> set fin \<subseteq> elems pairs \<and>
     set todo = {x \<in> elems pairs - set fin. in_edges pairs (\<lambda>p. p \<in> elems pairs - set fin) x = 0} \<and>
     parents_first pairs fin"

lemma sort_inv_child_list: "sort_inv pairs R st \<Longrightarrow> p \<in> R \<Longrightarrow> child_list (children st) p = succs pairs p"
  by (auto simp: sort_inv_def child_list_def)

lemma sort_inv_keys: "sort_inv pairs R st \<Longrightarrow> set (dict_keys (num_parents st)) = R"
  unfolding sort_inv_def by (metis (no_types, lifting) dict_get_None_iff option.distinct(1) subsetI subset_antisym)

text \<open>
  Knocking down the children of a done parent re-establishes the invariant for the elements without it.
\<close>

lemma sort_inv_knock:
  assumes inv: "sort_inv pairs R st" and p: "p \<in> R"
    and inside: "\<forall>c \<in> set (succs pairs p). c \<in> R \<and> c \<noteq> p"
  obtains np new where
    "knock (child_list (children st) p) (dict_del (num_parents st) p) a = Inr (np, a @ new)"
    "sort_inv pairs (R - {p}) (st \<lparr> num_parents := np, children := dict_del (children st) p \<rparr>)"
    "distinct new"
    "set new = {c \<in> set (succs pairs p). in_edges pairs (\<lambda>q. q \<in> R - {p}) c = 0}"
proof -
  let ?np = "dict_del (num_parents st) p"
  have fields: "num_parents (st \<lparr> num_parents := np, children := ch \<rparr>) = np"
    "children (st \<lparr> num_parents := np, children := ch \<rparr>) = ch" for np ch
    by simp_all
  have get: "dict_get ?np x = (if x \<in> R - {p} then Some (int (in_edges pairs (\<lambda>q. q \<in> R) x)) else None)" for x
    using inv by (simp add: sort_inv_def)
  have rem: "in_edges pairs (\<lambda>q. q \<in> R) x
             = in_edges pairs (\<lambda>q. q \<in> R - {p}) x + count (mset (succs pairs p)) x" for x
    using in_edges_remove [of "\<lambda>q. q \<in> R" p pairs x] p by simp
  have enough: "\<forall>x \<in> set (succs pairs p). \<exists>n. dict_get ?np x = Some n \<and> int (count (mset (succs pairs p)) x) \<le> n"
  proof
    fix x
    assume "x \<in> set (succs pairs p)"
    then have "dict_get ?np x = Some (int (in_edges pairs (\<lambda>q. q \<in> R) x))"
      using inside by (simp only: get) simp
    then show "\<exists>n. dict_get ?np x = Some n \<and> int (count (mset (succs pairs p)) x) \<le> n"
      by (intro exI conjI) (assumption, simp add: rem)
  qed
  from knock_spec [OF enough, of a]
  obtain np new where k: "knock (succs pairs p) ?np a = Inr (np, a @ new)"
    "\<And>x. dict_get np x = map_option (\<lambda>n. n - int (count (mset (succs pairs p)) x)) (dict_get ?np x)"
    "distinct new" "set new = {x \<in> set (succs pairs p). dict_get ?np x = Some (int (count (mset (succs pairs p)) x))}"
    by blast
  have "dict_ok np"
    using knock_keys [OF k(1)] inv dict_ok_del [of "num_parents st" p] by (simp add: sort_inv_def)
  moreover have "dict_get np x = (if x \<in> R - {p} then Some (int (in_edges pairs (\<lambda>q. q \<in> R - {p}) x)) else None)" for x
    using k(2) get rem by simp
  moreover have "dict_get (dict_del (children st) p) q
      = (if q \<in> R - {p} \<and> succs pairs q \<noteq> [] then Some (succs pairs q) else None)" for q
    using inv by (simp add: sort_inv_def)
  moreover have "R - {p} \<subseteq> elems pairs" using inv by (auto simp: sort_inv_def)
  ultimately have "sort_inv pairs (R - {p}) (st \<lparr> num_parents := np, children := dict_del (children st) p \<rparr>)"
    unfolding sort_inv_def fields by blast
  moreover have "set new = {c \<in> set (succs pairs p). in_edges pairs (\<lambda>q. q \<in> R - {p}) c = 0}"
    using k(4) get rem inside by auto
  ultimately show ?thesis
    using that [of np new] k(1,3) sort_inv_child_list [OF inv p] by simp
qed

lemma sort_loop_inv:
  assumes "loop_inv pairs st fin todo"
  shows "\<exists>ans st'. sort_loop st fin todo = Inr (ans, st') \<and> loop_inv pairs st' ans []"
  using assms
proof (induction "length (num_parents st)" arbitrary: st fin todo rule: less_induct)
  case less
  show ?case
  proof (cases todo)
    case Nil
    with less.prems show ?thesis by simp
  next
    case (Cons p rest)
    let ?R = "elems pairs - set fin"
    from less.prems have inv: "sort_inv pairs ?R st" and dist: "distinct (fin @ p # rest)"
      and sub: "set fin \<subseteq> elems pairs" and pf: "parents_first pairs fin"
      and todo: "set (p # rest) = {x \<in> ?R. in_edges pairs (\<lambda>q. q \<in> ?R) x = 0}"
      by (auto simp: loop_inv_def Cons)
    have p: "p \<in> ?R" "in_edges pairs (\<lambda>q. q \<in> ?R) p = 0" using todo by auto
    have parents: "q \<in> set fin" if "(q, p) \<in> set pairs" for q
      using p(2) that by (force simp: in_edges_zero elems_def)
    have inside: "\<forall>c \<in> set (succs pairs p). c \<in> ?R \<and> c \<noteq> p"
    proof
      fix c
      assume "c \<in> set (succs pairs p)"
      then have e: "(p, c) \<in> set pairs" by (simp add: in_succs)
      then have "c \<notin> set fin" using parents_first_in [OF pf _ e] p(1) by auto
      moreover have "c \<in> elems pairs" using e by (force simp: elems_def)
      moreover have "c \<noteq> p" using e parents p(1) by auto
      ultimately show "c \<in> ?R \<and> c \<noteq> p" by simp
    qed
    obtain np new where k: "knock (child_list (children st) p) (dict_del (num_parents st) p) rest = Inr (np, rest @ new)"
      "sort_inv pairs (?R - {p}) (st \<lparr> num_parents := np, children := dict_del (children st) p \<rparr>)"
      "distinct new" "set new = {c \<in> set (succs pairs p). in_edges pairs (\<lambda>q. q \<in> ?R - {p}) c = 0}"
      using sort_inv_knock [OF inv p(1) inside] by blast
    let ?st = "st \<lparr> num_parents := np, children := dict_del (children st) p \<rparr>"
    have R': "?R - {p} = elems pairs - set (fin @ [p])" by auto
    have key: "p \<in> set (dict_keys (num_parents st))" using sort_inv_keys [OF inv] p by simp
    have split: "in_edges pairs (\<lambda>q. q \<in> ?R) x
        = in_edges pairs (\<lambda>q. q \<in> ?R - {p}) x + count (mset (succs pairs p)) x" for x
      using in_edges_remove [of "\<lambda>q. q \<in> ?R" p pairs x] p by simp
    have fresh: "set new \<inter> set (p # rest) = {}"
    proof -
      have "in_edges pairs (\<lambda>q. q \<in> ?R) c \<noteq> 0" if "c \<in> set new" for c
        using that k(4) split [of c] by (simp add: not_in_iff count_eq_zero_iff)
      then show ?thesis using todo by blast
    qed
    have set': "set (rest @ new) = {x \<in> ?R - {p}. in_edges pairs (\<lambda>q. q \<in> ?R - {p}) x = 0}"
    proof -
      have "set rest = {x \<in> ?R. in_edges pairs (\<lambda>q. q \<in> ?R) x = 0} - {p}"
        using todo dist by auto
      then show ?thesis
        using k(4) inside split by (auto simp: count_eq_zero_iff)
    qed
    have "loop_inv pairs ?st (fin @ [p]) (rest @ new)"
      using k(2,3) fresh dist set' sub p(1) pf parents inside k(4)
      unfolding loop_inv_def R' [symmetric] parents_first_snoc
      by (auto simp: in_succs)
    moreover have "length np < length (num_parents st)"
      using knock_length [OF k(1)] length_dict_del_less [OF key] by simp
    ultimately show ?thesis
      using less.hyps [of ?st "fin @ [p]" "rest @ new"] k(1) key Cons by simp
  qed
qed

lemma topsort_unfold:
  assumes "dict_enum enum"
  obtains ans st where "loop_inv pairs st ans []"
    "topsort enum pairs = (if num_parents st \<noteq> [] then Inl (CycleError ans (num_parents st) (children st))
                           else Inr ans)"
proof -
  let ?st = "build_state pairs"
  let ?a = "filter (\<lambda>x. dict_get (num_parents ?st) x = Some 0) (enum (dict_keys (num_parents ?st)))"
  note inv = build_state_inv [of pairs]
  have "set ?a = {x \<in> elems pairs. in_edges pairs (\<lambda>p. p \<in> elems pairs) x = 0}"
    using inv sort_inv_keys [OF inv] by (auto simp: dict_enum_set [OF assms] sort_inv_def)
  moreover have "distinct ?a"
    using inv by (simp add: dict_enum_distinct [OF assms] sort_inv_def)
  ultimately have "loop_inv pairs ?st [] ?a"
    using inv by (simp add: loop_inv_def)
  from sort_loop_inv [OF this] obtain ans st where
    "sort_loop ?st [] ?a = Inr (ans, st)" "loop_inv pairs st ans []" by blast
  then show ?thesis by (intro that) (simp_all add: topsort_def Let_def)
qed

lemma parents_first_before:
  assumes "parents_first pairs xs" "(p, c) \<in> set pairs" "c \<in> set xs"
  shows "\<exists>as bs cs. xs = as @ p # bs @ c # cs"
proof -
  from assms(3) obtain us ws where xs: "xs = us @ c # ws" by (meson split_list)
  have "p \<in> set (take (length us) xs)"
    using assms(1,2) unfolding parents_first_def xs by (metis add_less_same_cancel1 length_append
      length_greater_0_conv less_add_same_cancel1 list.discI nth_append_length)
  then have "p \<in> set us" by (simp add: xs)
  then obtain as bs where "us = as @ p # bs" by (meson split_list)
  then show ?thesis by (auto simp: xs)
qed

lemma parents_first_trancl:
  assumes "(x, y) \<in> (set pairs)\<^sup>+" "parents_first pairs xs" "i < length xs" "xs ! i = y"
  shows "x \<in> set (take i xs)"
  using assms
proof (induction arbitrary: i rule: trancl_induct)
  case (base y)
  then show ?case by (auto simp: parents_first_def)
next
  case (step y z)
  then have "y \<in> set (take i xs)" by (auto simp: parents_first_def)
  then obtain j where j: "j < i" "j < length xs" "xs ! j = y" by (auto simp: in_set_conv_nth)
  then have "x \<in> set (take j xs)" using step by blast
  then show ?case using j(1) by (meson less_imp_le set_take_subset_set_take subsetD)
qed

lemma parents_first_acyclic:
  assumes "parents_first pairs xs" "distinct xs" "set xs = elems pairs"
  shows "acyclic (set pairs)"
proof (rule acyclicI, intro allI notI)
  fix x
  assume c: "(x, x) \<in> (set pairs)\<^sup>+"
  then have "x \<in> set xs" using assms(3) by (force simp: elems_def dest: tranclD)
  then obtain i where i: "i < length xs" "xs ! i = x" by (auto simp: in_set_conv_nth)
  then have "x \<in> set (take i xs)" using parents_first_trancl [OF c assms(1)] by blast
  then obtain j where "j < i" "xs ! j = x" by (auto simp: in_set_conv_nth)
  then show False using i assms(2) by (metis less_trans nat_neq_iff nth_eq_iff_index_eq)
qed

text \<open>A finite non-empty set in which every element has a parent contains a cycle.\<close>

lemma parent_closed_cycle:
  assumes "finite R" "x0 \<in> R" "\<forall>x \<in> R. \<exists>p \<in> R. (p, x) \<in> E"
  shows "\<exists>x \<in> R. (x, x) \<in> (Restr E R)\<^sup>+"
proof (rule ccontr)
  assume no: "\<not> ?thesis"
  have "acyclic (Restr E R)"
  proof (rule acyclicI, intro allI notI)
    fix x
    assume c: "(x, x) \<in> (Restr E R)\<^sup>+"
    then have "x \<in> R" by (auto dest: tranclD)
    with c no show False by blast
  qed
  moreover have "finite (Restr E R)" using assms(1) by simp
  ultimately have "wf (Restr E R)" by (simp add: finite_acyclic_wf)
  then obtain m where "m \<in> R" "\<forall>p. (p, m) \<in> Restr E R \<longrightarrow> p \<notin> R"
    using assms(2) by (metis wfE_min)
  then show False using assms(3) by blast
qed

lemma loop_inv_rest_parents:
  assumes "loop_inv pairs st ans []" "x \<in> elems pairs - set ans"
  shows "\<exists>p \<in> elems pairs - set ans. (p, x) \<in> set pairs"
  using assms by (auto simp: loop_inv_def in_edges_zero)

lemma finite_elems [simp]: "finite (elems pairs)"
  by (simp add: elems_def)

lemma loop_inv_cycle:
  assumes "loop_inv pairs st ans []" "num_parents st \<noteq> []"
  shows "\<exists>x \<in> elems pairs - set ans. (x, x) \<in> (Restr (set pairs) (elems pairs - set ans))\<^sup>+"
proof -
  have "set (dict_keys (num_parents st)) = elems pairs - set ans"
    using assms(1) sort_inv_keys unfolding loop_inv_def by blast
  then obtain x where "x \<in> elems pairs - set ans"
    using assms(2) by (metis all_not_in_conv map_is_Nil_conv set_empty)
  then show ?thesis
    using loop_inv_rest_parents [OF assms(1)] by (intro parent_closed_cycle) auto
qed

lemma loop_inv_all_done:
  assumes "loop_inv pairs st ans []" "num_parents st = []"
  shows "set ans = elems pairs"
  using assms sort_inv_keys [of pairs "elems pairs - set ans" st] by (auto simp: loop_inv_def)

text \<open>A list that \<open>topsort\<close> returns holds every element of the pairs exactly once, and every parent
  before each of its children.\<close>

theorem topsort_sound:
  assumes "dict_enum enum" "topsort enum pairs = Inr ans"
  shows "distinct ans \<and> set ans = elems pairs
         \<and> (\<forall>p c. (p, c) \<in> set pairs \<longrightarrow> (\<exists>as bs cs. ans = as @ p # bs @ c # cs))"
proof -
  obtain ans' st where t: "loop_inv pairs st ans' []"
    "topsort enum pairs = (if num_parents st \<noteq> [] then Inl (CycleError ans' (num_parents st) (children st))
                           else Inr ans')"
    using topsort_unfold [OF assms(1)] .
  then have st: "num_parents st = []" "ans' = ans" using assms(2) by (auto split: if_splits)
  have all: "set ans = elems pairs" using loop_inv_all_done [OF t(1) st(1)] st(2) by simp
  have pf: "distinct ans" "parents_first pairs ans" using t(1) st(2) by (simp_all add: loop_inv_def)
  show ?thesis
  proof (intro conjI allI impI)
    fix p c
    assume e: "(p, c) \<in> set pairs"
    then have "c \<in> set ans" unfolding all by (force simp: elems_def)
    then show "\<exists>as bs cs. ans = as @ p # bs @ c # cs" using parents_first_before [OF pf(2) e] by blast
  qed (fact pf all)+
qed

lemma topsort_sound_witness:
  "topsort rev [(1, 2), (3, 4), (5, 6), (1, 3), (1, 5), (1, 6), (2, 5)] = Inr [1, 2, 3, 5, 4, 6::int]
   \<and> (\<exists>as bs cs. [1, 2, 3, 5, 4, 6::int] = as @ 2 # bs @ 5 # cs)"
proof -
  have run: "topsort rev [(1, 2), (3, 4), (5, 6), (1, 3), (1, 5), (1, 6), (2, 5)] = Inr [1, 2, 3, 5, 4, 6::int]"
    by code_simp
  show ?thesis using run topsort_sound [OF dict_enum_rev run] by simp
qed

text \<open>C8 \<open>topsort\<close> succeeds exactly on the pair lists without a cycle, and its only failure is a
  \<open>CycleError\<close>: no parent count is ever looked up for a key that is gone.\<close>

theorem topsort_decides_acyclic:
  assumes "dict_enum enum"
  shows "(if acyclic (set pairs) then \<exists>ans. topsort enum pairs = Inr ans
          else \<exists>ans np ch. topsort enum pairs = Inl (CycleError ans np ch))"
proof -
  obtain ans st where t: "loop_inv pairs st ans []"
    "topsort enum pairs = (if num_parents st \<noteq> [] then Inl (CycleError ans (num_parents st) (children st))
                           else Inr ans)"
    using topsort_unfold [OF assms] .
  show ?thesis
  proof (cases "num_parents st = []")
    case True
    then have "set ans = elems pairs" using loop_inv_all_done t(1) by blast
    then have "acyclic (set pairs)" using t(1) parents_first_acyclic unfolding loop_inv_def by auto
    then show ?thesis using t(2) True by simp
  next
    case False
    obtain x where "(x, x) \<in> (Restr (set pairs) (elems pairs - set ans))\<^sup>+"
      using loop_inv_cycle [OF t(1) False] by blast
    then have "(x, x) \<in> (set pairs)\<^sup>+" by (rule trancl_mono) auto
    then have "\<not> acyclic (set pairs)" by (auto simp: acyclic_def)
    then show ?thesis using t(2) False by simp
  qed
qed

lemma topsort_decides_acyclic_witness:
  "(\<exists>ans np ch. topsort id [(1, 2), (2, 3), (3, 2::int)] = Inl (CycleError ans np ch))
   \<and> \<not> acyclic {(1, 2), (2, 3), (3, 2::int)}"
proof -
  have "(2, 2) \<in> {(1, 2), (2, 3), (3, 2::int)}\<^sup>+"
    by (rule trancl_into_trancl [of _ 3]) auto
  then have c: "\<not> acyclic (set [(1, 2), (2, 3), (3, 2::int)])" by (auto simp: acyclic_def)
  show ?thesis using topsort_decides_acyclic [OF dict_enum_id, of "[(1, 2), (2, 3), (3, 2::int)]"] c by simp
qed

text \<open>C39 The contents of a \<open>CycleError\<close>: the sorted part is in dependency order, the counts are those of
  the elements left over, each with its positive number of parents left over, the child lists are
  those of the left-over parents, and the left-over elements contain a cycle.\<close>

theorem topsort_cycle_error:
  assumes "dict_enum enum" "topsort enum pairs = Inl (CycleError ans np ch)"
  shows "distinct ans \<and> parents_first pairs ans
    \<and> (let R = elems pairs - set ans
       in (\<forall>x. dict_get np x = (if x \<in> R then Some (int (in_edges pairs (\<lambda>p. p \<in> R) x)) else None))
        \<and> (\<forall>x. x \<in> R \<longrightarrow> 0 < in_edges pairs (\<lambda>p. p \<in> R) x)
        \<and> (\<forall>p. child_list ch p = (if p \<in> R then succs pairs p else []))
        \<and> (\<exists>x \<in> R. (x, x) \<in> (Restr (set pairs) R)\<^sup>+))"
proof -
  obtain ans' st where t: "loop_inv pairs st ans' []"
    "topsort enum pairs = (if num_parents st \<noteq> [] then Inl (CycleError ans' (num_parents st) (children st))
                           else Inr ans')"
    using topsort_unfold [OF assms(1)] .
  then have st: "num_parents st \<noteq> []" "ans' = ans" "num_parents st = np" "children st = ch"
    using assms(2) by (auto split: if_splits)
  let ?R = "elems pairs - set ans"
  have inv: "loop_inv pairs st ans []" and s: "sort_inv pairs ?R st"
    using t(1) st(2) by (simp_all add: loop_inv_def)
  have "0 < in_edges pairs (\<lambda>p. p \<in> ?R) x" if "x \<in> ?R" for x
    using inv that by (auto simp: loop_inv_def)
  moreover have "child_list ch p = (if p \<in> ?R then succs pairs p else [])" for p
    using s st(4) by (auto simp: sort_inv_def child_list_def)
  moreover have "dict_get np x = (if x \<in> ?R then Some (int (in_edges pairs (\<lambda>p. p \<in> ?R) x)) else None)" for x
    using s unfolding sort_inv_def st(3) by blast
  moreover have "distinct ans" "parents_first pairs ans"
    using inv unfolding loop_inv_def by simp_all
  ultimately show ?thesis
    unfolding Let_def using loop_inv_cycle [OF inv st(1)] by blast
qed

lemma topsort_cycle_error_witness:
  "topsort id [(1, 2), (2, 3), (3, 2)] = Inl (CycleError [1] [(2, 1), (3, 1)] [(2, [3]), (3, [2::int])])
   \<and> (\<exists>x \<in> {2, 3::int}. (x, x) \<in> (Restr {(1, 2), (2, 3), (3, 2)} {2, 3})\<^sup>+)"
proof -
  let ?p = "[(1, 2), (2, 3), (3, 2::int)]"
  have run: "topsort id ?p = Inl (CycleError [1] [(2, 1), (3, 1)] [(2, [3]), (3, [2::int])])"
    by code_simp
  have R: "elems ?p - set [1] = {2, 3}" by (auto simp: elems_def)
  show ?thesis
    using run topsort_cycle_error [OF dict_enum_id run] unfolding R Let_def by simp
qed

text \<open>
  The comment before the error says that everything left over has at least one child.  An element
  that only hangs off a cycle has none: here 4 is left over and has no children.
\<close>

lemma topsort_leftover_without_child:
  "topsort id [(2, 3), (3, 2), (3, 4)]
   = Inl (CycleError [] [(2, 1), (3, 1), (4, 1)] [(2, [3]), (3, [2, 4::int])])"
  by code_simp

section \<open>Levels\<close>

text \<open>
  The generator of levels: what it has yielded when it stops, and whether it ends normally, with a
  \<open>CycleError\<close> of the two dictionaries, or on a missing key.
\<close>

datatype 'a levels_end =
    Finished
  | LevelsCycle "('a, int) dict" "('a, 'a list) dict"
  | LevelsKeyError

fun count_down :: "'a list \<Rightarrow> ('a, int) dict \<Rightarrow> ('a, int) dict option" where
  "count_down [] np = Some np"
| "count_down (child # cs) np =
     (case dict_get np child of
        None \<Rightarrow> None
      | Some n \<Rightarrow> count_down cs (dict_set np child (n - 1)))"

fun clear_level :: "'a list \<Rightarrow> 'a sort_state \<Rightarrow> 'a sort_state option" where
  "clear_level [] st = Some st"
| "clear_level (p # ps) st =
     (if p \<notin> set (dict_keys (num_parents st)) then None
      else
        (case count_down (child_list (children st) p) (dict_del (num_parents st) p) of
           None \<Rightarrow> None
         | Some np \<Rightarrow>
             clear_level ps (st \<lparr> num_parents := np, children := dict_del (children st) p \<rparr>)))"

definition level_parents :: "('a list \<Rightarrow> 'a list) \<Rightarrow> 'a sort_state \<Rightarrow> 'a list" where
  "level_parents enum st =
     filter (\<lambda>x. dict_get (num_parents st) x = Some 0) (enum (dict_keys (num_parents st)))"

lemma count_down_knock:
  "count_down cs np = (case knock cs np a of Inl _ \<Rightarrow> None | Inr (np', _) \<Rightarrow> Some np')"
  by (induction cs np arbitrary: a rule: count_down.induct) (auto split: option.splits)

lemma count_down_length: "count_down cs np = Some np' \<Longrightarrow> length np' = length np"
  using count_down_knock [of cs np "[]"] by (auto simp: knock_length split: sum.splits)

lemma clear_level_length:
  "clear_level ps st = Some st' \<Longrightarrow> length (num_parents st') + length ps \<le> length (num_parents st)"
proof (induction ps st rule: clear_level.induct)
  case (2 p ps st)
  then obtain np where p: "p \<in> set (dict_keys (num_parents st))"
    and np: "count_down (child_list (children st) p) (dict_del (num_parents st) p) = Some np"
    and rest: "clear_level ps (st \<lparr> num_parents := np, children := dict_del (children st) p \<rparr>) = Some st'"
    by (auto split: if_splits option.splits)
  have "length (num_parents st') + length ps \<le> length np"
    using "2.IH" [OF _ np rest] p by simp
  moreover have "length np < length (num_parents st)"
    using count_down_length [OF np] length_dict_del_less [OF p] by simp
  ultimately show ?case by simp
qed simp

text \<open>A level is computed before it is offered, and the dictionaries change after it.\<close>

function levels_loop :: "('a list \<Rightarrow> 'a list) \<Rightarrow> 'a sort_state \<Rightarrow> 'a list list \<times> 'a levels_end" where
  "levels_loop enum st =
     (if level_parents enum st = [] then
        ([], if num_parents st \<noteq> [] then LevelsCycle (num_parents st) (children st) else Finished)
      else
        (case clear_level (level_parents enum st) st of
           None \<Rightarrow> ([level_parents enum st], LevelsKeyError)
         | Some st' \<Rightarrow>
             (case levels_loop enum st' of (ls, e) \<Rightarrow> (level_parents enum st # ls, e))))"
  by auto

termination
proof (relation "measure (\<lambda>(_, st). length (num_parents st))")
  fix enum and st st' :: "'a sort_state"
  assume "level_parents enum st \<noteq> []" "clear_level (level_parents enum st) st = Some st'"
  then have "length (num_parents st') + length (level_parents enum st) \<le> length (num_parents st)"
    "0 < length (level_parents enum st)"
    using clear_level_length by auto
  then have "length (num_parents st') < length (num_parents st)" by linarith
  then show "((enum, st'), enum, st) \<in> measure (\<lambda>(_, st). length (num_parents st))" by simp
qed simp

declare levels_loop.simps [simp del]

definition topsort_levels_core ::
  "('a list \<Rightarrow> 'a list) \<Rightarrow> ('a, int) dict \<Rightarrow> ('a, 'a list) dict \<Rightarrow> 'a list list \<times> 'a levels_end" where
  "topsort_levels_core enum np ch = levels_loop enum \<lparr> num_parents = np, children = ch \<rparr>"

definition topsort_levels :: "('a list \<Rightarrow> 'a list) \<Rightarrow> ('a \<times> 'a) list \<Rightarrow> 'a list list \<times> 'a levels_end" where
  "topsort_levels enum pairlist =
     (let st = build_state pairlist in topsort_levels_core enum (num_parents st) (children st))"

text \<open>The elements into which a path of \<open>k\<close> pairs leads.\<close>

definition deep :: "('a \<times> 'a) list \<Rightarrow> nat \<Rightarrow> 'a set" where
  "deep pairs k = {x \<in> elems pairs. \<exists>y. (y, x) \<in> set pairs ^^ k}"

lemma elems_pair: "(p, c) \<in> set pairs \<Longrightarrow> p \<in> elems pairs \<and> c \<in> elems pairs"
  by (force simp: elems_def)

lemma deep_0 [simp]: "deep pairs 0 = elems pairs"
  by (auto simp: deep_def)

lemma deep_Suc: "x \<in> deep pairs (Suc k) \<longleftrightarrow> (\<exists>p \<in> deep pairs k. (p, x) \<in> set pairs)"
proof
  assume "x \<in> deep pairs (Suc k)"
  then obtain y p where "(y, p) \<in> set pairs ^^ k" "(p, x) \<in> set pairs" by (auto simp: deep_def)
  then show "\<exists>p \<in> deep pairs k. (p, x) \<in> set pairs"
    using elems_pair by (fastforce simp: deep_def)
next
  assume "\<exists>p \<in> deep pairs k. (p, x) \<in> set pairs"
  then obtain y p where "(y, p) \<in> set pairs ^^ k" "(p, x) \<in> set pairs" by (auto simp: deep_def)
  then show "x \<in> deep pairs (Suc k)"
    using elems_pair by (fastforce simp: deep_def)
qed

lemma deep_antimono: "deep pairs (Suc k) \<subseteq> deep pairs k"
proof (induction k)
  case 0
  then show ?case by (auto simp: deep_def)
next
  case (Suc k)
  then show ?case by (meson deep_Suc subset_iff)
qed

lemma deep_parents: "x \<in> deep pairs k - deep pairs (Suc k) \<longleftrightarrow>
    x \<in> deep pairs k \<and> in_edges pairs (\<lambda>p. p \<in> deep pairs k) x = 0"
  by (auto simp: in_edges_zero deep_Suc)

lemma deep_stops:
  assumes "deep pairs (Suc k) = deep pairs k"
  shows "deep pairs (Suc (k + j)) = deep pairs (k + j)"
proof (induction j)
  case 0
  then show ?case using assms by simp
next
  case (Suc j)
  then show ?case by (metis add_Suc_right deep_Suc set_eq_iff)
qed

lemma deep_subset: "deep pairs k \<subseteq> elems pairs"
  by (auto simp: deep_def)

lemma clear_level_inv:
  assumes "sort_inv pairs (R - set qs) st" "set qs \<subseteq> R" "set ps \<subseteq> R - set qs" "distinct ps"
    and "\<forall>p \<in> set (qs @ ps). in_edges pairs (\<lambda>q. q \<in> R) p = 0"
    and "\<forall>x \<in> elems pairs - R. \<forall>p \<in> R. (p, x) \<notin> set pairs"
  shows "\<exists>st'. clear_level ps st = Some st' \<and> sort_inv pairs (R - set (qs @ ps)) st'"
  using assms
proof (induction ps arbitrary: qs st)
  case Nil
  then show ?case by simp
next
  case (Cons p ps)
  let ?R = "R - set qs"
  have p: "p \<in> ?R" using Cons.prems(3) by simp
  have inside: "\<forall>c \<in> set (succs pairs p). c \<in> ?R \<and> c \<noteq> p"
  proof
    fix c
    assume "c \<in> set (succs pairs p)"
    then have e: "(p, c) \<in> set pairs" by (simp add: in_succs)
    then have "c \<in> elems pairs" by (force simp: elems_def)
    then have "c \<in> R" using Cons.prems(6) e p by blast
    moreover have "in_edges pairs (\<lambda>q. q \<in> R) c \<noteq> 0" using e p by (auto simp: in_edges_zero)
    then have "c \<notin> set qs" "c \<noteq> p" using Cons.prems(5) by auto
    ultimately show "c \<in> ?R \<and> c \<noteq> p" by simp
  qed
  obtain np new where k: "knock (child_list (children st) p) (dict_del (num_parents st) p) [] = Inr (np, [] @ new)"
    "sort_inv pairs (?R - {p}) (st \<lparr> num_parents := np, children := dict_del (children st) p \<rparr>)"
    using sort_inv_knock [OF Cons.prems(1) p inside, of "[]"] by blast
  let ?st = "st \<lparr> num_parents := np, children := dict_del (children st) p \<rparr>"
  have cd: "count_down (child_list (children st) p) (dict_del (num_parents st) p) = Some np"
    by (subst count_down_knock [of _ _ "[]"]) (simp add: k(1))
  have key: "p \<in> set (dict_keys (num_parents st))"
    using sort_inv_keys [OF Cons.prems(1)] p by simp
  have "?R - {p} = R - set (qs @ [p])" by auto
  then have "sort_inv pairs (R - set (qs @ [p])) ?st" using k(2) by simp
  then have "\<exists>st'. clear_level ps ?st = Some st' \<and> sort_inv pairs (R - set ((qs @ [p]) @ ps)) st'"
    by (rule Cons.IH) (use Cons.prems in auto)
  then show ?case using cd key by simp
qed

lemma levels_loop_spec:
  assumes "dict_enum enum" "sort_inv pairs (deep pairs k) st"
  shows "\<exists>ls e. levels_loop enum st = (ls, e)
    \<and> (\<forall>j < length ls. distinct (ls ! j) \<and> ls ! j \<noteq> []
          \<and> set (ls ! j) = deep pairs (k + j) - deep pairs (Suc (k + j)))
    \<and> deep pairs (Suc (k + length ls)) = deep pairs (k + length ls)
    \<and> (e = Finished \<longleftrightarrow> deep pairs (k + length ls) = {}) \<and> e \<noteq> LevelsKeyError"
  using assms
proof (induction "length (num_parents st)" arbitrary: k st rule: less_induct)
  case less
  let ?D = "deep pairs k" and ?l = "level_parents enum st"
  note inv = less.prems(2)
  have keys: "set (dict_keys (num_parents st)) = ?D" by (rule sort_inv_keys [OF inv])
  have l: "set ?l = ?D - deep pairs (Suc k)"
  proof -
    have get: "dict_get (num_parents st) x = (if x \<in> ?D then Some (int (in_edges pairs (\<lambda>p. p \<in> ?D) x)) else None)" for x
      using inv unfolding sort_inv_def by blast
    have mem: "x \<in> set ?l \<longleftrightarrow> x \<in> ?D \<and> in_edges pairs (\<lambda>p. p \<in> ?D) x = 0" for x
      unfolding level_parents_def set_filter dict_enum_set [OF less.prems(1)] keys mem_Collect_eq get
      by (cases "x \<in> ?D") simp_all
    show ?thesis by (rule set_eqI) (simp only: mem deep_parents)
  qed
  have d: "distinct ?l"
    using inv by (simp add: level_parents_def dict_enum_distinct [OF less.prems(1)] sort_inv_def)
  show ?case
  proof (cases "?l = []")
    case True
    then have "?D - deep pairs (Suc k) = {}" using l by simp
    then have "deep pairs (Suc k) = ?D" using deep_antimono [of pairs k] by blast
    moreover have "num_parents st = [] \<longleftrightarrow> ?D = {}" using keys by (metis map_is_Nil_conv set_empty)
    ultimately show ?thesis using True by (subst levels_loop.simps) auto
  next
    case False
    have sub: "deep pairs k - set ?l = deep pairs (Suc k)" by (simp only: l double_diff [OF deep_antimono subset_refl])
    have "\<exists>st'. clear_level ?l st = Some st' \<and> sort_inv pairs (?D - set ([] @ ?l)) st'"
    proof (rule clear_level_inv)
      show "\<forall>p \<in> set ([] @ ?l). in_edges pairs (\<lambda>q. q \<in> ?D) p = 0"
        using l deep_parents [of _ pairs k] by simp
      show "\<forall>x \<in> elems pairs - ?D. \<forall>p \<in> ?D. (p, x) \<notin> set pairs"
        using deep_Suc [of _ pairs k] deep_antimono [of pairs k] by blast
    qed (use inv l d in auto)
    then obtain st' where st': "clear_level ?l st = Some st'" "sort_inv pairs (deep pairs (Suc k)) st'"
      using sub by auto
    have "length (num_parents st') < length (num_parents st)"
      using clear_level_length [OF st'(1)] False by (cases ?l) auto
    from less.hyps [OF this less.prems(1) st'(2)] obtain ls e where
      r: "levels_loop enum st' = (ls, e)"
      and lv: "\<forall>j < length ls. distinct (ls ! j) \<and> ls ! j \<noteq> []
          \<and> set (ls ! j) = deep pairs (Suc k + j) - deep pairs (Suc (Suc k + j))"
      and fin: "deep pairs (Suc (Suc k + length ls)) = deep pairs (Suc k + length ls)"
        "e = Finished \<longleftrightarrow> deep pairs (Suc k + length ls) = {}" "e \<noteq> LevelsKeyError"
      by blast
    have "levels_loop enum st = (?l # ls, e)"
      using False st'(1) r by (subst levels_loop.simps) simp
    moreover have "distinct ((?l # ls) ! j) \<and> (?l # ls) ! j \<noteq> []
          \<and> set ((?l # ls) ! j) = deep pairs (k + j) - deep pairs (Suc (k + j))"
      if "j < length (?l # ls)" for j
      using that lv d l False by (cases j) auto
    ultimately show ?thesis using fin by auto
  qed
qed

lemma cycle_in_deep: "(x, x) \<in> (set pairs)\<^sup>+ \<Longrightarrow> x \<in> deep pairs k"
proof (induction k arbitrary: x)
  case 0
  then show ?case by (auto dest: tranclD elems_pair)
next
  case (Suc k)
  then obtain p where p: "(x, p) \<in> (set pairs)\<^sup>*" "(p, x) \<in> set pairs"
    by (meson tranclD2)
  then have "(p, p) \<in> (set pairs)\<^sup>+" by (meson rtrancl_into_trancl2)
  then have "p \<in> deep pairs k" by (rule Suc.IH)
  then show ?case using p(2) deep_Suc [of x pairs k] by blast
qed

lemma deep_stable_acyclic:
  assumes "deep pairs (Suc n) = deep pairs n"
  shows "acyclic (set pairs) \<longleftrightarrow> deep pairs n = {}"
proof
  assume ac: "acyclic (set pairs)"
  show "deep pairs n = {}"
  proof (rule ccontr)
    assume "deep pairs n \<noteq> {}"
    then obtain x where "x \<in> deep pairs n" by blast
    moreover have "finite (deep pairs n)" using deep_subset finite_elems by (rule finite_subset)
    moreover have "\<forall>x \<in> deep pairs n. \<exists>p \<in> deep pairs n. (p, x) \<in> set pairs"
      using assms deep_Suc [of _ pairs n] by blast
    ultimately obtain y where "(y, y) \<in> (Restr (set pairs) (deep pairs n))\<^sup>+"
      using parent_closed_cycle by metis
    then have "(y, y) \<in> (set pairs)\<^sup>+" by (rule trancl_mono) auto
    with ac show False by (auto simp: acyclic_def)
  qed
next
  assume "deep pairs n = {}"
  then show "acyclic (set pairs)" using cycle_in_deep [of _ pairs n] by (auto simp: acyclic_def)
qed

lemma deep_stops_from:
  assumes "deep pairs (Suc n) = deep pairs n" "n \<le> k"
  shows "deep pairs (Suc k) = deep pairs k"
  using deep_stops [OF assms(1), of "k - n"] assms(2) by simp

lemma sort_state_eta: "\<lparr> num_parents = num_parents st, children = children st \<rparr> = (st :: 'a sort_state)"
  by (cases st) simp

text \<open>C9 The levels: an element is offered in level \<open>k\<close> exactly when the longest chain of pairs that
  leads to it has \<open>k\<close> pairs; no level is empty or repeats an element; the generator ends normally
  on acyclic pairs and with a \<open>CycleError\<close> on the others, after having offered every element
  whose depth is bounded.\<close>

theorem topsort_levels_longest_chain:
  assumes "dict_enum enum" "topsort_levels enum pairs = (ls, e)"
  shows "(\<forall>k < length ls. distinct (ls ! k) \<and> ls ! k \<noteq> [])
    \<and> (\<forall>k x. k < length ls \<and> x \<in> set (ls ! k) \<longleftrightarrow>
          x \<in> elems pairs \<and> (\<exists>y. (y, x) \<in> set pairs ^^ k) \<and> \<not> (\<exists>y. (y, x) \<in> set pairs ^^ Suc k))
    \<and> (if acyclic (set pairs) then e = Finished else \<exists>np ch. e = LevelsCycle np ch)"
proof -
  let ?n = "length ls"
  have "levels_loop enum (build_state pairs) = (ls, e)"
    using assms(2) by (simp add: topsort_levels_def topsort_levels_core_def Let_def sort_state_eta)
  moreover have "sort_inv pairs (deep pairs 0) (build_state pairs)"
    using build_state_inv by simp
  ultimately have lv: "\<forall>j < ?n. distinct (ls ! j) \<and> ls ! j \<noteq> []
          \<and> set (ls ! j) = deep pairs j - deep pairs (Suc j)"
    and stop: "deep pairs (Suc ?n) = deep pairs ?n"
    and e: "e = Finished \<longleftrightarrow> deep pairs ?n = {}" "e \<noteq> LevelsKeyError"
    using levels_loop_spec [OF assms(1), of pairs 0 "build_state pairs"] by auto
  have exact: "k < ?n \<and> x \<in> set (ls ! k) \<longleftrightarrow>
        x \<in> elems pairs \<and> (\<exists>y. (y, x) \<in> set pairs ^^ k) \<and> \<not> (\<exists>y. (y, x) \<in> set pairs ^^ Suc k)" for k x
  proof -
    have "k < ?n \<and> x \<in> set (ls ! k) \<longleftrightarrow> x \<in> deep pairs k - deep pairs (Suc k)"
      using lv deep_stops_from [OF stop, of k] by (cases "k < ?n") auto
    then show ?thesis by (auto simp: deep_def)
  qed
  have last: "if acyclic (set pairs) then e = Finished else \<exists>np ch. e = LevelsCycle np ch"
    using e deep_stable_acyclic [OF stop] by (cases e) auto
  have each: "\<forall>k < ?n. distinct (ls ! k) \<and> ls ! k \<noteq> []" using lv by simp
  show ?thesis by (intro conjI, rule each, intro allI, rule exact, rule last)
qed

lemma topsort_levels_longest_chain_witness:
  "topsort_levels id [(1, 2), (2, 3), (3, 4), (4, 3)]
     = ([[1], [2]], LevelsCycle [(3, 1), (4, 1)] [(3, [4]), (4, [3::int])])
   \<and> \<not> (\<exists>y. (y, 2) \<in> {(1, 2), (2, 3), (3, 4), (4::int, 3::int)} ^^ 2)"
proof -
  let ?p = "[(1, 2), (2, 3), (3, 4), (4::int, 3::int)]"
  have run: "topsort_levels id ?p = ([[1], [2]], LevelsCycle [(3, 1), (4, 1)] [(3, [4]), (4, [3])])"
    by code_simp
  note all = topsort_levels_longest_chain [OF dict_enum_id run]
  have "\<not> (\<exists>y. (y, 2) \<in> set ?p ^^ Suc 1)"
    by (rule all [THEN conjunct2, THEN conjunct1, THEN spec [of _ 1], THEN spec [of _ 2],
          THEN iffD1, THEN conjunct2, THEN conjunct2]) simp
  then show ?thesis using run by (simp add: numeral_2_eq_2)
qed

end
