(* ===== verification/Find_Cycles.thy ===== *)
theory Find_Cycles
  imports Topsort
begin

text \<open>
  The cycle search of \<open>bindings/python/topsort.py\<close>: a stack of simple paths is extended child by
  child; a child that is on its path closes a cycle, which is reported unless a rotation of it has
  been.  The paths still to be extended, the cycles reported so far and the visited nodes are one
  record.  The \<open>while\<close> loop is a partial function, so that its termination is proved and not assumed.
\<close>

section \<open>The search\<close>

record 'a search =
  paths :: "'a list list"
  found :: "'a list list"
  visited :: "'a set"

definition path_index :: "'a \<Rightarrow> 'a list \<Rightarrow> nat" where
  "path_index child path = length (takeWhile (\<lambda>x. x \<noteq> child) path)"

fun is_dup :: "('a list \<Rightarrow> 'a list \<Rightarrow> bool result) \<Rightarrow> 'a list list \<Rightarrow> 'a list \<Rightarrow> bool result" where
  "is_dup same [] cycle = Inr False"
| "is_dup same (other_cycle # cycles) cycle =
     rbind (same other_cycle cycle) (\<lambda>b. if b then Inr True else is_dup same cycles cycle)"

definition visit_child :: "'a list \<Rightarrow> 'a \<Rightarrow> 'a search \<Rightarrow> 'a search result" where
  "visit_child path child st =
     (if child \<in> set path then
        (let cycle = drop (path_index child path) path
         in rbind (is_dup is_rotated (found st) cycle) (\<lambda>dup.
              Inr (if dup then st else st \<lparr> found := found st @ [cycle] \<rparr>)))
      else Inr (st \<lparr> paths := paths st @ [path @ [child]], visited := insert child (visited st) \<rparr>))"

partial_function (option) search_loop ::
  "('a, 'a list) dict \<Rightarrow> 'a search \<Rightarrow> 'a search result option" where
  "search_loop pc st =
     (if paths st = [] then Some (Inr st)
      else
        (let path = last (paths st);
             st' = st \<lparr> paths := butlast (paths st) \<rparr>
         in case dict_get pc (last path) of
              None \<Rightarrow> search_loop pc st'
            | Some cs \<Rightarrow>
                (case rfold (visit_child path) cs st' of
                   Inl e \<Rightarrow> Some (Inl e)
                 | Inr st'' \<Rightarrow> search_loop pc st'')))"

declare search_loop.simps [code]

fun search_starts :: "('a, 'a list) dict \<Rightarrow> 'a list \<Rightarrow> 'a search \<Rightarrow> 'a search result option" where
  "search_starts pc [] st = Some (Inr st)"
| "search_starts pc (parent # ps) st =
     (if parent \<in> visited st then search_starts pc ps st
      else
        (case search_loop pc (st \<lparr> paths := [[parent]] \<rparr>) of
           None \<Rightarrow> None
         | Some (Inl e) \<Rightarrow> Some (Inl e)
         | Some (Inr st') \<Rightarrow> search_starts pc ps st'))"

definition find_cycles :: "('a list \<Rightarrow> 'a list) \<Rightarrow> ('a, 'a list) dict \<Rightarrow> 'a list list result option" where
  "find_cycles enum pc =
     map_option (\<lambda>r. rbind r (\<lambda>st. Inr (found st)))
       (search_starts pc (enum (dict_keys pc)) \<lparr> paths = [], found = [], visited = {} \<rparr>)"

section \<open>Telling cycles apart\<close>

text \<open>
  What the search relies on: a test that decides, for a non-empty second sequence, a relation that
  is symmetric and transitive.
\<close>

locale cycle_test =
  fixes same :: "'a list \<Rightarrow> 'a list \<Rightarrow> bool result"
    and rel :: "'a list \<Rightarrow> 'a list \<Rightarrow> bool"
  assumes decides: "ys \<noteq> [] \<Longrightarrow> same xs ys = Inr (rel xs ys)"
    and rel_sym: "rel xs ys \<Longrightarrow> rel ys xs"
    and rel_trans: "rel xs ys \<Longrightarrow> rel ys zs \<Longrightarrow> rel xs zs"
begin

lemma is_dup_iff: "cycle \<noteq> [] \<Longrightarrow> is_dup same cycles cycle = Inr (\<exists>c \<in> set cycles. rel c cycle)"
  by (induction cycles) (auto simp: decides)

text \<open>Adding a cycle that is no duplicate keeps the list free of related cycles.\<close>

lemma add_distinct:
  assumes "sorted_wrt (\<lambda>a b. \<not> rel a b) cycles" "cycle \<noteq> []" "is_dup same cycles cycle = Inr False"
  shows "sorted_wrt (\<lambda>a b. \<not> rel a b) (cycles @ [cycle])"
  using assms is_dup_iff by (auto simp: sorted_wrt_append)

lemma add_reported:
  assumes "cycle \<noteq> []" "is_dup same cycles cycle = Inr True"
  shows "\<exists>c \<in> set cycles. rel c cycle"
  using assms is_dup_iff by auto

end

definition rotated :: "'a list \<Rightarrow> 'a list \<Rightarrow> bool" where
  "rotated xs ys \<longleftrightarrow> (\<exists>n. ys = rotate n xs)"

lemma rotated_refl [simp]: "rotated xs xs"
  unfolding rotated_def by (metis rotate0 id_apply)

lemma rotated_append: "rotated (a @ b) (b @ a)"
  unfolding rotated_def by (metis rotate_append)

lemma rotated_sym: "rotated xs ys \<Longrightarrow> rotated ys xs"
  unfolding rotated_def by (metis append_take_drop_id rotate_append rotate_drop_take)

lemma rotated_trans: "rotated xs ys \<Longrightarrow> rotated ys zs \<Longrightarrow> rotated xs zs"
  unfolding rotated_def by (metis rotate_rotate)

interpretation rot: cycle_test is_rotated rotated
proof
  show "ys \<noteq> [] \<Longrightarrow> is_rotated xs ys = Inr (rotated xs ys)" for xs ys :: "'a list"
    by (simp add: is_rotated_rotate rotated_def)
qed (fact rotated_sym rotated_trans)+

section \<open>Walks and elementary cycles\<close>

definition edges :: "('a, 'a list) dict \<Rightarrow> ('a \<times> 'a) set" where
  "edges pc = {(p, c). \<exists>cs. dict_get pc p = Some cs \<and> c \<in> set cs}"

definition walk :: "('a, 'a list) dict \<Rightarrow> 'a list \<Rightarrow> bool" where
  "walk pc xs \<longleftrightarrow> xs \<noteq> [] \<and> distinct xs \<and> successively (\<lambda>a b. (a, b) \<in> edges pc) xs"

definition elementary :: "('a, 'a list) dict \<Rightarrow> 'a list \<Rightarrow> bool" where
  "elementary pc c \<longleftrightarrow> walk pc c \<and> (last c, hd c) \<in> edges pc"

lemma walk_single [simp]: "walk pc [x]"
  by (simp add: walk_def)

lemma walk_snoc: "xs \<noteq> [] \<Longrightarrow> walk pc (xs @ [x]) \<longleftrightarrow> walk pc xs \<and> x \<notin> set xs \<and> (last xs, x) \<in> edges pc"
  by (auto simp: walk_def successively_append_iff)

lemma walk_append:
  "a \<noteq> [] \<Longrightarrow> b \<noteq> [] \<Longrightarrow> walk pc (a @ b) \<longleftrightarrow>
     walk pc a \<and> walk pc b \<and> set a \<inter> set b = {} \<and> (last a, hd b) \<in> edges pc"
  by (auto simp: walk_def successively_append_iff)

lemma walk_prefix: "walk pc (a @ b) \<Longrightarrow> a \<noteq> [] \<Longrightarrow> walk pc a"
  by (auto simp: walk_def successively_append_iff)

lemma walk_suffix: "walk pc (a @ b) \<Longrightarrow> b \<noteq> [] \<Longrightarrow> walk pc b"
  by (auto simp: walk_def successively_append_iff)

lemma elementary_rotate:
  assumes "elementary pc (a @ b)"
  shows "elementary pc (b @ a)"
proof (cases "a = [] \<or> b = []")
  case True
  with assms show ?thesis by auto
next
  case False
  with assms show ?thesis by (auto simp: elementary_def walk_append)
qed

lemma path_index_split:
  assumes "child \<in> set path"
  obtains a b where "path = a @ child # b" "child \<notin> set a" "path_index child path = length a"
    "drop (path_index child path) path = child # b"
proof -
  obtain a b where p: "path = a @ child # b" "child \<notin> set a" using split_list_first [OF assms] by blast
  then have "takeWhile (\<lambda>x. x \<noteq> child) path = a"
    by (auto simp: takeWhile_append)
  then have "path_index child path = length a" by (simp add: path_index_def)
  with p show ?thesis by (intro that) auto
qed

lemma closing_elementary:
  assumes "walk pc path" "child \<in> set path" "(last path, child) \<in> edges pc"
  shows "elementary pc (drop (path_index child path) path)"
proof -
  obtain a b where p: "path = a @ child # b" "drop (path_index child path) path = child # b"
    using path_index_split [OF assms(2)] by metis
  have "walk pc (child # b)" using assms(1) p(1) walk_suffix by blast
  moreover have "last path = last (child # b)" using p(1) by simp
  ultimately show ?thesis using assms(3) p(2) by (simp add: elementary_def)
qed

section \<open>One path\<close>

definition reported :: "'a search \<Rightarrow> 'a list \<Rightarrow> bool" where
  "reported st c \<longleftrightarrow> (\<exists>o' \<in> set (found st). rotated o' c)"

definition good_found :: "('a, 'a list) dict \<Rightarrow> 'a search \<Rightarrow> bool" where
  "good_found pc st \<longleftrightarrow>
     (\<forall>c \<in> set (found st). elementary pc c) \<and> sorted_wrt (\<lambda>a b. \<not> rotated a b) (found st)"

lemma reported_mono: "reported st c \<Longrightarrow> set (found st) \<subseteq> set (found st') \<Longrightarrow> reported st' c"
  by (auto simp: reported_def)

lemma reported_rotated: "reported st c \<Longrightarrow> rotated c d \<Longrightarrow> reported st d"
  unfolding reported_def using rotated_trans by blast

lemma visit_children:
  assumes "walk pc path" "\<forall>c \<in> set cs. (last path, c) \<in> edges pc" "good_found pc st"
  shows "\<exists>st'. rfold (visit_child path) cs st = Inr st'
    \<and> paths st' = paths st @ map (\<lambda>c. path @ [c]) (filter (\<lambda>c. c \<notin> set path) cs)
    \<and> visited st' = visited st \<union> {c \<in> set cs. c \<notin> set path}
    \<and> good_found pc st' \<and> set (found st) \<subseteq> set (found st')
    \<and> (\<forall>c \<in> set cs. c \<in> set path \<longrightarrow> reported st' (drop (path_index c path) path))"
  using assms
proof (induction cs arbitrary: st)
  case Nil
  then show ?case by simp
next
  case (Cons c cs)
  have edge: "(last path, c) \<in> edges pc" and edges: "\<forall>c \<in> set cs. (last path, c) \<in> edges pc"
    using Cons.prems(2) by simp_all
  let ?cyc = "drop (path_index c path) path"
  obtain st1 where st1: "visit_child path c st = Inr st1" "good_found pc st1"
    "set (found st) \<subseteq> set (found st1)"
    "paths st1 = paths st @ (if c \<in> set path then [] else [path @ [c]])"
    "visited st1 = visited st \<union> (if c \<in> set path then {} else {c})"
    "c \<in> set path \<longrightarrow> reported st1 ?cyc"
  proof (cases "c \<in> set path")
    case False
    with Cons.prems(3) show ?thesis
      by (intro that [of "st \<lparr> paths := paths st @ [path @ [c]], visited := insert c (visited st) \<rparr>"])
        (auto simp: visit_child_def good_found_def)
  next
    case True
    have el: "elementary pc ?cyc" by (rule closing_elementary [OF Cons.prems(1) True edge])
    then have ne: "?cyc \<noteq> []" by (simp add: elementary_def walk_def)
    have good: "sorted_wrt (\<lambda>a b. \<not> rotated a b) (found st)" "\<forall>c \<in> set (found st). elementary pc c"
      using Cons.prems(3) by (simp_all add: good_found_def)
    show ?thesis
    proof (cases "\<exists>c \<in> set (found st). rotated c ?cyc")
      case dup: True
      then have "visit_child path c st = Inr st"
        using True rot.is_dup_iff [OF ne] by (simp add: visit_child_def)
      then show ?thesis using True dup Cons.prems(3) by (intro that [of st]) (auto simp: reported_def)
    next
      case new: False
      then have d: "is_dup is_rotated (found st) ?cyc = Inr False"
        using rot.is_dup_iff [OF ne] by simp
      then have "visit_child path c st = Inr (st \<lparr> found := found st @ [?cyc] \<rparr>)"
        using True by (simp add: visit_child_def)
      moreover have "good_found pc (st \<lparr> found := found st @ [?cyc] \<rparr>)"
        using rot.add_distinct [OF good(1) ne d] good(2) el by (auto simp: good_found_def)
      ultimately show ?thesis using True
        by (intro that [of "st \<lparr> found := found st @ [?cyc] \<rparr>"]) (auto simp: reported_def)
    qed
  qed
  obtain st' where st': "rfold (visit_child path) cs st1 = Inr st'"
    "paths st' = paths st1 @ map (\<lambda>c. path @ [c]) (filter (\<lambda>c. c \<notin> set path) cs)"
    "visited st' = visited st1 \<union> {c \<in> set cs. c \<notin> set path}"
    "good_found pc st'" "set (found st1) \<subseteq> set (found st')"
    "\<forall>c \<in> set cs. c \<in> set path \<longrightarrow> reported st' (drop (path_index c path) path)"
    using Cons.IH [OF Cons.prems(1) edges st1(2)] by blast
  have "rfold (visit_child path) (c # cs) st = Inr st'" using st1(1) st'(1) by simp
  moreover have "paths st' = paths st @ map (\<lambda>c. path @ [c]) (filter (\<lambda>c. c \<notin> set path) (c # cs))"
    using st1(4) st'(2) by simp
  moreover have "visited st' = visited st \<union> {d \<in> set (c # cs). d \<notin> set path}"
    using st1(5) st'(3) by auto
  moreover have "set (found st) \<subseteq> set (found st')" using st1(3) st'(5) by blast
  moreover have "\<forall>d \<in> set (c # cs). d \<in> set path \<longrightarrow> reported st' (drop (path_index d path) path)"
    using st1(6) st'(5,6) reported_mono by auto
  ultimately show ?case using st'(4) by blast
qed

section \<open>Termination and the whole stack\<close>

text \<open>
  A path on the stack weighs more than all its extensions by one child together: every key has at
  most \<open>B\<close> children, and a simple path is at most one longer than the number of keys.
\<close>

definition branching :: "('a, 'a list) dict \<Rightarrow> nat" where
  "branching pc = sum_list (map (\<lambda>(_, cs). length cs) pc)"

definition weight :: "('a, 'a list) dict \<Rightarrow> 'a list \<Rightarrow> nat" where
  "weight pc p = Suc (branching pc) ^ (Suc (length pc) - length p)"

lemma length_children: "dict_get pc p = Some cs \<Longrightarrow> length cs \<le> branching pc"
  unfolding branching_def by (force dest: map_of_SomeD intro: member_le_sum_list)

lemma edges_key: "(p, c) \<in> edges pc \<Longrightarrow> p \<in> set (dict_keys pc)"
  by (auto simp: edges_def dest: dict_get_Some_key)

lemma walk_keys:
  assumes "walk pc xs"
  shows "set (butlast xs) \<subseteq> set (dict_keys pc)"
  using assms
proof (induction xs rule: rev_induct)
  case (snoc x xs)
  show ?case
  proof (cases "xs = []")
    case False
    then have "xs = butlast xs @ [last xs]" by simp
    then have "set xs = set (butlast xs) \<union> {last xs}" by (metis Un_insert_right list.simps(15) set_append sup_bot.right_neutral list.set(1))
    moreover have "walk pc xs" "last xs \<in> set (dict_keys pc)"
      using snoc.prems walk_snoc [OF False] edges_key [of "last xs" x pc] by blast+
    ultimately show ?thesis using snoc.IH by auto
  qed simp
qed simp

lemma walk_length_key:
  assumes "walk pc xs" "last xs \<in> set (dict_keys pc)"
  shows "length xs \<le> length pc"
proof -
  have "xs \<noteq> []" using assms(1) by (simp add: walk_def)
  then have "set xs = insert (last xs) (set (butlast xs))"
    by (metis append_butlast_last_id list.simps(15) rotate1.simps(2) set_rotate1 append_Nil2 set_append
        Un_insert_right list.set(1) sup_bot_right)
  then have "set xs \<subseteq> set (dict_keys pc)" using walk_keys [OF assms(1)] assms(2) by auto
  moreover have "distinct xs" using assms(1) by (simp add: walk_def)
  ultimately have "length xs \<le> card (set (dict_keys pc))"
    by (metis List.finite_set card_mono distinct_card)
  also have "\<dots> \<le> length pc" by (metis card_length length_map)
  finally show ?thesis .
qed

lemma weight_pos: "0 < weight pc p"
  by (simp add: weight_def)

lemma extensions_weigh_less:
  assumes "walk pc path" "dict_get pc (last path) = Some cs"
  shows "sum_list (map (weight pc) (map (\<lambda>c. path @ [c]) (filter P cs))) < weight pc path"
proof -
  let ?B = "branching pc" and ?k = "length pc - length path"
  have len: "length path \<le> length pc"
    using walk_length_key [OF assms(1)] assms(2) by (blast dest: dict_get_Some_key)
  have "sum_list (map (weight pc) (map (\<lambda>c. path @ [c]) (filter P cs)))
        = length (filter P cs) * Suc ?B ^ ?k"
    by (simp add: comp_def weight_def sum_list_triv)
  also have "\<dots> \<le> ?B * Suc ?B ^ ?k"
    using le_trans [OF length_filter_le length_children [OF assms(2)]] by (intro mult_right_mono) auto
  also have "\<dots> < Suc ?B ^ Suc ?k" by simp
  also have "\<dots> = weight pc path" using len by (simp add: weight_def Suc_diff_le)
  finally show ?thesis .
qed

text \<open>What a run of the loop guarantees about the paths it starts from.\<close>

definition extended :: "('a, 'a list) dict \<Rightarrow> 'a list list \<Rightarrow> 'a \<Rightarrow> bool" where
  "extended pc ps x \<longleftrightarrow> (\<exists>p \<in> set ps. \<exists>q. walk pc (p @ q) \<and> x \<in> set q)"

definition closed_under :: "('a, 'a list) dict \<Rightarrow> 'a list list \<Rightarrow> 'a search \<Rightarrow> bool" where
  "closed_under pc ps st \<longleftrightarrow>
     (\<forall>p \<in> set ps. \<forall>q c. walk pc (p @ q) \<and> (last (p @ q), c) \<in> edges pc \<and> c \<in> set (p @ q)
        \<longrightarrow> reported st (drop (path_index c (p @ q)) (p @ q)))"

lemma closed_under_mono:
  "closed_under pc ps st \<Longrightarrow> set (found st) \<subseteq> set (found st') \<Longrightarrow> closed_under pc ps st'"
  unfolding closed_under_def using reported_mono by metis

lemma closed_under_children:
  assumes "dict_get pc (last path) = Some cs" "path \<noteq> []"
    and "\<forall>c \<in> set cs. c \<in> set path \<longrightarrow> reported st (drop (path_index c path) path)"
    and "closed_under pc (map (\<lambda>c. path @ [c]) (filter (\<lambda>c. c \<notin> set path) cs)) st"
  shows "closed_under pc [path] st"
  unfolding closed_under_def
proof (intro ballI allI impI)
  fix p q c
  assume "p \<in> set [path]" and h: "walk pc (p @ q) \<and> (last (p @ q), c) \<in> edges pc \<and> c \<in> set (p @ q)"
  then have p: "p = path" by simp
  show "reported st (drop (path_index c (p @ q)) (p @ q))"
  proof (cases q)
    case Nil
    with h p assms(1) have "c \<in> set cs" "c \<in> set path" by (auto simp: edges_def)
    with Nil p assms(3) show ?thesis by simp
  next
    case (Cons d r)
    with h p assms(2) have "d \<notin> set path" "(last path, d) \<in> edges pc"
      by (auto simp: walk_append)
    then have "path @ [d] \<in> set (map (\<lambda>c. path @ [c]) (filter (\<lambda>c. c \<notin> set path) cs))"
      using assms(1) by (auto simp: edges_def)
    moreover have "p @ q = (path @ [d]) @ r" using p Cons by simp
    ultimately show ?thesis using assms(4) h unfolding closed_under_def by metis
  qed
qed

lemma extended_children:
  assumes "walk pc path" "dict_get pc (last path) = Some cs"
    and "x \<in> set cs \<and> x \<notin> set path \<or> extended pc (map (\<lambda>c. path @ [c]) (filter (\<lambda>c. c \<notin> set path) cs)) x"
  shows "extended pc [path] x"
  using assms(3)
proof
  assume x: "x \<in> set cs \<and> x \<notin> set path"
  then have "walk pc (path @ [x])"
    using assms(1,2) walk_snoc [of path pc x] by (auto simp: edges_def walk_def)
  then show ?thesis by (force simp: extended_def)
next
  assume "extended pc (map (\<lambda>c. path @ [c]) (filter (\<lambda>c. c \<notin> set path) cs)) x"
  then obtain c q where "walk pc ((path @ [c]) @ q)" "x \<in> set q"
    by (auto simp: extended_def)
  then have "walk pc (path @ (c # q))" "x \<in> set (c # q)" by simp_all
  then show ?thesis unfolding extended_def by (metis list.set_intros(1))
qed

lemma extended_append: "extended pc (ps @ qs) x \<longleftrightarrow> extended pc ps x \<or> extended pc qs x"
  by (auto simp: extended_def)

lemma closed_under_append: "closed_under pc (ps @ qs) st \<longleftrightarrow> closed_under pc ps st \<and> closed_under pc qs st"
  by (auto simp: closed_under_def)

lemma closed_under_leaf:
  assumes "\<nexists>c. (last path, c) \<in> edges pc" "path \<noteq> []"
  shows "closed_under pc [path] st"
  unfolding closed_under_def
proof (intro ballI allI impI)
  fix p q c
  assume "p \<in> set [path]" and h: "walk pc (p @ q) \<and> (last (p @ q), c) \<in> edges pc \<and> c \<in> set (p @ q)"
  then have p: "p = path" by simp
  have False
  proof (cases q)
    case Nil
    with h p assms(1) show False by simp
  next
    case (Cons d r)
    with h p assms show False by (auto simp: walk_append)
  qed
  then show "reported st (drop (path_index c (p @ q)) (p @ q))" ..
qed

lemma search_loop_total:
  assumes "\<forall>p \<in> set (paths st). walk pc p" "good_found pc st"
  shows "\<exists>st'. search_loop pc st = Some (Inr st') \<and> good_found pc st'
    \<and> set (found st) \<subseteq> set (found st') \<and> visited st \<subseteq> visited st'
    \<and> (\<forall>x \<in> visited st'. x \<in> visited st \<or> extended pc (paths st) x)
    \<and> closed_under pc (paths st) st'"
  using assms
proof (induction "sum_list (map (weight pc) (paths st))" arbitrary: st rule: less_induct)
  case less
  show ?case
  proof (cases "paths st = []")
    case True
    then show ?thesis using less.prems
      by (subst search_loop.simps) (auto simp: closed_under_def)
  next
    case False
    let ?path = "last (paths st)" and ?rest = "butlast (paths st)"
    let ?st = "st \<lparr> paths := ?rest \<rparr>"
    have stack: "paths st = ?rest @ [?path]" using False by simp
    have path: "walk pc ?path" and rest: "\<forall>p \<in> set ?rest. walk pc p"
      using less.prems(1) False by (auto dest: in_set_butlastD)
    have sum: "sum_list (map (weight pc) (paths st)) = sum_list (map (weight pc) ?rest) + weight pc ?path"
      by (subst stack) simp
    show ?thesis
    proof (cases "dict_get pc (last ?path)")
      case None
      then have unfold: "search_loop pc st = search_loop pc ?st"
        using False by (subst search_loop.simps) (simp add: Let_def)
      have "sum_list (map (weight pc) (paths ?st)) < sum_list (map (weight pc) (paths st))"
        using sum weight_pos by simp
      then obtain st' where st': "search_loop pc ?st = Some (Inr st')" "good_found pc st'"
        "set (found st) \<subseteq> set (found st')" "visited st \<subseteq> visited st'"
        "\<forall>x \<in> visited st'. x \<in> visited st \<or> extended pc ?rest x" "closed_under pc ?rest st'"
        using less.hyps [of ?st] less.prems(2) rest by (auto simp: good_found_def)
      have "closed_under pc [?path] st'"
      proof (rule closed_under_leaf)
        show "\<nexists>c. (last ?path, c) \<in> edges pc" using None by (simp add: edges_def)
        show "?path \<noteq> []" using path by (simp add: walk_def)
      qed
      then have "closed_under pc (paths st) st'"
        using st'(6) by (subst stack) (simp add: closed_under_append del: append_butlast_last_id)
      moreover have "\<forall>x \<in> visited st'. x \<in> visited st \<or> extended pc (paths st) x"
        using st'(5) by (subst stack) (auto simp: extended_append simp del: append_butlast_last_id)
      ultimately show ?thesis using st' unfold by auto
    next
      case (Some cs)
      let ?new = "map (\<lambda>c. ?path @ [c]) (filter (\<lambda>c. c \<notin> set ?path) cs)"
      have ne: "?path \<noteq> []" using path by (simp add: walk_def)
      have edges: "\<forall>c \<in> set cs. (last ?path, c) \<in> edges pc" using Some by (auto simp: edges_def)
      obtain st1 where st1: "rfold (visit_child ?path) cs ?st = Inr st1"
        "paths st1 = ?rest @ ?new" "visited st1 = visited st \<union> {c \<in> set cs. c \<notin> set ?path}"
        "good_found pc st1" "set (found st) \<subseteq> set (found st1)"
        "\<forall>c \<in> set cs. c \<in> set ?path \<longrightarrow> reported st1 (drop (path_index c ?path) ?path)"
        using visit_children [OF path edges, of ?st] less.prems(2) by (auto simp: good_found_def)
      have unfold: "search_loop pc st = search_loop pc st1"
        using False Some st1(1) by (subst search_loop.simps) (simp add: Let_def)
      have "sum_list (map (weight pc) ?new) < weight pc ?path"
        by (rule extensions_weigh_less [OF path Some])
      then have "sum_list (map (weight pc) (paths st1)) < sum_list (map (weight pc) (paths st))"
        using sum st1(2) by simp
      moreover have "\<forall>p \<in> set (paths st1). walk pc p"
        using rest edges path ne by (auto simp: st1(2) walk_snoc)
      ultimately obtain st' where st': "search_loop pc st1 = Some (Inr st')" "good_found pc st'"
        "set (found st1) \<subseteq> set (found st')" "visited st1 \<subseteq> visited st'"
        "\<forall>x \<in> visited st'. x \<in> visited st1 \<or> extended pc (?rest @ ?new) x"
        "closed_under pc (?rest @ ?new) st'"
        using less.hyps [of st1] st1(2,4) by auto
      have "closed_under pc [?path] st'"
      proof (rule closed_under_children [OF Some ne])
        show "\<forall>c \<in> set cs. c \<in> set ?path \<longrightarrow> reported st' (drop (path_index c ?path) ?path)"
          using st1(6) st'(3) reported_mono by metis
        show "closed_under pc ?new st'" using st'(6) by (simp add: closed_under_append)
      qed
      then have "closed_under pc (paths st) st'"
        using st'(6) by (subst stack) (simp add: closed_under_append del: append_butlast_last_id)
      moreover have "x \<in> visited st \<or> extended pc (paths st) x" if "x \<in> visited st'" for x
      proof -
        have "x \<in> visited st \<or> extended pc ?rest x \<or> extended pc [?path] x"
          using that st'(5) st1(3) extended_children [OF path Some, of x] by (auto simp: extended_append)
        then show ?thesis by (subst stack) (auto simp: extended_append simp del: append_butlast_last_id)
      qed
      moreover have "set (found st) \<subseteq> set (found st')" "visited st \<subseteq> visited st'"
        using st1(3,5) st'(3,4) by auto
      ultimately show ?thesis using st'(1,2) unfold by auto
    qed
  qed
qed

section \<open>All starting points\<close>

text \<open>Every elementary cycle through a node has been reported.\<close>

definition covered :: "('a, 'a list) dict \<Rightarrow> 'a search \<Rightarrow> 'a \<Rightarrow> bool" where
  "covered pc st x \<longleftrightarrow> (\<forall>c. elementary pc c \<and> x \<in> set c \<longrightarrow> reported st c)"

lemma covered_mono: "covered pc st x \<Longrightarrow> set (found st) \<subseteq> set (found st') \<Longrightarrow> covered pc st' x"
  unfolding covered_def using reported_mono by metis

text \<open>
  Follow a walk from the start until it first meets the cycle, then go around the cycle: this walk
  is simple, and its closing pair reports the cycle.
\<close>

lemma closed_under_covers:
  assumes closed: "closed_under pc [[s]] st" and w: "walk pc ([s] @ q)" and x: "x \<in> set ([s] @ q)"
  shows "covered pc st x"
  unfolding covered_def
proof (intro allI impI)
  fix c
  assume c: "elementary pc c \<and> x \<in> set c"
  then have "\<exists>y \<in> set ([s] @ q). y \<in> set c" using x by blast
  then obtain us w0 vs where us: "[s] @ q = us @ w0 # vs" "w0 \<in> set c" "\<forall>y \<in> set us. y \<notin> set c"
    using split_list_first_prop [of "[s] @ q" "\<lambda>y. y \<in> set c"] by blast
  obtain a b where ab: "c = a @ w0 # b" using split_list [OF us(2)] by blast
  let ?c = "w0 # b @ a"
  have el: "elementary pc ?c" using c ab elementary_rotate [of pc a "w0 # b"] by simp
  have rot: "rotated ?c c" unfolding ab using rotated_append [of "w0 # b" a] by simp
  have "walk pc ((us @ [w0]) @ vs)" using w us(1) by simp
  then have pre: "walk pc (us @ [w0])" by (rule walk_prefix) simp
  have full: "walk pc (us @ ?c)"
  proof (cases "us = []")
    case True
    then show ?thesis using el by (simp add: elementary_def)
  next
    case False
    then show ?thesis
      using pre el us(3) ab by (auto simp: walk_append elementary_def)
  qed
  have "hd (us @ ?c) = s" using us(1) by (cases us) auto
  then obtain q' where q': "us @ ?c = [s] @ q'" by (cases "us @ ?c") auto
  have close: "(last (us @ ?c), w0) \<in> edges pc" using el by (simp add: elementary_def)
  have idx: "drop (path_index w0 (us @ ?c)) (us @ ?c) = ?c"
  proof -
    have "w0 \<notin> set us" using full by (auto simp: walk_def)
    then have "takeWhile (\<lambda>y. y \<noteq> w0) (us @ ?c) = us" by (auto simp: takeWhile_append)
    then show ?thesis by (simp add: path_index_def)
  qed
  have "[s] \<in> set [[s]]" by simp
  note close_walk = bspec [OF closed [unfolded closed_under_def] this, THEN spec [of _ q'],
      THEN spec [of _ w0], THEN mp, folded q']
  have "reported st (drop (path_index w0 (us @ ?c)) (us @ ?c))"
    by (rule close_walk) (use full close in simp)
  then show "reported st c" unfolding idx using rot by (rule reported_rotated)
qed

lemma search_starts_total:
  assumes "good_found pc st" "\<forall>x \<in> visited st. covered pc st x"
  shows "\<exists>st'. search_starts pc ss st = Some (Inr st') \<and> good_found pc st'
    \<and> set (found st) \<subseteq> set (found st') \<and> (\<forall>x \<in> set ss. covered pc st' x)"
  using assms
proof (induction ss arbitrary: st)
  case Nil
  then show ?case by simp
next
  case (Cons s ss)
  show ?case
  proof (cases "s \<in> visited st")
    case True
    from Cons.IH [OF Cons.prems] obtain st' where
      "search_starts pc ss st = Some (Inr st')" "good_found pc st'"
      "set (found st) \<subseteq> set (found st')" "\<forall>x \<in> set ss. covered pc st' x" by blast
    then show ?thesis using True Cons.prems(2) covered_mono by fastforce
  next
    case False
    let ?st = "st \<lparr> paths := [[s]] \<rparr>"
    have "\<forall>p \<in> set (paths ?st). walk pc p" "good_found pc ?st"
      using Cons.prems(1) by (auto simp: good_found_def)
    from search_loop_total [OF this] obtain st1 where st1:
      "search_loop pc ?st = Some (Inr st1)" "good_found pc st1" "set (found st) \<subseteq> set (found st1)"
      "\<forall>x \<in> visited st1. x \<in> visited st \<or> extended pc [[s]] x" "closed_under pc [[s]] st1"
      by auto
    have "covered pc st1 x" if vx: "x \<in> visited st1" for x
    proof (cases "x \<in> visited st")
      case True
      then have "covered pc st x" using Cons.prems(2) by blast
      then show ?thesis using st1(3) by (rule covered_mono)
    next
      case False
      then obtain q where "walk pc ([s] @ q)" "x \<in> set q"
        using st1(4) vx by (auto simp: extended_def)
      then show ?thesis using closed_under_covers [OF st1(5)] by simp
    qed
    then obtain st' where st': "search_starts pc ss st1 = Some (Inr st')" "good_found pc st'"
      "set (found st1) \<subseteq> set (found st')" "\<forall>x \<in> set ss. covered pc st' x"
      using Cons.IH [OF st1(2)] by blast
    moreover have "covered pc st1 s"
      using closed_under_covers [OF st1(5), of "[]" s] by simp
    ultimately show ?thesis using False st1(1,3) covered_mono by fastforce
  qed
qed

lemma find_cycles_total:
  assumes "dict_enum enum"
  obtains st where "find_cycles enum pc = Some (Inr (found st))" "good_found pc st"
    "\<forall>x \<in> set (dict_keys pc). covered pc st x"
proof -
  have "good_found pc \<lparr> paths = [], found = [], visited = {} \<rparr>" by (simp add: good_found_def)
  from search_starts_total [OF this, of "enum (dict_keys pc)"] show ?thesis
    by (auto simp: find_cycles_def dict_enum_set [OF assms] simp del: set_map intro!: that)
qed

text \<open>C11 The search always ends, without an exception, and every list it reports is a genuine elementary
  cycle: its nodes are distinct, each is a parent of the next and the last one of the first; no two
  reports are rotations of each other.\<close>

theorem find_cycles_genuine:
  assumes "dict_enum enum"
  shows "\<exists>cs. find_cycles enum pc = Some (Inr cs)
    \<and> (\<forall>c \<in> set cs. c \<noteq> [] \<and> distinct c
         \<and> (\<forall>i. Suc i < length c \<longrightarrow> (c ! i, c ! Suc i) \<in> edges pc) \<and> (last c, hd c) \<in> edges pc)
    \<and> (\<forall>i j. i < j \<and> j < length cs \<longrightarrow> (\<forall>n. cs ! j \<noteq> rotate n (cs ! i)))"
proof -
  obtain st where st: "find_cycles enum pc = Some (Inr (found st))" "good_found pc st"
    using find_cycles_total [OF assms] by metis
  have "c \<noteq> [] \<and> distinct c
         \<and> (\<forall>i. Suc i < length c \<longrightarrow> (c ! i, c ! Suc i) \<in> edges pc) \<and> (last c, hd c) \<in> edges pc"
    if "c \<in> set (found st)" for c
    using st(2) that by (auto simp: good_found_def elementary_def walk_def successively_conv_nth)
  moreover have "\<forall>i j. i < j \<and> j < length (found st) \<longrightarrow> (\<forall>n. found st ! j \<noteq> rotate n (found st ! i))"
    using st(2) by (auto simp: good_found_def sorted_wrt_iff_nth_less rotated_def)
  ultimately show ?thesis using st(1) by blast
qed

lemma find_cycles_genuine_witness:
  "find_cycles id [(''A'', [''B1'', ''B2'']), (''B1'', [''C'']), (''B2'', [''C'']), (''C'', [''A'', ''B1''])]
     = Some (Inr [[''A'', ''B2'', ''C''], [''C'', ''B1''], [''A'', ''B1'', ''C'']])
   \<and> (\<forall>n. [''A'', ''B1'', ''C''] \<noteq> rotate n [''A'', ''B2'', ''C''])"
proof -
  let ?g = "[(''A'', [''B1'', ''B2'']), (''B1'', [''C'']), (''B2'', [''C'']), (''C'', [''A'', ''B1''])]"
  have run: "find_cycles id ?g = Some (Inr [[''A'', ''B2'', ''C''], [''C'', ''B1''], [''A'', ''B1'', ''C'']])"
    by code_simp
  let ?cs = "[[''A'', ''B2'', ''C''], [''C'', ''B1''], [''A'', ''B1'', ''C'']]"
  obtain cs where cs: "find_cycles id ?g = Some (Inr cs)"
    "\<forall>i j. i < j \<and> j < length cs \<longrightarrow> (\<forall>n. cs ! j \<noteq> rotate n (cs ! i))"
    using find_cycles_genuine [OF dict_enum_id, of ?g] by blast
  have "cs = ?cs" using cs(1) run by simp
  then have "\<forall>i j. i < j \<and> j < length ?cs \<longrightarrow> (\<forall>n. ?cs ! j \<noteq> rotate n (?cs ! i))" using cs(2) by blast
  from this [rule_format, of 0 2] have "[''A'', ''B1'', ''C''] \<noteq> rotate n [''A'', ''B2'', ''C'']" for n by simp
  then show ?thesis using run by blast
qed

text \<open>C10 The search is complete: every elementary cycle of the graph is reported, up to rotation, in spite
  of the skipped starting points.\<close>

theorem find_cycles_complete:
  assumes "dict_enum enum" "find_cycles enum pc = Some (Inr cs)"
    and "c \<noteq> []" "distinct c" "\<forall>i. Suc i < length c \<longrightarrow> (c ! i, c ! Suc i) \<in> edges pc"
    and "(last c, hd c) \<in> edges pc"
  shows "\<exists>r \<in> set cs. \<exists>n. c = rotate n r"
proof -
  obtain st where st: "find_cycles enum pc = Some (Inr (found st))"
    "\<forall>x \<in> set (dict_keys pc). covered pc st x"
    using find_cycles_total [OF assms(1)] by metis
  have el: "elementary pc c"
    using assms(3-6) by (auto simp: elementary_def walk_def successively_conv_nth)
  have "last c \<in> set (dict_keys pc)" using assms(6) by (rule edges_key)
  then have "reported st c" using st(2) el assms(3) unfolding covered_def by auto
  moreover have "found st = cs" using st(1) assms(2) by simp
  ultimately show ?thesis by (auto simp: reported_def rotated_def)
qed

lemma find_cycles_complete_witness:
  "find_cycles id [(1, [2]), (2, [3]), (3, [1, 2::int])] = Some (Inr [[1, 2, 3], [2, 3]])
   \<and> (\<exists>r \<in> {[1, 2, 3], [2, 3]}. \<exists>n. [3, 1, 2::int] = rotate n r)"
proof -
  have run: "find_cycles id [(1, [2]), (2, [3]), (3, [1, 2::int])] = Some (Inr [[1, 2, 3], [2, 3]])"
    by code_simp
  show ?thesis using run find_cycles_complete [OF dict_enum_id run, of "[3, 1, 2]"]
    by (auto simp: edges_def less_Suc_eq nth_Cons split: nat.splits)
qed

end
