(* ===== verification/Test_Report.thy ===== *)
theory Test_Report
  imports Py_Prelude
begin

text \<open>
  The report writers of \<open>test.py\<close>: \<open>read_test\<close>, \<open>node_to_text\<close>, \<open>translate_to_text\<close> and
  \<open>translate_to_html\<close>.  A parsed XML element has a tag, attributes, an optional text and children;
  a report is the list of the strings that \<open>f.write\<close> receives, in order.  Looking up a missing
  child raises \<open>AttributeError\<close>; a missing text formats as \<open>None\<close>.
\<close>

section \<open>XML elements\<close>

datatype xml = Elem (xml_tag: string) (xml_attrs: "(string, string) dict") (xml_text: "string option") (xml_kids: "xml list")

definition findall :: "string \<Rightarrow> xml \<Rightarrow> xml list" where
  "findall tag e = filter (\<lambda>k. xml_tag k = tag) (xml_kids e)"

definition xfind :: "string \<Rightarrow> xml \<Rightarrow> xml option" where
  "xfind tag e = find (\<lambda>k. xml_tag k = tag) (xml_kids e)"

text \<open>\<open>e.find(tag).text\<close>\<close>

definition find_text :: "string \<Rightarrow> xml \<Rightarrow> string option result" where
  "find_text tag e = (case xfind tag e of None \<Rightarrow> Inl AttributeError | Some k \<Rightarrow> Inr (xml_text k))"

text \<open>\<open>'%s' % v\<close> for a string or \<open>None\<close>, and the truth value of one.\<close>

definition fmt :: "string option \<Rightarrow> string" where
  "fmt v = (case v of None \<Rightarrow> ''None'' | Some s \<Rightarrow> s)"

definition truthy :: "string option \<Rightarrow> bool" where
  "truthy v = (case v of None \<Rightarrow> False | Some s \<Rightarrow> s \<noteq> [])"

lemma findall_kids: "k \<in> set (findall tag e) \<Longrightarrow> k \<in> set (xml_kids e)"
  by (simp add: findall_def)

lemma size_findall [termination_simp]: "k \<in> set (findall tag e) \<Longrightarrow> size k < size e"
  by (cases e) (auto dest!: findall_kids simp: less_Suc_eq_le intro: size_list_estimation' [OF _ order_refl])

section \<open>Reading one test\<close>

record test_info =
  ti_result :: "string option"
  ti_name :: "string option"
  ti_reason :: "string option"
  ti_time :: "string option"

definition read_test :: "xml \<Rightarrow> test_info result" where
  "read_test t =
     rbind (find_text ''Result'' t) (\<lambda>r.
     rbind (find_text ''Name'' t) (\<lambda>n.
       Inr \<lparr> ti_result = r, ti_name = n,
             ti_reason = (case xfind ''Reason'' t of None \<Rightarrow> Some [] | Some k \<Rightarrow> xml_text k),
             ti_time = (case xfind ''Time'' t of None \<Rightarrow> Some []
                        | Some k \<Rightarrow> dict_get (xml_attrs k) ''real'') \<rparr>))"

definition readable :: "xml \<Rightarrow> bool" where
  "readable t \<longleftrightarrow> xfind ''Result'' t \<noteq> None \<and> xfind ''Name'' t \<noteq> None"

lemma read_test_cases: "if readable t then \<exists>ti. read_test t = Inr ti else read_test t = Inl AttributeError"
  by (auto simp: readable_def read_test_def find_text_def split: option.splits)

section \<open>The text report\<close>

definition detail_fields :: "(string \<times> string) list" where
  "detail_fields =
     [(''      Message:   '', ''Message''), (''      Condition: '', ''Condition''),
      (''      Actual:    '', ''Actual''), (''      Limit:     '', ''Limit''),
      (''      File:      '', ''File''), (''      Line:      '', ''Line'')]"

definition details_text :: "xml \<Rightarrow> string list result" where
  "details_text d =
     rbind (rmap (\<lambda>(label, tag). rbind (find_text tag d) (\<lambda>v. Inr (label @ fmt v @ newline))) detail_fields)
       (\<lambda>ls. Inr ((''    Details:'' @ newline) # ls))"

definition headline :: "string \<Rightarrow> test_info \<Rightarrow> string" where
  "headline test_type ti =
     fmt (ti_result ti) @ '': Test '' @ test_type @ '' '' @ quote @ fmt (ti_name ti) @ quote
     @ '' ('' @ fmt (ti_time ti) @ '')''
     @ (if truthy (ti_reason ti) then '' ('' @ fmt (ti_reason ti) @ '')'' else fmt (ti_reason ti)) @ newline"

text \<open>
  The writes of one node: its headline, then its failure details.  The headline prints a reason that
  is \<open>None\<close> as the word, since only a true reason is put in parentheses.
\<close>

definition node_entry :: "string \<Rightarrow> xml \<Rightarrow> string list result" where
  "node_entry test_type t =
     rbind (read_test t) (\<lambda>ti.
     rbind (rmap details_text (findall ''FailureDetails'' t)) (\<lambda>ds.
       Inr (headline test_type ti # concat ds)))"

function node_to_text :: "string \<Rightarrow> xml \<Rightarrow> string list result" where
  "node_to_text test_type t =
     rbind (node_entry test_type t) (\<lambda>out.
     rbind (rmap (\<lambda>k. if k \<in> set (findall ''Test'' t) then node_to_text ''Case'' k else Inr [])
              (findall ''Test'' t)) (\<lambda>outs.
       Inr (out @ concat outs)))"
  by auto

termination
  by (relation "measure (\<lambda>(_, t). size t)") (auto simp: size_findall)

declare node_to_text.simps [simp del]

lemma rmap_cong: "(\<And>x. x \<in> set xs \<Longrightarrow> f x = g x) \<Longrightarrow> rmap f xs = rmap g xs"
  by (induction xs) auto

lemma node_to_text_simps:
  "node_to_text test_type t =
     rbind (node_entry test_type t) (\<lambda>out.
     rbind (rmap (node_to_text ''Case'') (findall ''Test'' t)) (\<lambda>outs. Inr (out @ concat outs)))"
  by (subst node_to_text.simps) (simp cong: rmap_cong)

definition example_text :: "xml \<Rightarrow> string result" where
  "example_text e =
     rbind (find_text ''Result'' e) (\<lambda>r.
     rbind (find_text ''Name'' e) (\<lambda>n.
       Inr (fmt r @ '': Example '' @ quote @ fmt n @ quote @ '' (''
            @ fmt (case xfind ''Time'' e of None \<Rightarrow> Some [] | Some k \<Rightarrow> dict_get (xml_attrs k) ''real'')
            @ '')'' @ newline)))"

definition translate_to_text :: "xml \<Rightarrow> string list result" where
  "translate_to_text et =
     rbind (rmap (node_to_text ''Suite'') (findall ''Test'' et)) (\<lambda>tests.
     rbind (rmap example_text (findall ''Example'' et)) (\<lambda>examples.
       Inr (concat tests @ examples)))"

text \<open>The flat order: a suite, then depth first its cases, each node with the word for its type.\<close>

function preorder :: "string \<Rightarrow> xml \<Rightarrow> (string \<times> xml) list" where
  "preorder test_type t =
     (test_type, t) # concat (map (\<lambda>k. if k \<in> set (findall ''Test'' t) then preorder ''Case'' k else [])
                                (findall ''Test'' t))"
  by auto

termination
  by (relation "measure (\<lambda>(_, t). size t)") (auto simp: size_findall)

declare preorder.simps [simp del]

lemma preorder_simps:
  "preorder test_type t = (test_type, t) # concat (map (preorder ''Case'') (findall ''Test'' t))"
  by (subst preorder.simps) (simp cong: map_cong)

lemma rmap_append:
  "rmap f (xs @ ys) = rbind (rmap f xs) (\<lambda>as. rbind (rmap f ys) (\<lambda>bs. Inr (as @ bs)))"
  by (induction xs) (auto simp: rbind_def split: sum.splits)

lemma rbind_assoc: "rbind (rbind r f) g = rbind r (\<lambda>x. rbind (f x) g)"
  by (cases r) auto

lemma rmap_concat:
  assumes "\<And>x. x \<in> set xs \<Longrightarrow> f x = rbind (rmap h (g x)) (\<lambda>os. Inr (concat os))"
  shows "rbind (rmap f xs) (\<lambda>outs. Inr (concat outs)) = rbind (rmap h (concat (map g xs))) (\<lambda>os. Inr (concat os))"
  using assms
proof (induction xs)
  case (Cons x xs)
  then have "rbind (rmap f xs) (\<lambda>outs. Inr (concat outs))
      = rbind (rmap h (concat (map g xs))) (\<lambda>os. Inr (concat os))" by simp
  then have ih: "rbind (rmap f xs) (\<lambda>ys. Inr (a @ concat ys))
      = rbind (rmap h (concat (map g xs))) (\<lambda>os. Inr (a @ concat os))" for a
    by (cases "rmap f xs"; cases "rmap h (concat (map g xs))") auto
  show ?case
    using Cons.prems [of x] by (simp add: rbind_assoc rmap_append ih)
qed simp

text \<open>A recursive print is the flat concatenation of the entries of the nodes in their order.\<close>

lemma node_to_text_flat:
  "node_to_text test_type t = rbind (rmap (\<lambda>(ty, n). node_entry ty n) (preorder test_type t)) (\<lambda>os. Inr (concat os))"
proof (induction "size t" arbitrary: test_type t rule: less_induct)
  case less
  let ?h = "\<lambda>(ty, n). node_entry ty n"
  have kids: "rbind (rmap (node_to_text ''Case'') (findall ''Test'' t)) (\<lambda>outs. Inr (concat outs))
      = rbind (rmap ?h (concat (map (preorder ''Case'') (findall ''Test'' t)))) (\<lambda>os. Inr (concat os))"
    by (rule rmap_concat) (use less size_findall in blast)
  have "rbind (rmap (node_to_text ''Case'') (findall ''Test'' t)) (\<lambda>outs. Inr (a @ concat outs))
      = rbind (rmap ?h (concat (map (preorder ''Case'') (findall ''Test'' t)))) (\<lambda>os. Inr (a @ concat os))" for a
    using kids by (cases "rmap (node_to_text ''Case'') (findall ''Test'' t)";
      cases "rmap ?h (concat (map (preorder ''Case'') (findall ''Test'' t)))") auto
  then show ?case
    by (subst node_to_text_simps, subst preorder_simps) (simp add: rbind_assoc)
qed

section \<open>The HTML report\<close>

definition line :: "string \<Rightarrow> string" where
  "line s = s @ newline"

definition td :: "string \<Rightarrow> string" where
  "td s = line (''<td>'' @ s @ ''</td>'')"

definition td_color :: "string \<Rightarrow> string \<Rightarrow> string" where
  "td_color color s = line (''<td style='' @ quote @ ''color:'' @ color @ quote @ ''>'' @ s @ ''</td>'')"

definition open_table :: string where
  "open_table = line (''<table border='' @ quote @ ''1'' @ quote @ ''>'')"

definition h3_line :: "test_info \<Rightarrow> string" where
  "h3_line ti =
     (let body = fmt (ti_result ti) @ '': '' @ fmt (ti_name ti) @ '' ('' @ fmt (ti_time ti) @ '')'';
          tag = (\<lambda>color b. line (''<h3 style='' @ quote @ ''color:'' @ color @ quote @ ''>'' @ b @ ''</h3>''))
      in if ti_result ti = Some ''PASS'' then tag ''green'' body
         else if ti_result ti = Some ''SKIP'' then
           tag ''#ff6600'' (body @ '' ('' @ fmt (ti_reason ti) @ '')'')
         else tag ''red'' body)"

text \<open>One row per failure detail; the first row of a case carries its result, name and time.\<close>

definition html_fields :: "(string \<times> string \<times> string) list" where
  "html_fields =
     [(''Message'', ''<b>Message: </b>'', '', ''), (''Condition'', ''<b>Condition: </b>'', '', ''),
      (''Actual'', ''<b>Actual: </b>'', '', ''), (''Limit'', ''<b>Limit: </b>'', '', ''),
      (''File'', ''<b>File: </b>'', '', ''), (''Line'', ''<b>Line: </b>'', '''')]"

definition detail_row :: "bool \<Rightarrow> test_info \<Rightarrow> xml \<Rightarrow> string list result" where
  "detail_row first_row ti d =
     rbind (rmap (\<lambda>(tag, label, sep). rbind (find_text tag d) (\<lambda>v. Inr (label @ fmt v @ sep))) html_fields)
       (\<lambda>cells. Inr ([line ''<tr>'']
          @ (if first_row then [td_color ''red'' (fmt (ti_result ti)), td (fmt (ti_name ti)), td (fmt (ti_time ti))]
             else [td '''', td '''', td ''''])
          @ [''<td>''] @ cells @ [line ''</td>'', line ''</td>'']))"

fun detail_rows :: "bool \<Rightarrow> test_info \<Rightarrow> xml list \<Rightarrow> string list result" where
  "detail_rows first_row ti [] = Inr []"
| "detail_rows first_row ti (d # ds) =
     rbind (detail_row first_row ti d) (\<lambda>r. rbind (detail_rows False ti ds) (\<lambda>rs. Inr (r @ rs)))"

definition case_rows :: "xml \<Rightarrow> string list result" where
  "case_rows c =
     rbind (read_test c) (\<lambda>ti.
       if ti_result ti = Some ''FAIL'' then detail_rows True ti (findall ''FailureDetails'' c)
       else Inr [line ''<tr>'', td_color ''green'' (fmt (ti_result ti)), td (fmt (ti_name ti)),
                 td (fmt (ti_time ti)), td (fmt (ti_reason ti)), line ''</tr>''])"

definition no_cases :: "string option \<Rightarrow> bool" where
  "no_cases r \<longleftrightarrow> r \<in> {Some ''CRASH'', Some ''SKIP'', Some ''VALGR''}"

definition suite_html :: "xml \<Rightarrow> string list result" where
  "suite_html s =
     rbind (read_test s) (\<lambda>ti.
       let head = [h3_line ti, open_table, line ''<th> Result </th>'']
       in if no_cases (ti_result ti) then
            Inr (head @ [line ''<tr>'',
                  td_color (if ti_result ti = Some ''SKIP'' then ''#ff6600'' else ''red'') (fmt (ti_result ti)),
                  line ''</tr>'', line ''</table>''])
          else
            rbind (rmap case_rows (findall ''Test'' s)) (\<lambda>rows.
              Inr (head @ [line ''<th>Test Case Name</th>'', line ''<th> Time </th>'']
                   @ (if ti_result ti = Some ''FAIL'' then [line ''<th>Failure Details</th>''] else [])
                   @ concat rows @ [line ''</table>''])))"

definition example_html :: "xml \<Rightarrow> string list result" where
  "example_html e =
     rbind (read_test e) (\<lambda>ti.
       Inr ([line ''<tr>''] @
            [if ti_result ti = Some ''PASS'' then td_color ''green'' (fmt (ti_result ti))
             else if ti_result ti = Some ''SKIP'' then
               line (''<td style='' @ quote @ ''color:#ff6600'' @ quote @ ''>'' @ fmt (ti_result ti) @ ''</fd>'')
             else td_color ''red'' (fmt (ti_result ti))]
            @ [td (fmt (ti_name ti)), td (fmt (ti_time ti)), td (fmt (ti_reason ti)), line ''</tr>'']))"

definition translate_to_html :: "xml \<Rightarrow> string list result" where
  "translate_to_html et =
     rbind (rmap suite_html (findall ''Test'' et)) (\<lambda>suites.
     rbind (rmap example_html (findall ''Example'' et)) (\<lambda>examples.
       Inr ([line ''<html>'', line ''<body>'', line ''<center><h1>ns-3 Test Results</h1></center>'',
             line ''<h2>Test Suites</h2>''] @ concat suites
            @ [line ''<h2>Examples</h2>'', open_table, line ''<th> Result </th>'',
               line ''<th>Example Name</th>'', line ''<th>Elapsed Time</th>'', line ''<th>Details</th>'']
            @ concat examples @ [line ''</table>'', line ''</body>'', line ''</html>''])))"

lemmas html_lines = line_def td_def td_color_def open_table_def h3_line_def

section \<open>Rows opened and closed\<close>

text \<open>How many more rows a piece of the report opens than it closes.\<close>

definition row_balance :: "string list \<Rightarrow> int" where
  "row_balance out = int (count_list out (line ''<tr>'')) - int (count_list out (line ''</tr>''))"

lemma row_balance_append [simp]: "row_balance (a @ b) = row_balance a + row_balance b"
  by (simp add: row_balance_def count_list_append)

lemma row_balance_Nil [simp]: "row_balance [] = 0"
  by (simp add: row_balance_def)

lemma row_balance_Cons: "row_balance (x # out) =
    (if x = line ''<tr>'' then 1 else if x = line ''</tr>'' then -1 else 0) + row_balance out"
  by (auto simp: row_balance_def line_def)

lemma row_balance_concat: "row_balance (concat outs) = sum_list (map row_balance outs)"
  by (induction outs) auto

lemma detail_cells_balance:
  assumes "rmap (\<lambda>(tag, label, sep). rbind (find_text tag d) (\<lambda>v. Inr (label @ fmt v @ sep))) fs = Inr cells"
    "\<forall>f \<in> set fs. \<exists>l. fst (snd f) = ''<b>'' @ l"
  shows "row_balance cells = 0"
  using assms
proof (induction fs arbitrary: cells)
  case (Cons f fs)
  obtain tag label sep where f: "f = (tag, label, sep)" by (cases f) auto
  then obtain v cs where c: "cells = (label @ fmt v @ sep) # cs"
    "rmap (\<lambda>(tag, label, sep). rbind (find_text tag d) (\<lambda>v. Inr (label @ fmt v @ sep))) fs = Inr cs"
    using Cons.prems(1) by (auto simp: rbind_eq_Inr)
  obtain l where "label = ''<b>'' @ l" using Cons.prems(2) f by auto
  then show ?case using Cons.IH [OF c(2)] Cons.prems(2) c(1) by (simp add: row_balance_Cons line_def)
qed simp

lemma html_fields_bold: "\<forall>f \<in> set html_fields. \<exists>l. fst (snd f) = ''<b>'' @ l"
  by (simp add: html_fields_def)

lemma detail_row_balance: "detail_row first_row ti d = Inr out \<Longrightarrow> row_balance out = 1"
  using detail_cells_balance [OF _ html_fields_bold]
  by (auto simp: detail_row_def rbind_eq_Inr row_balance_Cons html_lines)

lemma detail_rows_balance: "detail_rows first_row ti ds = Inr out \<Longrightarrow> row_balance out = int (length ds)"
  by (induction first_row ti ds arbitrary: out rule: detail_rows.induct)
    (auto simp: rbind_eq_Inr dest!: detail_row_balance)

definition case_failures :: "xml \<Rightarrow> nat" where
  "case_failures c =
     (case read_test c of
        Inl _ \<Rightarrow> 0
      | Inr ti \<Rightarrow> if ti_result ti = Some ''FAIL'' then length (findall ''FailureDetails'' c) else 0)"

definition suite_failures :: "xml \<Rightarrow> nat" where
  "suite_failures s =
     (case read_test s of
        Inl _ \<Rightarrow> 0
      | Inr ti \<Rightarrow> if no_cases (ti_result ti) then 0 else sum_list (map case_failures (findall ''Test'' s)))"

lemma case_rows_balance: "case_rows c = Inr out \<Longrightarrow> row_balance out = int (case_failures c)"
  by (auto simp: case_rows_def case_failures_def rbind_eq_Inr row_balance_Cons html_lines
      split: if_splits dest!: detail_rows_balance)

lemma rmap_balance:
  assumes "rmap f xs = Inr outs" "\<And>x out. f x = Inr out \<Longrightarrow> row_balance out = int (g x)"
  shows "row_balance (concat outs) = int (sum_list (map g xs))"
  using assms(1) by (induction xs arbitrary: outs) (auto simp: rbind_eq_Inr assms(2))

lemma suite_html_balance: "suite_html s = Inr out \<Longrightarrow> row_balance out = int (suite_failures s)"
  using rmap_balance [OF _ case_rows_balance]
  by (auto simp: suite_html_def suite_failures_def rbind_eq_Inr row_balance_Cons html_lines Let_def
      split: if_splits)

lemma example_html_balance: "example_html e = Inr out \<Longrightarrow> row_balance out = int 0"
  by (auto simp: example_html_def rbind_eq_Inr row_balance_Cons html_lines split: if_splits)

section \<open>Properties\<close>

text \<open>The text report prints the suites in file order, each followed depth first by its cases, then the
  examples: it is the concatenation of the entries of the flat list of nodes, and it fails with the
  first of them that fails.\<close>

theorem translate_to_text_flat:
  "translate_to_text et =
   rbind (rmap (\<lambda>(ty, n). node_entry ty n) (concat (map (preorder ''Suite'') (findall ''Test'' et)))) (\<lambda>entries.
   rbind (rmap example_text (findall ''Example'' et)) (\<lambda>examples. Inr (concat entries @ examples)))"
proof -
  have "rbind (rmap (node_to_text ''Suite'') (findall ''Test'' et)) (\<lambda>outs. Inr (concat outs))
     = rbind (rmap (\<lambda>(ty, n). node_entry ty n) (concat (map (preorder ''Suite'') (findall ''Test'' et))))
         (\<lambda>os. Inr (concat os))"
    by (rule rmap_concat) (rule node_to_text_flat)
  then show ?thesis
    unfolding translate_to_text_def
    by (cases "rmap (node_to_text ''Suite'') (findall ''Test'' et)";
        cases "rmap (\<lambda>(ty, n). node_entry ty n) (concat (map (preorder ''Suite'') (findall ''Test'' et)))") auto
qed

text \<open>The HTML report leaves exactly one table row open for every failure detail of a failed test case
  it prints, and closes every other row: the writer ends such a row with a second \<open></td>\<close>.\<close>

theorem html_failure_rows_unclosed:
  assumes "translate_to_html et = Inr out"
  shows "row_balance out = int (sum_list (map suite_failures (findall ''Test'' et)))"
proof -
  from assms obtain suites examples where
    s: "rmap suite_html (findall ''Test'' et) = Inr suites" and
    e: "rmap example_html (findall ''Example'' et) = Inr examples" and
    out: "row_balance out = row_balance (concat suites) + row_balance (concat examples)"
    by (auto simp: translate_to_html_def rbind_eq_Inr row_balance_Cons html_lines)
  have "row_balance (concat examples) = int (sum_list (map (\<lambda>_. 0) (findall ''Example'' et)))"
    by (rule rmap_balance [OF e example_html_balance])
  moreover have "row_balance (concat suites) = int (sum_list (map suite_failures (findall ''Test'' et)))"
    by (rule rmap_balance [OF s suite_html_balance])
  ultimately show ?thesis using out by simp
qed

definition sample_failed_case :: xml where
  "sample_failed_case =
     (let leaf = (\<lambda>t s. Elem t [] (Some s) [])
      in Elem ''Test'' [] None
           [leaf ''Name'' ''c'', leaf ''Result'' ''FAIL'', Elem ''Time'' [(''real'', ''0.1'')] None [],
            Elem ''FailureDetails'' [] None
              [leaf ''Message'' ''m'', leaf ''Condition'' ''x'', leaf ''Actual'' ''1'',
               leaf ''Limit'' ''2'', leaf ''File'' ''f.cc'', leaf ''Line'' ''3'']])"

definition sample_results :: xml where
  "sample_results =
     Elem ''Results'' [] None
       [Elem ''Test'' [] None
          [Elem ''Name'' [] (Some ''s'') [], Elem ''Result'' [] (Some ''FAIL'') [], sample_failed_case]]"

lemma html_failure_rows_unclosed_witness:
  "\<exists>out. translate_to_html sample_results = Inr out \<and> row_balance out = 1"
proof -
  have "case translate_to_html sample_results of Inr _ \<Rightarrow> True | Inl _ \<Rightarrow> False" by code_simp
  then obtain out where run: "translate_to_html sample_results = Inr out" by (auto split: sum.splits)
  have "sum_list (map suite_failures (findall ''Test'' sample_results)) = 1" by code_simp
  with html_failure_rows_unclosed [OF run] run show ?thesis by auto
qed

end
