(* ===== verification/Test_Jobs.thy ===== *)
theory Test_Jobs
  imports Py_Prelude
begin

text \<open>
  The jobs of \<open>test.py\<close> and the worker threads that run them: \<open>Job\<close>, \<open>run_job_synchronously\<close> and
  \<open>worker_thread\<close>, with the two queues between the main thread and the workers as a step relation.
  The outcome of a process (its return code, its time in milliseconds, its decoded outputs) is
  whatever the operating system delivers: the relation allows any.
\<close>

section \<open>Jobs and commands\<close>

record job =
  is_break :: bool
  is_skip :: bool
  skip_reason :: string
  is_example :: bool
  is_pyexample :: bool
  shell_command :: string
  display_name :: string
  basedir :: string
  tempdir :: string
  cwd :: string
  tmp_file_name :: string
  returncode :: int
  elapsed_time :: int
  build_path :: string

definition new_job :: job where
  "new_job =
     \<lparr> is_break = False, is_skip = False, skip_reason = '''', is_example = False,
       is_pyexample = False, shell_command = '''', display_name = '''', basedir = '''',
       tempdir = '''', cwd = '''', tmp_file_name = '''', returncode = 0, elapsed_time = 0,
       build_path = '''' \<rparr>"

text \<open>The configuration that waf saved and the options the workers read.\<close>

record config =
  NS3_BASEDIR :: string
  NS3_BUILDDIR :: string
  PYTHON :: "string list"

record worker_options =
  opt_valgrind :: bool
  opt_update_data :: bool

definition suppressions_file :: string where
  "suppressions_file = ''testpy.supp''"

definition job_command :: "config \<Rightarrow> string \<Rightarrow> bool \<Rightarrow> bool \<Rightarrow> string \<Rightarrow> string result" where
  "job_command cfg command valgrind is_python build =
     rbind (if is_python then
              (case PYTHON cfg of
                 [] \<Rightarrow> Inl IndexError
               | py # _ \<Rightarrow> Inr (py @ '' '' @ path_join (NS3_BASEDIR cfg) command))
            else if build \<noteq> [] then Inr (path_join build command)
            else Inr (path_join (NS3_BUILDDIR cfg) command))
       (\<lambda>path_cmd.
          Inr (if valgrind then
                 ''valgrind --suppressions='' @ path_join (NS3_BASEDIR cfg) suppressions_file
                 @ '' --leak-check=full --show-reachable=yes --error-exitcode=2 --errors-for-leak-kinds=all ''
                 @ path_cmd
               else path_cmd))"

text \<open>
  What a finished process leaves: an output that cannot be decoded turns the return value into 1.
\<close>

record outcome =
  out_code :: int
  out_stdout :: "string option"
  out_stderr :: "string option"
  out_time :: int

definition retval :: "outcome \<Rightarrow> int" where
  "retval oc =
     (let r = out_code oc;
          r1 = (if out_stdout oc = None then 1 else r)
      in if out_stderr oc = None then 1 else r1)"

definition worker_command :: "config \<Rightarrow> worker_options \<Rightarrow> job \<Rightarrow> string result" where
  "worker_command cfg opts j =
     (if is_example j \<or> is_pyexample j then
        job_command cfg (shell_command j) (opt_valgrind opts) (is_pyexample j) (build_path j)
      else
        job_command cfg
          (shell_command j @ '' --xml --tempdir='' @ tempdir j @ '' --out='' @ tmp_file_name j @ '' ''
           @ (if opt_update_data opts then ''--update-data'' else ''''))
          (opt_valgrind opts) False '''')"

definition finish_job :: "job \<Rightarrow> outcome \<Rightarrow> job" where
  "finish_job j oc = j \<lparr> returncode := retval oc, elapsed_time := out_time oc \<rparr>"

lemma worker_command_ok: "PYTHON cfg \<noteq> [] \<Longrightarrow> \<exists>cmd. worker_command cfg opts j = Inr cmd"
  by (cases "PYTHON cfg") (auto simp: worker_command_def job_command_def)

section \<open>The pool of workers\<close>

datatype worker = Waiting | Running job | Stopped | Died

record pool =
  input_queue :: "job list"
  output_queue :: "job list"
  workers :: "worker list"
  thread_exit :: bool
  collected :: "job list"

text \<open>
  One step of the program after the dispatch.  A waiting worker takes the next job and stops on a
  break job, hands it back as a break after an interrupt, hands a skipped job back as it is, or
  starts to run it; a running worker delivers the result, or dies when no command can be built;
  the interrupt handler sets \<open>thread_exit\<close>; the main thread collects one result per dispatched job.
\<close>

inductive pool_step :: "config \<Rightarrow> worker_options \<Rightarrow> nat \<Rightarrow> pool \<Rightarrow> pool \<Rightarrow> bool"
  for cfg opts jobs where
  Stop: "i < length (workers s) \<Longrightarrow> workers s ! i = Waiting \<Longrightarrow> input_queue s = j # rest \<Longrightarrow>
     is_break j \<Longrightarrow>
     pool_step cfg opts jobs s (s \<lparr> input_queue := rest, workers := (workers s)[i := Stopped] \<rparr>)"
| Refuse: "i < length (workers s) \<Longrightarrow> workers s ! i = Waiting \<Longrightarrow> input_queue s = j # rest \<Longrightarrow>
     \<not> is_break j \<Longrightarrow> thread_exit s \<Longrightarrow>
     pool_step cfg opts jobs s
       (s \<lparr> input_queue := rest, output_queue := output_queue s @ [j \<lparr> is_break := True \<rparr>] \<rparr>)"
| Skip: "i < length (workers s) \<Longrightarrow> workers s ! i = Waiting \<Longrightarrow> input_queue s = j # rest \<Longrightarrow>
     \<not> is_break j \<Longrightarrow> \<not> thread_exit s \<Longrightarrow> is_skip j \<Longrightarrow>
     pool_step cfg opts jobs s (s \<lparr> input_queue := rest, output_queue := output_queue s @ [j] \<rparr>)"
| Start: "i < length (workers s) \<Longrightarrow> workers s ! i = Waiting \<Longrightarrow> input_queue s = j # rest \<Longrightarrow>
     \<not> is_break j \<Longrightarrow> \<not> thread_exit s \<Longrightarrow> \<not> is_skip j \<Longrightarrow>
     pool_step cfg opts jobs s (s \<lparr> input_queue := rest, workers := (workers s)[i := Running j] \<rparr>)"
| Finish: "i < length (workers s) \<Longrightarrow> workers s ! i = Running j \<Longrightarrow> worker_command cfg opts j = Inr cmd \<Longrightarrow>
     pool_step cfg opts jobs s
       (s \<lparr> output_queue := output_queue s @ [finish_job j oc], workers := (workers s)[i := Waiting] \<rparr>)"
| Die: "i < length (workers s) \<Longrightarrow> workers s ! i = Running j \<Longrightarrow> worker_command cfg opts j = Inl e \<Longrightarrow>
     pool_step cfg opts jobs s (s \<lparr> workers := (workers s)[i := Died] \<rparr>)"
| Interrupt: "\<not> thread_exit s \<Longrightarrow> pool_step cfg opts jobs s (s \<lparr> thread_exit := True \<rparr>)"
| Collect: "output_queue s = j # rest \<Longrightarrow> length (collected s) < jobs \<Longrightarrow>
     pool_step cfg opts jobs s (s \<lparr> output_queue := rest, collected := collected s @ [j] \<rparr>)"

inductive_simps pool_step_simps: "pool_step cfg opts jobs s s'"

definition break_job :: job where
  "break_job = new_job \<lparr> is_break := True \<rparr>"

definition start_pool :: "nat \<Rightarrow> job list \<Rightarrow> pool" where
  "start_pool processors js =
     \<lparr> input_queue = js @ replicate processors break_job, output_queue = [],
       workers = replicate processors Waiting, thread_exit = False, collected = [] \<rparr>"

definition pool_steps :: "config \<Rightarrow> worker_options \<Rightarrow> nat \<Rightarrow> pool \<Rightarrow> pool \<Rightarrow> bool" where
  "pool_steps cfg opts jobs = (pool_step cfg opts jobs)\<^sup>*\<^sup>*"

section \<open>No job is lost\<close>

text \<open>A job without what the workers write into it.\<close>

definition ident :: "job \<Rightarrow> job" where
  "ident j = j \<lparr> is_break := False, returncode := 0, elapsed_time := 0 \<rparr>"

fun running :: "worker list \<Rightarrow> job list" where
  "running [] = []"
| "running (Running j # ws) = j # running ws"
| "running (_ # ws) = running ws"

definition alive :: "worker list \<Rightarrow> nat" where
  "alive ws = length (filter (\<lambda>w. w \<noteq> Stopped) ws)"

definition in_flight :: "pool \<Rightarrow> job multiset" where
  "in_flight s =
     image_mset ident (mset (filter (\<lambda>j. \<not> is_break j) (input_queue s)) + mset (running (workers s))
       + mset (output_queue s) + mset (collected s))"

lemma running_append [simp]: "running (a @ b) = running a @ running b"
  by (induction a rule: running.induct) auto

lemma running_update:
  assumes "i < length ws"
  shows "mset (running (ws[i := w])) + mset (running [ws ! i]) = mset (running ws) + mset (running [w])"
proof -
  have "ws = take i ws @ ws ! i # drop (Suc i) ws" using assms by (rule id_take_nth_drop)
  then have "mset (running ws) = mset (running (take i ws)) + mset (running [ws ! i])
      + mset (running (drop (Suc i) ws))"
    by (metis append_Cons append_Nil mset_append running_append union_assoc)
  moreover have "mset (running (ws[i := w])) = mset (running (take i ws)) + mset (running [w])
      + mset (running (drop (Suc i) ws))"
    using assms by (metis append_Cons append_Nil mset_append running_append union_assoc upd_conv_take_nth_drop)
  ultimately show ?thesis by (simp add: ac_simps)
qed

lemma alive_append [simp]: "alive (a @ b) = alive a + alive b"
  by (simp add: alive_def)

lemma alive_update:
  assumes "i < length ws"
  shows "alive (ws[i := w]) + alive [ws ! i] = alive ws + alive [w]"
proof -
  have "ws = take i ws @ [ws ! i] @ drop (Suc i) ws" using assms by (simp add: id_take_nth_drop)
  then have "alive ws = alive (take i ws) + alive [ws ! i] + alive (drop (Suc i) ws)"
    by (metis alive_append add.assoc)
  moreover have "ws[i := w] = take i ws @ [w] @ drop (Suc i) ws"
    using assms by (simp add: upd_conv_take_nth_drop)
  then have "alive (ws[i := w]) = alive (take i ws) + alive [w] + alive (drop (Suc i) ws)"
    by (metis alive_append add.assoc)
  ultimately show ?thesis by simp
qed

lemma alive_single [simp]:
  "alive [Waiting] = 1" "alive [Running j] = 1" "alive [Died] = 1" "alive [Stopped] = 0"
  by (simp_all add: alive_def)

lemma ident_simps [simp]:
  "ident (j \<lparr> is_break := b \<rparr>) = ident j" "ident (finish_job j oc) = ident j"
  by (simp_all add: ident_def finish_job_def)

lemma finish_job_break [simp]: "is_break (finish_job j oc) = is_break j"
  by (simp add: finish_job_def)

lemma break_job_break [simp]: "is_break break_job"
  by (simp add: break_job_def)

text \<open>
  The invariant: the break jobs stand behind all real jobs, one for each worker that has not
  stopped, and every dispatched job is in exactly one place unless a worker has died with it.
\<close>

definition pool_inv :: "job list \<Rightarrow> pool \<Rightarrow> bool" where
  "pool_inv js s \<longleftrightarrow>
     (\<exists>todo k. input_queue s = todo @ replicate k break_job \<and> (\<forall>j \<in> set todo. \<not> is_break j)
        \<and> k = alive (workers s) \<and> (k < length (workers s) \<longrightarrow> todo = []))
     \<and> (\<forall>j \<in> set (running (workers s)). \<not> is_break j)
     \<and> Died \<notin> set (workers s)
     \<and> in_flight s = image_mset ident (mset js)
     \<and> (\<not> thread_exit s \<longrightarrow> (\<forall>j \<in> set (output_queue s @ collected s). \<not> is_break j))"

lemma start_inv:
  assumes "\<forall>j \<in> set js. \<not> is_break j"
  shows "pool_inv js (start_pool n js)"
proof -
  have "running (replicate n Waiting) = []" by (induction n) auto
  moreover have "alive (replicate n Waiting) = n" by (simp add: alive_def)
  moreover have "filter (\<lambda>j. \<not> is_break j) js = js" using assms by (simp add: filter_id_conv)
  ultimately show ?thesis
    using assms unfolding pool_inv_def start_pool_def in_flight_def
    by (auto simp: in_set_replicate)
qed

lemma take_first:
  assumes "input_queue s = todo @ replicate k break_job" "input_queue s = j # rest" "\<not> is_break j"
  obtains todo' where "todo = j # todo'" "rest = todo' @ replicate k break_job"
  using assms by (cases todo; cases k) auto

lemma take_break:
  assumes "input_queue s = todo @ replicate k break_job" "input_queue s = j # rest" "is_break j"
    "\<forall>j \<in> set todo. \<not> is_break j"
  shows "todo = []" "\<exists>k'. k = Suc k' \<and> rest = replicate k' break_job"
  using assms by (cases todo; cases k; auto)+

lemma step_inv:
  assumes "pool_step cfg opts jobs s s'" "pool_inv js s" "PYTHON cfg \<noteq> []"
  shows "pool_inv js s'"
proof -
  from assms(2) obtain todo k where inp: "input_queue s = todo @ replicate k break_job"
    "\<forall>j \<in> set todo. \<not> is_break j" "k = alive (workers s)"
    "k < length (workers s) \<longrightarrow> todo = []"
    and run: "\<forall>j \<in> set (running (workers s)). \<not> is_break j" and died: "Died \<notin> set (workers s)"
    and fl: "in_flight s = image_mset ident (mset js)"
    and brk: "\<not> thread_exit s \<longrightarrow> (\<forall>j \<in> set (output_queue s @ collected s). \<not> is_break j)"
    unfolding pool_inv_def by blast
  from assms(1) show ?thesis
  proof cases
    case (Stop i j rest)
    from take_break [OF inp(1) Stop(4,5) inp(2)] obtain k' where
      k: "todo = []" "k = Suc k'" "rest = replicate k' break_job" by blast
    have "alive ((workers s)[i := Stopped]) = k'"
      using alive_update [OF Stop(2), of Stopped] Stop(3) inp(3) k(2) by simp
    moreover have "mset (running ((workers s)[i := Stopped])) = mset (running (workers s))"
      using running_update [OF Stop(2), of Stopped] Stop(3) by simp
    moreover from this have "set (running ((workers s)[i := Stopped])) = set (running (workers s))"
      by (metis set_mset_mset)
    moreover have "Died \<notin> set ((workers s)[i := Stopped])"
      using died set_update_subset_insert [of "workers s" i Stopped] by auto
    ultimately show ?thesis
      using k run fl brk inp(1) unfolding pool_inv_def in_flight_def Stop(1)
      by (intro conjI exI [of _ "[]"] exI [of _ k']) auto
  next
    case (Refuse i j rest)
    obtain todo' where t: "todo = j # todo'" "rest = todo' @ replicate k break_job"
      using take_first [OF inp(1) Refuse(4,5)] .
    show ?thesis
      using t run fl brk inp died Refuse unfolding pool_inv_def in_flight_def Refuse(1)
      by (intro conjI exI [of _ todo'] exI [of _ k]) (auto simp: ac_simps)
  next
    case (Skip i j rest)
    obtain todo' where t: "todo = j # todo'" "rest = todo' @ replicate k break_job"
      using take_first [OF inp(1) Skip(4,5)] .
    show ?thesis
      using t run fl brk inp died Skip unfolding pool_inv_def in_flight_def Skip(1)
      by (intro conjI exI [of _ todo'] exI [of _ k]) (auto simp: ac_simps)
  next
    case (Start i j rest)
    obtain todo' where t: "todo = j # todo'" "rest = todo' @ replicate k break_job"
      using take_first [OF inp(1) Start(4,5)] .
    let ?ws = "(workers s)[i := Running j]"
    have "alive ?ws = k"
      using alive_update [OF Start(2), of "Running j"] Start(3) inp(3) by simp
    moreover have r: "mset (running ?ws) = add_mset j (mset (running (workers s)))"
      using running_update [OF Start(2), of "Running j"] Start(3) by simp
    moreover from r have "set (running ?ws) = insert j (set (running (workers s)))"
      by (metis set_mset_mset set_mset_add_mset_insert)
    moreover have "Died \<notin> set ?ws"
      using died set_update_subset_insert [of "workers s" i "Running j"] by auto
    ultimately show ?thesis
      using t run fl brk inp Start unfolding pool_inv_def in_flight_def Start(1)
      by (intro conjI exI [of _ todo'] exI [of _ k]) (auto simp: ac_simps)
  next
    case (Finish i j cmd oc)
    let ?ws = "(workers s)[i := Waiting]"
    have "alive ?ws = k"
      using alive_update [OF Finish(2), of Waiting] Finish(3) inp(3) by simp
    moreover have r: "add_mset j (mset (running ?ws)) = mset (running (workers s))"
      using running_update [OF Finish(2), of Waiting] Finish(3) by simp
    moreover from r have "set (running (workers s)) = insert j (set (running ?ws))"
      by (metis set_mset_mset set_mset_add_mset_insert)
    moreover have "Died \<notin> set ?ws"
      using died set_update_subset_insert [of "workers s" i Waiting] by auto
    ultimately show ?thesis
      using run fl brk inp unfolding pool_inv_def in_flight_def Finish(1)
      by (intro conjI exI [of _ todo] exI [of _ k]) (auto simp: ac_simps simp flip: r)
  next
    case (Die i j e)
    then show ?thesis using worker_command_ok [OF assms(3)] by (metis sum.distinct(1))
  next
    case Interrupt
    then show ?thesis using assms(2) unfolding pool_inv_def in_flight_def by simp
  next
    case (Collect j rest)
    then show ?thesis using assms(2) unfolding pool_inv_def in_flight_def by (auto simp: ac_simps)
  qed
qed

section \<open>The pool comes to rest\<close>

text \<open>Every step, the interrupt included, makes this number smaller.\<close>

definition pool_measure :: "pool \<Rightarrow> nat" where
  "pool_measure s =
     3 * length (filter (\<lambda>j. \<not> is_break j) (input_queue s)) + length (filter is_break (input_queue s))
     + 2 * length (running (workers s)) + length (output_queue s) + (if thread_exit s then 0 else 1)"

lemma running_update_length:
  "i < length ws \<Longrightarrow> length (running (ws[i := w])) + length (running [ws ! i]) = length (running ws) + length (running [w])"
  using running_update [of i ws w] by (metis size_mset size_union)

lemma step_decreases: "pool_step cfg opts jobs s s' \<Longrightarrow> pool_measure s' < pool_measure s"
proof (induction rule: pool_step.induct)
  case (Stop i s j rest)
  then show ?case using running_update_length [of i "workers s" Stopped] by (simp add: pool_measure_def)
next
  case (Start i s j rest)
  then show ?case using running_update_length [of i "workers s" "Running j"] by (simp add: pool_measure_def)
next
  case (Finish i s j cmd oc)
  then show ?case using running_update_length [of i "workers s" Waiting] by (simp add: pool_measure_def)
next
  case (Die i s j e)
  then show ?case using running_update_length [of i "workers s" Died] by (simp add: pool_measure_def)
qed (simp_all add: pool_measure_def)

lemma running_Nil_iff: "running ws = [] \<longleftrightarrow> (\<forall>j. Running j \<notin> set ws)"
  by (induction ws rule: running.induct) auto

lemma alive_zero: "alive ws = 0 \<longleftrightarrow> set ws \<subseteq> {Stopped}"
  by (auto simp: alive_def filter_empty_conv)

text \<open>A state in which only the interrupt can still happen.\<close>

definition at_rest :: "config \<Rightarrow> worker_options \<Rightarrow> nat \<Rightarrow> pool \<Rightarrow> bool" where
  "at_rest cfg opts jobs s \<longleftrightarrow>
     (\<forall>s'. pool_step cfg opts jobs s s' \<longrightarrow> \<not> thread_exit s \<and> s' = s \<lparr> thread_exit := True \<rparr>)"

lemma rest_no_change:
  assumes "at_rest cfg opts jobs s" "pool_step cfg opts jobs s s'"
  shows "input_queue s' = input_queue s \<and> workers s' = workers s \<and> output_queue s' = output_queue s"
  using assms by (auto simp: at_rest_def)

lemma rest_no_waiting:
  assumes rest: "at_rest cfg opts jobs s" and i: "i < length (workers s)" "workers s ! i = Waiting"
    and inp: "input_queue s = j # q"
  shows False
proof -
  consider "is_break j" | "\<not> is_break j" "thread_exit s" | "\<not> is_break j" "\<not> thread_exit s" "is_skip j"
    | "\<not> is_break j" "\<not> thread_exit s" "\<not> is_skip j" by blast
  then obtain s' where s': "pool_step cfg opts jobs s s'" "input_queue s' = q"
  proof cases
    case 1
    from that [OF pool_step.Stop [OF i inp 1]] show thesis by simp
  next
    case 2
    from that [OF pool_step.Refuse [OF i inp 2]] show thesis by simp
  next
    case 3
    from that [OF pool_step.Skip [OF i inp 3]] show thesis by simp
  next
    case 4
    from that [OF pool_step.Start [OF i inp 4]] show thesis by simp
  qed
  have "input_queue s' = input_queue s" using rest_no_change [OF rest s'(1)] by blast
  then show False using inp s'(2) by simp
qed

lemma rest_no_running:
  assumes rest: "at_rest cfg opts jobs s" and i: "i < length (workers s)" "workers s ! i = Running j"
    and "PYTHON cfg \<noteq> []"
  shows False
proof -
  obtain cmd where "worker_command cfg opts j = Inr cmd" using worker_command_ok [OF assms(4)] by blast
  from rest_no_change [OF rest pool_step.Finish [OF i this]] show False by simp
qed

lemma rest_all_collected:
  assumes rest: "at_rest cfg opts (length js) s" and inv: "pool_inv js s"
    and py: "PYTHON cfg \<noteq> []" and ws: "workers s \<noteq> []"
  shows "set (workers s) \<subseteq> {Stopped} \<and> input_queue s = [] \<and> output_queue s = []
         \<and> mset (map ident (collected s)) = mset (map ident js)"
proof -
  obtain todo k where inp: "input_queue s = todo @ replicate k break_job" "k = alive (workers s)"
    "k < length (workers s) \<longrightarrow> todo = []" using inv unfolding pool_inv_def by blast
  have "w = Stopped" if w: "w \<in> set (workers s)" for w
  proof (rule ccontr)
    assume "w \<noteq> Stopped"
    then have "k \<noteq> 0" using alive_zero [of "workers s"] w inp(2) by auto
    then have "input_queue s \<noteq> []" using inp(1) by simp
    then obtain j q where "input_queue s = j # q" by (meson neq_Nil_conv)
    moreover obtain i where "i < length (workers s)" "workers s ! i = w" using w by (auto simp: in_set_conv_nth)
    moreover have "w \<noteq> Died" using w inv unfolding pool_inv_def by blast
    ultimately show False
      using rest_no_waiting [OF rest] rest_no_running [OF rest _ _ py] \<open>w \<noteq> Stopped\<close> by (cases w) metis+
  qed
  then have st: "set (workers s) \<subseteq> {Stopped}" by blast
  then have "alive (workers s) = 0" by (simp add: alive_zero)
  then have i0: "input_queue s = []" using inp ws by simp
  have r0: "running (workers s) = []" using st by (auto simp: running_Nil_iff)
  have fl: "image_mset ident (mset (output_queue s) + mset (collected s)) = image_mset ident (mset js)"
    using inv unfolding pool_inv_def in_flight_def by (simp add: i0 r0)
  have o0: "output_queue s = []"
  proof (cases "output_queue s")
    case (Cons j q)
    have "size (mset (output_queue s) + mset (collected s)) = size (mset js)"
      using arg_cong [OF fl, of size] by simp
    then have "length (collected s) < length js" using Cons by simp
    from rest_no_change [OF rest pool_step.Collect [OF Cons this]] Cons show ?thesis by simp
  qed
  then show ?thesis using st i0 fl by simp
qed

lemma steps_inv:
  assumes "pool_steps cfg opts jobs s s'" "pool_inv js s" "PYTHON cfg \<noteq> []"
  shows "pool_inv js s' \<and> length (workers s') = length (workers s)"
  using assms(1) unfolding pool_steps_def
proof (induction rule: rtranclp_induct)
  case base
  then show ?case using assms(2) by simp
next
  case (step s1 s2)
  then have "pool_inv js s2" using step_inv assms(3) by blast
  moreover have "length (workers s2) = length (workers s1)"
    using step(2) by cases simp_all
  ultimately show ?case using step.IH by simp
qed

text \<open>C1 Whatever the workers, the processes and an interrupt do, and in whatever order: a state that the
  program reaches after the dispatch holds every dispatched job exactly once, in the input queue, in
  a worker, in the output queue or collected, changed at most in its break flag, return code and time.\<close>

theorem pool_loses_no_job:
  assumes "PYTHON cfg \<noteq> []" "\<forall>j \<in> set js. \<not> is_break j"
    and "pool_steps cfg opts (length js) (start_pool n js) s"
  shows "mset (map ident (filter (\<lambda>j. \<not> is_break j) (input_queue s) @ running (workers s) @ output_queue s @ collected s))
         = mset (map ident js)"
  using steps_inv [OF assms(3) start_inv [OF assms(2)] assms(1)]
  by (simp add: pool_inv_def in_flight_def ac_simps)

definition sample_config :: config where
  "sample_config = \<lparr> NS3_BASEDIR = ''/ns3'', NS3_BUILDDIR = ''/ns3/build'', PYTHON = [''/usr/bin/python3''] \<rparr>"

definition sample_options :: worker_options where
  "sample_options = \<lparr> opt_valgrind = False, opt_update_data = False \<rparr>"

definition sample_job :: job where
  "sample_job = new_job \<lparr> shell_command := ''utils/test-runner'', display_name := ''core'' \<rparr>"

lemma sample_job_flags [simp]: "\<not> is_break sample_job" "\<not> is_skip sample_job"
  by (simp_all add: sample_job_def new_job_def)

lemma sample_run:
  "pool_steps sample_config sample_options 1 (start_pool 1 [sample_job])
     \<lparr> input_queue = [break_job], output_queue = [], workers = [Running sample_job],
       thread_exit = False, collected = [] \<rparr>"
proof -
  have "pool_step sample_config sample_options 1 (start_pool 1 [sample_job])
          ((start_pool 1 [sample_job]) \<lparr> input_queue := [break_job],
             workers := (workers (start_pool 1 [sample_job]))[0 := Running sample_job] \<rparr>)"
    by (rule pool_step.Start) (simp_all add: start_pool_def)
  then show ?thesis unfolding pool_steps_def by (intro r_into_rtranclp) (simp add: start_pool_def)
qed

lemma pool_loses_no_job_witness:
  "mset (map ident ([] @ running [Running sample_job] @ [] @ [])) = mset (map ident [sample_job])"
  using pool_loses_no_job [of sample_config "[sample_job]" sample_options 1
      "\<lparr> input_queue = [break_job], output_queue = [], workers = [Running sample_job],
         thread_exit = False, collected = [] \<rparr>"] sample_run
  by (simp add: sample_config_def)

text \<open>C2 With at least one worker, no schedule runs for ever, and none blocks before its end: when nothing
  but an interrupt can still happen, every worker has stopped on its break job, both queues are empty,
  and the main thread has collected exactly the dispatched jobs.\<close>

theorem pool_comes_to_rest:
  assumes "PYTHON cfg \<noteq> []" "\<forall>j \<in> set js. \<not> is_break j" "0 < n"
  shows "wfP (\<lambda>s' s. pool_step cfg opts (length js) s s')
    \<and> (\<forall>s. pool_steps cfg opts (length js) (start_pool n js) s \<and> at_rest cfg opts (length js) s \<longrightarrow>
         set (workers s) \<subseteq> {Stopped} \<and> input_queue s = [] \<and> output_queue s = []
         \<and> mset (map ident (collected s)) = mset (map ident js))"
proof (intro conjI allI impI)
  show "wfP (\<lambda>s' s. pool_step cfg opts (length js) s s')"
    by (rule wfp_if_convertible_to_nat [where f = pool_measure]) (rule step_decreases)
next
  fix s
  assume s: "pool_steps cfg opts (length js) (start_pool n js) s \<and> at_rest cfg opts (length js) s"
  then have inv: "pool_inv js s \<and> length (workers s) = length (workers (start_pool n js))"
    using steps_inv [OF _ start_inv [OF assms(2)] assms(1)] by blast
  then have "workers s \<noteq> []" using assms(3) by (auto simp: start_pool_def)
  then show "set (workers s) \<subseteq> {Stopped}" "input_queue s = []" "output_queue s = []"
    "mset (map ident (collected s)) = mset (map ident js)"
    using rest_all_collected [of cfg opts js s] s inv assms(1) by auto
qed

lemma pool_comes_to_rest_witness:
  "wfP (\<lambda>s' s. pool_step sample_config sample_options 1 s s')"
  using pool_comes_to_rest [of sample_config "[sample_job]" 1 sample_options]
  by (simp add: sample_config_def)

text \<open>Without an interrupt every collected job is a real result: a break job in the output comes only from
  the interrupt handler.\<close>

theorem break_results_need_interrupt:
  assumes "PYTHON cfg \<noteq> []" "\<forall>j \<in> set js. \<not> is_break j"
    and "pool_steps cfg opts (length js) (start_pool n js) s" "j \<in> set (collected s)" "is_break j"
  shows "thread_exit s"
  using steps_inv [OF assms(3) start_inv [OF assms(2)] assms(1)] assms(4,5)
  unfolding pool_inv_def by auto

lemma sample_interrupted:
  "pool_steps sample_config sample_options 1 (start_pool 1 [sample_job])
     \<lparr> input_queue = [break_job], output_queue = [], workers = [Waiting],
       thread_exit = True, collected = [sample_job \<lparr> is_break := True \<rparr>] \<rparr>"
proof -
  let ?s0 = "start_pool 1 [sample_job]"
  let ?s1 = "?s0 \<lparr> thread_exit := True \<rparr>"
  let ?s2 = "?s1 \<lparr> input_queue := [break_job], output_queue := output_queue ?s1 @ [sample_job \<lparr> is_break := True \<rparr>] \<rparr>"
  let ?s3 = "?s2 \<lparr> output_queue := [], collected := collected ?s2 @ [sample_job \<lparr> is_break := True \<rparr>] \<rparr>"
  have "pool_step sample_config sample_options 1 ?s0 ?s1"
    by (rule pool_step.Interrupt) (simp add: start_pool_def)
  moreover have "pool_step sample_config sample_options 1 ?s1 ?s2"
    by (rule pool_step.Refuse [of 0]) (simp_all add: start_pool_def)
  moreover have "pool_step sample_config sample_options 1 ?s2 ?s3"
    by (rule pool_step.Collect) (simp_all add: start_pool_def)
  ultimately have "pool_steps sample_config sample_options 1 ?s0 ?s3"
    unfolding pool_steps_def by (meson converse_rtranclp_into_rtranclp r_into_rtranclp)
  then show ?thesis by (simp add: start_pool_def)
qed

lemma break_results_need_interrupt_witness:
  "thread_exit \<lparr> input_queue = [break_job], output_queue = [], workers = [Waiting],
     thread_exit = True, collected = [sample_job \<lparr> is_break := True \<rparr>] \<rparr>"
  by (rule break_results_need_interrupt [of sample_config "[sample_job]" sample_options 1 _
        "sample_job \<lparr> is_break := True \<rparr>"])
    (use sample_interrupted in \<open>simp_all add: sample_config_def\<close>)

text \<open>
  Without a worker nothing is ever collected: \<open>--jobs=-1\<close> makes \<open>range(processors)\<close> empty, and the
  main thread waits for ever on the output queue.
\<close>

lemma no_worker_blocks:
  "at_rest cfg opts 1 (start_pool 0 [sample_job]) \<and> collected (start_pool 0 [sample_job]) = []"
  by (auto simp: at_rest_def start_pool_def pool_step_simps)

end
