(* ===== verification/Config_Files.thy ===== *)
theory Config_Files
  imports Py_Prelude
begin

text \<open>
  \<open>utils.py\<close>: reading a list or a boolean out of a Python configuration file, and the ns-3
  configuration file \<open>.ns3rc\<close>.  A file is the list of its lines, or nothing when it does not exist;
  the evaluation of the right-hand side is a parameter.
\<close>

section \<open>Lists and booleans\<close>

definition remove_comment :: "string \<Rightarrow> string" where
  "remove_comment line = takeWhile (\<lambda>c. c \<noteq> CHR 0x23) line"

definition eval_right :: "(string \<Rightarrow> 'v result) \<Rightarrow> string \<Rightarrow> 'v result" where
  "eval_right ev s = (case split_once CHR ''='' s of [_, rhs] \<Rightarrow> ev (strip rhs) | _ \<Rightarrow> Inl IndexError)"

fun list_lines :: "(string \<Rightarrow> 'a list result) \<Rightarrow> string \<Rightarrow> string list \<Rightarrow> string \<Rightarrow> bool \<Rightarrow> 'a list result" where
  "list_lines ev name [] list_string multiline = Inr []"
| "list_lines ev name (l # ls) list_string multiline =
     (let line = remove_comment l
      in if contains_str name line \<or> multiline then
           (let list_string' = list_string @ line
            in if CHR '']'' \<notin> set list_string' then list_lines ev name ls list_string' True
               else eval_right ev list_string')
         else list_lines ev name ls list_string multiline)"

definition get_list_from_file :: "(string \<Rightarrow> 'a list result) \<Rightarrow> string list option \<Rightarrow> string \<Rightarrow> 'a list result" where
  "get_list_from_file ev file list_name =
     (case file of None \<Rightarrow> Inr [] | Some ls \<Rightarrow> list_lines ev list_name ls [] False)"

fun bool_lines :: "(string \<Rightarrow> bool result) \<Rightarrow> string \<Rightarrow> string list \<Rightarrow> bool option result" where
  "bool_lines ev name [] = Inr None"
| "bool_lines ev name (l # ls) =
     (let line = remove_comment l
      in if contains_str name line then rbind (eval_right ev line) (\<lambda>b. Inr (Some b))
         else bool_lines ev name ls)"

text \<open>
  \<open>bool_found\<close> is set inside the branch for an existing file only, so that a missing file leaves the
  variable unset.
\<close>

definition get_bool_from_file :: "(string \<Rightarrow> bool result) \<Rightarrow> string list option \<Rightarrow> string \<Rightarrow> bool \<Rightarrow> bool result" where
  "get_bool_from_file ev file bool_name value_if_missing =
     (case file of
        None \<Rightarrow> Inl UnboundLocalError
      | Some ls \<Rightarrow>
          rbind (bool_lines ev bool_name ls) (\<lambda>found.
            Inr (case found of Some b \<Rightarrow> b | None \<Rightarrow> value_if_missing)))"

section \<open>The ns-3 configuration\<close>

record ns3rc =
  config_file_exists :: bool
  modules_enabled :: "string list"
  examples_enabled :: bool
  tests_enabled :: bool

definition default_ns3rc :: ns3rc where
  "default_ns3rc =
     \<lparr> config_file_exists = False, modules_enabled = [''all_modules''],
       examples_enabled = False, tests_enabled = False \<rparr>"

definition read_config_file ::
  "(string \<Rightarrow> string list result) \<Rightarrow> (string \<Rightarrow> bool result) \<Rightarrow> string list option \<Rightarrow> string list option
   \<Rightarrow> ns3rc result" where
  "read_config_file evl evb cwd_file home_file =
     (if cwd_file = None \<and> home_file = None then Inr default_ns3rc
      else
        (let file = (if cwd_file = None then home_file else cwd_file)
         in rbind (get_list_from_file evl file ''modules_enabled'') (\<lambda>mods.
            rbind (get_bool_from_file evb file ''examples_enabled'' False) (\<lambda>ex.
            rbind (get_bool_from_file evb file ''tests_enabled'' False) (\<lambda>ts.
              Inr \<lparr> config_file_exists = True,
                    modules_enabled = (if mods = [] then [''all_modules''] else mods),
                    examples_enabled = ex, tests_enabled = ts \<rparr>)))))"

section \<open>Properties\<close>

lemma list_lines_skip:
  assumes "\<forall>l \<in> set pre. \<not> contains_str name (remove_comment l)"
  shows "list_lines ev name (pre @ ls) [] False = list_lines ev name ls [] False"
  using assms by (induction pre) (auto simp: Let_def)

lemma list_lines_block:
  assumes "CHR '']'' \<notin> set (acc @ concat (map remove_comment block))" "CHR '']'' \<in> set (remove_comment l)"
  shows "list_lines ev name (block @ l # post) acc True
       = eval_right ev (acc @ concat (map remove_comment block) @ remove_comment l)"
  using assms by (induction block arbitrary: acc) (auto simp: Let_def)

text \<open>A list that starts at the first line naming it and runs over several lines, with comments, is read
  as the text of these lines without the comments, up to the first line with a closing bracket; the
  lines before and after it do not matter.\<close>

theorem get_list_multiline:
  assumes "\<forall>l \<in> set pre. \<not> contains_str name (remove_comment l)"
    and "block \<noteq> []" "contains_str name (remove_comment (hd block))"
    and "CHR '']'' \<notin> set (concat (map remove_comment (butlast block)))"
    and "CHR '']'' \<in> set (remove_comment (last block))"
  shows "get_list_from_file ev (Some (pre @ block @ post)) name
         = eval_right ev (concat (map remove_comment block))"
proof -
  obtain front l where block: "block = front @ [l]"
    using assms(2) by (metis append_butlast_last_id)
  have run: "get_list_from_file ev (Some (pre @ block @ post)) name = list_lines ev name (block @ post) [] False"
    using list_lines_skip [OF assms(1), of ev "block @ post"] by (simp add: get_list_from_file_def)
  show ?thesis
  proof (cases front)
    case Nil
    then show ?thesis using run assms(3,5) block by (simp add: Let_def)
  next
    case (Cons f fs)
    then have "list_lines ev name (block @ post) [] False
        = list_lines ev name (fs @ l # post) (remove_comment f) True"
      using assms(3,4) block by (simp add: Let_def)
    also have "\<dots> = eval_right ev (remove_comment f @ concat (map remove_comment fs) @ remove_comment l)"
      using assms(4,5) block Cons by (intro list_lines_block) auto
    finally show ?thesis using run block Cons by simp
  qed
qed

lemma get_list_multiline_witness:
  "get_list_from_file (\<lambda>s. Inr [s])
     (Some [''# modules_enabled'', ''modules_enabled = [1, # one'', '' 2]'', ''tail'']) ''modules_enabled''
   = Inr [''[1,  2]'']"
  using get_list_multiline [of "[''# modules_enabled'']" "''modules_enabled''"
      "[''modules_enabled = [1, # one'', '' 2]'']" "\<lambda>s. Inr [s]" "[''tail'']"]
  by code_simp

text \<open>\<open>get_bool_from_file\<close> returns the value of the first line that names the variable outside its
  comment, and the given default when an existing file has no such line; a missing file raises
  \<open>UnboundLocalError\<close> instead of giving the default.\<close>

theorem get_bool_cases:
  "get_bool_from_file ev src name missing =
   (case src of
      None \<Rightarrow> Inl UnboundLocalError
    | Some ls \<Rightarrow>
        (case find (\<lambda>l. contains_str name (remove_comment l)) ls of
           None \<Rightarrow> Inr missing
         | Some l \<Rightarrow> eval_right ev (remove_comment l)))"
proof (cases src)
  case (Some ls)
  have "rbind (bool_lines ev name ls) (\<lambda>found. Inr (case found of Some b \<Rightarrow> b | None \<Rightarrow> missing))
      = (case find (\<lambda>l. contains_str name (remove_comment l)) ls of
           None \<Rightarrow> Inr missing | Some l \<Rightarrow> eval_right ev (remove_comment l))"
    by (induction ls) (auto simp: Let_def rbind_def split: sum.splits)
  then show ?thesis by (simp add: get_bool_from_file_def Some)
qed (simp add: get_bool_from_file_def)

lemma get_bool_missing_file: "get_bool_from_file ev None name missing = Inl UnboundLocalError"
  by (simp add: get_bool_from_file_def)

text \<open>The configuration: without a file in either place the defaults are returned, a file in the working
  directory hides the one in the home directory, and reading an existing file never leaves a variable
  unset, since the only exceptions are those of the evaluation and a line without \<open>=\<close>.\<close>

theorem read_config_file_sources:
  "read_config_file evl evb None None = Inr default_ns3rc
   \<and> read_config_file evl evb (Some ls) home = read_config_file evl evb (Some ls) None
   \<and> read_config_file evl evb None (Some ls) = read_config_file evl evb (Some ls) None
   \<and> ((\<forall>s. evl s \<noteq> Inl UnboundLocalError) \<and> (\<forall>s. evb s \<noteq> Inl UnboundLocalError)
       \<longrightarrow> read_config_file evl evb cwd home \<noteq> Inl UnboundLocalError)"
proof (intro conjI impI)
  assume h: "(\<forall>s. evl s \<noteq> Inl UnboundLocalError) \<and> (\<forall>s. evb s \<noteq> Inl UnboundLocalError)"
  have r: "eval_right ev s \<noteq> Inl UnboundLocalError" if "\<forall>s. ev s \<noteq> Inl UnboundLocalError"
    for ev :: "string \<Rightarrow> 'v result" and s
    using that by (auto simp: eval_right_def split: list.splits)
  have l: "list_lines evl name ls acc m \<noteq> Inl UnboundLocalError" for name ls acc m
    using h r [of evl] by (induction evl name ls acc m rule: list_lines.induct) (auto simp: Let_def)
  have b: "get_bool_from_file evb (Some ls) name d \<noteq> Inl UnboundLocalError" for ls name d
    unfolding get_bool_cases using h r [of evb] by (auto split: option.splits)
  show "read_config_file evl evb cwd home \<noteq> Inl UnboundLocalError"
    using l b by (cases cwd; cases home)
      (auto simp: read_config_file_def get_list_from_file_def rbind_eq_Inl Let_def)
qed (auto simp: read_config_file_def Let_def)

lemma read_config_file_sources_witness:
  "read_config_file (\<lambda>s. Inr [s]) (\<lambda>s. Inr True) None None \<noteq> Inl UnboundLocalError"
  using read_config_file_sources [where evl = "\<lambda>s. Inr [s]" and evb = "\<lambda>s. Inr True" and cwd = None and home = None]
  by simp

end
