(* ===== verification/Py_Path.thy ===== *)
theory Py_Path
  imports Py_Prelude
begin

text \<open>The parts of \<open>os.path\<close> that normalise paths, which \<open>test.py\<close> and \<open>wutils.py\<close> use.\<close>

section \<open>Absolute and relative paths\<close>

text \<open>\<open>os.path.abspath\<close> and \<open>os.path.relpath\<close> for an absolute working directory.\<close>

definition norm_push :: "string list \<Rightarrow> string \<Rightarrow> string list" where
  "norm_push parts c = (if c = '''' \<or> c = ''.'' then parts else if c = ''..'' then butlast parts else parts @ [c])"

definition abs_parts :: "string \<Rightarrow> string \<Rightarrow> string list" where
  "abs_parts dir p = foldl norm_push [] (split_on CHR ''/'' (path_join dir p))"

definition abspath :: "string \<Rightarrow> string \<Rightarrow> string" where
  "abspath dir p = ''/'' @ join_with ''/'' (abs_parts dir p)"

fun drop_common :: "string list \<Rightarrow> string list \<Rightarrow> string list \<times> string list" where
  "drop_common (x # xs) (y # ys) = (if x = y then drop_common xs ys else (x # xs, y # ys))"
| "drop_common xs ys = (xs, ys)"

definition relpath :: "string \<Rightarrow> string \<Rightarrow> string \<Rightarrow> string" where
  "relpath dir p start =
     (case drop_common (abs_parts dir start) (abs_parts dir p) of
        (up, down) \<Rightarrow>
          (let parts = replicate (length up) ''..'' @ down in if parts = [] then ''.'' else join_with ''/'' parts))"

end
