(* ===== verification/Test_Setup.thy ===== *)
theory Test_Setup
  imports Test_Jobs Config_Files Py_Path
begin

text \<open>
  What \<open>test.py\<close> does before it dispatches jobs: the waf configuration, the library paths, the build
  command, and the lists of examples.  Files, directories and the evaluation of Python literals are
  parameters; a file is the list of its lines or nothing when it does not exist.
\<close>

section \<open>Options and configuration\<close>

record run_options = worker_options +
  o_buildpath :: string
  o_constrain :: string
  o_duration :: bool
  o_example :: string
  o_fullness :: string
  o_kinds :: bool
  o_list :: bool
  o_multiple :: bool
  o_nowaf :: bool
  o_pyexample :: string
  o_suite :: string
  o_process_limit :: int

record waf_config = config +
  APPNAME :: string
  VERSION :: string
  BUILD_PROFILE :: string
  NSC_ENABLED :: bool
  ENABLE_EXAMPLES :: bool
  ENABLE_TESTS :: bool
  VALGRIND_FOUND :: bool
  ENABLE_PYTHON_BINDINGS :: bool
  EXAMPLE_DIRECTORIES :: "string list"
  NS3_ENABLED_MODULES :: "string list"
  NS3_ENABLED_CONTRIBUTED_MODULES :: "string list"

definition core_kinds :: "string list" where
  "core_kinds = [''core'', ''performance'', ''system'', ''unit'']"

text \<open>The two directories in the lock file; a later line overrides an earlier one.\<close>

definition eval_assignment :: "(string \<Rightarrow> string result) \<Rightarrow> string \<Rightarrow> string result" where
  "eval_assignment ev line =
     (case split_on CHR ''='' line of [_, val] \<Rightarrow> ev (strip val) | _ \<Rightarrow> Inl ValueError)"

fun lock_lines :: "(string \<Rightarrow> string result) \<Rightarrow> string list \<Rightarrow> string option \<times> string option
    \<Rightarrow> (string option \<times> string option) result" where
  "lock_lines ev [] dirs = Inr dirs"
| "lock_lines ev (l # ls) (top_dir, out_dir) =
     (if startswith l ''top_dir ='' then
        rbind (eval_assignment ev l) (\<lambda>v. lock_lines ev ls (Some v, out_dir))
      else if startswith l ''out_dir ='' then
        rbind (eval_assignment ev l) (\<lambda>v. lock_lines ev ls (top_dir, Some v))
      else lock_lines ev ls (top_dir, out_dir))"

text \<open>
  The lock file of the platform, else that of Python 2 on Linux; the base and build directories.  The
  lines of the configuration cache that start with the name of an interesting item are executed,
  once for each such item.
\<close>

definition read_waf_dirs :: "(string \<Rightarrow> string result) \<Rightarrow> (string \<Rightarrow> string list option) \<Rightarrow> string
    \<Rightarrow> (string \<times> string) result" where
  "read_waf_dirs ev read_lines platform =
     (case (case read_lines (''.lock-waf_'' @ platform @ ''_build'') of
              None \<Rightarrow> read_lines ''.lock-waf_linux2_build'' | Some ls \<Rightarrow> Some ls) of
        None \<Rightarrow> Inl (sys_exit 2)
      | Some ls \<Rightarrow>
          rbind (lock_lines ev ls (None, None)) (\<lambda>dirs.
            case dirs of (Some top_dir, Some out_dir) \<Rightarrow> Inr (top_dir, out_dir)
                       | _ \<Rightarrow> Inl UnboundLocalError))"

definition executed_lines :: "string list \<Rightarrow> string list \<Rightarrow> string list" where
  "executed_lines items ls =
     concat (map (\<lambda>line. map (\<lambda>_. line) (filter (startswith line) items)) ls)"

section \<open>Library paths\<close>

definition path_variable :: "string \<Rightarrow> string \<times> string" where
  "path_variable platform =
     (if platform = ''darwin'' then (''DYLD_LIBRARY_PATH'', '':'')
      else if platform = ''win32'' then (''PATH'', '';'')
      else if platform = ''cygwin'' then (''PATH'', '':'')
      else (''LD_LIBRARY_PATH'', '':''))"

text \<open>
  The environment is a dictionary.  \<open>PYTHONPATH\<close> is assigned before it is extended, so that its old
  value is gone by then.
\<close>

definition make_paths :: "string \<Rightarrow> string \<Rightarrow> string list \<Rightarrow> (string, string) dict \<Rightarrow> (string, string) dict" where
  "make_paths platform builddir module_path env =
     (let have_pythonpath = ''PYTHONPATH'' \<in> set (dict_keys env);
          pypath = path_join (path_join builddir ''bindings'') ''python'';
          env1 = dict_set env ''PYTHONPATH'' pypath;
          env2 = (if \<not> have_pythonpath then dict_set env1 ''PYTHONPATH'' pypath
                  else dict_set env1 ''PYTHONPATH'' (the (dict_get env1 ''PYTHONPATH'') @ '':'' @ pypath));
          (name, sep) = path_variable platform;
          env3 = (if name \<notin> set (dict_keys env) then dict_set env2 name '''' else env2)
      in foldl (\<lambda>e p. dict_set e name (the (dict_get e name) @ sep @ p)) env3 module_path)"

section \<open>What to build\<close>

definition build_profile_suffix :: "'a waf_config_scheme \<Rightarrow> string" where
  "build_profile_suffix waf = (if BUILD_PROFILE waf = ''release'' then '''' else ''-'' @ BUILD_PROFILE waf)"

definition program_name :: "'a waf_config_scheme \<Rightarrow> string \<Rightarrow> string" where
  "program_name waf name = APPNAME waf @ VERSION waf @ ''-'' @ name @ build_profile_suffix waf"

definition waf_command :: "'a run_options_scheme \<Rightarrow> string" where
  "waf_command opts =
     (if o_kinds opts \<or> o_list opts \<or> (o_constrain opts \<noteq> [] \<and> o_constrain opts \<in> set core_kinds) then
        ''./waf --target=test-runner''
      else if o_example opts \<noteq> [] then ''./waf --target='' @ path_basename (o_example opts)
      else ''./waf'')"

definition program_dictionary :: "string list \<Rightarrow> (string, string) dict" where
  "program_dictionary programs = foldl (\<lambda>d p. dict_set d (path_basename p) p) [] programs"

section \<open>Examples to run\<close>

record example_lists =
  example_tests :: "(string \<times> string \<times> string \<times> string) list"
  example_names_original :: "string list"
  python_tests :: "(string \<times> string) list"

text \<open>The example name and its arguments, and the name with the arguments put back.\<close>

definition split_arguments :: "string \<Rightarrow> string \<times> string option" where
  "split_arguments name =
     (case split_once CHR '' '' name of [n, args] \<Rightarrow> (n, Some args) | _ \<Rightarrow> (name, None))"

definition with_arguments :: "string \<Rightarrow> string option \<Rightarrow> string" where
  "with_arguments p args = (case args of None \<Rightarrow> p | Some a \<Rightarrow> p @ '' '' @ a)"

definition add_cpp_example ::
  "'a waf_config_scheme \<Rightarrow> (string \<Rightarrow> bool) \<Rightarrow> string \<Rightarrow> string \<Rightarrow> string \<times> string \<times> string
   \<Rightarrow> example_lists \<Rightarrow> example_lists" where
  "add_cpp_example waf path_exists dir cpp_executable_dir ex st =
     (case ex of (name, do_run, do_valgrind_run) \<Rightarrow>
        (case split_arguments name of (base, args) \<Rightarrow>
           let example_path = path_join cpp_executable_dir (program_name waf base);
               example_name = path_join (relpath dir cpp_executable_dir (NS3_BUILDDIR waf)) base
           in if path_exists example_path then
                st \<lparr> example_tests := example_tests st @
                       [(with_arguments example_name args, with_arguments example_path args, do_run, do_valgrind_run)],
                     example_names_original := example_names_original st @ [name] \<rparr>
              else st))"

definition add_python_example ::
  "(string \<Rightarrow> bool) \<Rightarrow> string \<Rightarrow> string \<times> string \<Rightarrow> example_lists \<Rightarrow> example_lists" where
  "add_python_example path_exists python_script_dir ex st =
     (case ex of (name, do_run) \<Rightarrow>
        (case split_arguments name of (base, args) \<Rightarrow>
           let example_path = path_join python_script_dir base
           in if path_exists example_path then
                st \<lparr> python_tests := python_tests st @ [(with_arguments example_path args, do_run)] \<rparr>
              else st))"

text \<open>The file system and the evaluators of the two list literals, as far as the parser needs them.\<close>

record example_env =
  env_lines :: "string \<Rightarrow> string list option"
  env_exists :: "string \<Rightarrow> bool"
  env_cwd :: string
  env_eval3 :: "string \<Rightarrow> (string \<times> string \<times> string) list result"
  env_eval2 :: "string \<Rightarrow> (string \<times> string) list result"

definition parse_examples_to_run_file ::
  "'a waf_config_scheme \<Rightarrow> example_env \<Rightarrow> string \<Rightarrow> string \<Rightarrow> string \<Rightarrow> example_lists
   \<Rightarrow> example_lists result" where
  "parse_examples_to_run_file waf env examples_to_run_path cpp_executable_dir python_script_dir st =
     (case env_lines env examples_to_run_path of
        None \<Rightarrow> Inr st
      | Some ls \<Rightarrow>
          rbind (get_list_from_file (env_eval3 env) (Some ls) ''cpp_examples'') (\<lambda>cpp_examples.
          rbind (get_list_from_file (env_eval2 env) (Some ls) ''python_examples'') (\<lambda>python_examples.
            Inr (foldl (\<lambda>s ex. add_python_example (env_exists env) python_script_dir ex s)
                   (foldl (\<lambda>s ex. add_cpp_example waf (env_exists env) (env_cwd env) cpp_executable_dir ex s)
                      st cpp_examples)
                   python_examples))))"

definition module_places :: "string \<Rightarrow> string \<Rightarrow> string \<Rightarrow> string \<times> string \<times> string" where
  "module_places builddir root module =
     (let module_directory = path_join root (drop (length ''ns3-'') module);
          example_directory = path_join module_directory ''examples''
      in (path_join (path_join module_directory ''test'') ''examples-to-run.py'',
          path_join builddir example_directory, example_directory))"

definition example_places :: "'a waf_config_scheme \<Rightarrow> (string \<times> string \<times> string) list" where
  "example_places waf =
     map (\<lambda>directory.
            let example_directory = path_join ''examples'' directory
            in (path_join example_directory ''examples-to-run.py'',
                path_join (NS3_BUILDDIR waf) example_directory, example_directory))
       (EXAMPLE_DIRECTORIES waf)
     @ map (module_places (NS3_BUILDDIR waf) ''src'') (NS3_ENABLED_MODULES waf)
     @ map (module_places (NS3_BUILDDIR waf) ''contrib'') (NS3_ENABLED_CONTRIBUTED_MODULES waf)"

definition collect_examples :: "'a waf_config_scheme \<Rightarrow> example_env \<Rightarrow> example_lists result" where
  "collect_examples waf env =
     rfold (\<lambda>(path, exe_dir, script_dir). parse_examples_to_run_file waf env path exe_dir script_dir)
       (example_places waf) \<lparr> example_tests = [], example_names_original = [], python_tests = [] \<rparr>"

section \<open>Properties\<close>

lemma with_split_arguments: "split_arguments name = (n, args) \<Longrightarrow> with_arguments n args = name"
proof -
  assume split: "split_arguments name = (n, args)"
  show ?thesis
  proof (cases "CHR '' '' \<in> set name")
    case False
    with split show ?thesis by (auto simp: split_arguments_def split_once_def with_arguments_def)
  next
    case True
    then obtain a b where ab: "name = a @ CHR '' '' # b" "CHR '' '' \<notin> set a"
      using split_list_first by metis
    then have "takeWhile (\<lambda>x. x \<noteq> CHR '' '') name = a" "dropWhile (\<lambda>x. x \<noteq> CHR '' '') name = CHR '' '' # b"
      by (auto simp: takeWhile_append dropWhile_append)
    with split ab show ?thesis by (auto simp: split_arguments_def split_once_def with_arguments_def)
  qed
qed

text \<open>The entries in the lists, and when an example is there.\<close>

definition cpp_path :: "'a waf_config_scheme \<Rightarrow> string \<Rightarrow> string \<Rightarrow> string" where
  "cpp_path waf exe name = path_join exe (program_name waf (fst (split_arguments name)))"

definition cpp_entry :: "'a waf_config_scheme \<Rightarrow> string \<Rightarrow> string \<Rightarrow> string \<times> string \<times> string
    \<Rightarrow> string \<times> string \<times> string \<times> string" where
  "cpp_entry waf dir exe ex =
     (let (base, args) = split_arguments (fst ex)
      in (with_arguments (path_join (relpath dir exe (NS3_BUILDDIR waf)) base) args,
          with_arguments (cpp_path waf exe (fst ex)) args, snd ex))"

definition python_path :: "string \<Rightarrow> string \<Rightarrow> string" where
  "python_path scripts name = path_join scripts (fst (split_arguments name))"

definition python_entry :: "string \<Rightarrow> string \<times> string \<Rightarrow> string \<times> string" where
  "python_entry scripts ex =
     (with_arguments (python_path scripts (fst ex)) (snd (split_arguments (fst ex))), snd ex)"

lemma add_cpp_cases:
  "add_cpp_example waf ex_p dir exe ex st =
   (if ex_p (cpp_path waf exe (fst ex)) then
      st \<lparr> example_tests := example_tests st @ [cpp_entry waf dir exe ex],
           example_names_original := example_names_original st @ [fst ex] \<rparr>
    else st)"
  by (cases ex; cases "split_arguments (fst ex)")
    (simp add: add_cpp_example_def cpp_path_def cpp_entry_def Let_def)

lemma add_python_cases:
  "add_python_example ex_p scripts ex st =
   (if ex_p (python_path scripts (fst ex)) then
      st \<lparr> python_tests := python_tests st @ [python_entry scripts ex] \<rparr>
    else st)"
  by (cases ex; cases "split_arguments (fst ex)")
    (simp add: add_python_example_def python_path_def python_entry_def Let_def)

lemma cpp_foldl:
  "foldl (\<lambda>s ex. add_cpp_example waf ex_p dir exe ex s) st xs =
   (let built = filter (\<lambda>ex. ex_p (cpp_path waf exe (fst ex))) xs
    in st \<lparr> example_tests := example_tests st @ map (cpp_entry waf dir exe) built,
            example_names_original := example_names_original st @ map fst built \<rparr>)"
  by (induction xs arbitrary: st) (simp_all add: add_cpp_cases Let_def)

lemma python_foldl:
  "foldl (\<lambda>s ex. add_python_example ex_p scripts ex s) st xs =
   st \<lparr> python_tests := python_tests st @
          map (python_entry scripts) (filter (\<lambda>ex. ex_p (python_path scripts (fst ex))) xs) \<rparr>"
  by (induction xs arbitrary: st) (simp_all add: add_python_cases)

text \<open>Parsing an examples-to-run file appends, in file order, exactly the C++ examples whose program was
  built and the Python examples whose script exists, each with its arguments, and touches nothing
  else; without the file nothing changes.\<close>

theorem examples_to_run_exact:
  "parse_examples_to_run_file waf env path exe scripts st =
   (if env_lines env path = None then Inr st
    else
      rbind (get_list_from_file (env_eval3 env) (env_lines env path) ''cpp_examples'') (\<lambda>cpp.
      rbind (get_list_from_file (env_eval2 env) (env_lines env path) ''python_examples'') (\<lambda>py.
        let built = filter (\<lambda>ex. env_exists env (cpp_path waf exe (fst ex))) cpp;
            present = filter (\<lambda>ex. env_exists env (python_path scripts (fst ex))) py
        in Inr \<lparr> example_tests = example_tests st @ map (cpp_entry waf (env_cwd env) exe) built,
                 example_names_original = example_names_original st @ map fst built,
                 python_tests = python_tests st @ map (python_entry scripts) present \<rparr>)))"
proof (cases "env_lines env path")
  case (Some ls)
  show ?thesis
    unfolding parse_examples_to_run_file_def Some cpp_foldl python_foldl Let_def
    by (cases st) simp
qed (simp add: parse_examples_to_run_file_def)

definition library_path_value :: "string \<Rightarrow> string \<Rightarrow> string list \<Rightarrow> string" where
  "library_path_value old sep module_path = old @ concat (map (\<lambda>p. sep @ p) module_path)"

lemma foldl_path:
  assumes "dict_get env name = Some old"
  shows "dict_get (foldl (\<lambda>e p. dict_set e name (the (dict_get e name) @ sep @ p)) env ps) k =
     (if k = name then Some (library_path_value old sep ps) else dict_get env k)"
  using assms
proof (induction ps arbitrary: env old)
  case Nil
  then show ?case by (simp add: library_path_value_def)
next
  case (Cons p ps)
  let ?e = "dict_set env name (the (dict_get env name) @ sep @ p)"
  have "dict_get ?e name = Some (old @ sep @ p)" using Cons.prems by simp
  from Cons.IH [OF this] show ?case by (simp add: library_path_value_def)
qed

text \<open>The build and module paths end up in the library search path of the platform, after its old value;
  the old value of \<open>PYTHONPATH\<close> is lost: the variable becomes the bindings path, written twice when it
  was set before.\<close>

theorem make_paths_variables:
  "dict_get (make_paths platform builddir module_path env) k =
   (let (name, sep) = path_variable platform;
        pypath = path_join (path_join builddir ''bindings'') ''python''
    in if k = name then Some (library_path_value (case dict_get env name of None \<Rightarrow> '''' | Some v \<Rightarrow> v) sep module_path)
       else if k = ''PYTHONPATH'' then
         Some (if dict_get env k = None then pypath else pypath @ '':'' @ pypath)
       else dict_get env k)"
proof -
  obtain name sep where pv: "path_variable platform = (name, sep)" by fastforce
  have ne: "name \<noteq> ''PYTHONPATH''"
    using pv by (auto simp: path_variable_def split: if_splits)
  let ?py = "path_join (path_join builddir ''bindings'') ''python''"
  let ?old = "case dict_get env name of None \<Rightarrow> '''' | Some v \<Rightarrow> v"
  define e1 where "e1 = dict_set env ''PYTHONPATH'' ?py"
  define e2 where "e2 = (if \<not> ''PYTHONPATH'' \<in> set (dict_keys env) then dict_set e1 ''PYTHONPATH'' ?py
             else dict_set e1 ''PYTHONPATH'' (the (dict_get e1 ''PYTHONPATH'') @ '':'' @ ?py))"
  define e3 where "e3 = (if name \<notin> set (dict_keys env) then dict_set e2 name '''' else e2)"
  have e2: "dict_get e2 j = (if j = ''PYTHONPATH'' then
        Some (if dict_get env j = None then ?py else ?py @ '':'' @ ?py) else dict_get env j)" for j
    by (simp add: e1_def e2_def dict_get_None_iff)
  have e3: "dict_get e3 j = (if j = name then Some ?old else dict_get e2 j)" for j
  proof (cases "dict_get env name")
    case None
    then have "name \<notin> set (dict_keys env)" by (simp only: dict_get_None_iff) simp
    then show ?thesis using None by (simp add: e3_def)
  next
    case (Some v)
    then have "name \<in> set (dict_keys env)" by (rule dict_get_Some_key)
    then show ?thesis using Some ne e2 [of name] by (simp add: e3_def)
  qed
  have mk: "make_paths platform builddir module_path env
      = foldl (\<lambda>e p. dict_set e name (the (dict_get e name) @ sep @ p)) e3 module_path"
    unfolding make_paths_def Let_def pv case_prod_conv e1_def e2_def e3_def by (rule refl)
  have "dict_get e3 name = Some ?old" by (simp only: e3) simp
  from foldl_path [OF this, of sep module_path k] show ?thesis
    unfolding mk Let_def pv case_prod_conv by (simp only: e3 e2) simp
qed

lemma python_path_lost:
  "dict_get (make_paths ''linux'' ''/b'' [] [(''PYTHONPATH'', ''/mine'')]) ''PYTHONPATH''
   = Some ''/b/bindings/python:/b/bindings/python''"
  by code_simp

end
