(* ===== verification/Test_Run.thy ===== *)
theory Test_Run
  imports Test_Setup "HOL-Library.Char_ord" "HOL-Library.List_Lexorder"
begin

text \<open>
  The main function of \<open>test.py\<close>: the choice of the suites, the jobs it dispatches, the loop that
  turns the collected jobs into counts, names and XML, the summary and the exit status.  What the
  test runner prints, the evaluation of the conditions and the contents of the temporary result
  files are parameters.
\<close>

section \<open>File name patterns\<close>

text \<open>\<open>fnmatch\<close>: the text between brackets, its characters and ranges, and the match of a pattern.\<close>

fun split_class :: "string \<Rightarrow> string \<Rightarrow> (string \<times> string) option" where
  "split_class acc [] = None"
| "split_class acc (c # p) = (if c = CHR '']'' \<and> acc \<noteq> '''' \<and> acc \<noteq> ''!'' then Some (acc, p)
                              else split_class (acc @ [c]) p)"

fun in_class :: "string \<Rightarrow> char \<Rightarrow> bool" where
  "in_class (a # m # b # cs) c =
     (if m = CHR ''-'' then (a \<le> c \<and> c \<le> b) \<or> in_class cs c else a = c \<or> in_class (m # b # cs) c)"
| "in_class cs c = (c \<in> set cs)"

lemma split_class_length: "split_class acc p = Some (cls, rest) \<Longrightarrow> length rest < length p"
  by (induction acc p rule: split_class.induct) (auto split: if_splits)

function glob :: "string \<Rightarrow> string \<Rightarrow> bool" where
  "glob [] s = (s = [])"
| "glob (p # ps) s =
     (if p = CHR ''*'' then
        (glob ps s \<or> (case s of [] \<Rightarrow> False | _ # t \<Rightarrow> glob (p # ps) t))
      else
        (case s of
           [] \<Rightarrow> False
         | c # t \<Rightarrow>
             if p = CHR ''?'' then glob ps t
             else if p = CHR ''['' then
               (case split_class [] ps of
                  None \<Rightarrow> c = p \<and> glob ps t
                | Some (cls, rest) \<Rightarrow>
                    (if take 1 cls = ''!'' then \<not> in_class (drop 1 cls) c else in_class cls c) \<and> glob rest t)
             else c = p \<and> glob ps t))"
  by pat_completeness auto

termination
  by (relation "measure (\<lambda>(p, s). length p + length s)") (auto dest: split_class_length)

declare glob.simps(2) [simp del]

definition fnmatch_filter :: "string list \<Rightarrow> string \<Rightarrow> string list" where
  "fnmatch_filter names pat = filter (glob pat) names"

text \<open>A pattern without special characters matches itself only.\<close>

lemma glob_literal:
  assumes "set pat \<inter> set ''*?['' = {}"
  shows "glob pat s \<longleftrightarrow> s = pat"
  using assms
proof (induction pat arbitrary: s)
  case (Cons p ps)
  then show ?case by (cases s) (auto simp: glob.simps(2))
qed simp

section \<open>Choosing the suites\<close>

definition list_tests_command :: "'a waf_config_scheme \<Rightarrow> string \<Rightarrow> string" where
  "list_tests_command waf kind =
     path_join ''utils'' (program_name waf ''test-runner'' @ '' --print-test-name-list''
       @ (if kind = [] then '''' else '' --test-type='' @ kind))"

text \<open>The suite list, and whether one specific suite was requested; the query runs the test runner.\<close>

definition select_suites :: "(string \<Rightarrow> string) \<Rightarrow> 'a waf_config_scheme \<Rightarrow> 'b run_options_scheme
    \<Rightarrow> (bool \<times> string list) result" where
  "select_suites query waf opts =
     (if o_suite opts \<noteq> [] then
        (let found = fnmatch_filter (split_on CHR 0x0A (query (list_tests_command waf ''''))) (o_suite opts)
         in if found = [] then Inl (sys_exit 2)
            else Inr (length found = 1, split_on CHR 0x0A (join_with newline found)))
      else if o_example opts = [] \<and> o_pyexample opts = [] then
        Inr (False, split_on CHR 0x0A (query (list_tests_command waf (o_constrain opts))))
      else Inr (False, ['''']))"

definition remove_performance :: "string list \<Rightarrow> string list \<Rightarrow> string list" where
  "remove_performance performance_test_list suite_list =
     foldl (\<lambda>sl p. if p \<in> set sl then remove1 p sl else sl) suite_list performance_test_list"

definition suites_to_run :: "(string \<Rightarrow> string) \<Rightarrow> 'a waf_config_scheme \<Rightarrow> 'b run_options_scheme
    \<Rightarrow> string list result" where
  "suites_to_run query waf opts =
     rbind (select_suites query waf opts) (\<lambda>(single_suite, suite_list).
       Inr (if \<not> single_suite \<and> o_constrain opts \<noteq> ''performance'' then
              remove_performance (split_on CHR 0x0A (query (list_tests_command waf ''performance''))) suite_list
            else suite_list))"

definition worker_count :: "int \<Rightarrow> int \<Rightarrow> int" where
  "worker_count processors process_limit =
     (if process_limit \<noteq> 0 then (if processors < process_limit then processors else process_limit)
      else processors)"

section \<open>Dispatching\<close>

definition core_valgrind_skip_tests :: "string list" where
  "core_valgrind_skip_tests =
     [''ns3-tcp-cwnd'', ''nsc-tcp-loss'', ''ns3-tcp-interoperability'', ''routing-click'',
      ''lte-rr-ff-mac-scheduler'', ''lte-tdmt-ff-mac-scheduler'', ''lte-fdmt-ff-mac-scheduler'',
      ''lte-pf-ff-mac-scheduler'', ''lte-tta-ff-mac-scheduler'', ''lte-fdbet-ff-mac-scheduler'',
      ''lte-ttbet-ff-mac-scheduler'', ''lte-fdtbfq-ff-mac-scheduler'', ''lte-tdtbfq-ff-mac-scheduler'',
      ''lte-pss-ff-mac-scheduler'']"

definition core_nsc_missing_skip_tests :: "string list" where
  "core_nsc_missing_skip_tests = [''ns3-tcp-cwnd'', ''nsc-tcp-loss'', ''ns3-tcp-interoperability'']"

definition skip_job :: "string \<Rightarrow> job \<Rightarrow> job" where
  "skip_job reason j = j \<lparr> is_skip := True, skip_reason := reason \<rparr>"

text \<open>The directories of a run: the working directory and that for the output of this run.\<close>

record run_dirs =
  d_cwd :: string
  d_output :: string

definition suite_job :: "'a waf_config_scheme \<Rightarrow> 'b run_options_scheme \<Rightarrow> run_dirs \<Rightarrow> string \<Rightarrow> job" where
  "suite_job waf opts dirs test =
     (let multiple = (if o_multiple opts then '''' else '' --stop-on-failure'');
          fullness = (if o_fullness opts \<noteq> [] then '' --fullness='' @ map upper_char (o_fullness opts)
                      else '' --fullness=QUICK'');
          job = new_job \<lparr> display_name := test,
                  tmp_file_name := path_join (d_output dirs) (test @ ''.xml''),
                  cwd := d_cwd dirs, basedir := d_cwd dirs, tempdir := d_output dirs,
                  shell_command := path_join ''utils''
                    (program_name waf ''test-runner'' @ '' --test-name='' @ test @ multiple @ fullness) \<rparr>;
          job1 = (if opt_valgrind opts \<and> test \<in> set core_valgrind_skip_tests then skip_job ''crashes valgrind'' job
                  else job)
      in if \<not> NSC_ENABLED waf \<and> test \<in> set core_nsc_missing_skip_tests then skip_job ''requires NSC'' job1
         else job1)"

definition suite_jobs :: "'a waf_config_scheme \<Rightarrow> 'b run_options_scheme \<Rightarrow> run_dirs \<Rightarrow> string list \<Rightarrow> job list" where
  "suite_jobs waf opts dirs suite_list =
     map (suite_job waf opts dirs) (filter (\<lambda>t. t \<noteq> []) (map strip suite_list))"

text \<open>The base name of the program of a command line.\<close>

definition command_base :: "string \<Rightarrow> string" where
  "command_base c = path_basename (hd (split_once CHR '' '' c))"

definition example_job :: "run_dirs \<Rightarrow> string \<Rightarrow> string \<Rightarrow> string \<Rightarrow> job" where
  "example_job dirs name command build =
     new_job \<lparr> is_example := True, display_name := name, cwd := d_output dirs, basedir := d_cwd dirs,
               tempdir := d_output dirs, shell_command := command, build_path := build \<rparr>"

definition pyexample_job :: "run_dirs \<Rightarrow> string \<Rightarrow> job" where
  "pyexample_job dirs command =
     new_job \<lparr> is_pyexample := True, display_name := command, cwd := d_output dirs, basedir := d_cwd dirs,
               tempdir := d_output dirs, shell_command := command, build_path := '''' \<rparr>"

definition nothing_selected :: "'b run_options_scheme \<Rightarrow> bool" where
  "nothing_selected opts \<longleftrightarrow> o_suite opts = [] \<and> o_example opts = [] \<and> o_pyexample opts = []"

definition listed_example_jobs ::
  "(string \<Rightarrow> bool result) \<Rightarrow> 'b run_options_scheme \<Rightarrow> run_dirs \<Rightarrow> (string, string) dict
   \<Rightarrow> (string \<times> string \<times> string \<times> string) list \<Rightarrow> job list result" where
  "listed_example_jobs ev opts dirs programs examples =
     rbind (rmap (\<lambda>(name, test, do_run, do_valgrind_run).
              if command_base test \<in> set (dict_keys programs) then
                rbind (ev do_run) (\<lambda>run.
                  if \<not> run then Inr []
                  else if opt_valgrind opts then
                    rbind (ev do_valgrind_run) (\<lambda>vrun.
                      Inr [(if vrun then id else skip_job ''skip in valgrind runs'')
                             (example_job dirs name test (o_buildpath opts))])
                  else Inr [example_job dirs name test (o_buildpath opts)])
              else Inr []) examples)
       (\<lambda>js. Inr (concat js))"

definition example_jobs ::
  "(string \<Rightarrow> bool result) \<Rightarrow> 'a waf_config_scheme \<Rightarrow> 'b run_options_scheme \<Rightarrow> run_dirs
   \<Rightarrow> (string, string) dict \<Rightarrow> (string \<times> string \<times> string \<times> string) list \<Rightarrow> job list result" where
  "example_jobs ev waf opts dirs programs examples =
     (if nothing_selected opts then
        (if (o_constrain opts = [] \<or> o_constrain opts = ''example'') \<and> ENABLE_EXAMPLES waf then
           listed_example_jobs ev opts dirs programs examples
         else Inr [])
      else if o_example opts \<noteq> [] then
        Inr (map (\<lambda>key. let p = abspath (d_cwd dirs) (the (dict_get programs key))
                        in example_job dirs p p (o_buildpath opts))
               (fnmatch_filter (dict_keys programs) (program_name waf (o_example opts))))
      else Inr [])"

definition listed_pyexample_jobs ::
  "(string \<Rightarrow> bool result) \<Rightarrow> 'a waf_config_scheme \<Rightarrow> 'b run_options_scheme \<Rightarrow> run_dirs \<Rightarrow> string list
   \<Rightarrow> (string \<times> string) list \<Rightarrow> job list result" where
  "listed_pyexample_jobs ev waf opts dirs scripts examples =
     rbind (rmap (\<lambda>(test, do_run).
              if command_base test \<in> set scripts then
                rbind (ev do_run) (\<lambda>run.
                  if run then
                    (let job = pyexample_job dirs test;
                         job1 = (if opt_valgrind opts then skip_job ''skip in valgrind runs'' job else job)
                     in Inr [if \<not> ENABLE_PYTHON_BINDINGS waf then skip_job ''requires Python bindings'' job1
                             else job1])
                  else Inr [])
              else Inr []) examples)
       (\<lambda>js. Inr (concat js))"

definition pyexample_jobs ::
  "(string \<Rightarrow> bool result) \<Rightarrow> 'a waf_config_scheme \<Rightarrow> 'b run_options_scheme \<Rightarrow> run_dirs \<Rightarrow> string list
   \<Rightarrow> (string \<times> string) list \<Rightarrow> job list result" where
  "pyexample_jobs ev waf opts dirs scripts examples =
     (if nothing_selected opts then
        (if (o_constrain opts = [] \<or> o_constrain opts = ''pyexample'') \<and> ENABLE_EXAMPLES waf then
           listed_pyexample_jobs ev waf opts dirs scripts examples
         else Inr [])
      else if o_pyexample opts \<noteq> [] \<and> path_basename (o_pyexample opts) \<in> set scripts then
        Inr [pyexample_job dirs (o_pyexample opts)]
      else Inr [])"

text \<open>The job queue of a run, without the break jobs.\<close>

record run_inputs =
  in_query :: "string \<Rightarrow> string"
  in_eval :: "string \<Rightarrow> bool result"
  in_programs :: "string list"
  in_scripts :: "string list"
  in_examples :: example_lists

definition dispatch :: "'a waf_config_scheme \<Rightarrow> 'b run_options_scheme \<Rightarrow> run_dirs \<Rightarrow> run_inputs \<Rightarrow> job list result" where
  "dispatch waf opts dirs inp =
     rbind (suites_to_run (in_query inp) waf opts) (\<lambda>suite_list.
     rbind (example_jobs (in_eval inp) waf opts dirs (program_dictionary (in_programs inp))
              (example_tests (in_examples inp))) (\<lambda>examples.
     rbind (pyexample_jobs (in_eval inp) waf opts dirs (in_scripts inp) (python_tests (in_examples inp)))
       (\<lambda>pyexamples. Inr (suite_jobs waf opts dirs suite_list @ examples @ pyexamples))))"

section \<open>Collecting the results\<close>

datatype status = PASS | FAIL | VALGR | CRASH | SKIP

fun status_word :: "status \<Rightarrow> string" where
  "status_word PASS = ''PASS''"
| "status_word FAIL = ''FAIL''"
| "status_word VALGR = ''VALGR''"
| "status_word CRASH = ''CRASH''"
| "status_word SKIP = ''SKIP''"

definition status_of :: "job \<Rightarrow> status" where
  "status_of j =
     (if is_skip j then SKIP
      else if returncode j = 0 then PASS
      else if returncode j = 1 then FAIL
      else if returncode j = 2 then VALGR
      else CRASH)"

record tally =
  passed_tests :: nat
  failed_tests :: nat
  failed_testnames :: "string list"
  crashed_tests :: nat
  crashed_testnames :: "string list"
  valgrind_errors :: nat
  valgrind_testnames :: "string list"
  skipped_tests :: nat
  skipped_testnames :: "string list"
  console :: "string list"
  results_xml :: "string list"

text \<open>The results file starts with its head, which is written before the dispatch.\<close>

definition new_tally :: tally where
  "new_tally =
     \<lparr> passed_tests = 0, failed_tests = 0, failed_testnames = [], crashed_tests = 0,
       crashed_testnames = [], valgrind_errors = 0, valgrind_testnames = [], skipped_tests = 0,
       skipped_testnames = [], console = [],
       results_xml = [''<?xml version='' @ quote @ ''1.0'' @ quote @ ''?>'' @ newline, ''<Results>'' @ newline] \<rparr>"

fun count_status :: "status \<Rightarrow> job \<Rightarrow> tally \<Rightarrow> tally" where
  "count_status SKIP j t =
     t \<lparr> skipped_tests := skipped_tests t + 1,
         skipped_testnames := skipped_testnames t @ [display_name j @ '' ('' @ skip_reason j @ '')''] \<rparr>"
| "count_status PASS j t = t \<lparr> passed_tests := passed_tests t + 1 \<rparr>"
| "count_status FAIL j t =
     t \<lparr> failed_tests := failed_tests t + 1, failed_testnames := failed_testnames t @ [display_name j] \<rparr>"
| "count_status VALGR j t =
     t \<lparr> valgrind_errors := valgrind_errors t + 1, valgrind_testnames := valgrind_testnames t @ [display_name j] \<rparr>"
| "count_status CRASH j t =
     t \<lparr> crashed_tests := crashed_tests t + 1, crashed_testnames := crashed_testnames t @ [display_name j] \<rparr>"

text \<open>\<open>'%.3f'\<close> of a time in milliseconds, and the colours of the statuses.\<close>

definition pad3 :: "string \<Rightarrow> string" where
  "pad3 s = replicate (3 - length s) CHR ''0'' @ s"

definition fmt_time :: "int \<Rightarrow> string" where
  "fmt_time ms =
     (let a = nat \<bar>ms\<bar> in (if ms < 0 then ''-'' else '''') @ nat_str (a div 1000) @ ''.'' @ pad3 (nat_str (a mod 1000)))"

fun status_color :: "status \<Rightarrow> string" where
  "status_color SKIP = CHR 0x1B # ''[37m''"
| "status_color PASS = CHR 0x1B # ''[32m''"
| "status_color FAIL = CHR 0x1B # ''[01;31m''"
| "status_color VALGR = CHR 0x1B # ''[36m''"
| "status_color CRASH = CHR 0x1B # ''[35m''"

definition status_print :: "bool \<Rightarrow> status \<Rightarrow> string" where
  "status_print use_color st =
     (if use_color then status_color st @ status_word st @ CHR 0x1B # ''[0m'' else status_word st)"

definition progress_line :: "bool \<Rightarrow> 'b run_options_scheme \<Rightarrow> nat \<Rightarrow> tally \<Rightarrow> status \<Rightarrow> job \<Rightarrow> string" where
  "progress_line use_color opts total_tests t st j =
     (let kind = (if is_example j \<or> is_pyexample j then ''Example'' else ''TestSuite'')
      in ''['' @ nat_str (passed_tests t + failed_tests t + skipped_tests t + crashed_tests t) @ ''/''
         @ nat_str total_tests @ ''] '' @ status_print use_color st
         @ (if o_duration opts \<or> o_constrain opts = ''performance''
            then '' ('' @ fmt_time (elapsed_time j) @ '')'' else '''')
         @ '': '' @ kind @ '' '' @ display_name j)"

definition example_xml :: "status \<Rightarrow> job \<Rightarrow> string list" where
  "example_xml st j =
     [''<Example>'' @ newline, ''  <Name>'' @ display_name j @ ''</Name>'' @ newline,
      ''  <Result>'' @ status_word st @ ''</Result>'' @ newline,
      ''  <Time real='' @ quote @ fmt_time (elapsed_time j) @ quote @ ''/>'' @ newline,
      ''</Example>'' @ newline]"

definition suite_xml :: "(string \<Rightarrow> string option) \<Rightarrow> job \<Rightarrow> string list result" where
  "suite_xml read_file j =
     (if is_skip j then
        Inr [''<Test>'' @ newline, ''  <Name>'' @ display_name j @ ''</Name>'' @ newline,
             ''  <Result>SKIP</Result>'' @ newline, ''  <Reason>'' @ skip_reason j @ ''</Reason>'' @ newline,
             ''</Test>'' @ newline]
      else if returncode j = 0 \<or> returncode j = 1 \<or> returncode j = 2 then
        (case read_file (tmp_file_name j) of
           None \<Rightarrow> Inl (OtherError ''FileNotFoundError'')
         | Some text \<Rightarrow> Inr [text])
      else
        Inr [''<Test>'' @ newline, ''  <Name>'' @ display_name j @ ''</Name>'' @ newline,
             ''  <Result>CRASH</Result>'' @ newline, ''</Test>'' @ newline])"

definition collect_one ::
  "bool \<Rightarrow> 'b run_options_scheme \<Rightarrow> (string \<Rightarrow> string option) \<Rightarrow> nat \<Rightarrow> job \<Rightarrow> tally \<Rightarrow> tally result" where
  "collect_one use_color opts read_file total_tests j t =
     (if is_break j then Inr t
      else
        (let st = status_of j;
             t1 = count_status st j t;
             t2 = t1 \<lparr> console := console t1 @ [progress_line use_color opts total_tests t1 st j] \<rparr>
         in rbind (if is_example j \<or> is_pyexample j then Inr (example_xml st j) else suite_xml read_file j)
              (\<lambda>x. Inr (t2 \<lparr> results_xml := results_xml t2 @ x \<rparr>))))"

definition collect_all ::
  "bool \<Rightarrow> 'b run_options_scheme \<Rightarrow> (string \<Rightarrow> string option) \<Rightarrow> nat \<Rightarrow> job list \<Rightarrow> tally result" where
  "collect_all use_color opts read_file total_tests js =
     rfold (collect_one use_color opts read_file total_tests) js new_tally"

section \<open>Summary and exit status\<close>

definition name_list :: "string \<Rightarrow> string list \<Rightarrow> string list" where
  "name_list title names =
     (if names = [] then []
      else [title @ newline @ ''    '' @ join_with (newline @ ''    '') (sort names)])"

definition summary :: "nat \<Rightarrow> tally \<Rightarrow> string list" where
  "summary total_tests t =
     [nat_str (passed_tests t) @ '' of '' @ nat_str total_tests @ '' tests passed (''
      @ nat_str (passed_tests t) @ '' passed, '' @ nat_str (skipped_tests t) @ '' skipped, ''
      @ nat_str (failed_tests t) @ '' failed, '' @ nat_str (crashed_tests t) @ '' crashed, ''
      @ nat_str (valgrind_errors t) @ '' valgrind errors)'']
     @ name_list ''List of SKIPped tests:'' (skipped_testnames t)
     @ name_list ''List of FAILed tests:'' (failed_testnames t)
     @ name_list ''List of CRASHed tests:'' (crashed_testnames t)
     @ name_list ''List of VALGR failures:'' (valgrind_testnames t)"

definition exit_status :: "nat \<Rightarrow> tally \<Rightarrow> int" where
  "exit_status total_tests t = (if passed_tests t + skipped_tests t = total_tests then 0 else 1)"

text \<open>The counts of a tally by status.\<close>

fun count_of :: "status \<Rightarrow> tally \<Rightarrow> nat" where
  "count_of PASS t = passed_tests t"
| "count_of FAIL t = failed_tests t"
| "count_of VALGR t = valgrind_errors t"
| "count_of CRASH t = crashed_tests t"
| "count_of SKIP t = skipped_tests t"

definition results_with :: "status \<Rightarrow> job list \<Rightarrow> job list" where
  "results_with st js = filter (\<lambda>j. \<not> is_break j \<and> status_of j = st) js"

lemma count_of_output: "count_of st (t \<lparr> console := c, results_xml := x \<rparr>) = count_of st t"
  by (cases st) simp_all

lemma count_of_status:
  "count_of st (count_status st' j t) = count_of st t + (if st' = st then 1 else 0)"
  by (cases st; cases st') simp_all

lemma count_of_step:
  "collect_one use_color opts rf tot j t = Inr t' \<Longrightarrow>
     count_of st t' = count_of st t + length (results_with st [j])"
proof (cases "is_break j")
  case False
  assume "collect_one use_color opts rf tot j t = Inr t'"
  with False obtain c x where "t' = count_status (status_of j) j t \<lparr> console := c, results_xml := x \<rparr>"
    unfolding collect_one_def Let_def by (auto simp only: if_False rbind_eq_Inr sum.inject)
  then show ?thesis using False by (simp add: count_of_output count_of_status results_with_def)
qed (simp add: collect_one_def results_with_def)

lemma count_of_fold:
  "rfold (collect_one use_color opts rf tot) js t = Inr t' \<Longrightarrow>
     count_of st t' = count_of st t + length (results_with st js)"
proof (induction js arbitrary: t)
  case (Cons j js)
  then obtain t1 where "collect_one use_color opts rf tot j t = Inr t1"
    "rfold (collect_one use_color opts rf tot) js t1 = Inr t'" by (auto simp: rbind_eq_Inr)
  with Cons.IH [of t1] count_of_step [of use_color opts rf tot j t t1 st] show ?case
    by (simp add: results_with_def)
qed (simp add: results_with_def)


lemma count_new_tally [simp]: "count_of st new_tally = 0"
  by (cases st) (simp_all add: new_tally_def)

lemma results_partition:
  "length (results_with PASS js) + length (results_with SKIP js) + length (results_with FAIL js)
   + length (results_with VALGR js) + length (results_with CRASH js) + length (filter is_break js) = length js"
proof (induction js)
  case (Cons j js)
  then show ?case by (cases "is_break j"; cases "status_of j") (simp_all add: results_with_def)
qed (simp add: results_with_def)

section \<open>Properties\<close>

text \<open>The loop over the collected jobs counts every job exactly once: each counter is the number of real
  results of its status, the counters and the handed-back break jobs add up to the jobs collected,
  and the run succeeds exactly when as many jobs passed or were skipped as were dispatched.\<close>

theorem collect_counts_once:
  assumes "collect_all use_color opts rf tot js = Inr t"
  shows "count_of st t = length (results_with st js)
    \<and> passed_tests t + skipped_tests t + failed_tests t + valgrind_errors t + crashed_tests t
       + length (filter is_break js) = length js
    \<and> (exit_status tot t = 0 \<longleftrightarrow> length (results_with PASS js) + length (results_with SKIP js) = tot)"
proof -
  have c: "count_of st t = length (results_with st js)" for st
    using count_of_fold [of use_color opts rf tot js new_tally t st] assms by (simp add: collect_all_def)
  show ?thesis
    using c [of st] c [of PASS] c [of SKIP] c [of FAIL] c [of VALGR] c [of CRASH] results_partition [of js]
    by (simp add: exit_status_def)
qed

definition default_options :: run_options where
  "default_options =
     \<lparr> opt_valgrind = False, opt_update_data = False, o_buildpath = '''', o_constrain = '''',
       o_duration = False, o_example = '''', o_fullness = ''QUICK'', o_kinds = False, o_list = False,
       o_multiple = False, o_nowaf = False, o_pyexample = '''', o_suite = '''', o_process_limit = 0 \<rparr>"

definition sample_results_jobs :: "job list" where
  "sample_results_jobs =
     [new_job \<lparr> is_example := True, display_name := ''udp-echo'', returncode := 0 \<rparr>,
      new_job \<lparr> display_name := ''bad'', returncode := 139 \<rparr>,
      skip_job ''requires NSC'' (new_job \<lparr> display_name := ''nsc-tcp-loss'' \<rparr>)]"

lemma collect_counts_once_witness:
  "\<exists>t. collect_all False default_options (\<lambda>_. None) 3 sample_results_jobs = Inr t
       \<and> count_of CRASH t = 1 \<and> exit_status 3 t \<noteq> 0"
proof -
  have "case collect_all False default_options (\<lambda>_. None) 3 sample_results_jobs of Inr _ \<Rightarrow> True | Inl _ \<Rightarrow> False"
    by code_simp
  then obtain t where run: "collect_all False default_options (\<lambda>_. None) 3 sample_results_jobs = Inr t"
    by (auto split: sum.splits)
  have "length (results_with CRASH sample_results_jobs) = 1"
    "length (results_with PASS sample_results_jobs) + length (results_with SKIP sample_results_jobs) \<noteq> 3"
    by code_simp+
  with run collect_counts_once [OF run, of CRASH] show ?thesis by simp
qed



text \<open>
  The progress counter leaves out the valgrind errors, so that it does not reach the total in a run
  with one.
\<close>

lemma progress_omits_valgrind:
  "rbind (collect_all False default_options (\<lambda>_. Some '''') 1
            [new_job \<lparr> display_name := ''core'', returncode := 2 \<rparr>]) (\<lambda>t. Inr (console t))
   = Inr [''[0/1] VALGR: TestSuite core'']"
  by code_simp

text \<open>
  A suite with a valgrind error adds the contents of its own result file to the results and nothing
  else: no entry with the result \<open>VALGR\<close> is written.
\<close>

lemma valgrind_suite_xml:
  "\<not> is_skip j \<Longrightarrow> returncode j = 2 \<Longrightarrow> read_file (tmp_file_name j) = Some text \<Longrightarrow> suite_xml read_file j = Inr [text]"
  by (simp add: suite_xml_def)

text \<open>Suites named by the performance list are not run, unless they are requested: of a suite list without
  repetitions exactly the other suites stay, in their order; one explicit suite, or the constraint to
  performance tests, keeps the list as it is.\<close>

theorem performance_suites_removed:
  assumes "select_suites query waf opts = Inr (single, suites)" "distinct suites"
  shows "suites_to_run query waf opts =
    Inr (if single \<or> o_constrain opts = ''performance'' then suites
         else filter (\<lambda>t. t \<notin> set (split_on CHR 0x0A (query (list_tests_command waf ''performance'')))) suites)"
proof -
  have rem: "remove_performance ps sl = filter (\<lambda>t. t \<notin> set ps) sl" if "distinct sl" for ps sl :: "string list"
    using that
  proof (induction ps arbitrary: sl)
    case (Cons p ps)
    let ?sl = "if p \<in> set sl then remove1 p sl else sl"
    have "?sl = filter (\<lambda>t. t \<noteq> p) sl"
    proof -
      have "?sl = removeAll p sl" using Cons.prems by (simp add: distinct_remove1_removeAll)
      also have "\<dots> = filter (\<lambda>t. t \<noteq> p) sl" by (induction sl) auto
      finally show ?thesis .
    qed
    then show ?case using Cons.IH [of ?sl] Cons.prems
      by (simp add: remove_performance_def filter_filter conj_commute)
  qed (simp add: remove_performance_def)
  show ?thesis using assms rem by (simp add: suites_to_run_def)
qed

definition sample_waf :: waf_config where
  "sample_waf =
     \<lparr> NS3_BASEDIR = ''/ns3'', NS3_BUILDDIR = ''/ns3/build'', PYTHON = [''/usr/bin/python3''],
       APPNAME = ''ns'', VERSION = ''3-dev'', BUILD_PROFILE = ''debug'', NSC_ENABLED = False,
       ENABLE_EXAMPLES = True, ENABLE_TESTS = True, VALGRIND_FOUND = False, ENABLE_PYTHON_BINDINGS = False,
       EXAMPLE_DIRECTORIES = [], NS3_ENABLED_MODULES = [], NS3_ENABLED_CONTRIBUTED_MODULES = [] \<rparr>"

definition sample_query :: "string \<Rightarrow> string" where
  "sample_query c = (if c = list_tests_command sample_waf ''performance'' then ''slow'' @ newline
                     else ''core'' @ newline @ ''slow'' @ newline @ ''tcp'' @ newline)"

lemma performance_suites_removed_witness:
  "suites_to_run sample_query sample_waf default_options = Inr [''core'', ''tcp'']"
proof -
  have sel: "select_suites sample_query sample_waf default_options = Inr (False, [''core'', ''slow'', ''tcp'', ''''])"
    by code_simp
  have "split_on CHR 0x0A (sample_query (list_tests_command sample_waf ''performance'')) = [''slow'', '''']"
    by code_simp
  then show ?thesis
    using performance_suites_removed [OF sel] by (simp add: default_options_def)
qed

text \<open>One job for every non-blank suite name, in the order of the list, with the name without its
  surrounding white space; it is skipped exactly for the suites that valgrind or a missing NSC would
  break, and the missing NSC is the reason that is reported when both hold.\<close>

theorem suite_jobs_skips:
  "map display_name (suite_jobs waf opts dirs suite_list) = filter (\<lambda>t. t \<noteq> []) (map strip suite_list)
   \<and> (\<forall>j \<in> set (suite_jobs waf opts dirs suite_list).
        \<not> is_break j \<and> \<not> is_example j \<and> \<not> is_pyexample j
        \<and> (is_skip j \<longleftrightarrow> opt_valgrind opts \<and> display_name j \<in> set core_valgrind_skip_tests
              \<or> \<not> NSC_ENABLED waf \<and> display_name j \<in> set core_nsc_missing_skip_tests)
        \<and> skip_reason j = (if \<not> NSC_ENABLED waf \<and> display_name j \<in> set core_nsc_missing_skip_tests then ''requires NSC''
                           else if is_skip j then ''crashes valgrind'' else ''''))"
proof -
  let ?sj = "suite_job waf opts dirs"
  have one: "display_name (?sj t) = t" "\<not> is_break (?sj t)" "\<not> is_example (?sj t)" "\<not> is_pyexample (?sj t)"
    "is_skip (?sj t) \<longleftrightarrow> opt_valgrind opts \<and> t \<in> set core_valgrind_skip_tests
       \<or> \<not> NSC_ENABLED waf \<and> t \<in> set core_nsc_missing_skip_tests"
    "skip_reason (?sj t) = (if \<not> NSC_ENABLED waf \<and> t \<in> set core_nsc_missing_skip_tests then ''requires NSC''
                           else if is_skip (?sj t) then ''crashes valgrind'' else '''')" for t
    by (simp_all add: suite_job_def skip_job_def new_job_def Let_def)
  show ?thesis unfolding suite_jobs_def using one by (auto simp: comp_def map_idI)
qed

lemma suite_jobs_skips_witness:
  "is_skip (suite_job sample_waf default_options \<lparr> d_cwd = ''/ns3'', d_output = ''out'' \<rparr> ''nsc-tcp-loss'')
   \<and> map display_name (suite_jobs sample_waf default_options \<lparr> d_cwd = ''/ns3'', d_output = ''out'' \<rparr>
        ['' nsc-tcp-loss'', '''', ''core'']) = [''nsc-tcp-loss'', ''core'']"
proof -
  let ?d = "\<lparr> d_cwd = ''/ns3'', d_output = ''out'' \<rparr>"
  have f: "filter (\<lambda>t. t \<noteq> []) (map strip ['' nsc-tcp-loss'', '''', ''core'']) = [''nsc-tcp-loss'', ''core'']"
    by code_simp
  have "is_skip (suite_job sample_waf default_options ?d ''nsc-tcp-loss'')" by code_simp
  then show ?thesis
    using suite_jobs_skips [of sample_waf default_options ?d "['' nsc-tcp-loss'', '''', ''core'']"] unfolding f by simp
qed

text \<open>
  With both a suite and an example given, the jobs of both are dispatched; the two comments on the
  options each announce one of them alone.
\<close>

lemma suite_and_example_both_run:
  "rbind (dispatch sample_waf (default_options \<lparr> o_suite := ''core'', o_example := ''udp-echo'' \<rparr>)
            \<lparr> d_cwd = ''/ns3'', d_output = ''out'' \<rparr>
            \<lparr> in_query = sample_query, in_eval = (\<lambda>_. Inr True),
              in_programs = [''/ns3/build/ns3-dev-udp-echo-debug''], in_scripts = [],
              in_examples = \<lparr> example_tests = [], example_names_original = [], python_tests = [] \<rparr> \<rparr>)
     (\<lambda>js. Inr (map (\<lambda>j. (display_name j, is_example j)) js))
   = Inr [(''core'', False), (''/ns3/build/ns3-dev-udp-echo-debug'', True)]"
  by code_simp

section \<open>Listing instead of running\<close>

definition print_types_command :: "'a waf_config_scheme \<Rightarrow> 'b run_options_scheme \<Rightarrow> string" where
  "print_types_command waf opts =
     path_join ''utils'' (program_name waf ''test-runner'' @ '' --print-test-name-list --print-test-types''
       @ (if o_constrain opts = [] then '''' else '' --test-type='' @ o_constrain opts))"

definition list_output :: "int \<times> string \<Rightarrow> string list \<Rightarrow> string list" where
  "list_output answer example_names =
     (if fst answer \<noteq> 0 then
        [''test.py error:  test-runner return code returned '' @ int_str (fst answer),
         ''To debug, try running '' @ [CHR 0x27] @ ''./waf --run '' @ quote @ ''test-runner --print-test-name-list''
           @ quote @ [CHR 0x27] @ newline]
      else
        [''Test Type    Test Name'', ''---------    ---------'']
        @ filter (\<lambda>item. strip item \<noteq> []) (sort (split_on CHR 0x0A (snd answer)))
        @ map (\<lambda>item. ''example      '' @ item) (sort example_names) @ [[]])"

text \<open>The lines that the options \<open>--kinds\<close> and \<open>--list\<close> print before they end the run, \<open>None\<close> when it
  goes on; the answers of the test runner are a parameter.\<close>

definition early_listing :: "(string \<Rightarrow> int \<times> string) \<Rightarrow> 'a waf_config_scheme \<Rightarrow> 'b run_options_scheme
    \<Rightarrow> string list \<Rightarrow> string list option" where
  "early_listing query waf opts example_names =
     (if \<not> o_kinds opts \<and> \<not> o_list opts then None
      else Some
        ((if o_kinds opts
          then [snd (query (path_join ''utils'' (program_name waf ''test-runner'' @ '' --print-test-type-list'')))] else [])
         @ (if o_list opts then list_output (query (print_types_command waf opts)) example_names else [])))"

text \<open>A listing shows every name that is not blank as often as it was given, sorted.\<close>

lemma list_output_names:
  "fst answer = 0 \<Longrightarrow>
   mset (list_output answer names)
     = mset [''Test Type    Test Name'', ''---------    ---------'', []]
       + filter_mset (\<lambda>item. strip item \<noteq> []) (mset (split_on CHR 0x0A (snd answer)))
       + image_mset ((@) ''example      '') (mset names)"
  by (simp add: list_output_def)

section \<open>The last messages\<close>

definition notices :: "'a waf_config_scheme \<Rightarrow> 'b run_options_scheme \<Rightarrow> string list" where
  "notices waf opts =
     (if \<not> ENABLE_TESTS waf \<or> \<not> ENABLE_EXAMPLES waf then
        [[]]
        @ (if \<not> ENABLE_TESTS waf then
             [''***  Note: ns-3 tests are currently disabled. Enable them by adding'',
              ''***  '' @ quote @ ''--enable-tests'' @ quote @ '' to ./waf configure or modifying your .ns3rc file.'', []]
           else [])
        @ (if \<not> ENABLE_EXAMPLES waf then
             [''***  Note: ns-3 examples are currently disabled. Enable them by adding'',
              ''***  '' @ quote @ ''--enable-examples'' @ quote @ '' to ./waf configure or modifying your .ns3rc file.'', []]
           else [])
      else [])
     @ (if opt_valgrind opts \<and> \<not> VALGRIND_FOUND waf then
          [[], ''***  Note: you are trying to use valgrind, but valgrind could not be found'',
           ''***  on your machine.  All tests and examples will crash or be skipped.'', []]
        else [])"

end
