(* ===== verification/Patch_Style.thy ===== *)
theory Patch_Style
  imports Py_Prelude
begin

text \<open>
  The patch classes of \<open>utils/check-style.py\<close>: the lines, chunks and patches of a unified diff, their
  writer and parser, and the repair of trailing white space.  A line object may be read through the
  source side and the destination side of its chunk, so that a chunk keeps its lines in one list and
  the two sides are positions in it.
\<close>

section \<open>Lines, chunks, patches\<close>

datatype line_type = NoType | SRC | DST | BOTH

record patch_line =
  pl_type :: line_type
  pl_line :: string

record patch_chunk =
  ck_lines :: "patch_line list"
  ck_src_pos :: nat
  ck_dst_pos :: nat

record patch =
  pt_src :: string
  pt_dst :: string
  pt_chunks :: "patch_chunk list"

definition is_src :: "patch_line \<Rightarrow> bool" where
  "is_src l \<longleftrightarrow> pl_type l = SRC \<or> pl_type l = BOTH"

definition is_dst :: "patch_line \<Rightarrow> bool" where
  "is_dst l \<longleftrightarrow> pl_type l = DST \<or> pl_type l = BOTH"

definition write_line :: "patch_line \<Rightarrow> string result" where
  "write_line l =
     (case pl_type l of
        SRC \<Rightarrow> Inr (''-'' @ pl_line l @ newline)
      | DST \<Rightarrow> Inr (''+'' @ pl_line l @ newline)
      | BOTH \<Rightarrow> Inr ('' '' @ pl_line l @ newline)
      | NoType \<Rightarrow> Inl (OtherError ''invalid patch''))"

definition chunk_header :: "patch_chunk \<Rightarrow> string" where
  "chunk_header c =
     ''@@ -'' @ nat_str (ck_src_pos c) @ '','' @ nat_str (length (filter is_src (ck_lines c)))
     @ '' +'' @ nat_str (ck_dst_pos c) @ '','' @ nat_str (length (filter is_dst (ck_lines c))) @ '' @@'' @ newline"

definition write_chunk :: "patch_chunk \<Rightarrow> string list result" where
  "write_chunk c = rbind (rmap write_line (ck_lines c)) (\<lambda>ls. Inr (chunk_header c # ls))"

definition write_patch :: "patch \<Rightarrow> string list result" where
  "write_patch p =
     rbind (rmap write_chunk (pt_chunks p)) (\<lambda>cs.
       Inr ((''--- '' @ pt_src p @ newline) # (''+++ '' @ pt_dst p @ newline) # concat cs))"

section \<open>The parser\<close>

text \<open>The match of \<open>(.*)$\<close>: everything up to the end of the line, which one line feed may follow.\<close>

definition rest_of_line :: "string \<Rightarrow> string option" where
  "rest_of_line s =
     (if CHR 0x0A \<notin> set s then Some s
      else if CHR 0x0A \<notin> set (butlast s) then Some (butlast s) else None)"

definition match_prefix :: "string \<Rightarrow> string \<Rightarrow> string option" where
  "match_prefix p line = (if startswith line p then rest_of_line (drop (length p) line) else None)"

text \<open>A non-empty run of digits followed by a literal.\<close>

definition match_number :: "string \<Rightarrow> string \<Rightarrow> (nat \<times> string) option" where
  "match_number lit s =
     (let ds = takeWhile is_digit s; r = dropWhile is_digit s
      in if ds \<noteq> [] \<and> startswith r lit then Some (nat_of_str ds, drop (length lit) r) else None)"

definition match_chunk_start :: "string \<Rightarrow> (nat \<times> nat) option" where
  "match_chunk_start line =
     (if startswith line ''@@ -'' then
        (case match_number '','' (drop 4 line) of
           None \<Rightarrow> None
         | Some (a, r1) \<Rightarrow>
             (case match_number '' +'' r1 of
                None \<Rightarrow> None
              | Some (_, r2) \<Rightarrow>
                  (case match_number '','' r2 of
                     None \<Rightarrow> None
                   | Some (c, r3) \<Rightarrow>
                       (case match_number '' @@'' r3 of None \<Rightarrow> None | Some _ \<Rightarrow> Some (a, c)))))
      else None)"

text \<open>
  The parser's variables: the patches read so far, whose last one is the current patch, and the
  current chunk, which is unset at first and which survives the start of the next patch.
\<close>

record parse_state =
  ps_patches :: "patch list"
  ps_chunk :: "(nat \<times> nat) option"

definition open_patch :: "string \<Rightarrow> parse_state \<Rightarrow> parse_state" where
  "open_patch src st = st \<lparr> ps_patches := ps_patches st @ [\<lparr> pt_src = src, pt_dst = '''', pt_chunks = [] \<rparr>] \<rparr>"

definition set_dst :: "string \<Rightarrow> parse_state \<Rightarrow> parse_state result" where
  "set_dst dst st =
     (if ps_patches st = [] then Inl AttributeError
      else Inr (st \<lparr> ps_patches := butlast (ps_patches st) @ [(last (ps_patches st)) \<lparr> pt_dst := dst \<rparr>] \<rparr>))"

definition open_chunk :: "nat \<Rightarrow> nat \<Rightarrow> parse_state \<Rightarrow> parse_state result" where
  "open_chunk a c st =
     (if ps_patches st = [] then Inl AttributeError
      else
        (let p = last (ps_patches st)
         in Inr (st \<lparr> ps_patches := butlast (ps_patches st)
                        @ [p \<lparr> pt_chunks := pt_chunks p @ [\<lparr> ck_lines = [], ck_src_pos = a, ck_dst_pos = c \<rparr>] \<rparr>],
                      ps_chunk := Some (length (ps_patches st) - 1, length (pt_chunks p)) \<rparr>)))"

definition add_line :: "patch_line \<Rightarrow> parse_state \<Rightarrow> parse_state result" where
  "add_line l st =
     (case ps_chunk st of
        None \<Rightarrow> Inl UnboundLocalError
      | Some (i, j) \<Rightarrow>
          (let p = ps_patches st ! i; c = pt_chunks p ! j
           in Inr (st \<lparr> ps_patches := (ps_patches st)[i :=
                 p \<lparr> pt_chunks := (pt_chunks p)[j := c \<lparr> ck_lines := ck_lines c @ [l] \<rparr>] \<rparr>] \<rparr>)))"

definition parse_line :: "string \<Rightarrow> parse_state \<Rightarrow> parse_state result" where
  "parse_line line st =
     (case match_prefix ''--- '' line of
        Some src \<Rightarrow> Inr (open_patch src st)
      | None \<Rightarrow>
     (case match_prefix ''+++ '' line of
        Some dst \<Rightarrow> set_dst dst st
      | None \<Rightarrow>
     (case match_chunk_start line of
        Some (a, c) \<Rightarrow> open_chunk a c st
      | None \<Rightarrow>
     (case match_prefix ''-'' line of
        Some s \<Rightarrow> add_line \<lparr> pl_type = SRC, pl_line = s \<rparr> st
      | None \<Rightarrow>
     (case match_prefix ''+'' line of
        Some s \<Rightarrow> add_line \<lparr> pl_type = DST, pl_line = s \<rparr> st
      | None \<Rightarrow>
     (case match_prefix '' '' line of
        Some s \<Rightarrow> add_line \<lparr> pl_type = BOTH, pl_line = s \<rparr> st
      | None \<Rightarrow> Inl (OtherError '''')))))))"

definition parse_patchset :: "string list \<Rightarrow> patch list result" where
  "parse_patchset ls =
     rbind (rfold parse_line ls \<lparr> ps_patches = [], ps_chunk = None \<rparr>) (\<lambda>st. Inr (ps_patches st))"

section \<open>Trailing white space\<close>

text \<open>\<open>^(.*)([ \t]+)$\<close> with its greedy first group: the second group is the last character only.\<close>

definition match_whitespace :: "string \<Rightarrow> (string \<times> string) option" where
  "match_whitespace s =
     (if s \<noteq> [] \<and> last s \<in> {CHR '' '', CHR 0x09} then Some (butlast s, [last s]) else None)"

text \<open>
  The loop over the two sides of a chunk, given by positions; running out of destination lines raises
  \<open>IndexError\<close>, which ends the whole repair.
\<close>

fun fix_lines :: "nat list \<Rightarrow> nat list \<Rightarrow> patch_line list \<Rightarrow> patch_line list \<times> bool" where
  "fix_lines [] ds ls = (ls, True)"
| "fix_lines (s # ss) [] ls = (ls, False)"
| "fix_lines (s # ss) (d # ds) ls =
     fix_lines ss ds
       (case match_whitespace (pl_line (ls ! s)) of
          None \<Rightarrow> ls
        | Some (front, sp) \<Rightarrow>
            if front = pl_line (ls ! d) then ls[d := (ls ! d) \<lparr> pl_line := pl_line (ls ! d) @ sp \<rparr>] else ls)"

definition positions :: "(patch_line \<Rightarrow> bool) \<Rightarrow> patch_line list \<Rightarrow> nat list" where
  "positions P ls = filter (\<lambda>i. P (ls ! i)) [0..<length ls]"

definition fix_chunk :: "patch_chunk \<Rightarrow> patch_chunk \<times> bool" where
  "fix_chunk c =
     (case fix_lines (positions is_src (ck_lines c)) (positions is_dst (ck_lines c)) (ck_lines c) of
        (ls, ok) \<Rightarrow> (c \<lparr> ck_lines := ls \<rparr>, ok))"

fun fix_chunks :: "patch_chunk list \<Rightarrow> patch_chunk list \<times> bool" where
  "fix_chunks [] = ([], True)"
| "fix_chunks (c # cs) =
     (case fix_chunk c of (c', ok) \<Rightarrow>
        if ok then (case fix_chunks cs of (cs', ok') \<Rightarrow> (c' # cs', ok')) else (c' # cs, False))"

fun fix_patches :: "patch list \<Rightarrow> patch list \<times> bool" where
  "fix_patches [] = ([], True)"
| "fix_patches (p # ps) =
     (case fix_chunks (pt_chunks p) of (cs, ok) \<Rightarrow>
        if ok then (case fix_patches ps of (ps', ok') \<Rightarrow> (p \<lparr> pt_chunks := cs \<rparr> # ps', ok'))
        else (p \<lparr> pt_chunks := cs \<rparr> # ps, False))"

definition remove_trailing_whitespace_changes :: "string list \<Rightarrow> patch list result" where
  "remove_trailing_whitespace_changes diff =
     rbind (parse_patchset diff) (\<lambda>ps. Inr (fst (fix_patches ps)))"

text \<open>
  What \<open>indent\<close> writes to the final diff file.  The diff is a generator: writing it to the debug file
  leaves nothing of it for the code that follows.
\<close>

definition final_diff :: "bool \<Rightarrow> nat \<Rightarrow> string list \<Rightarrow> string list result" where
  "final_diff debug level diff =
     (let left = (if debug then [] else diff)
      in if level < 3 then
           rbind (remove_trailing_whitespace_changes left) (\<lambda>ps.
             case ps of [] \<Rightarrow> Inr [] | p # _ \<Rightarrow> write_patch p)
         else Inr left)"

text \<open>\<open>indent_files\<close> on the files with their indented versions: its result and its report.\<close>

definition indent_files :: "bool \<Rightarrow> (string \<times> 'c \<times> 'c) list \<Rightarrow> bool \<times> string list" where
  "indent_files inplace files =
     (if inplace then (True, [])
      else
        (let failed = filter (\<lambda>(_, before, after). before \<noteq> after) files
         in if failed \<noteq> [] then
              (False, (''Found '' @ nat_str (length failed) @ '' badly indented files:'')
                      # map (\<lambda>(name, _). ''  '' @ name) failed)
            else (True, [])))"

section \<open>Reading back what was written\<close>

text \<open>
  Lines, chunks and patches are three printed items in the sense of the prelude, each resting on the
  one before.
\<close>

fun type_mark :: "line_type \<Rightarrow> string" where
  "type_mark SRC = ''-''"
| "type_mark DST = ''+''"
| "type_mark BOTH = '' ''"
| "type_mark NoType = ''''"

definition line_text :: "patch_line \<Rightarrow> string" where
  "line_text l = type_mark (pl_type l) @ pl_line l @ newline"

definition chunk_text :: "patch_chunk \<Rightarrow> string list" where
  "chunk_text c = chunk_header c # map line_text (ck_lines c)"

definition patch_text :: "patch \<Rightarrow> string list" where
  "patch_text p =
     (''--- '' @ pt_src p @ newline) # (''+++ '' @ pt_dst p @ newline) # concat (map chunk_text (pt_chunks p))"

text \<open>
  The lines that survive: typed, without a line feed, and not mistaken for a file header: a removed
  line must not start with \<open>-- \<close> nor an added one with \<open>++ \<close>.
\<close>

definition ok_line :: "patch_line \<Rightarrow> bool" where
  "ok_line l \<longleftrightarrow>
     pl_type l \<noteq> NoType \<and> CHR 0x0A \<notin> set (pl_line l)
     \<and> (pl_type l = SRC \<longrightarrow> \<not> startswith (pl_line l) ''-- '')
     \<and> (pl_type l = DST \<longrightarrow> \<not> startswith (pl_line l) ''++ '')"

definition ok_chunk :: "patch_chunk \<Rightarrow> bool" where
  "ok_chunk c \<longleftrightarrow> list_all ok_line (ck_lines c)"

definition ok_patch :: "patch \<Rightarrow> bool" where
  "ok_patch p \<longleftrightarrow>
     CHR 0x0A \<notin> set (pt_src p) \<and> CHR 0x0A \<notin> set (pt_dst p) \<and> list_all ok_chunk (pt_chunks p)"

lemma list4_cases: obtains "xs = []" | a where "xs = [a]" | a b where "xs = [a, b]" | a b c r where "xs = a # b # c # r"
  by (metis list.exhaust)

lemma write_line_text: "pl_type l \<noteq> NoType \<Longrightarrow> write_line l = Inr (line_text l)"
  by (cases "pl_type l") (simp_all add: write_line_def line_text_def)

lemma write_chunk_text: "ok_chunk c \<Longrightarrow> write_chunk c = Inr (chunk_text c)"
proof -
  assume "ok_chunk c"
  then have "rmap write_line (ck_lines c) = Inr (map line_text (ck_lines c))"
    by (intro rmap_pure) (auto simp: ok_chunk_def ok_line_def list_all_iff write_line_text)
  then show ?thesis by (simp add: write_chunk_def chunk_text_def)
qed

lemma write_patch_text: "ok_patch p \<Longrightarrow> write_patch p = Inr (patch_text p)"
proof -
  assume "ok_patch p"
  then have "rmap write_chunk (pt_chunks p) = Inr (map chunk_text (pt_chunks p))"
    by (intro rmap_pure) (auto simp: ok_patch_def list_all_iff write_chunk_text)
  then show ?thesis by (simp add: write_patch_def patch_text_def)
qed

lemma rest_of_line_nl [simp]: "CHR 0x0A \<notin> set s \<Longrightarrow> rest_of_line (s @ newline) = Some s"
  by (simp add: rest_of_line_def)

lemma match_prefix_append [simp]: "CHR 0x0A \<notin> set s \<Longrightarrow> match_prefix p (p @ s @ newline) = Some s"
  by (simp add: match_prefix_def)

lemma match_prefix_no: "\<not> startswith line p \<Longrightarrow> match_prefix p line = None"
  by (simp add: match_prefix_def)

lemma match_number_nat:
  assumes "lit = c # cs" "\<not> is_digit c"
  shows "match_number lit (nat_str n @ lit @ r) = Some (n, r)"
proof -
  have d: "\<forall>x \<in> set (nat_str n). is_digit x" using nat_str_digits [of n] by (simp add: list_all_iff)
  then have t: "takeWhile is_digit (nat_str n @ lit @ r) = nat_str n"
    "dropWhile is_digit (nat_str n @ lit @ r) = lit @ r"
    using assms by (simp_all add: takeWhile_append dropWhile_append)
  have "nat_of_str (nat_str n) = n" "nat_str n \<noteq> []" by simp_all
  then show ?thesis unfolding match_number_def t Let_def by simp
qed

lemma not_digits [simp]: "\<not> is_digit CHR '',''" "\<not> is_digit CHR '' ''"
  by (simp_all add: is_digit_def)

lemma match_chunk_header: "match_chunk_start (chunk_header c) = Some (ck_src_pos c, ck_dst_pos c)"
proof -
  let ?a = "nat_str (ck_src_pos c)" and ?b = "nat_str (length (filter is_src (ck_lines c)))"
    and ?c = "nat_str (ck_dst_pos c)" and ?d = "nat_str (length (filter is_dst (ck_lines c)))"
  have h: "chunk_header c = ''@@ -'' @ ?a @ '','' @ ?b @ '' +'' @ ?c @ '','' @ ?d @ '' @@'' @ newline"
    by (simp add: chunk_header_def)
  have "startswith (chunk_header c) ''@@ -''" unfolding h by (rule startswith_append)
  moreover have "drop 4 (chunk_header c) = ?a @ '','' @ ?b @ '' +'' @ ?c @ '','' @ ?d @ '' @@'' @ newline"
    by (simp add: h)
  moreover note match_number_nat [of "'',''" "CHR '',''" "[]" "ck_src_pos c" "?b @ '' +'' @ ?c @ '','' @ ?d @ '' @@'' @ newline"]
    match_number_nat [of "'' +''" "CHR '' ''" "''+''" "length (filter is_src (ck_lines c))" "?c @ '','' @ ?d @ '' @@'' @ newline"]
    match_number_nat [of "'',''" "CHR '',''" "[]" "ck_dst_pos c" "?d @ '' @@'' @ newline"]
    match_number_nat [of "'' @@''" "CHR '' ''" "''@@''" "length (filter is_dst (ck_lines c))" "newline"]
  ultimately show ?thesis unfolding match_chunk_start_def by simp
qed

lemma line_not_chunk_start: "pl_type l \<noteq> NoType \<Longrightarrow> match_chunk_start (line_text l) = None"
  by (cases "pl_type l") (simp_all add: match_chunk_start_def line_text_def startswith_def)

lemma parse_line_text:
  assumes "ok_line l"
  shows "parse_line (line_text l) st = add_line l st"
proof -
  note nc = line_not_chunk_start [of l]
  have nl: "CHR 0x0A \<notin> set (pl_line l)" using assms by (simp add: ok_line_def)
  show ?thesis
  proof (cases "pl_type l")
    case NoType
    then show ?thesis using assms by (simp add: ok_line_def)
  next
    case SRC
    then have t: "line_text l = ''-'' @ pl_line l @ newline" by (simp add: line_text_def)
    have "\<not> startswith (line_text l) ''--- ''"
      using assms SRC by (cases "pl_line l" rule: list4_cases)
        (auto simp: ok_line_def line_text_def startswith_def)
    moreover have "\<not> startswith (line_text l) ''+++ ''" by (simp add: t startswith_def)
    moreover have "match_prefix ''-'' (line_text l) = Some (pl_line l)"
      unfolding t using nl by (rule match_prefix_append)
    ultimately show ?thesis using nc SRC by (cases l) (simp add: parse_line_def match_prefix_no)
  next
    case DST
    then have t: "line_text l = ''+'' @ pl_line l @ newline" by (simp add: line_text_def)
    have "\<not> startswith (line_text l) ''+++ ''"
      using assms DST by (cases "pl_line l" rule: list4_cases)
        (auto simp: ok_line_def line_text_def startswith_def)
    moreover have "\<not> startswith (line_text l) ''--- ''" "\<not> startswith (line_text l) ''-''"
      by (simp_all add: t startswith_def)
    moreover have "match_prefix ''+'' (line_text l) = Some (pl_line l)"
      unfolding t using nl by (rule match_prefix_append)
    ultimately show ?thesis using nc DST by (cases l) (simp add: parse_line_def match_prefix_no)
  next
    case BOTH
    then have t: "line_text l = '' '' @ pl_line l @ newline" by (simp add: line_text_def)
    have "\<not> startswith (line_text l) ''--- ''" "\<not> startswith (line_text l) ''+++ ''"
      "\<not> startswith (line_text l) ''-''" "\<not> startswith (line_text l) ''+''"
      by (simp_all add: t startswith_def)
    moreover have "match_prefix '' '' (line_text l) = Some (pl_line l)"
      unfolding t using nl by (rule match_prefix_append)
    ultimately show ?thesis using nc BOTH by (cases l) (simp add: parse_line_def match_prefix_no)
  qed
qed

text \<open>What reading one line, one chunk or one patch puts into the parser's state.\<close>

definition put_line :: "patch_line \<Rightarrow> parse_state \<Rightarrow> parse_state" where
  "put_line l st = (case add_line l st of Inl _ \<Rightarrow> st | Inr st' \<Rightarrow> st')"

definition line_ready :: "parse_state \<Rightarrow> bool" where
  "line_ready st \<longleftrightarrow> ps_chunk st \<noteq> None"

definition put_chunk :: "patch_chunk \<Rightarrow> parse_state \<Rightarrow> parse_state" where
  "put_chunk c st =
     (let p = last (ps_patches st)
      in st \<lparr> ps_patches := butlast (ps_patches st) @ [p \<lparr> pt_chunks := pt_chunks p @ [c] \<rparr>],
              ps_chunk := Some (length (ps_patches st) - 1, length (pt_chunks p)) \<rparr>)"

definition chunk_ready :: "parse_state \<Rightarrow> bool" where
  "chunk_ready st \<longleftrightarrow> ps_patches st \<noteq> []"

definition put_patch :: "patch \<Rightarrow> parse_state \<Rightarrow> parse_state" where
  "put_patch p st =
     st \<lparr> ps_patches := ps_patches st @ [p],
          ps_chunk := (if pt_chunks p = [] then ps_chunk st
                       else Some (length (ps_patches st), length (pt_chunks p) - 1)) \<rparr>"

lemma rfold_single: "rfold f [x] s = f x s"
  by (cases "f x s") simp_all

interpretation lines: printed_items "\<lambda>l. [line_text l]" parse_line put_line ok_line line_ready
proof
  fix l st
  assume l: "ok_line l" and st: "line_ready st"
  then obtain st' where add: "add_line l st = Inr st'" "ps_chunk st' = ps_chunk st"
    by (auto simp: line_ready_def add_line_def Let_def)
  then show "rfold parse_line [line_text l] st = Inr (put_line l st)" "line_ready (put_line l st)"
    using parse_line_text [OF l, of st] st by (simp_all add: put_line_def line_ready_def)
qed

lemma fold_put_line:
  "fold put_line ls (put_chunk c st) = put_chunk (c \<lparr> ck_lines := ck_lines c @ ls \<rparr>) st"
  if "ps_patches st \<noteq> []"
proof (induction ls arbitrary: c)
  case (Cons l ls)
  have "put_line l (put_chunk c st) = put_chunk (c \<lparr> ck_lines := ck_lines c @ [l] \<rparr>) st"
    using that by (simp add: put_line_def add_line_def put_chunk_def Let_def nth_append list_update_append)
  with Cons.IH [of "c \<lparr> ck_lines := ck_lines c @ [l] \<rparr>"] show ?case by simp
qed simp

lemma parse_chunk_header:
  "ps_patches st \<noteq> [] \<Longrightarrow> parse_line (chunk_header c) st
     = Inr (put_chunk \<lparr> ck_lines = [], ck_src_pos = ck_src_pos c, ck_dst_pos = ck_dst_pos c \<rparr> st)"
proof -
  assume st: "ps_patches st \<noteq> []"
  have "\<not> startswith (chunk_header c) ''--- ''" "\<not> startswith (chunk_header c) ''+++ ''"
    by (simp_all add: chunk_header_def startswith_def)
  then show ?thesis
    using st by (simp add: parse_line_def match_prefix_no match_chunk_header open_chunk_def put_chunk_def Let_def)
qed

interpretation chunks: printed_items chunk_text parse_line put_chunk ok_chunk chunk_ready
proof
  fix c st
  assume c: "ok_chunk c" and st: "chunk_ready st"
  let ?c0 = "\<lparr> ck_lines = [], ck_src_pos = ck_src_pos c, ck_dst_pos = ck_dst_pos c \<rparr>"
  have ne: "ps_patches st \<noteq> []" using st by (simp add: chunk_ready_def)
  have "line_ready (put_chunk ?c0 st)" by (simp add: line_ready_def put_chunk_def Let_def)
  then have "rfold parse_line (map line_text (ck_lines c)) (put_chunk ?c0 st) = Inr (fold put_line (ck_lines c) (put_chunk ?c0 st))"
    using lines.read_all [of "ck_lines c" "put_chunk ?c0 st"] c by (simp add: ok_chunk_def concat_map_singleton)
  also have "fold put_line (ck_lines c) (put_chunk ?c0 st) = put_chunk c st"
    using fold_put_line [OF ne, of "ck_lines c" ?c0] by (cases c) simp
  finally show "rfold parse_line (chunk_text c) st = Inr (put_chunk c st)"
    by (simp add: chunk_text_def parse_chunk_header ne)
  show "chunk_ready (put_chunk c st)" by (simp add: chunk_ready_def put_chunk_def Let_def)
qed

lemma fold_put_chunk:
  "fold put_chunk cs (put_patch p st) = put_patch (p \<lparr> pt_chunks := pt_chunks p @ cs \<rparr>) st"
proof (induction cs arbitrary: p)
  case (Cons c cs)
  have "put_chunk c (put_patch p st) = put_patch (p \<lparr> pt_chunks := pt_chunks p @ [c] \<rparr>) st"
    by (simp add: put_patch_def put_chunk_def Let_def)
  with Cons.IH [of "p \<lparr> pt_chunks := pt_chunks p @ [c] \<rparr>"] show ?case by simp
qed simp

interpretation patches: printed_items patch_text parse_line put_patch ok_patch "\<lambda>_. True"
proof
  fix p st
  assume p: "ok_patch p"
  let ?p0 = "\<lparr> pt_src = pt_src p, pt_dst = pt_dst p, pt_chunks = [] \<rparr>"
  have src: "parse_line (''--- '' @ pt_src p @ newline) st = Inr (open_patch (pt_src p) st)"
    using p match_prefix_append [of "pt_src p" "''--- ''"] by (simp add: parse_line_def ok_patch_def)
  have "\<not> startswith (''+++ '' @ pt_dst p @ newline) ''--- ''" by (simp add: startswith_def)
  then have dst: "parse_line (''+++ '' @ pt_dst p @ newline) s = set_dst (pt_dst p) s" for s
    using p match_prefix_append [of "pt_dst p" "''+++ ''"] by (simp add: parse_line_def match_prefix_no ok_patch_def)
  have both: "set_dst (pt_dst p) (open_patch (pt_src p) st) = Inr (put_patch ?p0 st)"
    by (simp add: set_dst_def open_patch_def put_patch_def)
  have "chunk_ready (put_patch ?p0 st)" by (simp add: chunk_ready_def put_patch_def)
  then have "rfold parse_line (concat (map chunk_text (pt_chunks p))) (put_patch ?p0 st)
      = Inr (fold put_chunk (pt_chunks p) (put_patch ?p0 st))"
    using p by (intro chunks.read_all) (simp_all add: ok_patch_def)
  also have "fold put_chunk (pt_chunks p) (put_patch ?p0 st) = put_patch p st"
    using fold_put_chunk [of "pt_chunks p" ?p0 st] by (cases p) simp
  finally show "rfold parse_line (patch_text p) st = Inr (put_patch p st)"
    unfolding patch_text_def rfold.simps src dst rbind_Inr both by simp
qed simp

lemma fold_put_patch: "ps_patches (fold put_patch ps st) = ps_patches st @ ps"
  by (induction ps arbitrary: st) (simp_all add: put_patch_def)

section \<open>Properties\<close>

text \<open>C35 Writing patches and parsing the text gives the patches back, for any number of patches and chunks,
  when no text has a line feed inside and no removed line starts with \<open>-- \<close> nor an added one with
  \<open>++ \<close>: such a line prints like a file header.\<close>

theorem write_parse_round_trip:
  assumes "list_all ok_patch ps"
  shows "rbind (rmap write_patch ps) (\<lambda>texts. parse_patchset (concat texts)) = Inr ps"
proof -
  have "rmap write_patch ps = Inr (map patch_text ps)"
    using assms by (intro rmap_pure) (auto simp: list_all_iff write_patch_text)
  moreover have "rfold parse_line (concat (map patch_text ps)) \<lparr> ps_patches = [], ps_chunk = None \<rparr>
      = Inr (fold put_patch ps \<lparr> ps_patches = [], ps_chunk = None \<rparr>)"
    using assms by (rule patches.read_all) simp
  ultimately show ?thesis
    by (simp add: parse_patchset_def fold_put_patch)
qed

definition sample_patch :: patch where
  "sample_patch =
     \<lparr> pt_src = ''a.cc'', pt_dst = ''b.cc'',
       pt_chunks = [\<lparr> ck_lines = [\<lparr> pl_type = BOTH, pl_line = ''int x;'' \<rparr>, \<lparr> pl_type = SRC, pl_line = ''x=1; '' \<rparr>,
                                   \<lparr> pl_type = DST, pl_line = ''x=1;'' \<rparr>],
                      ck_src_pos = 10, ck_dst_pos = 12 \<rparr>] \<rparr>"

lemma write_parse_round_trip_witness:
  "rbind (rmap write_patch [sample_patch, sample_patch]) (\<lambda>texts. parse_patchset (concat texts))
   = Inr [sample_patch, sample_patch]"
proof -
  have "list_all ok_patch [sample_patch, sample_patch]" by code_simp
  then show ?thesis by (rule write_parse_round_trip)
qed

text \<open>A removed line \<open>-- x\<close> starts a new patch when it is read back.\<close>

lemma dash_line_starts_patch:
  "parse_patchset [''--- a'' @ newline, ''+++ b'' @ newline, ''@@ -1,1 +1,0 @@'' @ newline, ''--- x'' @ newline]
   = Inr [\<lparr> pt_src = ''a'', pt_dst = ''b'',
            pt_chunks = [\<lparr> ck_lines = [], ck_src_pos = 1, ck_dst_pos = 1 \<rparr>] \<rparr>,
          \<lparr> pt_src = ''x'', pt_dst = '''', pt_chunks = [] \<rparr>]"
  by code_simp

text \<open>A range of one line, which \<open>difflib\<close> prints without a count, is rejected.\<close>

lemma one_line_range_rejected:
  "parse_patchset [''--- a'' @ newline, ''+++ b'' @ newline, ''@@ -1 +1 @@'' @ newline, ''-x '' @ newline, ''+x'' @ newline]
   = Inl (OtherError '''')"
  by code_simp

lemma positions_distinct: "distinct (positions P ls)"
  by (simp add: positions_def)

lemma positions_in: "i \<in> set (positions P ls) \<longleftrightarrow> i < length ls \<and> P (ls ! i)"
  by (auto simp: positions_def)

text \<open>A run of the repair loop changes destination lines only, each at most once, by one blank.\<close>

definition blank_added :: "patch_line \<Rightarrow> patch_line \<Rightarrow> bool" where
  "blank_added l l' \<longleftrightarrow> (\<exists>b \<in> {CHR '' '', CHR 0x09}. l' = l \<lparr> pl_line := pl_line l @ [b] \<rparr>)"

lemma fix_lines_effect:
  assumes "distinct ds" "\<forall>d \<in> set ds. d < length ls"
  shows "length (fst (fix_lines ss ds ls)) = length ls
    \<and> (\<forall>i < length ls. fst (fix_lines ss ds ls) ! i = ls ! i
         \<or> i \<in> set ds \<and> blank_added (ls ! i) (fst (fix_lines ss ds ls) ! i))"
  using assms
proof (induction ss ds ls rule: fix_lines.induct)
  case (3 s ss d ds ls)
  define ls1 where "ls1 = (case match_whitespace (pl_line (ls ! s)) of
          None \<Rightarrow> ls
        | Some (front, sp) \<Rightarrow>
            if front = pl_line (ls ! d) then ls[d := (ls ! d) \<lparr> pl_line := pl_line (ls ! d) @ sp \<rparr>] else ls)"
  have one: "length ls1 = length ls" "\<forall>i < length ls. i \<noteq> d \<longrightarrow> ls1 ! i = ls ! i"
    "ls1 ! d = ls ! d \<or> blank_added (ls ! d) (ls1 ! d)"
    using "3.prems" by (auto simp: ls1_def blank_added_def match_whitespace_def split: option.splits if_splits)
  have run: "fix_lines (s # ss) (d # ds) ls = fix_lines ss ds ls1" by (simp add: ls1_def)
  have "length (fst (fix_lines ss ds ls1)) = length ls1
    \<and> (\<forall>i < length ls1. fst (fix_lines ss ds ls1) ! i = ls1 ! i
         \<or> i \<in> set ds \<and> blank_added (ls1 ! i) (fst (fix_lines ss ds ls1) ! i))"
    using "3.IH" "3.prems" one(1) unfolding ls1_def by simp
  then show ?case unfolding run using one "3.prems"
    by (metis distinct.simps(2) list.set_intros(1,2))
qed auto

text \<open>The repair of a chunk keeps the number, the types and the order of its lines; it changes lines of
  the destination side only, each by appending one blank or tab, so that a line that differs by two
  trailing blanks is not restored.\<close>

theorem fix_chunk_effect:
  "length (ck_lines (fst (fix_chunk c))) = length (ck_lines c)
   \<and> map pl_type (ck_lines (fst (fix_chunk c))) = map pl_type (ck_lines c)
   \<and> (\<forall>i < length (ck_lines c). ck_lines (fst (fix_chunk c)) ! i = ck_lines c ! i
        \<or> is_dst (ck_lines c ! i) \<and> blank_added (ck_lines c ! i) (ck_lines (fst (fix_chunk c)) ! i))"
proof -
  let ?ls = "ck_lines c" and ?out = "fst (fix_lines (positions is_src (ck_lines c)) (positions is_dst (ck_lines c)) (ck_lines c))"
  have out: "ck_lines (fst (fix_chunk c)) = ?out" by (simp add: fix_chunk_def split: prod.splits)
  have eff: "length ?out = length ?ls" "\<forall>i < length ?ls. ?out ! i = ?ls ! i
         \<or> i \<in> set (positions is_dst ?ls) \<and> blank_added (?ls ! i) (?out ! i)"
    using fix_lines_effect [where ds = "positions is_dst ?ls" and ls = ?ls and ss = "positions is_src ?ls"]
    by (simp_all add: positions_in positions_distinct)
  then have each: "\<forall>i < length ?ls. ?out ! i = ?ls ! i \<or> is_dst (?ls ! i) \<and> blank_added (?ls ! i) (?out ! i)"
    by (auto simp: positions_in)
  then have "\<forall>i < length ?ls. pl_type (?out ! i) = pl_type (?ls ! i)"
    by (auto simp: blank_added_def)
  then have "map pl_type ?out = map pl_type ?ls"
    using eff(1) by (intro nth_equalityI) simp_all
  then show ?thesis unfolding out using eff(1) each by blast
qed

lemma fix_chunk_effect_witness:
  "fix_chunk \<lparr> ck_lines = [\<lparr> pl_type = SRC, pl_line = ''x '' \<rparr>, \<lparr> pl_type = DST, pl_line = ''x'' \<rparr>,
                            \<lparr> pl_type = SRC, pl_line = ''y  '' \<rparr>, \<lparr> pl_type = DST, pl_line = ''y'' \<rparr>],
               ck_src_pos = 1, ck_dst_pos = 1 \<rparr>
   = (\<lparr> ck_lines = [\<lparr> pl_type = SRC, pl_line = ''x '' \<rparr>, \<lparr> pl_type = DST, pl_line = ''x '' \<rparr>,
                     \<lparr> pl_type = SRC, pl_line = ''y  '' \<rparr>, \<lparr> pl_type = DST, pl_line = ''y'' \<rparr>],
        ck_src_pos = 1, ck_dst_pos = 1 \<rparr>, True)
   \<and> length (ck_lines (fst (fix_chunk (hd (pt_chunks sample_patch))))) = 3"
proof -
  have "length (ck_lines (hd (pt_chunks sample_patch))) = 3" by code_simp
  then have kept: "length (ck_lines (fst (fix_chunk (hd (pt_chunks sample_patch))))) = 3"
    using fix_chunk_effect [of "hd (pt_chunks sample_patch)"] by simp
  show ?thesis by (rule conjI [OF _ kept]) code_simp
qed

text \<open>
  A context line is on both sides: removing \<open>a \<close> before a line \<open>a\<close> writes the blank into the context,
  which then no longer matches the source file.
\<close>

lemma context_line_corrupted:
  "ck_lines (fst (fix_chunk \<lparr> ck_lines = [\<lparr> pl_type = SRC, pl_line = ''a '' \<rparr>, \<lparr> pl_type = BOTH, pl_line = ''a'' \<rparr>],
                               ck_src_pos = 1, ck_dst_pos = 1 \<rparr>))
   = [\<lparr> pl_type = SRC, pl_line = ''a '' \<rparr>, \<lparr> pl_type = BOTH, pl_line = ''a '' \<rparr>]"
  by code_simp

text \<open>In debug mode the final diff is empty whatever the differences are, since the diff generator has
  been used up by the debug output; at level 3 without debugging the diff passes unchanged.\<close>

theorem final_diff_debug:
  "final_diff True level diff = Inr [] \<and> (3 \<le> level \<longrightarrow> final_diff False level diff = Inr diff)"
  by (simp add: final_diff_def remove_trailing_whitespace_changes_def parse_patchset_def)

lemma final_diff_debug_witness: "final_diff False 3 [''--- a'' @ newline] = Inr [''--- a'' @ newline]"
  using final_diff_debug [of 3] by simp

end
