(* ===== verification/Py_Handler.thy ===== *)
theory Py_Handler
  imports Py_Prelude
begin

text \<open>
  Code that changes a state and may raise: a handler maps a state to the new state and a result, so that
  an exception keeps the changes that were made before it.
\<close>

section \<open>Handlers\<close>

type_synonym ('s, 'a) handler = "'s \<Rightarrow> 's \<times> 'a result"

definition hbind :: "('s, 'a) handler \<Rightarrow> ('a \<Rightarrow> ('s, 'b) handler) \<Rightarrow> ('s, 'b) handler" where
  "hbind m f s = (case m s of (s', Inl e) \<Rightarrow> (s', Inl e) | (s', Inr x) \<Rightarrow> f x s')"

definition hread :: "('s \<Rightarrow> 'a result) \<Rightarrow> ('s, 'a) handler" where
  "hread f s = (s, f s)"

definition hset :: "('s \<Rightarrow> 's) \<Rightarrow> ('s, unit) handler" where
  "hset f s = (f s, Inr ())"

definition hreturn :: "'a \<Rightarrow> ('s, 'a) handler" where
  "hreturn x s = (s, Inr x)"

definition hseq :: "('s, unit) handler \<Rightarrow> ('s, 'b) handler \<Rightarrow> ('s, 'b) handler" where
  "hseq m n = hbind m (\<lambda>_. n)"

lemma handler_simps [simp]:
  "hbind (hread f) g s = (case f s of Inl e \<Rightarrow> (s, Inl e) | Inr x \<Rightarrow> g x s)"
  "hseq (hset u) n s = n (u s)"
  "hset v s = (v s, Inr ())" "hreturn y s = (s, Inr y)"
  by (simp_all add: hbind_def hread_def hset_def hreturn_def hseq_def)

section \<open>What handlers keep and establish\<close>

text \<open>A property of the state that a handler keeps, exceptions included.\<close>

definition preserves :: "('s \<Rightarrow> bool) \<Rightarrow> ('s, 'a) handler \<Rightarrow> bool" where
  "preserves P m \<longleftrightarrow> (\<forall>s. P s \<longrightarrow> P (fst (m s)))"

lemma preservesD: "preserves P m \<Longrightarrow> P s \<Longrightarrow> P (fst (m s))"
  by (simp add: preserves_def)

named_theorems preserves_rules \<open>what keeps a property of the state\<close>

lemma preserves_bind [preserves_rules]: "preserves P m \<Longrightarrow> (\<And>x. preserves P (f x)) \<Longrightarrow> preserves P (hbind m f)"
  by (fastforce simp: preserves_def hbind_def split: prod.splits sum.splits)

lemma preserves_seq [preserves_rules]: "preserves P m \<Longrightarrow> preserves P n \<Longrightarrow> preserves P (hseq m n)"
  by (simp add: hseq_def preserves_bind)

lemma preserves_read [preserves_rules]: "preserves P (hread f)" "preserves P (hreturn x)"
  by (simp_all add: preserves_def hread_def hreturn_def)

lemma preserves_set [preserves_rules]: "(\<And>s. P s \<Longrightarrow> P (f s)) \<Longrightarrow> preserves P (hset f)"
  by (simp add: preserves_def)

lemma preserves_branch [preserves_rules]:
  "preserves P m \<Longrightarrow> preserves P n \<Longrightarrow> preserves P (if b then m else n)"
  "(\<And>a b. p = (a, b) \<Longrightarrow> preserves P (f a b)) \<Longrightarrow> preserves P (case p of (a, b) \<Rightarrow> f a b)"
  "(\<And>x. preserves P (k x)) \<Longrightarrow> preserves P (let y = x in k y)"
  by (simp_all split: prod.splits)

lemma preserves_skip [preserves_rules]: "preserves P (\<lambda>s. (s, r))"
  by (simp add: preserves_def)

lemma preserves_test [preserves_rules]:
  "preserves P m \<Longrightarrow> preserves P n \<Longrightarrow> preserves P (\<lambda>s. if b s then m s else n s)"
  by (simp add: preserves_def)

text \<open>What holds when a handler returns normally.\<close>

definition valid :: "('s \<Rightarrow> bool) \<Rightarrow> ('s, 'a) handler \<Rightarrow> ('s \<Rightarrow> bool) \<Rightarrow> bool" where
  "valid P m Q \<longleftrightarrow> (\<forall>s. P s \<longrightarrow> \<not> isl (snd (m s)) \<longrightarrow> Q (fst (m s)))"

named_theorems valid_rules \<open>what holds after a handler has returned\<close>

lemma valid_bind: "valid P m R \<Longrightarrow> (\<And>x. valid R (f x) Q) \<Longrightarrow> valid P (hbind m f) Q"
  by (fastforce simp: valid_def hbind_def split: prod.splits sum.splits)

lemma valid_seq: "valid P m R \<Longrightarrow> valid R n Q \<Longrightarrow> valid P (hseq m n) Q"
  by (simp add: hseq_def valid_bind)

lemma valid_any: "valid P m (\<lambda>_. True)"
  by (simp add: valid_def)

lemmas valid_keep [valid_rules] = valid_bind [where P = P and R = P and Q = P for P] valid_seq [where P = P and R = P and Q = P for P]

lemma valid_read [valid_rules]: "valid P (hread f) P" "valid P (hreturn x) P"
  by (simp_all add: valid_def hread_def hreturn_def)

lemma valid_set [valid_rules]: "(\<And>s. P s \<Longrightarrow> Q (f s)) \<Longrightarrow> valid P (hset f) Q"
  by (simp add: valid_def)

lemma valid_branch [valid_rules]:
  "valid P m Q \<Longrightarrow> valid P n Q \<Longrightarrow> valid P (if b then m else n) Q"
  "(\<And>a b. p = (a, b) \<Longrightarrow> valid P (f a b) Q) \<Longrightarrow> valid P (case p of (a, b) \<Rightarrow> f a b) Q"
  "(\<And>x. valid P (k x) Q) \<Longrightarrow> valid P (let y = x in k y) Q"
  "valid P m Q \<Longrightarrow> valid P n Q \<Longrightarrow> valid P (\<lambda>s. if c s then m s else n s) Q"
  by (simp_all add: valid_def split: prod.splits)

end
