(* ===== verification/Style_Check.thy ===== *)
theory Style_Check
  imports Patch_Style Py_Handler
begin

text \<open>
  The rest of \<open>utils/check-style.py\<close>: the configuration that \<open>uncrustify\<close> is given, the indentation of a file through
  temporary files, the check of a list of files and the command line.  The file system maps a path to the text of a
  file; \<open>uncrustify\<close>, \<open>patch\<close>, the difference of two texts, the choice of temporary names and the answers of git are
  parameters, and what is written to the error output is left out.
\<close>

section \<open>The configuration\<close>

text \<open>The settings of each level; a higher level is written after the lower ones.\<close>

definition config_level2 :: "string list" where
  "config_level2 =
     ['''', ''nl_if_brace=Add'', ''nl_brace_else=Add'', ''nl_elseif_brace=Add'', ''nl_else_brace=Add'',
      ''nl_while_brace=Add'', ''nl_do_brace=Add'', ''nl_for_brace=Add'', ''nl_brace_while=Add'',
      ''nl_switch_brace=Add'', ''nl_after_case=True'', ''nl_namespace_brace=ignore'',
      ''nl_after_brace_open=True'', ''nl_class_leave_one_liners=False'', ''nl_enum_leave_one_liners=False'',
      ''nl_func_leave_one_liners=False'', ''nl_if_leave_one_liners=False'', ''nl_class_colon=Ignore'',
      ''nl_before_access_spec=2'', ''nl_after_access_spec=0'', ''indent_access_spec=-indent_columns'',
      ''nl_after_semicolon=True'', ''pos_class_colon=Lead'', ''pos_class_comma=Trail'',
      ''indent_constr_colon=true'', ''pos_bool=Lead'', ''nl_class_init_args=Add'',
      ''nl_template_class=Add'', ''nl_class_brace=Add'', ''# does not work very well'',
      ''nl_func_type_name=Ignore'', ''nl_func_scope_name=Ignore'', ''nl_func_type_name_class=Ignore'',
      ''nl_func_proto_type_name=Ignore'', ''# function'' @ [CHR 0x5C] @ ''n('', ''nl_func_paren=Remove'',
      ''nl_fdef_brace=Add'', ''nl_struct_brace=Add'', ''nl_enum_brace=Add'', ''nl_union_brace=Add'',
      ''mod_full_brace_do=Add'', ''mod_full_brace_for=Add'', ''mod_full_brace_if=Add'',
      ''mod_full_brace_while=Add'', ''mod_full_brace_for=Add'', ''mod_remove_extra_semicolon=True'',
      ''# max code width'', ''#code_width=128'', ''#ls_for_split_full=True'', ''#ls_func_split_full=True'',
      ''nl_cpp_lambda_leave_one_liners=True'']"

definition config_level1 :: "string list" where
  "config_level1 =
     ['''', ''# extra spaces here and there'', ''sp_brace_typedef=Add'', ''sp_enum_assign=Add'',
      ''sp_before_sparen=Add'', ''sp_after_semi_for=Add'', ''sp_arith=Add'', ''sp_assign=Add'',
      ''sp_compare=Add'', ''sp_func_class_paren=Add'', ''sp_after_type=Add'', ''sp_type_func=Add'',
      ''sp_angle_paren=Add'']"

definition config_level0 :: "string list" where
  "config_level0 =
     ['''', ''sp_func_proto_paren=Add'', ''sp_func_def_paren=Add'', ''sp_func_call_paren=Add'',
      ''sp_after_semi_for=Ignore'', ''sp_before_sparen=Ignore'', ''sp_before_ellipsis=Remove'',
      ''sp_type_func=Ignore'', ''sp_after_type=Ignore'', ''nl_class_leave_one_liners=True'',
      ''nl_enum_leave_one_liners=True'', ''nl_func_leave_one_liners=True'',
      ''nl_assign_leave_one_liners=True'', ''nl_collapse_empty_body=True'',
      ''nl_getset_leave_one_liners=True'', ''nl_if_leave_one_liners=True'', ''nl_fdef_brace=Ignore'',
      ''# finally, indentation configuration'', ''indent_with_tabs=0'', ''indent_namespace=false'',
      ''indent_columns=2'', ''indent_brace=2'', ''indent_case_brace=indent_columns'', ''indent_class=true'',
      ''indent_class_colon=True'', ''indent_switch_case=indent_columns'', ''# alignment'',
      ''indent_align_assign=False'', ''align_left_shift=True'', ''# comment reformating disabled'',
      ''cmt_reflow_mode=1 # do not touch comments at all'',
      ''cmt_indent_multi=False # really, do not touch them'',
      ''disable_processing_cmt= '' @ quote @ '' *NS_CHECK_STYLE_OFF*'' @ quote,
      ''enable_processing_cmt=  '' @ quote @ '' *NS_CHECK_STYLE_ON*'' @ quote]"

definition uncrustify_config :: "nat \<Rightarrow> string" where
  "uncrustify_config level =
     text_lines config_level0 @ (if level \<ge> 1 then text_lines config_level1 else [])
     @ (if level \<ge> 2 then text_lines config_level2 else [])"

section \<open>Files and programs\<close>

type_synonym disk = "(string, string) dict"

text \<open>\<open>uncrustify\<close> gets the configuration and the source file, if there is one, and what it writes, if it does;
  \<open>patch\<close> gets the difference and the text of the file.  Both raise when they are not installed.\<close>

record style_tools =
  uncrustify :: "string \<Rightarrow> string option \<Rightarrow> string option result"
  unified_diff :: "string \<Rightarrow> string \<Rightarrow> string list \<Rightarrow> string list \<Rightarrow> string list"
  patch_program :: "string \<Rightarrow> string \<Rightarrow> string result"
  temp_name :: "string list \<Rightarrow> string"

definition file_not_found :: py_exn where
  "file_not_found = OtherError ''FileNotFoundError''"

definition mkstemp :: "style_tools \<Rightarrow> (disk, string) handler" where
  "mkstemp t d = (let p = temp_name t (dict_keys d) in (dict_set d p [], Inr p))"

definition read_file :: "string \<Rightarrow> (disk, string) handler" where
  "read_file p = hread (\<lambda>d. case dict_get d p of None \<Rightarrow> Inl file_not_found | Some s \<Rightarrow> Inr s)"

definition write_file :: "string \<Rightarrow> string \<Rightarrow> (disk, unit) handler" where
  "write_file p s = hset (\<lambda>d. dict_set d p s)"

definition copyfile :: "string \<Rightarrow> string \<Rightarrow> (disk, unit) handler" where
  "copyfile src dst = hbind (read_file src) (write_file dst)"

definition copy_file :: "style_tools \<Rightarrow> string \<Rightarrow> (disk, string) handler" where
  "copy_file t filename =
     hbind (mkstemp t) (\<lambda>pathname. hseq (copyfile filename pathname) (hreturn pathname))"

definition uncrustify_config_file :: "style_tools \<Rightarrow> nat \<Rightarrow> (disk, string) handler" where
  "uncrustify_config_file t level =
     hbind (mkstemp t) (\<lambda>pathname. hseq (write_file pathname (uncrustify_config level)) (hreturn pathname))"

section \<open>Indentation\<close>

definition run_uncrustify :: "style_tools \<Rightarrow> string \<Rightarrow> string \<Rightarrow> string \<Rightarrow> (disk, unit) handler" where
  "run_uncrustify t cfg source output =
     hbind (read_file cfg) (\<lambda>c d.
       (case uncrustify t c (dict_get d source) of
          Inl e \<Rightarrow> (d, Inl (OtherError ''uncrustify not installed''))
        | Inr None \<Rightarrow> (d, Inr ())
        | Inr (Some s) \<Rightarrow> (dict_set d output s, Inr ())))"

definition run_patch :: "style_tools \<Rightarrow> string \<Rightarrow> string \<Rightarrow> (disk, unit) handler" where
  "run_patch t diff output =
     hbind (read_file diff) (\<lambda>p. hbind (read_file output) (\<lambda>s.
     hbind (hread (\<lambda>_. patch_program t p s)) (write_file output)))"

definition indent :: "style_tools \<Rightarrow> bool \<Rightarrow> nat \<Rightarrow> string \<Rightarrow> (disk, string) handler" where
  "indent t debug level source =
     hbind (mkstemp t) (\<lambda>output.
     hbind (uncrustify_config_file t level) (\<lambda>cfg.
     hseq (run_uncrustify t cfg source output)
    (hbind (read_file source) (\<lambda>src. hbind (read_file output) (\<lambda>dst.
     let diff = unified_diff t source output (readlines src) (readlines dst)
     in hseq (if debug then hbind (mkstemp t) (\<lambda>initial_diff. write_file initial_diff (concat diff)) else hreturn ())
       (hbind (mkstemp t) (\<lambda>final.
        hbind (hread (\<lambda>_. final_diff debug level diff)) (\<lambda>lines.
        hseq (write_file final (concat lines))
       (hseq (copyfile source output)
       (hseq (run_patch t final output) (hreturn output)))))))))))"

section \<open>The check\<close>

fun hmap :: "('a \<Rightarrow> ('s, 'b) handler) \<Rightarrow> 'a list \<Rightarrow> ('s, 'b list) handler" where
  "hmap f [] = hreturn []"
| "hmap f (x # xs) = hbind (f x) (\<lambda>y. hbind (hmap f xs) (\<lambda>ys. hreturn (y # ys)))"

text \<open>A comparison of two files: equal texts.  (\<open>filecmp.cmp\<close> takes two files of the same size and the same time of
  modification for equal without looking; a temporary file that was just written is taken to be newer.)\<close>

definition compare_files :: "string \<times> string \<Rightarrow> (disk, string \<times> string \<times> string) handler" where
  "compare_files p = hbind (read_file (fst p)) (\<lambda>a. hbind (read_file (snd p)) (\<lambda>b. hreturn (fst p, a, b)))"

text \<open>With \<open>diff\<close> the differences of the files that fail are printed instead of their names.\<close>

definition report_lines :: "style_tools \<Rightarrow> bool \<Rightarrow> (string \<times> string) list \<Rightarrow> (string \<times> string \<times> string) list \<Rightarrow> string list" where
  "report_lines t diff output files =
     (if diff then
        concat (map (\<lambda>((src, dst), (_, a, b)). if a \<noteq> b then unified_diff t src dst (readlines a) (readlines b) else [])
                  (zip output files))
      else snd (indent_files False files))"

definition style_of_files ::
    "style_tools \<Rightarrow> bool \<Rightarrow> bool \<Rightarrow> nat \<Rightarrow> bool \<Rightarrow> string list \<Rightarrow> (disk, bool \<times> string list) handler" where
  "style_of_files t diff debug level inplace files =
     hbind (hmap (\<lambda>f. hbind (indent t debug level f) (\<lambda>dst. hreturn (f, dst))) files) (\<lambda>output.
       if inplace then hbind (hmap (\<lambda>(src, dst). copyfile dst src) output) (\<lambda>_. hreturn (True, []))
       else hbind (hmap compare_files output) (\<lambda>compared.
              hreturn (fst (indent_files False compared), report_lines t diff output compared)))"

section \<open>The command line\<close>

definition git_modified_files :: "string list \<Rightarrow> string \<Rightarrow> string list" where
  "git_modified_files changed root_dir =
     map (\<lambda>f. butlast root_dir @ ''/'' @ strip f)
       (filter (\<lambda>f. endswith f ''.h'' \<or> endswith f ''.cc'') (map strip changed))"

record style_options =
  so_git :: bool
  so_file :: string
  so_diff :: bool
  so_debug :: bool
  so_level :: int
  so_in_place :: bool

text \<open>\<open>run_as_main\<close>: what is printed, and the exit status.\<close>

definition style_main :: "style_tools \<Rightarrow> string list \<Rightarrow> string \<Rightarrow> style_options \<Rightarrow> disk \<Rightarrow> disk \<times> string list \<times> int" where
  "style_main t changed root_dir opts d =
     (let check = (\<lambda>files. case style_of_files t (so_diff opts) (so_debug opts) (nat (so_level opts)) (so_in_place opts) files d of
                      (d', Inl e) \<Rightarrow> (d', [], 1)
                    | (d', Inr (correct, out)) \<Rightarrow> (d', out, if correct then 0 else 1))
      in if so_git opts then check (git_modified_files changed root_dir)
         else if so_file opts \<noteq> [] then
           (if so_file opts \<notin> set (dict_keys d) then (d, [''file '' @ so_file opts @ '' does not exist''], 1)
            else check [so_file opts])
         else (d, [], 1))"

section \<open>Temporary files\<close>

text \<open>Temporary names are new.\<close>

definition fresh_names :: "style_tools \<Rightarrow> bool" where
  "fresh_names t \<longleftrightarrow> (\<forall>ks. temp_name t ks \<notin> set ks)"

definition extends :: "disk \<Rightarrow> disk \<Rightarrow> bool" where
  "extends d d' \<longleftrightarrow> (\<forall>p s. dict_get d p = Some s \<longrightarrow> dict_get d' p = Some s)"

lemma extends_refl [simp]: "extends d d"
  by (simp add: extends_def)

lemma extends_trans: "extends d d' \<Longrightarrow> extends d' d'' \<Longrightarrow> extends d d''"
  by (simp add: extends_def)

lemma extends_get: "extends d d' \<Longrightarrow> dict_get d p = Some s \<Longrightarrow> dict_get d' p = Some s"
  by (simp add: extends_def)

lemma extends_none: "extends d d' \<Longrightarrow> dict_get d' p = None \<Longrightarrow> dict_get d p = None"
  unfolding extends_def by (metis option.exhaust option.distinct(1))

lemma extends_set: "extends d d' \<Longrightarrow> dict_get d p = None \<Longrightarrow> extends d (dict_set d' p s)"
  by (auto simp: extends_def)

lemma fresh_get: "fresh_names t \<Longrightarrow> dict_get d (temp_name t (dict_keys d)) = None"
  unfolding fresh_names_def dict_get_None_iff by blast

text \<open>A handler that keeps the files of \<open>d\<close> and whose result satisfies \<open>Q\<close>.\<close>

definition only_adds_files :: "disk \<Rightarrow> (disk, 'a) handler \<Rightarrow> ('a \<Rightarrow> bool) \<Rightarrow> bool" where
  "only_adds_files d m Q \<longleftrightarrow> (\<forall>d1. extends d d1 \<longrightarrow> extends d (fst (m d1)) \<and> (\<forall>x. snd (m d1) = Inr x \<longrightarrow> Q x))"

lemma adds_extends: "only_adds_files d m Q \<Longrightarrow> m d = (d', r) \<Longrightarrow> extends d d'"
  unfolding only_adds_files_def by (metis extends_refl fst_conv)

lemma adds_bind: "only_adds_files d m P \<Longrightarrow> (\<And>x. P x \<Longrightarrow> only_adds_files d (f x) Q) \<Longrightarrow> only_adds_files d (hbind m f) Q"
  by (fastforce simp: only_adds_files_def hbind_def split: prod.splits sum.splits)

lemma adds_seq: "only_adds_files d m P \<Longrightarrow> only_adds_files d n Q \<Longrightarrow> only_adds_files d (hseq m n) Q"
  by (simp add: hseq_def adds_bind)

lemma adds_read: "(\<And>d1 x. extends d d1 \<Longrightarrow> f d1 = Inr x \<Longrightarrow> Q x) \<Longrightarrow> only_adds_files d (hread f) Q"
  by (simp add: only_adds_files_def hread_def)

lemma adds_return: "Q x \<Longrightarrow> only_adds_files d (hreturn x) Q"
  by (simp add: only_adds_files_def)

lemma adds_write: "dict_get d p = None \<Longrightarrow> only_adds_files d (write_file p s) (\<lambda>_. True)"
  by (simp add: only_adds_files_def write_file_def extends_set)

lemma adds_mkstemp: "fresh_names t \<Longrightarrow> only_adds_files d (mkstemp t) (\<lambda>p. dict_get d p = None)"
  using extends_none [OF _ fresh_get] by (simp add: only_adds_files_def mkstemp_def Let_def extends_set)

lemma adds_read_file: "only_adds_files d (read_file p) (\<lambda>_. True)"
  unfolding read_file_def by (rule adds_read) simp

lemma adds_config: "fresh_names t \<Longrightarrow> only_adds_files d (uncrustify_config_file t level) (\<lambda>p. dict_get d p = None)"
  unfolding uncrustify_config_file_def by (intro adds_bind [OF adds_mkstemp] adds_seq [OF adds_write] adds_return)

lemma adds_uncrustify: "dict_get d output = None \<Longrightarrow> only_adds_files d (run_uncrustify t cfg source output) (\<lambda>_. True)"
  unfolding run_uncrustify_def
  by (intro adds_bind [OF adds_read_file]) (auto simp: only_adds_files_def extends_set split: sum.splits option.splits)

lemma adds_copy: "dict_get d dst = None \<Longrightarrow> only_adds_files d (copyfile src dst) (\<lambda>_. True)"
  unfolding copyfile_def by (intro adds_bind [OF adds_read_file] adds_write)

lemma adds_patch: "dict_get d output = None \<Longrightarrow> only_adds_files d (run_patch t p output) (\<lambda>_. True)"
  unfolding run_patch_def by (intro adds_bind [OF adds_read_file] adds_bind [OF adds_read] adds_write) simp_all

lemma adds_indent: "fresh_names t \<Longrightarrow> only_adds_files d (indent t debug level source) (\<lambda>p. dict_get d p = None)"
  unfolding indent_def Let_def
  by (intro adds_bind [OF adds_mkstemp] adds_bind [OF adds_config] adds_seq [OF adds_uncrustify] adds_bind [OF adds_read_file]
      adds_seq [where P = "\<lambda>_. True"] adds_bind [OF adds_read [where Q = "\<lambda>_. True"]] adds_seq [OF adds_write] adds_seq [OF adds_copy]
      adds_seq [OF adds_patch] adds_return)
    (auto intro!: adds_bind [OF adds_mkstemp] adds_write adds_return)

section \<open>What an indentation is\<close>

text \<open>The indentation of a text without temporary files; the name of the output file is in the header of the
  difference.\<close>

definition indented :: "style_tools \<Rightarrow> bool \<Rightarrow> nat \<Rightarrow> string \<Rightarrow> string \<Rightarrow> string \<Rightarrow> string result" where
  "indented t debug level source output c =
     (case uncrustify t (uncrustify_config level) (Some c) of
        Inl e \<Rightarrow> Inl (OtherError ''uncrustify not installed'')
      | Inr r \<Rightarrow>
          rbind (final_diff debug level (unified_diff t source output (readlines c)
                   (readlines (case r of None \<Rightarrow> [] | Some s \<Rightarrow> s))))
            (\<lambda>lines. patch_program t (concat lines) c))"

lemma hbind_Inr_iff:
  "hbind m f s = (s', Inr y) \<longleftrightarrow> (\<exists>s1 x. m s = (s1, Inr x) \<and> f x s1 = (s', Inr y))"
  by (auto simp: hbind_def split: prod.splits sum.splits)

lemma return_result: "hreturn x d = (d', Inr y) \<longleftrightarrow> d' = d \<and> y = x"
  by auto

lemma mkstemp_result: "fresh_names t \<Longrightarrow> mkstemp t d = (d', Inr p) \<Longrightarrow> dict_get d p = None \<and> d' = dict_set d p []"
  using fresh_get [of t d] by (auto simp: mkstemp_def Let_def)

lemma write_result: "write_file p s d = (d', Inr u) \<longleftrightarrow> d' = dict_set d p s"
  by (auto simp: write_file_def)

lemma read_result: "read_file p d = (d', Inr s) \<longleftrightarrow> d' = d \<and> dict_get d p = Some s"
  by (auto simp: read_file_def hread_def split: option.splits)

lemma copy_result: "copyfile a b d = (d', Inr u) \<longleftrightarrow> (\<exists>s. dict_get d a = Some s \<and> d' = dict_set d b s)"
  by (auto simp: copyfile_def hbind_Inr_iff read_result write_result)

lemma patch_result:
  "run_patch t p out d = (d', Inr u) \<longleftrightarrow>
     (\<exists>x y z. dict_get d p = Some x \<and> dict_get d out = Some y \<and> patch_program t x y = Inr z \<and> d' = dict_set d out z)"
  by (auto simp: run_patch_def hbind_Inr_iff read_result write_result hread_def simp del: handler_simps)

lemma config_result:
  assumes "fresh_names t" "uncrustify_config_file t level d = (d', Inr p)"
  shows "dict_get d p = None \<and> d' = dict_set (dict_set d p []) p (uncrustify_config level)"
proof -
  obtain d1 where d1: "mkstemp t d = (d1, Inr p)" "d' = dict_set d1 p (uncrustify_config level)"
    using assms(2) by (auto simp: uncrustify_config_file_def hbind_Inr_iff hseq_def write_result)
  then show ?thesis using mkstemp_result [OF assms(1) d1(1)] by simp
qed

lemma uncrustify_result:
  assumes "dict_get d cfg = Some k"
  shows "run_uncrustify t cfg source out d = (d', Inr u) \<longleftrightarrow>
     (\<exists>r. uncrustify t k (dict_get d source) = Inr r \<and> d' = (case r of None \<Rightarrow> d | Some s \<Rightarrow> dict_set d out s))"
  using assms by (auto simp: run_uncrustify_def hbind_Inr_iff read_result split: sum.splits option.splits)

lemma indent_result:
  assumes fresh: "fresh_names t" and src: "dict_get d source = Some c" and run: "indent t debug level source d = (d', Inr p)"
  shows "extends d d' \<and> dict_get d p = None
    \<and> (\<exists>s. indented t debug level source p c = Inr s \<and> dict_get d' p = Some s)"
proof -
  have new: "extends d d'" "dict_get d p = None"
    using adds_indent [OF fresh, of d debug level source, unfolded only_adds_files_def, rule_format, of d] run by simp_all
  from run obtain d1 p1 d2 cfg d3 d4 a d5 b d6 d7 final d8 ls d9 d10 d11 where
    s1: "mkstemp t d = (d1, Inr p1)" and s2: "uncrustify_config_file t level d1 = (d2, Inr cfg)"
    and s3: "run_uncrustify t cfg source p1 d2 = (d3, Inr ())"
    and s4: "read_file source d3 = (d4, Inr a)" and s5: "read_file p1 d4 = (d5, Inr b)"
    and s6: "(if debug then hbind (mkstemp t) (\<lambda>i. write_file i (concat (unified_diff t source p1 (readlines a) (readlines b))))
              else hreturn ()) d5 = (d6, Inr ())"
    and s7: "mkstemp t d6 = (d7, Inr final)"
    and s8: "hread (\<lambda>_. final_diff debug level (unified_diff t source p1 (readlines a) (readlines b))) d7 = (d8, Inr ls)"
    and s9: "write_file final (concat ls) d8 = (d9, Inr ())" and s10: "copyfile source p1 d9 = (d10, Inr ())"
    and s11: "run_patch t final p1 d10 = (d11, Inr ())" and s12: "hreturn p1 d11 = (d', Inr p)"
    unfolding indent_def hseq_def Let_def hbind_Inr_iff by (auto simp del: handler_simps)
  have p: "p = p1" "d' = d11" using s12 by simp_all
  note e1 = mkstemp_result [OF fresh s1] and e2 = config_result [OF fresh s2]
  have ne: "p1 \<noteq> source" "cfg \<noteq> p1" "cfg \<noteq> source" using e1 e2 src by (auto split: if_splits)
  have g2: "dict_get d2 source = Some c" "dict_get d2 p1 = Some []" "dict_get d2 cfg = Some (uncrustify_config level)"
    using e1 e2 ne src by auto
  obtain r where r: "uncrustify t (uncrustify_config level) (Some c) = Inr r"
    "d3 = (case r of None \<Rightarrow> d2 | Some s \<Rightarrow> dict_set d2 p1 s)"
    using s3 g2 unfolding uncrustify_result [OF g2(3)] by auto
  have ab: "d5 = d3" "a = c" "b = (case r of None \<Rightarrow> [] | Some s \<Rightarrow> s)"
    using s4 s5 g2 ne r(2) by (auto simp: read_result split: option.splits)
  have "extends d5 d6"
    using s6 mkstemp_result [OF fresh, of d5] by (auto simp: hbind_Inr_iff write_result intro!: extends_set split: if_splits)
  then have "dict_get d6 source = Some c" "\<exists>x. dict_get d6 p1 = Some x"
    using g2 ne r(2) ab(1) by (auto simp: extends_def split: option.splits)
  then have fin: "dict_get d7 source = Some c" "final \<noteq> p1" "final \<noteq> source"
    using mkstemp_result [OF fresh s7] by auto
  have d9: "d9 = dict_set d7 final (concat ls)" "final_diff debug level (unified_diff t source p1 (readlines a) (readlines b)) = Inr ls"
    using s8 s9 by (auto simp: write_result hread_def)
  have d10: "dict_get d10 p1 = Some c" "dict_get d10 final = Some (concat ls)"
    using s10 d9(1) fin by (auto simp: copy_result)
  then obtain z where "patch_program t (concat ls) c = Inr z" "d11 = dict_set d10 p1 z" using s11 by (auto simp: patch_result)
  then show ?thesis using new p d9(2) r(1) ab by (simp add: indented_def)
qed

section \<open>What a check does\<close>

lemma adds_hmap: "(\<And>x. only_adds_files d (f x) Q) \<Longrightarrow> only_adds_files d (hmap f xs) (list_all Q)"
  by (induction xs) (auto intro!: adds_bind [where P = Q] adds_bind [where P = "list_all Q"] adds_return)

abbreviation indent_pair :: "style_tools \<Rightarrow> bool \<Rightarrow> nat \<Rightarrow> string \<Rightarrow> (disk, string \<times> string) handler" where
  "indent_pair t debug level f \<equiv> hbind (indent t debug level f) (\<lambda>dst. hreturn (f, dst))"

lemma adds_pairs:
  "fresh_names t \<Longrightarrow> only_adds_files d (hmap (indent_pair t debug level) files) (list_all (\<lambda>(f, p). dict_get d p = None))"
  by (intro adds_hmap adds_bind [OF adds_indent] adds_return) simp_all

text \<open>Each file has its temporary file, which holds its indentation.\<close>

definition holds_indentation :: "style_tools \<Rightarrow> bool \<Rightarrow> nat \<Rightarrow> disk \<Rightarrow> disk \<Rightarrow> string \<times> string \<Rightarrow> bool" where
  "holds_indentation t debug level d d' = (\<lambda>(f, p).
     dict_get d p = None \<and> (\<exists>c s. dict_get d f = Some c \<and> indented t debug level f p c = Inr s \<and> dict_get d' p = Some s))"

lemma holds_indentation_extends:
  "holds_indentation t debug level d d1 x \<Longrightarrow> extends d1 d2 \<Longrightarrow> holds_indentation t debug level d d2 x"
  by (auto simp: holds_indentation_def dest: extends_get)

lemma pairs_result:
  assumes fresh: "fresh_names t"
  shows "extends d0 d \<Longrightarrow> \<forall>f \<in> set files. \<exists>c. dict_get d0 f = Some c \<Longrightarrow>
    hmap (indent_pair t debug level) files d = (d', Inr outs) \<Longrightarrow>
    extends d d' \<and> map fst outs = files \<and> list_all (holds_indentation t debug level d0 d') outs"
proof (induction files arbitrary: d outs)
  case Nil
  then show ?case by simp
next
  case (Cons f files)
  from Cons.prems(3) obtain d1 p rest where
    r: "indent t debug level f d = (d1, Inr p)" "hmap (indent_pair t debug level) files d1 = (d', Inr rest)" "outs = (f, p) # rest"
    unfolding hmap.simps hbind_Inr_iff return_result by blast
  obtain c where c: "dict_get d0 f = Some c" "dict_get d f = Some c" using Cons.prems(1,2) by (auto dest: extends_get)
  note i = indent_result [OF fresh c(2) r(1)]
  have "extends d0 d1" using Cons.prems(1) i by (blast intro: extends_trans)
  note ih = Cons.IH [OF this _ r(2)]
  have "holds_indentation t debug level d0 d1 (f, p)"
    using i c(1) extends_none [OF Cons.prems(1)] by (auto simp: holds_indentation_def)
  then show ?case using ih i r(3) Cons.prems(2) by (auto intro: holds_indentation_extends extends_trans)
qed

lemma compare_result:
  "hmap compare_files outs d = (d', Inr cs) \<longleftrightarrow>
     d' = d \<and> list_all2 (\<lambda>x y. fst y = fst x \<and> dict_get d (fst x) = Some (fst (snd y)) \<and> dict_get d (snd x) = Some (snd (snd y))) outs cs"
proof (induction outs arbitrary: cs d')
  case Nil
  then show ?case by (auto simp: return_result)
next
  case (Cons x outs)
  have "compare_files x d = (d1, Inr y) \<longleftrightarrow>
      d1 = d \<and> fst y = fst x \<and> dict_get d (fst x) = Some (fst (snd y)) \<and> dict_get d (snd x) = Some (snd (snd y))" for d1 y
    by (cases y) (auto simp: compare_files_def hbind_Inr_iff read_result return_result)
  then show ?case by (auto simp: hbind_Inr_iff return_result Cons.IH list_all2_Cons1)
qed

lemma adds_compare: "only_adds_files d (hmap compare_files outs) (\<lambda>_. True)"
proof -
  have "only_adds_files d (hmap compare_files outs) (list_all (\<lambda>_. True))"
    unfolding compare_files_def by (intro adds_hmap adds_bind [OF adds_read_file] adds_return) simp
  then show ?thesis by (simp add: only_adds_files_def)
qed

lemma adds_style_check: "fresh_names t \<Longrightarrow> only_adds_files d (style_of_files t diff debug level False files) (\<lambda>_. True)"
  unfolding style_of_files_def
  by (intro adds_bind [OF adds_pairs]) (auto intro!: adds_bind [OF adds_compare] adds_return simp del: handler_simps)

lemma pairs_agree:
  assumes "list_all (holds_indentation t debug level d d') outs" "extends d d'"
    "list_all2 (\<lambda>x y. fst y = fst x \<and> dict_get d' (fst x) = Some (fst (snd y)) \<and> dict_get d' (snd x) = Some (snd (snd y))) outs cs"
  shows "list_all (\<lambda>(_, a, b). a = b) cs \<longleftrightarrow>
    list_all (\<lambda>(f, p). indented t debug level f p (the (dict_get d f)) = Inr (the (dict_get d f))) outs"
  using assms(3,1)
proof (induction rule: list_all2_induct)
  case (Cons x xs y ys)
  obtain f p where x: "x = (f, p)" by (cases x)
  with Cons.prems obtain c s where c: "dict_get d f = Some c" "indented t debug level f p c = Inr s" "dict_get d' p = Some s"
    by (auto simp: holds_indentation_def)
  then have "fst (snd y) = c \<and> snd (snd y) = s" using Cons.hyps(1) extends_get [OF assms(2) c(1)] by (simp add: x)
  then show ?case using Cons.IH Cons.prems c by (auto simp: x case_prod_beta)
qed simp

text \<open>Programs for the examples: tabs are removed, and a difference is the new text.\<close>

definition untab_tools :: style_tools where
  "untab_tools =
     \<lparr> uncrustify = (\<lambda>_ src. Inr (map_option (filter (\<lambda>c. c \<noteq> CHR 0x09)) src)), unified_diff = (\<lambda>_ _ a b. b),
       patch_program = (\<lambda>p _. Inr p), temp_name = (\<lambda>ks. concat ks @ ''t'') \<rparr>"

lemma untab_fresh: "fresh_names untab_tools"
proof -
  have "length k \<le> length (concat ks)" if "k \<in> set ks" for k :: string and ks
    using that by (induction ks) auto
  then show ?thesis unfolding fresh_names_def untab_tools_def by fastforce
qed

text \<open>C22 A check of existing files changes none of the files, exceptions included.  If it returns, each file has a
  temporary file of its own, and the result is whether the indentation of each file is the text that the file has.\<close>

theorem style_check_verdict:
  assumes "fresh_names t" "\<forall>f \<in> set files. \<exists>c. dict_get d f = Some c"
    and "style_of_files t diff debug level False files d = (d', r)"
  shows "extends d d' \<and> (\<forall>ok out. r = Inr (ok, out) \<longrightarrow> (\<exists>outs. map fst outs = files
    \<and> (\<forall>(f, p) \<in> set outs. dict_get d p = None \<and> (\<exists>s. indented t debug level f p (the (dict_get d f)) = Inr s \<and> dict_get d' p = Some s))
    \<and> (ok \<longleftrightarrow> (\<forall>(f, p) \<in> set outs. indented t debug level f p (the (dict_get d f)) = Inr (the (dict_get d f))))))"
proof (intro conjI allI impI)
  show "extends d d'"
    by (rule adds_extends [OF adds_style_check [OF assms(1)] assms(3)])
next
  fix ok out
  assume "r = Inr (ok, out)"
  then obtain d1 outs cs where
    1: "hmap (indent_pair t debug level) files d = (d1, Inr outs)" and 2: "hmap compare_files outs d1 = (d', Inr cs)"
    and 3: "ok = fst (indent_files False cs)"
    using assms(3) unfolding style_of_files_def hbind_Inr_iff by (auto simp: hbind_Inr_iff return_result)
  note p = pairs_result [OF assms(1) extends_refl assms(2) 1]
  have cs: "d' = d1" "list_all2 (\<lambda>x y. fst y = fst x \<and> dict_get d1 (fst x) = Some (fst (snd y)) \<and> dict_get d1 (snd x) = Some (snd (snd y))) outs cs"
    using 2 unfolding compare_result by simp_all
  have "ok \<longleftrightarrow> list_all (\<lambda>(_, a, b). a = b) cs"
    by (auto simp: 3 indent_files_def Let_def filter_empty_conv list_all_iff case_prod_beta)
  also have "\<dots> \<longleftrightarrow> (\<forall>(f, p) \<in> set outs. indented t debug level f p (the (dict_get d f)) = Inr (the (dict_get d f)))"
    using pairs_agree [OF _ _ cs(2)] p by (auto simp: list_all_iff)
  finally have ok: "ok \<longleftrightarrow> (\<forall>(f, p) \<in> set outs. indented t debug level f p (the (dict_get d f)) = Inr (the (dict_get d f)))" .
  have "\<forall>(f, p) \<in> set outs. dict_get d p = None \<and> (\<exists>s. indented t debug level f p (the (dict_get d f)) = Inr s \<and> dict_get d' p = Some s)"
    using p cs(1) by (fastforce simp: list_all_iff holds_indentation_def)
  then show "\<exists>outs. map fst outs = files
    \<and> (\<forall>(f, p) \<in> set outs. dict_get d p = None \<and> (\<exists>s. indented t debug level f p (the (dict_get d f)) = Inr s \<and> dict_get d' p = Some s))
    \<and> (ok \<longleftrightarrow> (\<forall>(f, p) \<in> set outs. indented t debug level f p (the (dict_get d f)) = Inr (the (dict_get d f))))"
    using ok p by blast
qed




lemmas run_defs = indent_def mkstemp_def uncrustify_config_file_def run_uncrustify_def run_patch_def copyfile_def
  read_file_def write_file_def hbind_def hseq_def untab_tools_def final_diff_def Let_def hread_def

definition two_files :: disk where
  "two_files = [(''a.h'', ''x;'' @ newline), (''b.cc'', CHR 0x09 # ''y;'' @ newline)]"


theorem style_check_verdict_witness:
  "extends two_files (fst (style_of_files untab_tools False False 3 False [''b.cc''] two_files))
   \<and> map_sum id fst (snd (style_of_files untab_tools False False 3 False [''b.cc''] two_files)) = Inr False"
proof -
  obtain d' r where r: "style_of_files untab_tools False False 3 False [''b.cc''] two_files = (d', r)" by fastforce
  have "\<forall>f \<in> set [''b.cc'']. \<exists>c. dict_get two_files f = Some c" by (simp add: two_files_def)
  note v = style_check_verdict [OF untab_fresh this r]
  have "\<not> isl (snd (style_of_files untab_tools False False 3 False [''b.cc''] two_files))"
    by (simp add: style_of_files_def compare_files_def two_files_def run_defs)
  then obtain ok out where ok: "r = Inr (ok, out)" using r by (cases r) auto
  have "indented untab_tools False 3 q p (CHR 0x09 # ''y;'' @ newline) = Inr (''y;'' @ newline)" for q p
    by (simp add: indented_def untab_tools_def final_diff_def)
  then have "\<not> ok" using v ok by (fastforce simp: two_files_def)
  then show ?thesis using v r ok by simp
qed

text \<open>A run of \<open>uncrustify\<close> that fails writes nothing, and its exit status is not looked at: the file is emptied, and the
  result is success.\<close>

lemma uncrustify_failure_empties:
  "case style_main (untab_tools \<lparr> uncrustify := \<lambda>_ _. Inr None \<rparr>) [] []
     \<lparr> so_git = False, so_file = ''b.cc'', so_diff = False, so_debug = False, so_level = 3, so_in_place = True \<rparr> two_files
   of (d, out, code) \<Rightarrow> dict_get d ''b.cc'' = Some [] \<and> code = 0"
  by (simp add: style_main_def style_of_files_def two_files_def run_defs)

text \<open>A file that git lists as changed since it was removed ends the check: no file is checked.\<close>

lemma removed_file_ends_check:
  "git_modified_files [''g.h'' @ newline, ''a.h'' @ newline] (''/s'' @ newline) = [''/s/g.h'', ''/s/a.h'']
   \<and> snd (style_of_files untab_tools False False 3 False [''/s/g.h'', ''/s/a.h''] [(''/s/a.h'', [])]) = Inl file_not_found"
proof
  show "git_modified_files [''g.h'' @ newline, ''a.h'' @ newline] (''/s'' @ newline) = [''/s/g.h'', ''/s/a.h'']"
    by (simp add: git_modified_files_def strip_def lstrip_def rstrip_def py_space_def endswith_def startswith_def)
  have "snd (indent untab_tools False 3 ''/s/g.h'' [(''/s/a.h'', [])]) = Inl file_not_found" by (simp add: run_defs)
  then obtain d1 where "indent untab_tools False 3 ''/s/g.h'' [(''/s/a.h'', [])] = (d1, Inl file_not_found)" by (metis prod.collapse)
  then show "snd (style_of_files untab_tools False False 3 False [''/s/g.h'', ''/s/a.h''] [(''/s/a.h'', [])]) = Inl file_not_found"
    by (simp add: style_of_files_def hbind_def)
qed

end
