(* ===== verification/Shlex.thy ===== *)
theory Shlex
  imports Py_Prelude
begin

text \<open>
  \<open>shlex.split\<close> of the standard library (POSIX mode, no comments), which \<open>waf-tools/shellcmd.py\<close> and
  \<open>wutils.py\<close> use on command lines, and the quoting of words that it undoes.
\<close>

section \<open>The splitter\<close>

datatype shlex_state = Between | In_Word | In_Quote char | Escaped shlex_state

definition shlex_space :: "char \<Rightarrow> bool" where
  "shlex_space c \<longleftrightarrow> of_char c \<in> {32, 9, 13, 10 :: nat}"

abbreviation dquote :: char where
  "dquote \<equiv> CHR 0x22"

abbreviation squote :: char where
  "squote \<equiv> CHR 0x27"

abbreviation backslash :: char where
  "backslash \<equiv> CHR 0x5C"

text \<open>The state, the word read so far, the rest of the input.\<close>

fun shlex :: "shlex_state \<Rightarrow> string \<Rightarrow> string \<Rightarrow> string list result" where
  "shlex Between w [] = Inr []"
| "shlex In_Word w [] = Inr [w]"
| "shlex (In_Quote q) w [] = Inl ValueError"
| "shlex (Escaped st) w [] = Inl ValueError"
| "shlex Between w (c # cs) =
     (if shlex_space c then shlex Between [] cs
      else if c = backslash then shlex (Escaped In_Word) [] cs
      else if c = squote \<or> c = dquote then shlex (In_Quote c) [] cs
      else shlex In_Word [c] cs)"
| "shlex In_Word w (c # cs) =
     (if shlex_space c then rbind (shlex Between [] cs) (\<lambda>ws. Inr (w # ws))
      else if c = squote \<or> c = dquote then shlex (In_Quote c) w cs
      else if c = backslash then shlex (Escaped In_Word) w cs
      else shlex In_Word (w @ [c]) cs)"
| "shlex (In_Quote q) w (c # cs) =
     (if c = q then shlex In_Word w cs
      else if c = backslash \<and> q = dquote then shlex (Escaped (In_Quote q)) w cs
      else shlex (In_Quote q) (w @ [c]) cs)"
| "shlex (Escaped st) w (c # cs) =
     (case st of
        In_Quote q \<Rightarrow> shlex st (if c \<noteq> backslash \<and> c \<noteq> q then w @ [backslash, c] else w @ [c]) cs
      | _ \<Rightarrow> shlex st (w @ [c]) cs)"

definition shlex_split :: "string \<Rightarrow> string list result" where
  "shlex_split s = shlex Between [] s"

section \<open>Words that need no quotes\<close>

definition bare :: "string \<Rightarrow> bool" where
  "bare w \<longleftrightarrow> w \<noteq> [] \<and> list_all (\<lambda>c. \<not> shlex_space c \<and> c \<noteq> squote \<and> c \<noteq> dquote) w"

text \<open>\<open>s.replace('\', '\\')\<close>\<close>

definition double_backslashes :: "string \<Rightarrow> string" where
  "double_backslashes s = concat (map (\<lambda>c. if c = backslash then [c, c] else [c]) s)"

lemma double_backslashes_append [simp]:
  "double_backslashes (a @ b) = double_backslashes a @ double_backslashes b"
  by (simp add: double_backslashes_def)

lemma double_backslashes_simps [simp]:
  "double_backslashes [] = []"
  "double_backslashes (c # s) = (if c = backslash then [c, c] else [c]) @ double_backslashes s"
  by (simp_all add: double_backslashes_def)

lemma not_space [simp]: "\<not> shlex_space backslash" "\<not> shlex_space squote" "\<not> shlex_space dquote" "shlex_space CHR '' ''"
  by (simp_all add: shlex_space_def)

lemma shlex_word:
  assumes "list_all (\<lambda>c. \<not> shlex_space c \<and> c \<noteq> squote \<and> c \<noteq> dquote) s"
  shows "shlex In_Word w (double_backslashes s @ rest) = shlex In_Word (w @ s) rest"
  using assms by (induction s arbitrary: w) auto

lemma shlex_bare:
  assumes "bare s"
  shows "shlex Between w (double_backslashes s @ rest) = shlex In_Word s rest"
proof -
  obtain c s' where s: "s = c # s'" using assms by (cases s) (auto simp: bare_def)
  have ok: "\<not> shlex_space c" "c \<noteq> squote" "c \<noteq> dquote" using assms s by (auto simp: bare_def)
  have "shlex In_Word [c] (double_backslashes s' @ rest) = shlex In_Word ([c] @ s') rest"
    using assms s by (intro shlex_word) (simp add: bare_def)
  then show ?thesis using s ok by (cases "c = backslash") simp_all
qed

lemma shlex_bare_words:
  "list_all bare ws \<Longrightarrow> shlex_split (double_backslashes (join_with '' '' ws)) = Inr ws"
  unfolding shlex_split_def
proof (induction "'' ''" ws rule: join_with.induct)
  case 1
  then show ?case by simp
next
  case (2 w)
  then show ?case using shlex_bare [of w "[]" "[]"] by simp
next
  case (3 w v ws)
  then show ?case using shlex_bare [of w "[]"] by (simp del: join_with.simps(3)) simp
qed

section \<open>Quoting\<close>

text \<open>A word in single quotes, its single quotes in double quotes (\<open>shlex.quote\<close>).\<close>

definition quote_word :: "string \<Rightarrow> string" where
  "quote_word w = [squote] @ concat (map (\<lambda>c. if c = squote then [squote, dquote, squote, dquote, squote] else [c]) w) @ [squote]"

lemma shlex_quoted:
  "shlex (In_Quote squote) w
     (concat (map (\<lambda>c. if c = squote then [squote, dquote, squote, dquote, squote] else [c]) s) @ squote # rest)
   = shlex In_Word (w @ s) rest"
  by (induction s arbitrary: w) auto

lemma shlex_quote_words: "shlex_split (join_with '' '' (map quote_word ws)) = Inr ws"
  unfolding shlex_split_def
proof (induction "'' ''" ws rule: join_with.induct)
  case 1
  then show ?case by simp
next
  case (2 w)
  then show ?case using shlex_quoted [of "[]" w "[]"] by (simp add: quote_word_def)
next
  case (3 w v ws)
  then show ?case using shlex_quoted by (simp add: quote_word_def)
qed

end
