(* ===== verification/Shell_Command.thy ===== *)
theory Shell_Command
  imports Shlex
begin

text \<open>
  \<open>waf-tools/shellcmd.py\<close>: the parser of shell-like command lines, a state machine over the tokens,
  and the execution of the parsed pipeline.  A command line is a list of tokens or a text that
  \<open>shlex.split\<close> cuts into tokens; starting a process is a parameter that gets what \<open>subprocess.Popen\<close> gets
  and yields its exit code or an exception.  Opening and closing the redirection files is left out.
\<close>

section \<open>Nodes\<close>

datatype redirect = Inherit | To_Pipe | To_Stdout | To_File string

record command =
  cm_name :: string
  cm_argv :: "string list"
  cm_stdin :: "string option"
  cm_stdout :: redirect
  cm_stderr :: redirect
  cm_env :: "(string, string) dict option"

datatype node = Pipe | And | Or | Cmd command | Chdir "string option"

definition new_command :: "string \<Rightarrow> command" where
  "new_command name =
     \<lparr> cm_name = name, cm_argv = [name], cm_stdin = None, cm_stdout = Inherit, cm_stderr = Inherit,
       cm_env = None \<rparr>"

text \<open>
  The display of a command line; the branch for \<open>Or\<close> tests for \<open>And\<close> a second time, so that an \<open>Or\<close>
  adds nothing.
\<close>

fun abbreviate :: "node \<Rightarrow> string list" where
  "abbreviate (Cmd c) = [cm_name c]"
| "abbreviate (Chdir d) = [''cd '' @ (case d of None \<Rightarrow> ''None'' | Some s \<Rightarrow> s)]"
| "abbreviate Pipe = [''|'']"
| "abbreviate And = [''&&'']"
| "abbreviate Or = []"

definition get_abbreviated_command :: "node list \<Rightarrow> string" where
  "get_abbreviated_command ns = join_with '' '' (concat (map abbreviate ns))"

section \<open>The parser\<close>

datatype cl_state = BEGIN | COMMAND | CHDIR | STDERR | STDOUT | STDIN

record pipeline_parser =
  pp_state :: cl_state
  pp_current :: "node option"
  pp_env :: "(string, string) dict"
  pp_pipeline :: "node list"

definition name_char :: "char \<Rightarrow> bool" where
  "name_char c \<longleftrightarrow>
     (let n = (of_char c :: nat)
      in (97 \<le> n \<and> n \<le> 122) \<or> (65 \<le> n \<and> n \<le> 90) \<or> (48 \<le> n \<and> n \<le> 57) \<or> n = 95)"

text \<open>\<open>^([a-zA-Z0-9_]+)=(\S+)$\<close>\<close>

definition match_env_var :: "string \<Rightarrow> (string \<times> string) option" where
  "match_env_var token =
     (let name = takeWhile name_char token;
          rest = dropWhile name_char token;
          val = (if rest \<noteq> [] \<and> last rest = CHR 0x0A then butlast (tl rest) else tl rest)
      in if name \<noteq> [] \<and> startswith rest ''='' \<and> val \<noteq> [] \<and> list_all (\<lambda>c. \<not> py_space c) val
         then Some (name, val) else None)"

definition commit_command :: "pipeline_parser \<Rightarrow> pipeline_parser result" where
  "commit_command p =
     (case pp_current p of
        None \<Rightarrow> Inl AssertionError
      | Some n \<Rightarrow> Inr (p \<lparr> pp_pipeline := pp_pipeline p @ [n], pp_current := None \<rparr>))"

definition commit_op :: "node \<Rightarrow> pipeline_parser \<Rightarrow> pipeline_parser result" where
  "commit_op oper p =
     rbind (commit_command p) (\<lambda>p'. Inr (p' \<lparr> pp_pipeline := pp_pipeline p' @ [oper], pp_state := BEGIN \<rparr>))"

text \<open>The attributes of the current command; a state of a command always has one.\<close>

definition with_command :: "pipeline_parser \<Rightarrow> (command \<Rightarrow> pipeline_parser result) \<Rightarrow> pipeline_parser result" where
  "with_command p f = (case pp_current p of Some (Cmd c) \<Rightarrow> f c | _ \<Rightarrow> Inl AttributeError)"

definition parse_begin :: "string \<Rightarrow> pipeline_parser \<Rightarrow> pipeline_parser result" where
  "parse_begin token p =
     (case match_env_var token of
        Some (name, val) \<Rightarrow> Inr (p \<lparr> pp_env := dict_set (pp_env p) name val \<rparr>)
      | None \<Rightarrow>
          if pp_current p \<noteq> None then Inl AssertionError
          else if token = ''cd'' then
            (if pp_env p \<noteq> [] then Inl AssertionError
             else Inr (p \<lparr> pp_current := Some (Chdir None), pp_state := CHDIR \<rparr>))
          else
            Inr (p \<lparr> pp_current := Some (Cmd ((new_command token)
                        \<lparr> cm_env := (if pp_env p = [] then None else Some (pp_env p)) \<rparr>)),
                     pp_env := [], pp_state := COMMAND \<rparr>))"

definition parse_command :: "string \<Rightarrow> pipeline_parser \<Rightarrow> pipeline_parser result" where
  "parse_command token p =
     (if token = ''>'' then Inr (p \<lparr> pp_state := STDOUT \<rparr>)
      else if token = ''2>'' then Inr (p \<lparr> pp_state := STDERR \<rparr>)
      else if token = ''2>&1'' then
        with_command p (\<lambda>c. if cm_stderr c \<noteq> Inherit then Inl AssertionError
                            else Inr (p \<lparr> pp_current := Some (Cmd (c \<lparr> cm_stderr := To_Stdout \<rparr>)) \<rparr>))
      else if token = ''<'' then Inr (p \<lparr> pp_state := STDIN \<rparr>)
      else if token = ''|'' then
        with_command p (\<lambda>c. if cm_stdout c \<noteq> Inherit then Inl AssertionError
                            else commit_op Pipe (p \<lparr> pp_current := Some (Cmd (c \<lparr> cm_stdout := To_Pipe \<rparr>)) \<rparr>))
      else if token = ''&&'' then commit_op And p
      else if token = ''||'' then commit_op Or p
      else with_command p (\<lambda>c. Inr (p \<lparr> pp_current := Some (Cmd (c \<lparr> cm_argv := cm_argv c @ [token] \<rparr>)) \<rparr>)))"

definition parse_chdir :: "string \<Rightarrow> pipeline_parser \<Rightarrow> pipeline_parser result" where
  "parse_chdir token p =
     (if token = ''&&'' then commit_op And p
      else
        (case pp_current p of
           Some (Chdir None) \<Rightarrow> Inr (p \<lparr> pp_current := Some (Chdir (Some token)) \<rparr>)
         | _ \<Rightarrow> Inl AssertionError))"

definition parse_token :: "string \<Rightarrow> pipeline_parser \<Rightarrow> pipeline_parser result" where
  "parse_token token p =
     (case pp_state p of
        BEGIN \<Rightarrow> parse_begin token p
      | COMMAND \<Rightarrow> parse_command token p
      | CHDIR \<Rightarrow> parse_chdir token p
      | STDOUT \<Rightarrow>
          with_command p (\<lambda>c. if cm_stdout c \<noteq> Inherit then Inl AssertionError
                              else Inr (p \<lparr> pp_current := Some (Cmd (c \<lparr> cm_stdout := To_File token \<rparr>)),
                                            pp_state := COMMAND \<rparr>))
      | STDERR \<Rightarrow>
          with_command p (\<lambda>c. if cm_stderr c \<noteq> Inherit then Inl AssertionError
                              else Inr (p \<lparr> pp_current := Some (Cmd (c \<lparr> cm_stderr := To_File token \<rparr>)),
                                            pp_state := COMMAND \<rparr>))
      | STDIN \<Rightarrow>
          with_command p (\<lambda>c. if cm_stdin c \<noteq> None then Inl AssertionError
                              else Inr (p \<lparr> pp_current := Some (Cmd (c \<lparr> cm_stdin := Some token \<rparr>)),
                                            pp_state := COMMAND \<rparr>)))"

definition new_parser :: pipeline_parser where
  "new_parser = \<lparr> pp_state = BEGIN, pp_current = None, pp_env = [], pp_pipeline = [] \<rparr>"

definition parse :: "string list \<Rightarrow> node list result" where
  "parse tokens =
     rbind (rfold parse_token tokens new_parser) (\<lambda>p.
     rbind (commit_command p) (\<lambda>p'. Inr (pp_pipeline p')))"

definition parse_text :: "string \<Rightarrow> node list result" where
  "parse_text text = rbind (shlex_split text) parse"

section \<open>Running\<close>

text \<open>The exit code of a group of piped commands, from the codes of its processes.\<close>

fun first_failure :: "int list \<Rightarrow> int list \<Rightarrow> int" where
  "first_failure retvals [] = 0"
| "first_failure retvals (r # rs) = (if r \<noteq> 0 then last retvals else first_failure retvals rs)"

definition exec_piped_commands :: "int list \<Rightarrow> int" where
  "exec_piped_commands retvals = first_failure retvals retvals"

datatype stdin_source = No_Stdin | From_Pipe | From_File string

text \<open>What a process is started with; no working directory means that of the parent.\<close>

record spawn =
  sp_argv :: "string list"
  sp_stdin :: stdin_source
  sp_stdout :: redirect
  sp_stderr :: redirect
  sp_env :: "(string, string) dict option"
  sp_cwd :: "string option"

definition spawn_of :: "bool \<Rightarrow> string \<Rightarrow> command \<Rightarrow> spawn" where
  "spawn_of piped dir c =
     \<lparr> sp_argv = cm_argv c,
       sp_stdin = (if piped then From_Pipe else (case cm_stdin c of None \<Rightarrow> No_Stdin | Some f \<Rightarrow> From_File f)),
       sp_stdout = cm_stdout c, sp_stderr = cm_stderr c,
       sp_env = (case cm_env c of Some [] \<Rightarrow> None | e \<Rightarrow> e),
       sp_cwd = (if dir = ''.'' then None else Some dir) \<rparr>"

text \<open>
  The loop over the pipeline.  Its state: the processes started so far, whether the next command reads
  the pipe, the working directory and the exit codes of the processes of the current group.  What a
  process does may depend on those that ran before it.  \<open>retval\<close> is assigned at the end of the
  pipeline only, but the verbose messages after \<open>||\<close> and \<open>&&\<close> print it.
\<close>

type_synonym start_process = "spawn list \<Rightarrow> spawn \<Rightarrow> int result"

fun run_nodes :: "bool \<Rightarrow> start_process \<Rightarrow> spawn list \<Rightarrow> bool \<Rightarrow> string \<Rightarrow> int list \<Rightarrow> node list
    \<Rightarrow> spawn list \<times> int option result" where
  "run_nodes verbose start hist piped dir codes [] = (hist, Inr None)"
| "run_nodes verbose start hist piped dir codes (Chdir d # ns) =
     (case ns of
        [] \<Rightarrow> (hist, Inl IndexError)
      | oper # ns' \<Rightarrow>
          if oper \<noteq> And then (hist, Inl AssertionError)
          else (case d of
                  None \<Rightarrow> (hist, Inl TypeError)
                | Some s \<Rightarrow> run_nodes verbose start hist piped (path_join dir s) codes ns'))"
| "run_nodes verbose start hist piped dir codes (Cmd c # ns) =
     (let sp = spawn_of piped dir c
      in case start hist sp of
           Inl e \<Rightarrow> (hist, Inl e)
         | Inr code \<Rightarrow>
             let hist' = hist @ [sp]; codes' = codes @ [code]; this_retval = exec_piped_commands codes'
             in case ns of
                  [] \<Rightarrow> (hist', Inr (Some this_retval))
                | Pipe # ns' \<Rightarrow> run_nodes verbose start hist' True dir codes' ns'
                | Or # ns' \<Rightarrow>
                    if verbose then (hist', Inl UnboundLocalError)
                    else if this_retval = 0 then (hist', Inr (Some this_retval))
                    else run_nodes verbose start hist' False dir [] ns'
                | And # ns' \<Rightarrow>
                    if verbose then (hist', Inl UnboundLocalError)
                    else if this_retval \<noteq> 0 then (hist', Inr (Some this_retval))
                    else run_nodes verbose start hist' False dir [] ns'
                | _ # ns' \<Rightarrow> run_nodes verbose start hist' piped dir codes' ns')"
| "run_nodes verbose start hist piped dir codes (_ # ns) = (hist, Inl AssertionError)"

definition run_pipeline :: "bool \<Rightarrow> start_process \<Rightarrow> node list \<Rightarrow> spawn list \<times> int option result" where
  "run_pipeline verbose start ns = run_nodes verbose start [] False ''.'' [] ns"

section \<open>The parser reads what can be written\<close>

text \<open>
  The tokens that a node is written with: the variables of a command first, its arguments, then its
  redirections.  \<open>pipeline_ok\<close> says which node lists a command line can denote.
\<close>

definition operators :: "string list" where
  "operators = [''>'', ''2>'', ''2>&1'', ''<'', ''|'', ''&&'', ''||'']"

fun env_token :: "string \<times> string \<Rightarrow> string" where
  "env_token (k, v) = k @ ''='' @ v"

fun env_ok :: "string \<times> string \<Rightarrow> bool" where
  "env_ok (k, v) \<longleftrightarrow> k \<noteq> [] \<and> list_all name_char k \<and> v \<noteq> [] \<and> list_all (\<lambda>c. \<not> py_space c) v"

fun redirect_tokens :: "string \<Rightarrow> redirect \<Rightarrow> string list" where
  "redirect_tokens oper (To_File f) = [oper, f]"
| "redirect_tokens oper To_Stdout = [''2>&1'']"
| "redirect_tokens oper _ = []"

definition command_tokens :: "command \<Rightarrow> string list" where
  "command_tokens c =
     (case cm_env c of None \<Rightarrow> [] | Some e \<Rightarrow> map env_token e) @ cm_argv c
     @ (case cm_stdin c of None \<Rightarrow> [] | Some f \<Rightarrow> [''<'', f])
     @ redirect_tokens ''>'' (cm_stdout c) @ redirect_tokens ''2>'' (cm_stderr c)"

fun node_tokens :: "node \<Rightarrow> string list" where
  "node_tokens (Cmd c) = command_tokens c"
| "node_tokens (Chdir d) = ''cd'' # (case d of None \<Rightarrow> [] | Some s \<Rightarrow> [s])"
| "node_tokens Pipe = [''|'']"
| "node_tokens And = [''&&'']"
| "node_tokens Or = [''||'']"

definition command_ok :: "command \<Rightarrow> bool" where
  "command_ok c \<longleftrightarrow>
     match_env_var (cm_name c) = None \<and> cm_name c \<noteq> ''cd''
     \<and> cm_argv c = cm_name c # tl (cm_argv c) \<and> list_all (\<lambda>a. a \<notin> set operators) (tl (cm_argv c))
     \<and> (case cm_env c of None \<Rightarrow> True | Some e \<Rightarrow> e \<noteq> [] \<and> dict_ok e \<and> list_all env_ok e)
     \<and> cm_stdout c \<noteq> To_Stdout \<and> cm_stderr c \<noteq> To_Pipe"

fun last_ok :: "node \<Rightarrow> bool" where
  "last_ok (Cmd c) \<longleftrightarrow> command_ok c \<and> cm_stdout c \<noteq> To_Pipe"
| "last_ok (Chdir d) \<longleftrightarrow> d \<noteq> Some ''&&''"
| "last_ok _ \<longleftrightarrow> False"

fun segment_ok :: "node \<times> node \<Rightarrow> bool" where
  "segment_ok (Cmd c, oper) \<longleftrightarrow>
     command_ok c \<and> (if cm_stdout c = To_Pipe then oper = Pipe else oper \<in> {And, Or})"
| "segment_ok (Chdir d, oper) \<longleftrightarrow> d \<noteq> Some ''&&'' \<and> oper = And"
| "segment_ok _ \<longleftrightarrow> False"

fun segments :: "(node \<times> node) list \<Rightarrow> node list" where
  "segments [] = []"
| "segments ((n, oper) # ss) = n # oper # segments ss"

fun pipeline_ok :: "node list \<Rightarrow> bool" where
  "pipeline_ok [] \<longleftrightarrow> False"
| "pipeline_ok [n] \<longleftrightarrow> last_ok n"
| "pipeline_ok (n # oper # ns) \<longleftrightarrow> segment_ok (n, oper) \<and> pipeline_ok ns"

lemma segments_snoc: "segments (ss @ [(n, oper)]) = segments ss @ [n, oper]"
  by (induction ss rule: segments.induct) auto

lemma pipeline_ok_segments:
  "pipeline_ok ns \<longleftrightarrow> (\<exists>ss n. ns = segments ss @ [n] \<and> list_all segment_ok ss \<and> last_ok n)"
proof
  assume "pipeline_ok ns"
  then show "\<exists>ss n. ns = segments ss @ [n] \<and> list_all segment_ok ss \<and> last_ok n"
  proof (induction ns rule: pipeline_ok.induct)
    case 1
    then show ?case by simp
  next
    case (2 n)
    then have "[n] = segments [] @ [n] \<and> list_all segment_ok [] \<and> last_ok n" by simp
    then show ?case by blast
  next
    case (3 n oper ns)
    then obtain ss m where ih: "ns = segments ss @ [m]" "list_all segment_ok ss" "last_ok m" by auto
    have "n # oper # ns = segments ((n, oper) # ss) @ [m]" using ih by simp
    moreover have "list_all segment_ok ((n, oper) # ss)" using 3 ih by simp
    ultimately show ?case using ih(3) by blast
  qed
next
  assume "\<exists>ss n. ns = segments ss @ [n] \<and> list_all segment_ok ss \<and> last_ok n"
  then obtain ss n where *: "ns = segments ss @ [n]" "list_all segment_ok ss" "last_ok n" by blast
  have "pipeline_ok (segments ss @ [n])" using *(2,3) by (induction ss rule: segments.induct) auto
  then show "pipeline_ok ns" using *(1) by simp
qed

lemma name_char_not_eq [simp]: "\<not> name_char CHR ''=''"
  by (simp add: name_char_def)

lemma py_space_newline: "py_space CHR 0x0A"
  by (simp add: py_space_def)

lemma match_env_token: "env_ok (k, v) \<Longrightarrow> match_env_var (env_token (k, v)) = Some (k, v)"
proof -
  assume ok: "env_ok (k, v)"
  then have names: "\<forall>c \<in> set k. name_char c" and v: "v \<noteq> []" by (auto simp: list_all_iff)
  have tw: "takeWhile name_char (k @ ''='' @ v) = k"
    using names by (subst takeWhile_append2) auto
  have dw: "dropWhile name_char (k @ ''='' @ v) = ''='' @ v"
    using names by (subst dropWhile_append2) auto
  have "last v \<in> set v" using v by simp
  then have "\<not> py_space (last v)" using ok by (simp add: list_all_iff)
  then have "last v \<noteq> CHR 0x0A" using py_space_newline by metis
  then have "last (''='' @ v) \<noteq> CHR 0x0A" using v by simp
  then show ?thesis using ok tw dw by (simp add: match_env_var_def Let_def startswith_def)
qed

lemma match_env_ok: "match_env_var t = Some e \<Longrightarrow> env_ok e"
  by (auto simp: match_env_var_def Let_def list_all_iff split: if_splits dest: set_takeWhileD)

text \<open>The states between two segments, and the states inside a command.\<close>

definition at_begin :: "pipeline_parser \<Rightarrow> bool" where
  "at_begin p \<longleftrightarrow> pp_state p = BEGIN \<and> pp_current p = None \<and> pp_env p = []"

definition in_command :: "pipeline_parser \<Rightarrow> command \<Rightarrow> pipeline_parser" where
  "in_command p c = p \<lparr> pp_state := COMMAND, pp_current := Some (Cmd c), pp_env := [] \<rparr>"

lemma in_command_fields [simp]:
  "pp_state (in_command p c) = COMMAND" "pp_current (in_command p c) = Some (Cmd c)"
  "pp_env (in_command p c) = []" "pp_pipeline (in_command p c) = pp_pipeline p"
  by (simp_all add: in_command_def)

lemma in_command_update [simp]:
  "in_command p c \<lparr> pp_current := Some (Cmd c') \<rparr> = in_command p c'"
  "in_command p c \<lparr> pp_state := st, pp_current := Some (Cmd c'), pp_state := COMMAND \<rparr> = in_command p c'"
  by (simp_all add: in_command_def)

lemma read_env:
  assumes "pp_state p = BEGIN" "list_all env_ok e" "distinct (dict_keys (pp_env p) @ dict_keys e)"
  shows "rfold parse_token (map env_token e) p = Inr (p \<lparr> pp_env := pp_env p @ e \<rparr>)"
  using assms
proof (induction e arbitrary: p)
  case Nil
  then show ?case by simp
next
  case (Cons kv e)
  obtain k v where kv: "kv = (k, v)" by (cases kv)
  have m: "match_env_var (env_token (k, v)) = Some (k, v)"
    using Cons.prems(2) kv by (intro match_env_token) simp
  have new: "dict_set (pp_env p) k v = pp_env p @ [(k, v)]"
    using Cons.prems(3) kv by (intro dict_set_new) auto
  have step: "parse_token (env_token kv) p = Inr (p \<lparr> pp_env := pp_env p @ [(k, v)] \<rparr>)"
    unfolding kv parse_token_def parse_begin_def m using Cons.prems(1) new by simp
  let ?p = "p \<lparr> pp_env := pp_env p @ [(k, v)] \<rparr>"
  have "rfold parse_token (map env_token e) ?p = Inr (?p \<lparr> pp_env := pp_env ?p @ e \<rparr>)"
    using Cons.prems kv by (intro Cons.IH) auto
  then show ?case using step kv by simp
qed

lemma read_name:
  assumes "at_begin (p \<lparr> pp_env := [] \<rparr>)" "match_env_var name = None" "name \<noteq> ''cd''"
  shows "parse_token name p =
    Inr (in_command p ((new_command name) \<lparr> cm_env := (if pp_env p = [] then None else Some (pp_env p)) \<rparr>))"
proof -
  have st: "pp_state p = BEGIN" "pp_current p = None" using assms(1) by (auto simp: at_begin_def)
  show ?thesis
    using st assms(2,3) unfolding parse_token_def parse_begin_def
    by (simp add: in_command_def)
qed

lemma read_args:
  assumes "list_all (\<lambda>a. a \<notin> set operators) args"
  shows "rfold parse_token args (in_command p c) = Inr (in_command p (c \<lparr> cm_argv := cm_argv c @ args \<rparr>))"
  using assms
proof (induction args arbitrary: c)
  case Nil
  then show ?case by simp
next
  case (Cons a args)
  have "parse_token a (in_command p c) = Inr (in_command p (c \<lparr> cm_argv := cm_argv c @ [a] \<rparr>))"
    using Cons.prems by (auto simp: parse_token_def parse_command_def with_command_def operators_def)
  then show ?case using Cons by simp
qed

lemma read_stdin:
  assumes "cm_stdin c = None"
  shows "rfold parse_token (case i of None \<Rightarrow> [] | Some f \<Rightarrow> [''<'', f]) (in_command p c)
       = Inr (in_command p (c \<lparr> cm_stdin := i \<rparr>))"
proof (cases i)
  case None
  then have "c \<lparr> cm_stdin := i \<rparr> = c" using assms by simp
  then show ?thesis using None by simp
next
  case (Some f)
  then show ?thesis using assms
    by (simp add: parse_token_def parse_command_def with_command_def in_command_def)
qed

lemma read_stdout:
  assumes "cm_stdout c = Inherit" "r \<noteq> To_Stdout"
  shows "rfold parse_token (redirect_tokens ''>'' r) (in_command p c)
       = Inr (in_command p (if r = To_Pipe then c else c \<lparr> cm_stdout := r \<rparr>))"
proof (cases r)
  case Inherit
  then have "c \<lparr> cm_stdout := r \<rparr> = c" using assms(1) by simp
  then show ?thesis using Inherit by simp
next
  case (To_File f)
  then show ?thesis using assms
    by (simp add: parse_token_def parse_command_def with_command_def in_command_def)
qed (use assms in auto)

lemma read_stderr:
  assumes "cm_stderr c = Inherit" "r \<noteq> To_Pipe"
  shows "rfold parse_token (redirect_tokens ''2>'' r) (in_command p c)
       = Inr (in_command p (c \<lparr> cm_stderr := r \<rparr>))"
proof (cases r)
  case Inherit
  then have "c \<lparr> cm_stderr := r \<rparr> = c" using assms(1) by simp
  then show ?thesis using Inherit by simp
qed (use assms in \<open>auto simp: parse_token_def parse_command_def with_command_def in_command_def\<close>)

definition before_pipe :: "command \<Rightarrow> command" where
  "before_pipe c = (if cm_stdout c = To_Pipe then c \<lparr> cm_stdout := Inherit \<rparr> else c)"

lemma read_command:
  assumes p: "at_begin p" and c: "command_ok c"
  shows "rfold parse_token (command_tokens c) p = Inr (in_command p (before_pipe c))"
proof -
  define e where "e = (case cm_env c of None \<Rightarrow> [] | Some e \<Rightarrow> e)"
  have env: "(case cm_env c of None \<Rightarrow> [] | Some e \<Rightarrow> map env_token e) = map env_token e"
    by (simp add: e_def split: option.splits)
  have e_ok: "list_all env_ok e" "dict_ok e" "(if e = [] then None else Some e) = cm_env c"
    using c by (auto simp: e_def command_ok_def split: option.splits)
  have st: "pp_state p = BEGIN" "pp_current p = None" "pp_env p = []" using p by (auto simp: at_begin_def)
  let ?p = "p \<lparr> pp_env := e \<rparr>"
  let ?c = "(new_command (cm_name c)) \<lparr> cm_env := cm_env c \<rparr>"
  have 1: "rfold parse_token (map env_token e) p = Inr ?p"
    using read_env [of p e] st e_ok by simp
  have at: "at_begin (?p \<lparr> pp_env := [] \<rparr>)" using st by (simp add: at_begin_def)
  have name_ok: "match_env_var (cm_name c) = None" "cm_name c \<noteq> ''cd''" using c by (simp_all add: command_ok_def)
  have 2: "parse_token (cm_name c) ?p = Inr (in_command p ?c)"
    unfolding e_ok(3) [symmetric] using read_name [OF at name_ok] by (simp only: in_command_def) simp
  let ?c2 = "?c \<lparr> cm_argv := cm_argv c \<rparr>"
  have argv: "cm_argv c = cm_name c # tl (cm_argv c)" "list_all (\<lambda>a. a \<notin> set operators) (tl (cm_argv c))"
    using c by (simp_all add: command_ok_def)
  have "?c \<lparr> cm_argv := cm_argv ?c @ tl (cm_argv c) \<rparr> = ?c2"
    using argv(1) by (simp add: new_command_def)
  then have 3: "rfold parse_token (tl (cm_argv c)) (in_command p ?c) = Inr (in_command p ?c2)"
    using read_args [OF argv(2), of p ?c] by simp
  let ?c3 = "?c2 \<lparr> cm_stdin := cm_stdin c \<rparr>"
  have 4: "rfold parse_token (case cm_stdin c of None \<Rightarrow> [] | Some f \<Rightarrow> [''<'', f]) (in_command p ?c2)
      = Inr (in_command p ?c3)"
    by (rule read_stdin) (simp add: new_command_def)
  let ?c4 = "if cm_stdout c = To_Pipe then ?c3 else ?c3 \<lparr> cm_stdout := cm_stdout c \<rparr>"
  have 5: "rfold parse_token (redirect_tokens ''>'' (cm_stdout c)) (in_command p ?c3) = Inr (in_command p ?c4)"
    using c by (intro read_stdout) (simp_all add: new_command_def command_ok_def)
  let ?c5 = "?c4 \<lparr> cm_stderr := cm_stderr c \<rparr>"
  have 6: "rfold parse_token (redirect_tokens ''2>'' (cm_stderr c)) (in_command p ?c4) = Inr (in_command p ?c5)"
    using c by (intro read_stderr) (simp_all add: new_command_def command_ok_def)
  have "?c5 = before_pipe c" by (simp add: before_pipe_def new_command_def)
  then have last: "rfold parse_token (redirect_tokens ''2>'' (cm_stderr c)) (in_command p ?c4)
      = Inr (in_command p (before_pipe c))" using 6 by simp
  have args: "rfold parse_token (cm_argv c) ?p = Inr (in_command p ?c2)"
    by (subst argv(1)) (simp only: rfold.simps 2 3 rbind_Inr)
  show ?thesis
    unfolding command_tokens_def env
    by (simp only: rfold_append 1 args 4 5 last rbind_Inr)
qed

definition put_segment :: "node \<times> node \<Rightarrow> pipeline_parser \<Rightarrow> pipeline_parser" where
  "put_segment s p = p \<lparr> pp_pipeline := pp_pipeline p @ [fst s, snd s] \<rparr>"

lemma read_chdir:
  assumes "at_begin p" "d \<noteq> Some ''&&''"
  shows "rfold parse_token (node_tokens (Chdir d)) p
       = Inr (p \<lparr> pp_state := CHDIR, pp_current := Some (Chdir d) \<rparr>)"
proof -
  have "match_env_var ''cd'' = None" by code_simp
  then show ?thesis
    using assms by (cases d) (simp_all add: at_begin_def parse_token_def parse_begin_def parse_chdir_def)
qed

lemma read_operator:
  assumes "segment_ok (Cmd c, oper)" "at_begin p"
  shows "rfold parse_token (node_tokens oper) (in_command p (before_pipe c)) = Inr (put_segment (Cmd c, oper) p)"
proof (cases "cm_stdout c = To_Pipe")
  case True
  then have "oper = Pipe" "before_pipe c \<lparr> cm_stdout := To_Pipe \<rparr> = c" "cm_stdout (before_pipe c) = Inherit"
    using assms(1) by (simp_all add: before_pipe_def)
  then show ?thesis using assms(2)
    by (simp add: parse_token_def parse_command_def with_command_def commit_op_def commit_command_def
        put_segment_def at_begin_def in_command_def)
next
  case False
  then have "oper \<in> {And, Or}" "before_pipe c = c" using assms(1) by (auto simp: before_pipe_def)
  then show ?thesis using assms(2)
    by (auto simp: parse_token_def parse_command_def commit_op_def commit_command_def
        put_segment_def at_begin_def in_command_def)
qed

interpretation segs: printed_items "\<lambda>s. node_tokens (fst s) @ node_tokens (snd s)" parse_token put_segment
    segment_ok at_begin
proof
  fix s p assume ok: "segment_ok s" and p: "at_begin p"
  obtain n oper where s: "s = (n, oper)" by (cases s)
  show "rfold parse_token (node_tokens (fst s) @ node_tokens (snd s)) p = Inr (put_segment s p)"
  proof (cases n)
    case (Cmd c)
    have "rfold parse_token (node_tokens n) p = Inr (in_command p (before_pipe c))"
      using read_command [OF p] ok s Cmd by simp
    moreover have "rfold parse_token (node_tokens oper) (in_command p (before_pipe c)) = Inr (put_segment s p)"
      using read_operator [of c oper p] ok p unfolding s Cmd by blast
    ultimately show ?thesis using s by (simp add: rfold_append)
  next
    case (Chdir d)
    let ?q = "p \<lparr> pp_state := CHDIR, pp_current := Some (Chdir d) \<rparr>"
    have d: "d \<noteq> Some ''&&''" "oper = And" using ok s Chdir by simp_all
    have 1: "rfold parse_token (node_tokens (Chdir d)) p = Inr ?q" by (rule read_chdir [OF p d(1)])
    have 2: "rfold parse_token (node_tokens And) ?q = Inr (put_segment s p)"
      using p s d Chdir
      by (simp add: parse_token_def parse_chdir_def commit_op_def commit_command_def put_segment_def at_begin_def)
    show ?thesis unfolding s fst_conv snd_conv Chdir d(2) rfold_append 1 rbind_Inr using 2 s Chdir d by simp
  qed (use ok s in auto)
next
  fix s p assume "segment_ok s" "at_begin p"
  then show "at_begin (put_segment s p)" by (simp add: at_begin_def put_segment_def)
qed

lemma put_segments: "fold put_segment ss p = p \<lparr> pp_pipeline := pp_pipeline p @ segments ss \<rparr>"
  by (induction ss arbitrary: p rule: segments.induct) (auto simp: put_segment_def)

lemma segments_tokens:
  "concat (map node_tokens (segments ss)) = concat (map (\<lambda>s. node_tokens (fst s) @ node_tokens (snd s)) ss)"
  by (induction ss rule: segments.induct) auto

lemma parse_written: "pipeline_ok ns \<Longrightarrow> parse (concat (map node_tokens ns)) = Inr ns"
proof -
  assume "pipeline_ok ns"
  then obtain ss n where ns: "ns = segments ss @ [n]" and ss: "list_all segment_ok ss" and n: "last_ok n"
    unfolding pipeline_ok_segments by blast
  let ?p = "new_parser \<lparr> pp_pipeline := segments ss \<rparr>"
  have "at_begin new_parser" by (simp add: at_begin_def new_parser_def)
  from segs.read_all [OF ss this] have 1: "rfold parse_token (concat (map node_tokens (segments ss))) new_parser = Inr ?p"
    by (simp add: segments_tokens put_segments) (simp add: new_parser_def)
  have p: "at_begin ?p" by (simp add: at_begin_def new_parser_def)
  have "\<exists>q. rfold parse_token (node_tokens n) ?p = Inr q \<and> pp_current q = Some n \<and> pp_pipeline q = segments ss"
  proof (cases n)
    case (Cmd c)
    then have c: "command_ok c" "before_pipe c = c" using n by (simp_all add: before_pipe_def)
    then have "rfold parse_token (node_tokens n) ?p = Inr (in_command ?p c)"
      using read_command [OF p c(1)] Cmd by simp
    then show ?thesis using Cmd by simp
  next
    case (Chdir d)
    then show ?thesis using read_chdir [OF p, of d] n by simp
  qed (use n in auto)
  then show ?thesis
    using 1 by (auto simp: ns parse_def rfold_append commit_command_def)
qed

section \<open>What the parser returns\<close>

definition parser_inv :: "pipeline_parser \<Rightarrow> bool" where
  "parser_inv p \<longleftrightarrow>
     (\<exists>ss. pp_pipeline p = segments ss \<and> list_all segment_ok ss)
     \<and> dict_ok (pp_env p) \<and> list_all env_ok (pp_env p)
     \<and> (case pp_state p of
          BEGIN \<Rightarrow> pp_current p = None
        | CHDIR \<Rightarrow> pp_env p = [] \<and> (\<exists>d. pp_current p = Some (Chdir d) \<and> d \<noteq> Some ''&&'')
        | _ \<Rightarrow> pp_env p = [] \<and> (\<exists>c. pp_current p = Some (Cmd c) \<and> command_ok c \<and> cm_stdout c \<noteq> To_Pipe))"

lemma segments_extend:
  assumes "pp_pipeline p = segments ss \<and> list_all segment_ok ss" "segment_ok (n, oper)"
  shows "\<exists>ss'. pp_pipeline p @ [n, oper] = segments ss' \<and> list_all segment_ok ss'"
proof -
  have "pp_pipeline p @ [n, oper] = segments (ss @ [(n, oper)]) \<and> list_all segment_ok (ss @ [(n, oper)])"
    using assms by (simp add: segments_snoc)
  then show ?thesis by blast
qed

lemma env_ok_update:
  assumes "list_all env_ok d" "env_ok (k, v)" shows "list_all env_ok (dict_set d k v)"
  using assms by (induction d) auto

lemma command_ok_redirect [simp]:
  "command_ok (c \<lparr> cm_stdin := i \<rparr>) = command_ok c"
  "command_ok c \<Longrightarrow> r \<noteq> To_Stdout \<Longrightarrow> command_ok (c \<lparr> cm_stdout := r \<rparr>)"
  "command_ok c \<Longrightarrow> r \<noteq> To_Pipe \<Longrightarrow> command_ok (c \<lparr> cm_stderr := r \<rparr>)"
  by (simp_all add: command_ok_def)

lemma command_ok_arg: "command_ok c \<Longrightarrow> a \<notin> set operators \<Longrightarrow> command_ok (c \<lparr> cm_argv := cm_argv c @ [a] \<rparr>)"
  unfolding command_ok_def by (cases "cm_argv c") auto

lemma command_ok_new:
  assumes "match_env_var t = None" "t \<noteq> ''cd''" "dict_ok e" "list_all env_ok e"
  shows "command_ok ((new_command t) \<lparr> cm_env := (if e = [] then None else Some e) \<rparr>)"
  using assms by (simp add: command_ok_def new_command_def)

lemma parse_begin_inv:
  assumes inv: "parser_inv p" and st: "pp_state p = BEGIN"
  shows "case parse_begin t p of Inl e \<Rightarrow> e = AssertionError | Inr q \<Rightarrow> parser_inv q"
proof (cases "match_env_var t")
  case None
  show ?thesis
    using inv st command_ok_new [OF None]
    by (auto simp: parse_begin_def None parser_inv_def new_command_def)
next
  case (Some kv)
  obtain k v where kv: "kv = (k, v)" by (cases kv)
  have "list_all env_ok (dict_set (pp_env p) k v)"
    using inv match_env_ok [OF Some] kv by (intro env_ok_update) (auto simp: parser_inv_def)
  then show ?thesis using inv st by (auto simp: parse_begin_def Some kv parser_inv_def)
qed

lemma commit_inv:
  assumes "\<exists>ss. pp_pipeline p = segments ss \<and> list_all segment_ok ss" "pp_env p = []"
    "pp_current p = Some n" "segment_ok (n, oper)"
  shows "\<exists>q. commit_op oper p = Inr q \<and> parser_inv q"
proof -
  obtain ss where "pp_pipeline p = segments ss \<and> list_all segment_ok ss" using assms(1) by blast
  from segments_extend [OF this assms(4)] show ?thesis
    using assms(2,3) by (simp add: commit_op_def commit_command_def parser_inv_def)
qed

lemma parse_command_inv:
  assumes inv: "parser_inv p" and st: "pp_state p = COMMAND"
  shows "case parse_command t p of Inl e \<Rightarrow> e = AssertionError | Inr q \<Rightarrow> parser_inv q"
proof -
  obtain c where c: "pp_current p = Some (Cmd c)" "command_ok c" "cm_stdout c \<noteq> To_Pipe" and env: "pp_env p = []"
    and ss: "\<exists>ss. pp_pipeline p = segments ss \<and> list_all segment_ok ss"
    using inv st by (auto simp: parser_inv_def)
  consider "t \<in> {''>'', ''2>'', ''<''}" | "t = ''2>&1''" | "t = ''|''" | "t = ''&&''" | "t = ''||''"
    | "t \<notin> set operators"
    by (auto simp: operators_def)
  then show ?thesis
  proof cases
    case 1
    then show ?thesis using c env ss by (auto simp: parse_command_def parser_inv_def)
  next
    case 2
    then show ?thesis using c env ss by (simp add: parse_command_def parser_inv_def with_command_def st)
  next
    case 3
    let ?p = "p \<lparr> pp_current := Some (Cmd (c \<lparr> cm_stdout := To_Pipe \<rparr>)) \<rparr>"
    have "command_ok (c \<lparr> cm_stdout := To_Pipe \<rparr>)" using c(2) by simp
    then have seg: "segment_ok (Cmd (c \<lparr> cm_stdout := To_Pipe \<rparr>), Pipe)" by simp
    have "\<exists>q. commit_op Pipe ?p = Inr q \<and> parser_inv q"
      by (rule commit_inv [OF _ _ _ seg]) (use ss env in simp_all)
    then show ?thesis using 3 c by (auto simp: parse_command_def with_command_def)
  next
    case 4
    have "\<exists>q. commit_op And p = Inr q \<and> parser_inv q"
      by (rule commit_inv [OF ss env c(1)]) (use c in simp)
    then show ?thesis using 4 by (auto simp: parse_command_def)
  next
    case 5
    have "\<exists>q. commit_op Or p = Inr q \<and> parser_inv q"
      by (rule commit_inv [OF ss env c(1)]) (use c in simp)
    then show ?thesis using 5 by (auto simp: parse_command_def)
  next
    case 6
    then have "parse_command t p = Inr (p \<lparr> pp_current := Some (Cmd (c \<lparr> cm_argv := cm_argv c @ [t] \<rparr>)) \<rparr>)"
      using c by (simp add: parse_command_def with_command_def operators_def)
    then show ?thesis using c env ss st command_ok_arg [OF c(2) 6] by (simp add: parser_inv_def)
  qed
qed

lemma parse_chdir_inv:
  assumes inv: "parser_inv p" and st: "pp_state p = CHDIR"
  shows "case parse_chdir t p of Inl e \<Rightarrow> e = AssertionError | Inr q \<Rightarrow> parser_inv q"
proof -
  obtain d where d: "pp_current p = Some (Chdir d)" "d \<noteq> Some ''&&''" and env: "pp_env p = []"
    and ss: "\<exists>ss. pp_pipeline p = segments ss \<and> list_all segment_ok ss"
    using inv st by (auto simp: parser_inv_def)
  have "\<exists>q. commit_op And p = Inr q \<and> parser_inv q"
    by (rule commit_inv [OF ss env d(1)]) (use d in simp)
  then show ?thesis
    using d env ss st by (auto simp: parse_chdir_def parser_inv_def split: option.splits)
qed

lemma parse_token_inv:
  assumes inv: "parser_inv p"
  shows "case parse_token t p of Inl e \<Rightarrow> e = AssertionError | Inr q \<Rightarrow> parser_inv q"
proof (cases "pp_state p")
  case BEGIN
  then show ?thesis using parse_begin_inv [OF inv BEGIN] by (simp add: parse_token_def)
next
  case COMMAND
  then show ?thesis using parse_command_inv [OF inv COMMAND] by (simp add: parse_token_def)
next
  case CHDIR
  then show ?thesis using parse_chdir_inv [OF inv CHDIR] by (simp add: parse_token_def)
qed (use inv in \<open>auto simp: parse_token_def parser_inv_def with_command_def\<close>)

lemma rfold_inv:
  assumes "parser_inv p"
  shows "case rfold parse_token ts p of Inl e \<Rightarrow> e = AssertionError | Inr q \<Rightarrow> parser_inv q"
  using assms
proof (induction ts arbitrary: p)
  case Nil
  then show ?case by simp
next
  case (Cons t ts)
  then show ?case using parse_token_inv [of p t] by (cases "parse_token t p") auto
qed

lemma parser_inv_commit:
  assumes "parser_inv p"
  shows "case commit_command p of Inl e \<Rightarrow> e = AssertionError | Inr q \<Rightarrow> pipeline_ok (pp_pipeline q)"
proof (cases "pp_current p")
  case None
  then show ?thesis by (simp add: commit_command_def)
next
  case (Some n)
  then have "last_ok n" using assms by (cases "pp_state p") (auto simp: parser_inv_def)
  then show ?thesis using assms Some
    by (auto simp: commit_command_def pipeline_ok_segments parser_inv_def)
qed

text \<open>C18 The parser returns or fails its assertions: what it returns is a well formed pipeline (commands
  and directory changes separated by operators, standard output piped exactly before a pipe, variables
  and arguments as the grammar has them), and the canonical command line written from it is parsed to
  the same pipeline again.\<close>

theorem parse_normalises:
  "case parse tokens of
     Inl e \<Rightarrow> e = AssertionError
   | Inr ns \<Rightarrow> pipeline_ok ns \<and> parse (concat (map node_tokens ns)) = Inr ns"
proof -
  have "parser_inv new_parser"
    by (auto simp: parser_inv_def new_parser_def intro: exI [of _ "[]"])
  from rfold_inv [OF this, of tokens] show ?thesis
  proof (cases "rfold parse_token tokens new_parser")
    case (Inl e)
    then show ?thesis using \<open>parser_inv new_parser\<close> rfold_inv [of new_parser tokens] by (simp add: parse_def)
  next
    case (Inr p)
    then have "parser_inv p" using rfold_inv [OF \<open>parser_inv new_parser\<close>, of tokens] by simp
    from parser_inv_commit [OF this] show ?thesis
      using Inr parse_written by (cases "commit_command p") (auto simp: parse_def [of tokens])
  qed
qed

text \<open>C19 Every well formed pipeline has a command line that denotes it: writing its nodes as tokens, the
  variables first and the redirections last, and parsing them gives the pipeline back, also when the
  tokens are quoted and joined to one text.\<close>

theorem parse_round_trip:
  assumes "pipeline_ok ns"
  shows "parse (concat (map node_tokens ns)) = Inr ns
    \<and> parse_text (join_with '' '' (map quote_word (concat (map node_tokens ns)))) = Inr ns"
  using parse_written [OF assms] by (simp add: parse_text_def shlex_quote_words)

theorem parse_round_trip_witness:
  "\<exists>ns. length ns = 7 \<and> parse_text (join_with '' '' (map quote_word (concat (map node_tokens ns)))) = Inr ns"
proof -
  let ?a = "(new_command ''prog'') \<lparr> cm_argv := [''prog'', ''-x''], cm_env := Some [(''A'', ''1'')], cm_stdin := Some ''in'',
      cm_stdout := To_Pipe, cm_stderr := To_Stdout \<rparr>"
  let ?b = "(new_command ''cat'') \<lparr> cm_stdout := To_File ''out'' \<rparr>"
  let ?ns = "[Chdir (Some ''dir''), And, Cmd ?a, Pipe, Cmd ?b, Or, Cmd (new_command ''ls'')]"
  have "pipeline_ok ?ns" by code_simp
  from parse_round_trip [OF this]
  have "parse_text (join_with '' '' (map quote_word (concat (map node_tokens ?ns)))) = Inr ?ns" by (rule conjunct2)
  then show ?thesis by (intro exI [of _ ?ns]) simp
qed

text \<open>The quotes of a word are gone when the parser sees it, so a quoted operator is an operator.\<close>

lemma quoted_operator_redirects:
  "parse_text (''echo '' @ quote_word ''>'' @ '' x'') = Inr [Cmd ((new_command ''echo'') \<lparr> cm_stdout := To_File ''x'' \<rparr>)]"
  by code_simp

section \<open>What a pipeline does\<close>

text \<open>
  The reference semantics.  A group is a list of directory changes followed by piped commands; a chain
  is a group followed by operators and groups.  A group runs its processes in order, each but the first
  reading the pipe, and its exit code is that of its last process.  A chain goes on after \<open>&&\<close> when the
  code is zero and after \<open>||\<close> when it is not; otherwise the whole rest is skipped.
\<close>

type_synonym group = "string list \<times> command \<times> command list"

fun group_nodes :: "group \<Rightarrow> node list" where
  "group_nodes (ds, c, cs) =
     concat (map (\<lambda>d. [Chdir (Some d), And]) ds) @ Cmd c # concat (map (\<lambda>c. [Pipe, Cmd c]) cs)"

fun chain_nodes :: "group \<Rightarrow> (node \<times> group) list \<Rightarrow> node list" where
  "chain_nodes g [] = group_nodes g"
| "chain_nodes g ((oper, h) # r) = group_nodes g @ oper # chain_nodes h r"

fun group_run :: "start_process \<Rightarrow> spawn list \<Rightarrow> bool \<Rightarrow> string \<Rightarrow> command \<Rightarrow> command list
    \<Rightarrow> spawn list \<times> int result" where
  "group_run start hist piped dir c cs =
     (case start hist (spawn_of piped dir c) of
        Inl e \<Rightarrow> (hist, Inl e)
      | Inr code \<Rightarrow>
          (case cs of
             [] \<Rightarrow> (hist @ [spawn_of piped dir c], Inr code)
           | c' # cs' \<Rightarrow> group_run start (hist @ [spawn_of piped dir c]) True dir c' cs'))"


declare group_run.simps [simp del]

lemma first_failure_last: "first_failure all rs = (if \<forall>r \<in> set rs. r = 0 then 0 else last all)"
  by (induction all rs rule: first_failure.induct) auto

lemma exec_piped_last: "exec_piped_commands (rs @ [r]) = r"
  by (auto simp: exec_piped_commands_def first_failure_last)

lemma run_chdirs:
  "run_nodes verbose start hist piped dir codes (concat (map (\<lambda>d. [Chdir (Some d), And]) ds) @ ns)
     = run_nodes verbose start hist piped (foldl path_join dir ds) codes ns"
  by (induction ds arbitrary: dir) auto

text \<open>How the loop goes on with the nodes after a group.\<close>

definition after_group :: "bool \<Rightarrow> start_process \<Rightarrow> string \<Rightarrow> node list \<Rightarrow> spawn list \<Rightarrow> int
    \<Rightarrow> spawn list \<times> int option result" where
  "after_group verbose start dir ns hist code =
     (case ns of
        [] \<Rightarrow> (hist, Inr (Some code))
      | oper # ns' \<Rightarrow>
          if verbose then (hist, Inl UnboundLocalError)
          else if (oper = And) = (code = 0) then run_nodes False start hist False dir [] ns'
          else (hist, Inr (Some code)))"

lemma run_group:
  assumes "ns = [] \<or> hd ns = And \<or> hd ns = Or"
  shows "run_nodes verbose start hist piped dir codes (Cmd c # concat (map (\<lambda>c. [Pipe, Cmd c]) cs) @ ns) =
     (case group_run start hist piped dir c cs of
        (hist', Inl e) \<Rightarrow> (hist', Inl e)
      | (hist', Inr code) \<Rightarrow> after_group verbose start dir ns hist' code)"
proof (induction cs arbitrary: hist piped c codes)
  case Nil
  show ?case
    using assms
    by (cases ns)
      (auto simp: group_run.simps [of _ _ _ _ _ "[]"] after_group_def Let_def exec_piped_last split: sum.splits)
next
  case (Cons c' cs)
  let ?sp = "spawn_of piped dir c"
  let ?rest = "Cmd c' # concat (map (\<lambda>c. [Pipe, Cmd c]) cs) @ ns"
  have "run_nodes verbose start hist piped dir codes (Cmd c # Pipe # ?rest) =
      (case start hist ?sp of
         Inl e \<Rightarrow> (hist, Inl e)
       | Inr code \<Rightarrow> run_nodes verbose start (hist @ [?sp]) True dir (codes @ [code]) ?rest)"
    by (subst run_nodes.simps) (cases "start hist ?sp"; simp del: run_nodes.simps add: Let_def)
  then show ?case
    using Cons.IH [of "hist @ [?sp]" True _ c']
    by (simp del: run_nodes.simps add: group_run.simps [of _ _ _ _ _ "_ # _"] split: sum.splits)
qed

definition chain_ops :: "(node \<times> group) list \<Rightarrow> bool" where
  "chain_ops r \<longleftrightarrow> list_all (\<lambda>(oper, h). oper = And \<or> oper = Or) r"

lemma chain_nodes_shape:
  "chain_nodes (ds, c, cs) r =
     concat (map (\<lambda>d. [Chdir (Some d), And]) ds) @ Cmd c # concat (map (\<lambda>c. [Pipe, Cmd c]) cs)
     @ (case r of [] \<Rightarrow> [] | (oper, h) # r' \<Rightarrow> oper # chain_nodes h r')"
  by (cases r) (auto split: prod.splits)




lemma group_run_ok:
  assumes "\<forall>h sp. \<exists>code. start h sp = Inr code"
  shows "\<exists>hist' code. group_run start hist piped dir c cs = (hist', Inr code)"
proof (induction cs arbitrary: hist piped c)
  case Nil
  obtain code where "start hist (spawn_of piped dir c) = Inr code" using assms by blast
  then show ?case by (simp add: group_run.simps)
next
  case (Cons c' cs)
  obtain code where "start hist (spawn_of piped dir c) = Inr code" using assms by blast
  then show ?case using Cons.IH by (simp add: group_run.simps [of _ _ _ _ _ "_ # _"])
qed

text \<open>In verbose mode a pipeline with \<open>&&\<close> or \<open>||\<close> never gives an exit code: when its processes can
  be started, the message after the first group reads a variable that has no value yet.\<close>

theorem verbose_chain_fails:
  assumes start: "\<forall>h sp. \<exists>code. start h sp = Inr code"
    and r: "chain_ops r" "r \<noteq> []"
  shows "snd (run_pipeline True start (chain_nodes g r)) = Inl UnboundLocalError"
proof -
  obtain ds c cs where g: "g = (ds, c, cs)" by (cases g)
  obtain oper h r' where x: "r = (oper, h) # r'" using r(2) by (cases r) auto
  have oper: "oper = And \<or> oper = Or" using r(1) x by (auto simp: chain_ops_def)
  obtain hist' code where "group_run start [] False (foldl path_join ''.'' ds) c cs = (hist', Inr code)"
    using group_run_ok [OF start] by blast
  then show ?thesis
    unfolding run_pipeline_def g x chain_nodes_shape run_chdirs
    using run_group [of "oper # chain_nodes h r'" True start "[]" False "foldl path_join ''.'' ds" "[]" c cs] oper
    by (auto simp: after_group_def)
qed

theorem verbose_chain_fails_witness:
  "snd (run_pipeline True (\<lambda>_ _. Inr 0) [Cmd (new_command ''a''), And, Cmd (new_command ''b'')])
     = Inl UnboundLocalError"
proof -
  let ?r = "[(And, ([], new_command ''b'', []))] :: (node \<times> group) list"
  have "chain_ops ?r" "?r \<noteq> []" by (simp_all add: chain_ops_def)
  from verbose_chain_fails [OF _ this, of "\<lambda>_ _. Inr 0" "([], new_command ''a'', [])"]
  show ?thesis by simp
qed

text \<open>
  In \<open>true || a && b\<close> the success of the first command ends the run, where a POSIX shell goes on with
  \<open>b\<close>; the display of a command line has no \<open>||\<close>; a redirection without a file is dropped; a command
  line that is only a directory change is parsed but cannot be run.
\<close>

lemma or_success_skips_and:
  "run_pipeline False (\<lambda>_ _. Inr 0)
     [Cmd (new_command ''true''), Or, Cmd (new_command ''a''), And, Cmd (new_command ''b'')]
   = ([spawn_of False ''.'' (new_command ''true'')], Inr (Some 0))"
  by code_simp

lemma abbreviated_or_lost:
  "get_abbreviated_command [Cmd (new_command ''a''), Or, Cmd (new_command ''b'')] = ''a b''
   \<and> get_abbreviated_command [Cmd (new_command ''a''), And, Cmd (new_command ''b'')] = ''a && b''"
  by code_simp

lemma redirect_without_file:
  "parse [''a'', ''>''] = Inr [Cmd (new_command ''a'')]"
  by code_simp

lemma chdir_only_fails:
  "parse [''cd'', ''d''] = Inr [Chdir (Some ''d'')]
   \<and> run_pipeline False start [Chdir (Some ''d'')] = ([], Inl IndexError)"
  by (rule conjI, code_simp) (simp add: run_pipeline_def)

end
