(* ===== verification/Py_Regex.thy ===== *)
theory Py_Regex
  imports Py_Prelude
begin

text \<open>
  The pieces of regular expressions that the scripts use: a literal, and a non-empty run of characters of a
  class that is read greedily.  A matcher returns what it has matched and the rest.
\<close>

definition match_lit :: "string \<Rightarrow> string \<Rightarrow> string option" where
  "match_lit p s = (if startswith s p then Some (drop (length p) s) else None)"

definition match_run :: "(char \<Rightarrow> bool) \<Rightarrow> string \<Rightarrow> (string \<times> string) option" where
  "match_run P s = (let w = takeWhile P s in if w = [] then None else Some (w, dropWhile P s))"

abbreviation match_digits :: "string \<Rightarrow> (string \<times> string) option" where
  "match_digits \<equiv> match_run is_digit"

lemma match_lit_app [simp]: "match_lit p (p @ s) = Some s"
  by (simp add: match_lit_def)

lemma match_lit_Cons: "match_lit (c # p) (d # s) = (if c = d then match_lit p s else None)"
  by (simp add: match_lit_def startswith_def)

lemma match_lit_Nil [simp]: "match_lit [] s = Some s" "match_lit (c # p) [] = None"
  by (simp_all add: match_lit_def startswith_def)

lemma match_lit_eq: "match_lit p s = Some r \<longleftrightarrow> s = p @ r"
  by (auto simp: match_lit_def startswith_iff)

lemma takeWhile_until: "list_all P w \<Longrightarrow> r = [] \<or> \<not> P (hd r) \<Longrightarrow> takeWhile P (w @ r) = w \<and> dropWhile P (w @ r) = r"
  by (induction w) (cases r; auto)+

lemma match_run_app: "list_all P w \<Longrightarrow> w \<noteq> [] \<Longrightarrow> r = [] \<or> \<not> P (hd r) \<Longrightarrow> match_run P (w @ r) = Some (w, r)"
  using takeWhile_until [of P w r] by (simp add: match_run_def Let_def)

lemma match_run_whole: "list_all P w \<Longrightarrow> w \<noteq> [] \<Longrightarrow> match_run P w = Some (w, [])"
  using match_run_app [of P w "[]"] by simp

lemma match_run_no: "s = [] \<or> \<not> P (hd s) \<Longrightarrow> match_run P s = None"
  by (cases s) (auto simp: match_run_def)

lemma match_run_SomeD: "match_run P s = Some (w, r) \<Longrightarrow> s = w @ r \<and> w \<noteq> [] \<and> list_all P w"
  by (auto simp: match_run_def Let_def list_all_iff dest: set_takeWhileD split: if_splits)

lemma match_digits_app: "r = [] \<or> \<not> is_digit (hd r) \<Longrightarrow> match_digits (nat_str n @ r) = Some (nat_str n, r)"
  using nat_str_digits by (intro match_run_app) auto

end
