(* ===== verification/Command_Task.thy ===== *)
theory Command_Task
  imports Shell_Command Py_Regex
begin

text \<open>
  The command task of \<open>waf-tools/command.py\<close>: variables are substituted in the texts of a parsed command line,
  which \<open>shellcmd.py\<close> then runs.  The evaluation of an expression and the nodes of waf's file tree are parameters;
  strings are ASCII.
\<close>

section \<open>Arguments\<close>

text \<open>\<open>arg_rx\<close>, \<open>(\$\$)|(\$\{(\w+)(.*?)\})\<close>.  The name is the longest one: no character of a name ends the code, so
  that a shorter one matches only if the longest does.  The code ends at the first brace, on the same line.\<close>

definition code_char :: "char \<Rightarrow> bool" where
  "code_char c \<longleftrightarrow> c \<noteq> CHR ''}'' \<and> c \<noteq> CHR 0x0A"

definition match_subst :: "string \<Rightarrow> (string \<times> string \<times> string) option" where
  "match_subst s =
     Option.bind (match_lit ''${'' s) (\<lambda>s1. Option.bind (match_run name_char s1) (\<lambda>(var, s2).
     Option.bind (match_lit ''}'' (dropWhile code_char s2)) (\<lambda>s3. Some (var, takeWhile code_char s2, s3))))"

datatype piece = Plain char | Dollar | Subst string string

lemma match_subst_eq:
  "match_subst s = Some (var, code, r) \<longleftrightarrow>
     s = ''${'' @ var @ code @ ''}'' @ r \<and> var \<noteq> [] \<and> list_all name_char var \<and> list_all code_char code
     \<and> (code = [] \<or> \<not> name_char (hd code))"
proof
  assume m: "match_subst s = Some (var, code, r)"
  then obtain s1 s2 where s: "match_lit ''${'' s = Some s1" "match_run name_char s1 = Some (var, s2)"
    "match_lit ''}'' (dropWhile code_char s2) = Some r" "code = takeWhile code_char s2"
    by (auto simp: match_subst_def bind_eq_Some_conv)
  have v: "s1 = var @ s2" "var \<noteq> []" "list_all name_char var" using match_run_SomeD [OF s(2)] by simp_all
  have "dropWhile name_char s1 = s2" using s(2) by (auto simp: match_run_def Let_def split: if_splits)
  then have h: "s2 = [] \<or> \<not> name_char (hd s2)" by (metis hd_dropWhile)
  have d: "s2 = code @ ''}'' @ r" using s(3) takeWhile_dropWhile_id [of code_char s2] by (simp add: match_lit_eq s(4))
  have "list_all code_char code" unfolding s(4) list_all_iff by (auto dest: set_takeWhileD)
  moreover have "code = [] \<or> \<not> name_char (hd code)" using h d by (cases code) auto
  ultimately show "s = ''${'' @ var @ code @ ''}'' @ r \<and> var \<noteq> [] \<and> list_all name_char var \<and> list_all code_char code
     \<and> (code = [] \<or> \<not> name_char (hd code))"
    using s(1) v d unfolding match_lit_eq by simp
next
  assume a: "s = ''${'' @ var @ code @ ''}'' @ r \<and> var \<noteq> [] \<and> list_all name_char var \<and> list_all code_char code
     \<and> (code = [] \<or> \<not> name_char (hd code))"
  have "\<not> name_char (CHR ''}'')" by code_simp
  then have "match_run name_char (var @ code @ ''}'' @ r) = Some (var, code @ ''}'' @ r)"
    using a by (intro match_run_app) (cases code; auto)+
  moreover have "\<not> code_char (CHR ''}'')" by code_simp
  then have "takeWhile code_char (code @ ''}'' @ r) = code \<and> dropWhile code_char (code @ ''}'' @ r) = ''}'' @ r"
    using a by (intro takeWhile_until) auto
  ultimately show "match_subst s = Some (var, code, r)"
    using a unfolding match_subst_def by (simp only: match_lit_app bind.simps prod.case)
qed

lemma match_lit_length: "match_lit p s = Some r \<Longrightarrow> length s = length p + length r"
  by (simp add: match_lit_eq)

lemma match_subst_length: "match_subst s = Some (var, code, r) \<Longrightarrow> length r < length s"
  by (simp add: match_subst_eq)

text \<open>The matches of the pattern from left to right, and the characters between them.\<close>

function split_arg :: "string \<Rightarrow> piece list" where
  "split_arg [] = []"
| "split_arg (c # s) =
     (case match_lit ''$$'' (c # s) of
        Some r \<Rightarrow> Dollar # split_arg r
      | None \<Rightarrow> (case match_subst (c # s) of
          Some (var, code, r) \<Rightarrow> Subst var code # split_arg r
        | None \<Rightarrow> Plain c # split_arg s))"
  by pat_completeness auto
termination by (relation "measure length") (auto dest: match_lit_length match_subst_length)

section \<open>Substitution\<close>

text \<open>A node of waf's file tree, and the values of expressions: the lists of inputs and outputs of the task are
  recognised by their identity, \<open>Other_value\<close> is an object of any other type.\<close>

record file_node =
  fn_srcpath :: string
  fn_bldpath :: string
  fn_bld_abspath :: string

datatype expr_value = Node_value file_node | Inputs | Outputs | Items "expr_value list" | Text string | None_value | Other_value

type_synonym name_space = "(string, expr_value) dict"

type_synonym evaluator = "name_space \<Rightarrow> string \<Rightarrow> expr_value result"

datatype command_line = Line string | Tokens "string list"

record command_task =
  ct_inputs :: "file_node list"
  ct_outputs :: "file_node list"
  ct_env :: name_space
  ct_command :: command_line
  ct_variables :: "name_space option"

text \<open>\<open>repl\<close>\<close>

definition single_node :: "(file_node \<Rightarrow> string) \<Rightarrow> file_node list \<Rightarrow> expr_value result" where
  "single_node path nodes = (case nodes of [n] \<Rightarrow> Inr (Text (path n)) | _ \<Rightarrow> Inl ValueError)"

definition repl_result :: "command_task \<Rightarrow> string \<Rightarrow> expr_value \<Rightarrow> expr_value result" where
  "repl_result t var v =
     (case v of
        Node_value n \<Rightarrow>
          (if var = ''TGT'' then Inr (Text (fn_bld_abspath n))
           else if var = ''SRC'' then Inr (Text (fn_srcpath n)) else Inl ValueError)
      | Inputs \<Rightarrow> single_node fn_srcpath (ct_inputs t)
      | Outputs \<Rightarrow> single_node fn_bld_abspath (ct_outputs t)
      | Items vs \<Rightarrow> (case vs of [x] \<Rightarrow> Inr x | _ \<Rightarrow> Inl AssertionError)
      | _ \<Rightarrow> Inr v)"

fun repl_piece :: "evaluator \<Rightarrow> command_task \<Rightarrow> name_space \<Rightarrow> piece \<Rightarrow> expr_value result" where
  "repl_piece eval t ns (Plain c) = Inr (Text [c])"
| "repl_piece eval t ns Dollar = Inr (Text ''$'')"
| "repl_piece eval t ns (Subst var code) = rbind (eval ns (var @ code)) (repl_result t var)"

text \<open>\<open>sub\<close> calls \<open>repl\<close> for every match and joins the results; it leaves out \<open>None\<close>.\<close>

fun value_text :: "expr_value \<Rightarrow> string result" where
  "value_text (Text s) = Inr s"
| "value_text None_value = Inr []"
| "value_text _ = Inl TypeError"

definition subst_arg :: "evaluator \<Rightarrow> command_task \<Rightarrow> name_space \<Rightarrow> string \<Rightarrow> string result" where
  "subst_arg eval t ns arg =
     rbind (rmap (repl_piece eval t ns) (split_arg arg)) (\<lambda>vs. rbind (rmap value_text vs) (\<lambda>ts. Inr (concat ts)))"

section \<open>The task\<close>

definition subst_opt :: "(string \<Rightarrow> string result) \<Rightarrow> string option \<Rightarrow> string option result" where
  "subst_opt f v = (case v of None \<Rightarrow> Inr None | Some s \<Rightarrow> rbind (f s) (\<lambda>s'. Inr (Some s')))"

definition subst_redirect :: "(string \<Rightarrow> string result) \<Rightarrow> redirect \<Rightarrow> redirect result" where
  "subst_redirect f r = (case r of To_File s \<Rightarrow> rbind (f s) (\<lambda>s'. Inr (To_File s')) | _ \<Rightarrow> Inr r)"

definition subst_env :: "(string \<Rightarrow> string result) \<Rightarrow> (string, string) dict option \<Rightarrow> (string, string) dict option result" where
  "subst_env f env =
     (case env of
        None \<Rightarrow> Inr None
      | Some e \<Rightarrow> rbind (rmap (\<lambda>(k, v). rbind (f v) (\<lambda>v'. Inr (k, v'))) e) (\<lambda>e'. Inr (Some e')))"

fun subst_node :: "(string \<Rightarrow> string result) \<Rightarrow> node \<Rightarrow> node result" where
  "subst_node f (Cmd c) =
     rbind (subst_opt f (cm_stdin c)) (\<lambda>i. rbind (subst_redirect f (cm_stdout c)) (\<lambda>out.
     rbind (subst_redirect f (cm_stderr c)) (\<lambda>err. rbind (rmap f (cm_argv c)) (\<lambda>argv.
     rbind (subst_env f (cm_env c)) (\<lambda>env.
       Inr (Cmd (c \<lparr> cm_stdin := i, cm_stdout := out, cm_stderr := err, cm_argv := argv, cm_env := env \<rparr>)))))))"
| "subst_node f (Chdir d) =
     (case d of None \<Rightarrow> Inl TypeError | Some s \<Rightarrow> rbind (f s) (\<lambda>s'. Inr (Chdir (Some s'))))"
| "subst_node f n = Inr n"

definition name_space_of :: "command_task \<Rightarrow> name_space" where
  "name_space_of t =
     (let update = foldl (\<lambda>d (k, v). dict_set d k v);
          d = (case ct_variables t of None \<Rightarrow> ct_env t | Some vs \<Rightarrow> update (ct_env t) vs)
      in update d [(''env'', Other_value), (''SRC'', Inputs), (''TGT'', Outputs)])"

definition line_tokens :: "command_line \<Rightarrow> string list result" where
  "line_tokens l = (case l of Line s \<Rightarrow> shlex_split s | Tokens ts \<Rightarrow> Inr ts)"

definition run_command :: "evaluator \<Rightarrow> bool \<Rightarrow> start_process \<Rightarrow> command_task \<Rightarrow> spawn list \<times> int option result" where
  "run_command eval verbose start t =
     (case rbind (rbind (line_tokens (ct_command t)) parse)
             (rmap (subst_node (subst_arg eval t (name_space_of t)))) of
        Inl e \<Rightarrow> ([], Inl e)
      | Inr ns \<Rightarrow> run_pipeline verbose start ns)"

text \<open>\<open>__str__\<close>\<close>

definition task_str :: "command_task \<Rightarrow> string result" where
  "task_str t =
     rbind (rbind (line_tokens (ct_command t)) parse) (\<lambda>ns.
       Inr (''command ('' @ get_abbreviated_command ns @ ''): '' @ join_with '' '' (map fn_bldpath (ct_inputs t))
            @ (if ct_outputs t \<noteq> [] then '' -> '' else []) @ join_with '' '' (map fn_bldpath (ct_outputs t))))"

text \<open>\<open>init_command\<close> and \<open>apply_command\<close>: the generator keeps no sources, since the task has taken them; \<open>declare_node\<close>
  is waf's \<open>find_or_declare\<close>.\<close>

record command_gen =
  cg_source :: "file_node list"
  cg_target :: "string list"
  cg_command :: command_line
  cg_variables :: "name_space option"

definition apply_command ::
    "(string \<Rightarrow> file_node) \<Rightarrow> name_space \<Rightarrow> command_gen \<Rightarrow> command_gen \<times> command_task" where
  "apply_command declare_node env g =
     (g \<lparr> cg_source := [] \<rparr>,
      \<lparr> ct_inputs = cg_source g, ct_outputs = map declare_node (cg_target g), ct_env = env,
        ct_command = cg_command g, ct_variables = cg_variables g \<rparr>)"

section \<open>Splitting and writing arguments\<close>

fun render :: "piece \<Rightarrow> string" where
  "render (Plain c) = [c]"
| "render Dollar = ''$$''"
| "render (Subst var code) = ''${'' @ var @ code @ ''}''"

fun piece_ok :: "piece \<Rightarrow> bool" where
  "piece_ok (Plain c) \<longleftrightarrow> c \<noteq> CHR ''$''"
| "piece_ok Dollar \<longleftrightarrow> True"
| "piece_ok (Subst var code) \<longleftrightarrow>
     var \<noteq> [] \<and> list_all name_char var \<and> list_all code_char code \<and> (code = [] \<or> \<not> name_char (hd code))"

lemma render_split [simp]: "concat (map render (split_arg s)) = s"
proof (induction s rule: split_arg.induct)
  case (2 c s)
  show ?case
  proof (cases "match_lit ''$$'' (c # s)")
    case None
    then show ?thesis
    proof (cases "match_subst (c # s)")
      case (Some m)
      then obtain var code r where m: "match_subst (c # s) = Some (var, code, r)" by (cases m) simp
      then have "concat (map render (split_arg r)) = r" using None 2(2) by simp
      then show ?thesis using None m m [unfolded match_subst_eq] by simp
    qed (use None 2 in simp)
  next
    case (Some r)
    then have "concat (map render (split_arg r)) = r" using 2(3) by simp
    then show ?thesis using Some Some [unfolded match_lit_eq] by simp
  qed
qed simp

lemma split_plain [simp]: "c \<noteq> CHR ''$'' \<Longrightarrow> split_arg (c # s) = Plain c # split_arg s"
  by (simp add: match_lit_Cons match_subst_def)

lemma split_dollar [simp]: "split_arg (CHR ''$'' # CHR ''$'' # s) = Dollar # split_arg s"
  by (simp add: match_lit_Cons)

lemma split_subst: "piece_ok (Subst var code) \<Longrightarrow> split_arg (''${'' @ var @ code @ ''}'' @ s) = Subst var code # split_arg s"
proof -
  assume ok: "piece_ok (Subst var code)"
  then have m: "match_subst (''${'' @ var @ code @ ''}'' @ s) = Some (var, code, s)" by (simp only: match_subst_eq piece_ok.simps simp_thms)
  have n: "match_lit ''$$'' (''${'' @ var @ code @ ''}'' @ s) = None" by (simp add: match_lit_Cons)
  show ?thesis using m n by simp
qed

declare split_arg.simps(2) [simp del]

lemma split_render: "list_all piece_ok ps \<Longrightarrow> split_arg (concat (map render ps)) = ps"
proof (induction ps)
  case (Cons p ps)
  then show ?case
    using split_subst [of _ _ "concat (map render ps)"] by (cases p) (auto simp del: piece_ok.simps(3))
qed simp

text \<open>A text in which every dollar sign is doubled denotes itself.\<close>

definition escape :: "string \<Rightarrow> string" where
  "escape s = concat (map (\<lambda>c. if c = CHR ''$'' then ''$$'' else [c]) s)"

definition escape_piece :: "char \<Rightarrow> piece" where
  "escape_piece c = (if c = CHR ''$'' then Dollar else Plain c)"

lemma escape_pieces: "escape s = concat (map render (map escape_piece s))"
  by (simp add: escape_def escape_piece_def comp_def if_distrib cong: if_cong)

lemma rmap_texts: "rmap value_text (map (\<lambda>x. Text (g x)) ps) = Inr (map g ps)"
  by (induction ps) simp_all

lemma subst_pieces:
  assumes "list_all piece_ok ps" "\<forall>p \<in> set ps. repl_piece eval t ns p = Inr (Text (g p))"
  shows "subst_arg eval t ns (concat (map render ps)) = Inr (concat (map g ps))"
  using assms(2) by (simp add: subst_arg_def split_render [OF assms(1)] rmap_pure [where g = "\<lambda>p. Text (g p)"] rmap_texts)

lemma subst_escape: "subst_arg eval t ns (escape s) = Inr s"
proof -
  define g where "g p = (case p of Plain c \<Rightarrow> [c] | _ \<Rightarrow> ''$'')" for p
  have "subst_arg eval t ns (concat (map render (map escape_piece s))) = Inr (concat (map g (map escape_piece s)))"
    by (rule subst_pieces) (auto simp: escape_piece_def g_def list_all_iff)
  moreover have "concat (map g (map escape_piece s)) = s" by (induction s) (simp_all add: g_def escape_piece_def)
  ultimately show ?thesis by (simp only: escape_pieces)
qed

lemma escape_plain: "CHR ''$'' \<notin> set s \<Longrightarrow> escape s = s"
  by (induction s) (auto simp: escape_def)

lemma subst_plain: "CHR ''$'' \<notin> set s \<Longrightarrow> subst_arg eval t ns s = Inr s"
  by (metis subst_escape escape_plain)

text \<open>C26 The substitution in an argument that is written from pieces, that is characters, doubled dollar signs and
  variables with code, is the text of each piece in its place, which is not substituted again.  Each argument is
  written from pieces, and a text with doubled dollar signs denotes itself.\<close>

theorem subst_arg_exact:
  assumes "list_all piece_ok ps"
    and "\<forall>p \<in> set ps. case p of Subst var code \<Rightarrow> rbind (eval ns (var @ code)) (repl_result t var) = Inr (Text (g p))
                              | Dollar \<Rightarrow> g p = ''$'' | Plain c \<Rightarrow> g p = [c]"
  shows "subst_arg eval t ns (concat (map render ps)) = Inr (concat (map g ps))
    \<and> split_arg (concat (map render ps)) = ps \<and> concat (map render (split_arg s)) = s
    \<and> subst_arg eval t ns (escape s) = Inr s"
proof -
  have "\<forall>p \<in> set ps. repl_piece eval t ns p = Inr (Text (g p))"
  proof
    fix p
    assume "p \<in> set ps"
    from bspec [OF assms(2) this] show "repl_piece eval t ns p = Inr (Text (g p))" by (cases p) simp_all
  qed
  then show ?thesis using assms(1) by (simp add: subst_pieces split_render subst_escape)
qed

definition sample_task :: command_task where
  "sample_task =
     \<lparr> ct_inputs = [\<lparr> fn_srcpath = ''a.in'', fn_bldpath = ''b/a.in'', fn_bld_abspath = ''/b/a.in'' \<rparr>],
       ct_outputs = [\<lparr> fn_srcpath = ''o'', fn_bldpath = ''b/o'', fn_bld_abspath = ''/b/o'' \<rparr>],
       ct_env = [(''X'', Text ''${SRC}'')], ct_command = Tokens [''cp'', ''${SRC}'', ''-$$${X}'', ''>'', ''${TGT}''],
       ct_variables = None \<rparr>"

definition look_up :: evaluator where
  "look_up ns e = (case dict_get ns e of None \<Rightarrow> Inl (OtherError ''NameError'') | Some v \<Rightarrow> Inr v)"

theorem subst_arg_exact_witness:
  "subst_arg look_up sample_task (name_space_of sample_task) ''-$$${X}'' = Inr ''-$${SRC}''"
proof -
  let ?ps = "[Plain CHR ''-'', Dollar, Subst ''X'' []]"
  let ?g = "\<lambda>p. case p of Plain c \<Rightarrow> [c] | Dollar \<Rightarrow> ''$'' | Subst _ _ \<Rightarrow> ''${SRC}''"
  have "list_all piece_ok ?ps" by code_simp
  moreover have "rbind (look_up (name_space_of sample_task) ''X'') (repl_result sample_task ''X'') = Inr (Text ''${SRC}'')" by code_simp
  ultimately have "subst_arg look_up sample_task (name_space_of sample_task) (concat (map render ?ps)) = Inr (concat (map ?g ?ps))"
    using subst_arg_exact [where g = ?g and ps = ?ps] by simp
  then show ?thesis by simp
qed

section \<open>Running the task\<close>

text \<open>The shape of a node: what a substitution leaves as it is.\<close>

fun redirect_kind :: "redirect \<Rightarrow> redirect" where
  "redirect_kind (To_File s) = To_File []"
| "redirect_kind r = r"

fun shape :: "node \<Rightarrow> node" where
  "shape (Cmd c) =
     Cmd (c \<lparr> cm_argv := map (\<lambda>_. []) (cm_argv c), cm_stdin := map_option (\<lambda>_. []) (cm_stdin c),
             cm_stdout := redirect_kind (cm_stdout c), cm_stderr := redirect_kind (cm_stderr c),
             cm_env := map_option (map (\<lambda>(k, v). (k, []))) (cm_env c) \<rparr>)"
| "shape (Chdir d) = Chdir (map_option (\<lambda>_. []) d)"
| "shape n = n"

lemma subst_redirect_kind: "subst_redirect f r = Inr r' \<Longrightarrow> redirect_kind r' = redirect_kind r"
  by (cases r) (auto simp: subst_redirect_def rbind_simps)

lemma subst_opt_kind: "subst_opt f v = Inr v' \<Longrightarrow> map_option (\<lambda>_. [] :: string) v' = map_option (\<lambda>_. []) v"
  by (cases v) (auto simp: subst_opt_def rbind_simps)

lemma list_all2_map_eq: "list_all2 P xs ys \<Longrightarrow> (\<And>x y. P x y \<Longrightarrow> h y = h x) \<Longrightarrow> map h ys = map h xs"
  by (induction rule: list_all2_induct) simp_all

lemma subst_env_kind:
  assumes "subst_env f e = Inr e'"
  shows "map_option (map (\<lambda>(k, v). (k, [] :: string))) e' = map_option (map (\<lambda>(k, v). (k, []))) e"
  using assms by (cases e) (auto simp: subst_env_def rbind_simps rmap_Inr_iff intro!: list_all2_map_eq split: prod.splits)

lemma subst_argv_kind: "rmap f xs = Inr ys \<Longrightarrow> map (\<lambda>_. [] :: string) ys = map (\<lambda>_. []) xs"
  by (auto simp: rmap_Inr_iff map_replicate_const dest: list_all2_lengthD)

lemma subst_node_shape: "subst_node f n = Inr n' \<Longrightarrow> shape n' = shape n"
proof (cases n)
  case (Cmd c)
  assume "subst_node f n = Inr n'"
  then obtain i out err argv env where s: "subst_opt f (cm_stdin c) = Inr i" "subst_redirect f (cm_stdout c) = Inr out"
    "subst_redirect f (cm_stderr c) = Inr err" "rmap f (cm_argv c) = Inr argv" "subst_env f (cm_env c) = Inr env"
    "n' = Cmd (c \<lparr> cm_stdin := i, cm_stdout := out, cm_stderr := err, cm_argv := argv, cm_env := env \<rparr>)"
    using Cmd by (auto simp: rbind_simps)
  show ?thesis
    using subst_opt_kind [OF s(1)] subst_redirect_kind [OF s(2)] subst_redirect_kind [OF s(3)] subst_argv_kind [OF s(4)]
      subst_env_kind [OF s(5)] by (simp add: Cmd s(6))
qed (auto simp: rbind_simps split: option.splits)

text \<open>C25 What is substituted cannot change the form of the command line: if a process was started or the task has
  returned, then the command line was parsed as it is written, and what runs is that pipeline with other texts in the
  places of its texts, that is with as many commands, operators, arguments and redirections, and the same names of
  variables.\<close>

theorem run_command_shape:
  assumes "run_command eval verbose start t = (hist, r)" "hist \<noteq> [] \<or> \<not> isl r"
  shows "\<exists>tokens ns ns'. line_tokens (ct_command t) = Inr tokens \<and> parse tokens = Inr ns \<and> map shape ns' = map shape ns
    \<and> run_pipeline verbose start ns' = (hist, r)"
proof -
  have "\<not> isl (rbind (rbind (line_tokens (ct_command t)) parse) (rmap (subst_node (subst_arg eval t (name_space_of t)))))"
    using assms by (auto simp: run_command_def split: sum.splits)
  then obtain tokens ns ns' where n: "line_tokens (ct_command t) = Inr tokens" "parse tokens = Inr ns"
    "rmap (subst_node (subst_arg eval t (name_space_of t))) ns = Inr ns'"
    by (auto simp: isl_def rbind_simps split: sum.splits) (metis rbind_eq_Inr sum.exhaust)
  have "map shape ns' = map shape ns"
    using n(3) unfolding rmap_Inr_iff by (rule list_all2_map_eq) (rule subst_node_shape)
  moreover have "run_pipeline verbose start ns' = (hist, r)" using assms(1) n by (simp add: run_command_def)
  ultimately show ?thesis using n by blast
qed

theorem run_command_shape_witness:
  "\<exists>ns'. map shape ns' = [Cmd ((new_command ''cp'') \<lparr> cm_argv := [[], [], []], cm_stdout := To_File [] \<rparr>)]
    \<and> run_pipeline False (\<lambda>_ _. Inr 0) ns' = run_command look_up False (\<lambda>_ _. Inr 0) sample_task"
proof -
  obtain hist r where r: "run_command look_up False (\<lambda>_ _. Inr 0) sample_task = (hist, r)" by fastforce
  have "\<not> isl (snd (run_command look_up False (\<lambda>_ _. Inr 0) sample_task))" by code_simp
  then obtain tokens ns ns' where n: "line_tokens (ct_command sample_task) = Inr tokens" "parse tokens = Inr ns"
    "map shape ns' = map shape ns" "run_pipeline False (\<lambda>_ _. Inr 0) ns' = (hist, r)"
    using run_command_shape [OF r] r by auto
  have "rbind (rbind (line_tokens (ct_command sample_task)) parse) (\<lambda>ns. Inr (map shape ns))
      = Inr [Cmd ((new_command ''cp'') \<lparr> cm_argv := [[], [], []], cm_stdout := To_File [] \<rparr>)]" by code_simp
  then show ?thesis using n r by (intro exI [of _ ns']) simp
qed

text \<open>The texts of a node; those of a parsed pipeline are tokens, or values in tokens.\<close>

fun redirect_texts :: "redirect \<Rightarrow> string list" where
  "redirect_texts (To_File s) = [s]"
| "redirect_texts _ = []"

fun node_texts :: "node \<Rightarrow> string list" where
  "node_texts (Cmd c) =
     cm_argv c @ (case cm_stdin c of None \<Rightarrow> [] | Some s \<Rightarrow> [s]) @ redirect_texts (cm_stdout c) @ redirect_texts (cm_stderr c)
     @ (case cm_env c of None \<Rightarrow> [] | Some e \<Rightarrow> map snd e)"
| "node_texts (Chdir d) = (case d of None \<Rightarrow> [] | Some s \<Rightarrow> [s])"
| "node_texts _ = []"

definition plain :: "string \<Rightarrow> bool" where
  "plain s \<longleftrightarrow> CHR ''$'' \<notin> set s"

definition plain_parser :: "pipeline_parser \<Rightarrow> bool" where
  "plain_parser p \<longleftrightarrow>
     (\<forall>n. pp_current p = Some n \<longrightarrow> list_all plain (node_texts n)) \<and> list_all plain (map snd (pp_env p))
     \<and> list_all (\<lambda>n. list_all plain (node_texts n)) (pp_pipeline p)"

lemma plain_env_var: "plain token \<Longrightarrow> match_env_var token = Some (name, val) \<Longrightarrow> plain val"
  by (auto simp: match_env_var_def plain_def Let_def split: if_splits dest!: in_set_butlastD list.set_sel(2) [rotated] set_dropWhileD)

lemma plain_dict_set: "list_all plain (map snd e) \<Longrightarrow> plain v \<Longrightarrow> list_all plain (map snd (dict_set e k v))"
  by (induction e) auto

lemma plain_commit: "plain_parser p \<Longrightarrow> commit_command p = Inr q \<Longrightarrow> plain_parser q"
  by (auto simp: commit_command_def plain_parser_def split: option.splits)

lemma plain_op: "plain_parser p \<Longrightarrow> commit_op oper p = Inr q \<Longrightarrow> oper \<in> {Pipe, And, Or} \<Longrightarrow> plain_parser q"
  by (auto simp: commit_op_def rbind_simps plain_parser_def commit_command_def split: option.splits)

lemma plain_begin: "plain_parser p \<Longrightarrow> plain token \<Longrightarrow> parse_begin token p = Inr q \<Longrightarrow> plain_parser q"
  by (auto simp: parse_begin_def plain_parser_def new_command_def plain_dict_set dest: plain_env_var split: option.splits if_splits)

lemma plain_with_command:
  assumes "plain_parser p" "with_command p f = Inr q"
    and "\<And>c. pp_current p = Some (Cmd c) \<Longrightarrow> list_all plain (node_texts (Cmd c)) \<Longrightarrow> f c = Inr q \<Longrightarrow> plain_parser q"
  shows "plain_parser q"
  using assms by (auto simp: with_command_def plain_parser_def split: option.splits node.splits)

lemma plain_put:
  "plain_parser p \<Longrightarrow> list_all plain (node_texts n) \<Longrightarrow> plain_parser (p \<lparr> pp_current := Some n \<rparr>)"
  "plain_parser (p \<lparr> pp_state := st \<rparr>) = plain_parser p"
  by (simp_all add: plain_parser_def)

lemma plain_command:
  assumes "plain_parser p" "plain token" "parse_command token p = Inr q"
  shows "plain_parser q"
proof -
  consider "token = ''2>&1''" | "token = ''|''" | "token \<in> {''>'', ''2>'', ''<'', ''&&'', ''||''}"
    | "token \<notin> set operators" by (auto simp: operators_def)
  then show ?thesis
  proof cases
    case 1
    then have "with_command p (\<lambda>c. if cm_stderr c \<noteq> Inherit then Inl AssertionError
        else Inr (p \<lparr> pp_current := Some (Cmd (c \<lparr> cm_stderr := To_Stdout \<rparr>)) \<rparr>)) = Inr q"
      using assms(3) by (simp add: parse_command_def)
    then show ?thesis
      by (rule plain_with_command [OF assms(1)]) (use plain_put(1) [OF assms(1)] in \<open>auto split: if_splits\<close>)
  next
    case 2
    then have "with_command p (\<lambda>c. if cm_stdout c \<noteq> Inherit then Inl AssertionError
        else commit_op Pipe (p \<lparr> pp_current := Some (Cmd (c \<lparr> cm_stdout := To_Pipe \<rparr>)) \<rparr>)) = Inr q"
      using assms(3) by (simp add: parse_command_def)
    then show ?thesis
      by (rule plain_with_command [OF assms(1)])
        (use plain_put(1) [OF assms(1)] in \<open>auto split: if_splits elim!: plain_op [rotated]\<close>)
  next
    case 3
    then show ?thesis using assms(1,3) by (auto simp: parse_command_def plain_put(2) elim: plain_op)
  next
    case 4
    then have "with_command p (\<lambda>c. Inr (p \<lparr> pp_current := Some (Cmd (c \<lparr> cm_argv := cm_argv c @ [token] \<rparr>)) \<rparr>)) = Inr q"
      using assms(3) by (simp add: parse_command_def operators_def)
    then show ?thesis
      by (rule plain_with_command [OF assms(1)]) (use plain_put(1) [OF assms(1)] assms(2) in auto)
  qed
qed

lemma plain_chdir: "plain_parser p \<Longrightarrow> plain token \<Longrightarrow> parse_chdir token p = Inr q \<Longrightarrow> plain_parser q"
  by (auto simp: parse_chdir_def plain_put split: if_splits option.splits node.splits elim: plain_op)

lemma plain_token:
  assumes "plain_parser p" "plain token" "parse_token token p = Inr q"
  shows "plain_parser q"
proof -
  show ?thesis
  proof (cases "pp_state p")
    case STDIN
    show ?thesis
      by (rule plain_with_command [OF assms(1) assms(3) [unfolded parse_token_def STDIN cl_state.case]])
        (use assms(1,2) in \<open>auto simp: plain_parser_def split: if_splits\<close>)
  next
    case STDOUT
    show ?thesis
      by (rule plain_with_command [OF assms(1) assms(3) [unfolded parse_token_def STDOUT cl_state.case]])
        (use assms(1,2) in \<open>auto simp: plain_parser_def split: if_splits\<close>)
  next
    case STDERR
    show ?thesis
      by (rule plain_with_command [OF assms(1) assms(3) [unfolded parse_token_def STDERR cl_state.case]])
        (use assms(1,2) in \<open>auto simp: plain_parser_def split: if_splits\<close>)
  next
    case BEGIN
    then show ?thesis using plain_begin [OF assms(1,2)] assms(3) by (simp add: parse_token_def)
  next
    case COMMAND
    then show ?thesis using plain_command [OF assms(1,2)] assms(3) by (simp add: parse_token_def)
  next
    case CHDIR
    then show ?thesis using plain_chdir [OF assms(1,2)] assms(3) by (simp add: parse_token_def)
  qed
qed

lemma plain_fold: "rfold parse_token tokens p = Inr q \<Longrightarrow> plain_parser p \<Longrightarrow> list_all plain tokens \<Longrightarrow> plain_parser q"
  by (induction tokens arbitrary: p) (auto simp: rbind_simps dest: plain_token)

lemma plain_parse: "parse tokens = Inr ns \<Longrightarrow> list_all plain tokens \<Longrightarrow> list_all (\<lambda>n. list_all plain (node_texts n)) ns"
proof -
  assume p: "parse tokens = Inr ns" and t: "list_all plain tokens"
  then obtain q q' where q: "rfold parse_token tokens new_parser = Inr q" "commit_command q = Inr q'" "ns = pp_pipeline q'"
    by (auto simp: parse_def rbind_simps)
  have "plain_parser new_parser" by (simp add: plain_parser_def new_parser_def)
  from plain_commit [OF plain_fold [OF q(1) this t] q(2)] show ?thesis by (simp add: plain_parser_def q(3))
qed

lemma rmap_id: "\<forall>x \<in> set xs. f x = Inr x \<Longrightarrow> rmap f xs = Inr xs"
  using rmap_pure [where g = id] by simp

lemma subst_node_plain:
  assumes "\<And>s. plain s \<Longrightarrow> f s = Inr s" "list_all plain (node_texts n)" "n \<noteq> Chdir None"
  shows "subst_node f n = Inr n"
proof (cases n)
  case (Cmd c)
  have "subst_opt f (cm_stdin c) = Inr (cm_stdin c)" using assms(1,2) Cmd by (auto simp: subst_opt_def split: option.splits)
  moreover have "subst_redirect f (cm_stdout c) = Inr (cm_stdout c)" "subst_redirect f (cm_stderr c) = Inr (cm_stderr c)"
    using assms(1,2) Cmd by (auto simp: subst_redirect_def split: redirect.splits)
  moreover have "rmap f (cm_argv c) = Inr (cm_argv c)" using assms(1,2) Cmd by (intro rmap_id) (simp add: list_all_iff)
  moreover have "subst_env f (cm_env c) = Inr (cm_env c)"
  proof (cases "cm_env c")
    case (Some e)
    have "f (snd x) = Inr (snd x)" if "x \<in> set e" for x
      using assms(1,2) Cmd Some that by (auto simp: list_all_iff)
    then have "rmap (\<lambda>(k, v). rbind (f v) (\<lambda>v'. Inr (k, v'))) e = Inr e"
      by (intro rmap_id) (auto simp: case_prod_beta)
    then show ?thesis using Some by (simp add: subst_env_def)
  qed (simp add: subst_env_def)
  ultimately show ?thesis by (simp add: Cmd)
qed (use assms in \<open>auto split: option.splits\<close>)

text \<open>A command line without a dollar sign, in which each change of directory names one, is run as
  \<open>shellcmd.py\<close> runs it, whatever the variables are.\<close>

theorem run_command_plain:
  assumes "line_tokens (ct_command t) = Inr tokens" "list_all plain tokens" "parse tokens = Inr ns" "Chdir None \<notin> set ns"
  shows "run_command eval verbose start t = run_pipeline verbose start ns"
proof -
  have "subst_node (subst_arg eval t (name_space_of t)) n = Inr n" if "n \<in> set ns" for n
    using plain_parse [OF assms(3,2)] assms(4) that
    by (intro subst_node_plain) (auto simp: list_all_iff plain_def subst_plain)
  then have "rmap (subst_node (subst_arg eval t (name_space_of t))) ns = Inr ns" by (intro rmap_id) simp
  then show ?thesis using assms by (simp add: run_command_def)
qed

theorem run_command_plain_witness:
  "run_command look_up False (\<lambda>_ _. Inr 3) (sample_task \<lparr> ct_command := Line ''cd d && X=1 ls -l'' \<rparr>)
   = ([\<lparr> sp_argv = [''ls'', ''-l''], sp_stdin = No_Stdin, sp_stdout = Inherit, sp_stderr = Inherit,
        sp_env = Some [(''X'', ''1'')], sp_cwd = Some ''./d'' \<rparr>], Inr (Some 3))"
proof -
  let ?t = "sample_task \<lparr> ct_command := Line ''cd d && X=1 ls -l'' \<rparr>" and ?ts = "[''cd'', ''d'', ''&&'', ''X=1'', ''ls'', ''-l'']"
  let ?ns = "[Chdir (Some ''d''), And, Cmd ((new_command ''ls'') \<lparr> cm_argv := [''ls'', ''-l''], cm_env := Some [(''X'', ''1'')] \<rparr>)]"
  have "line_tokens (ct_command ?t) = Inr ?ts" "list_all plain ?ts" "parse ?ts = Inr ?ns" by code_simp+
  moreover have "Chdir None \<notin> set ?ns" by simp
  ultimately have "run_command look_up False (\<lambda>_ _. Inr 3) ?t = run_pipeline False (\<lambda>_ _. Inr 3) ?ns" by (rule run_command_plain)
  also have "\<dots> = ([\<lparr> sp_argv = [''ls'', ''-l''], sp_stdin = No_Stdin, sp_stdout = Inherit, sp_stderr = Inherit,
        sp_env = Some [(''X'', ''1'')], sp_cwd = Some ''./d'' \<rparr>], Inr (Some 3))" by code_simp
  finally show ?thesis .
qed

text \<open>More than one source: an expression that denotes all of them starts no process.\<close>

lemma several_sources:
  "run_command look_up False start (sample_task \<lparr> ct_inputs := [n, m], ct_command := Tokens [''true'', ''|'', ''cat'', ''${SRC}''] \<rparr>)
   = ([], Inl ValueError)"
proof -
  have "parse [''true'', ''|'', ''cat'', ''${SRC}''] = Inr [Cmd ((new_command ''true'') \<lparr> cm_stdout := To_Pipe \<rparr>), Pipe,
      Cmd ((new_command ''cat'') \<lparr> cm_argv := [''cat'', ''${SRC}''] \<rparr>)]" by code_simp
  moreover have "split_arg ''${SRC}'' = [Subst ''SRC'' []]" by code_simp
  moreover have "look_up (name_space_of (sample_task \<lparr> ct_inputs := [n, m], ct_command := c \<rparr>)) ''SRC'' = Inr Inputs" for c
    by (simp add: look_up_def name_space_of_def sample_task_def)
  ultimately show ?thesis
    using subst_plain [of "''true''"] subst_plain [of "''cat''"]
    by (simp add: run_command_def line_tokens_def new_command_def subst_opt_def subst_redirect_def subst_env_def
        subst_arg_def [of _ _ _ "''${SRC}''"] repl_result_def single_node_def)
qed

text \<open>An expression that denotes a list of one node, \<open>${SRC[0:1]}\<close>: the node is put in the place of a text.\<close>

lemma slice_of_sources: "repl_piece (\<lambda>_ _. Inr (Items [Node_value n])) t ns (Subst ''SRC'' ''[0:1]'') = Inr (Node_value n)"
  "value_text (Node_value n) = Inl TypeError"
  by (simp_all add: repl_result_def)

end
