(* ===== verification/Wutils.thy ===== *)
theory Wutils
  imports Shlex Py_Path
begin

text \<open>
  \<open>wutils.py\<close>: finding a program among the task generators of the build, the environment of its
  process, the command line it is run with and the verdict on its exit code.  What waf knows (the
  task generators, the configuration, the options) and what a started process gives are parameters.
\<close>

section \<open>Errors\<close>

text \<open>Python's own exceptions and the \<open>WafError\<close>s with the data of their messages.\<close>

datatype run_error =
    Python py_exn
  | Not_Found string "string list"
  | Conflicting string string
  | No_Valgrind
  | Killed_By "string list" string
  | Exited_With "string list" int
  | Not_Started "string list"

section \<open>Programs\<close>

text \<open>A task generator: its name, whether it is an ns-3 program, its source and build directories and the
  path of its target.\<close>

record program =
  pg_name :: string
  pg_is_program :: bool
  pg_path :: string
  pg_bld :: string
  pg_node :: string

definition get_command_template :: "string option \<Rightarrow> string list \<Rightarrow> string" where
  "get_command_template opt arguments =
     foldl (\<lambda>cmd arg. cmd @ '' '' @ arg) (case opt of None \<Rightarrow> ''%s'' | Some t \<Rightarrow> if t = [] then ''%s'' else t)
       arguments"

definition program_names :: "string \<Rightarrow> string \<Rightarrow> program \<Rightarrow> string list" where
  "program_names dir launch_dir p =
     [pg_name p, path_join (relpath dir (pg_path p) launch_dir) (pg_name p)]"

definition in_subtree :: "string \<Rightarrow> program \<Rightarrow> bool" where
  "in_subtree launch_dir p \<longleftrightarrow> startswith (pg_path p) launch_dir \<or> startswith (pg_bld p) launch_dir"

fun find_loop :: "string \<Rightarrow> string \<Rightarrow> string \<Rightarrow> string list \<Rightarrow> program list
    \<Rightarrow> run_error + program" where
  "find_loop dir launch_dir name found [] = Inl (Not_Found name found)"
| "find_loop dir launch_dir name found (p # ps) =
     (if \<not> pg_is_program p then find_loop dir launch_dir name found ps
      else if \<not> in_subtree launch_dir p then find_loop dir launch_dir name found ps
      else if name \<in> set (program_names dir launch_dir p) then Inr p
      else find_loop dir launch_dir name (found @ program_names dir launch_dir p) ps)"

definition find_program :: "string \<Rightarrow> string \<Rightarrow> program list \<Rightarrow> string \<Rightarrow> run_error + program" where
  "find_program dir launch ps name = find_loop dir (abspath dir launch) name [] ps"

section \<open>The environment of a process\<close>

definition path_variable_name :: "string \<Rightarrow> string" where
  "path_variable_name platform =
     (if platform = ''linux2'' \<or> platform = ''linux'' then ''LD_LIBRARY_PATH''
      else if platform = ''darwin'' then ''DYLD_LIBRARY_PATH''
      else if platform = ''win32'' then ''PATH''
      else if platform = ''cygwin'' then ''PATH''
      else ''LD_LIBRARY_PATH'')"

definition pathsep :: "string \<Rightarrow> string" where
  "pathsep platform = (if platform = ''win32'' then '';'' else '':'')"

record build_env =
  NS3_MODULE_PATH :: "string list"
  NS3_EXECUTABLE_PATH :: "string list"
  VALGRIND :: "string list"
  PYTHON :: "string list"
  pymoddir :: string
  pyvizdir :: string

definition prepend_paths :: "string \<Rightarrow> string \<Rightarrow> string list \<Rightarrow> (string, string) dict \<Rightarrow> (string, string) dict" where
  "prepend_paths sep var paths env =
     (case dict_get env var of
        Some old \<Rightarrow> dict_set env var (join_with sep (paths @ [old]))
      | None \<Rightarrow> dict_set env var (join_with sep paths))"

definition get_proc_env :: "string \<Rightarrow> build_env \<Rightarrow> (string, string) dict \<Rightarrow> (string, string) dict option
    \<Rightarrow> (string, string) dict" where
  "get_proc_env platform env environ os_env =
     (let sep = pathsep platform;
          proc_env = (case os_env of None \<Rightarrow> environ | Some e \<Rightarrow> foldl (\<lambda>d (k, v). dict_set d k v) environ e)
      in prepend_paths sep ''PATH'' (NS3_EXECUTABLE_PATH env)
          (prepend_paths sep ''PYTHONPATH'' [pymoddir env, pyvizdir env]
            (prepend_paths sep (path_variable_name platform) (NS3_MODULE_PATH env) proc_env)))"

section \<open>Running\<close>

record run_settings =
  set_valgrind :: bool
  set_gdb :: bool
  set_command_template :: "string option"
  set_cwd_launch :: "string option"
  base_cwd_launch :: string

record launch =
  la_argv :: "string list"
  la_env :: "(string, string) dict"
  la_cwd :: "string option"
  la_pipe_stderr :: bool

text \<open>A started process: its exit code and what it wrote to a piped standard error.\<close>

type_synonym start_command = "launch \<Rightarrow> run_error + (int \<times> string)"

text \<open>The attributes of the module \<open>signal\<close>, in their order.\<close>

fun signal_name :: "(string \<times> int) list \<Rightarrow> int \<Rightarrow> string option" where
  "signal_name [] retval = None"
| "signal_name ((name, val) # sigs) retval =
     (if length name > 3 \<and> take 3 name = ''SIG'' \<and> name ! 3 \<noteq> CHR ''_'' \<and> val = - retval then Some name
      else signal_name sigs retval)"

text \<open>
  The loop \<open>for line in stderrdata\<close> runs over the items of a text, its characters: each is written to the
  error output and searched for the leak summary.
\<close>

definition items_of_text :: "string \<Rightarrow> string list" where
  "items_of_text s = map (\<lambda>c. [c]) s"

definition leak_error :: "string \<Rightarrow> bool" where
  "leak_error stderrdata = list_ex (contains_str ''== LEAK SUMMARY'') (items_of_text stderrdata)"

definition check_retval :: "(string \<times> int) list \<Rightarrow> string list \<Rightarrow> int \<Rightarrow> run_error + int" where
  "check_retval sigs argv retval =
     (if retval \<noteq> 0 then
        (case (if retval < 0 then signal_name sigs retval else None) of
           Some signame \<Rightarrow> Inl (Killed_By argv signame)
         | None \<Rightarrow> Inl (Exited_With argv retval))
      else Inr retval)"

definition has_template :: "run_settings \<Rightarrow> bool" where
  "has_template rs = (case set_command_template rs of None \<Rightarrow> False | Some t \<Rightarrow> t \<noteq> [])"

definition valgrind_flags :: "string list" where
  "valgrind_flags = [''--leak-check=full'', ''--show-reachable=yes'', ''--error-exitcode=1'']"

definition run_argv :: "(string \<times> int) list \<Rightarrow> start_command \<Rightarrow> run_settings \<Rightarrow> build_env
    \<Rightarrow> (string, string) dict \<Rightarrow> bool \<Rightarrow> string option \<Rightarrow> string list \<Rightarrow> run_error + int" where
  "run_argv sigs start rs env proc_env force_no_valgrind cwd argv =
     (if set_valgrind rs \<and> has_template rs then Inl (Conflicting ''--command-template'' ''--valgrind'')
      else if set_gdb rs \<and> has_template rs then Inl (Conflicting ''--command-template'' ''--gdb'')
      else if set_gdb rs \<and> set_valgrind rs then Inl (Conflicting ''--valgrind'' ''--gdb'')
      else if set_gdb rs then
        rbind (start \<lparr> la_argv = [''gdb'', ''--args''] @ argv, la_env = proc_env, la_cwd = cwd, la_pipe_stderr = False \<rparr>)
          (\<lambda>(retval, _). Inr retval)
      else if set_valgrind rs \<and> \<not> force_no_valgrind then
        (case VALGRIND env of
           [] \<Rightarrow> Inl No_Valgrind
         | v # _ \<Rightarrow>
             (let argv' = [v] @ valgrind_flags @ argv
              in rbind (start \<lparr> la_argv = argv', la_env = proc_env, la_cwd = cwd, la_pipe_stderr = True \<rparr>)
                   (\<lambda>(retval, stderrdata).
                      check_retval sigs argv' (if retval = 0 \<and> leak_error stderrdata then 1 else retval))))
      else
        rbind (start \<lparr> la_argv = argv, la_env = proc_env, la_cwd = cwd, la_pipe_stderr = False \<rparr>)
          (\<lambda>(retval, _). check_retval sigs argv retval))"

text \<open>\<open>s.rsplit('.', 1)[0]\<close>, and a format \<open>tmpl % (arg,)\<close> with the conversions \<open>%s\<close> and \<open>%%\<close>.\<close>

definition rsplit_dot :: "string \<Rightarrow> string" where
  "rsplit_dot s =
     (if CHR ''.'' \<in> set s then rev (tl (dropWhile (\<lambda>c. c \<noteq> CHR ''.'') (rev s))) else s)"

fun format_one :: "bool \<Rightarrow> string \<Rightarrow> string \<Rightarrow> string result" where
  "format_one used arg [] = (if used then Inr [] else Inl TypeError)"
| "format_one used arg (c # cs) =
     (if c \<noteq> CHR ''%'' then rbind (format_one used arg cs) (\<lambda>s. Inr (c # s))
      else (case cs of
              [] \<Rightarrow> Inl ValueError
            | d # cs' \<Rightarrow>
                if d = CHR ''%'' then rbind (format_one used arg cs') (\<lambda>s. Inr (CHR ''%'' # s))
                else if d = CHR ''s'' then
                  (if used then Inl TypeError else rbind (format_one True arg cs') (\<lambda>s. Inr (arg @ s)))
                else Inl ValueError))"

definition strip_cc :: "string \<Rightarrow> string" where
  "strip_cc name = (if endswith name ''.cc'' then rsplit_dot name else name)"

definition lift_py :: "'a result \<Rightarrow> run_error + 'a" where
  "lift_py r = (case r of Inl e \<Rightarrow> Inl (Python e) | Inr x \<Rightarrow> Inr x)"

definition get_run_program :: "(string \<Rightarrow> run_error + program) \<Rightarrow> string \<Rightarrow> string option
    \<Rightarrow> run_error + (string \<times> string list)" where
  "get_run_program prog_of program_string command_template =
     (if command_template = None \<or> command_template = Some ''%s'' then
        rbind (lift_py (shlex_split program_string)) (\<lambda>argv.
          case argv of
            [] \<Rightarrow> Inl (Python IndexError)
          | arg0 # args \<Rightarrow>
              rbind (prog_of (strip_cc arg0)) (\<lambda>obj. Inr (strip_cc arg0, pg_node obj # args)))
      else
        rbind (prog_of (strip_cc program_string)) (\<lambda>obj.
        rbind (lift_py (format_one False (pg_node obj) (the command_template))) (\<lambda>tmpl.
        rbind (lift_py (shlex_split (double_backslashes tmpl))) (\<lambda>execvec.
          Inr (strip_cc program_string, execvec)))))"

definition launch_cwd :: "run_settings \<Rightarrow> string" where
  "launch_cwd rs =
     (case set_cwd_launch rs of None \<Rightarrow> base_cwd_launch rs
      | Some d \<Rightarrow> if d = [] then base_cwd_launch rs else d)"

definition with_visualizer :: "bool \<Rightarrow> string list \<Rightarrow> string list" where
  "with_visualizer visualize execvec =
     (if visualize then execvec @ [''--SimulatorImplementationType=ns3::VisualSimulatorImpl''] else execvec)"

definition run_program :: "(string \<times> int) list \<Rightarrow> start_command \<Rightarrow> run_settings \<Rightarrow> build_env
    \<Rightarrow> (string, string) dict \<Rightarrow> (string \<Rightarrow> run_error + program) \<Rightarrow> string \<Rightarrow> string option
    \<Rightarrow> string option \<Rightarrow> bool \<Rightarrow> run_error + int" where
  "run_program sigs start rs env proc_env prog_of program_string command_template cwd visualize =
     rbind (get_run_program prog_of program_string command_template) (\<lambda>(_, execvec).
       run_argv sigs start rs env proc_env False
         (Some (case cwd of None \<Rightarrow> launch_cwd rs | Some d \<Rightarrow> d)) (with_visualizer visualize execvec))"

definition run_python_program :: "(string \<times> int) list \<Rightarrow> start_command \<Rightarrow> run_settings \<Rightarrow> build_env
    \<Rightarrow> (string, string) dict \<Rightarrow> string \<Rightarrow> bool \<Rightarrow> run_error + int" where
  "run_python_program sigs start rs env proc_env program_string visualize =
     rbind (lift_py (shlex_split program_string)) (\<lambda>execvec.
       case PYTHON env of
         [] \<Rightarrow> Inl (Python IndexError)
       | python # _ \<Rightarrow>
           run_argv sigs start rs env proc_env False (Some (launch_cwd rs))
             (python # with_visualizer visualize execvec))"

text \<open>\<open>[x for x in seq if x not in seen and not seen.add(x)]\<close>\<close>

fun uniquify_loop :: "'a list \<Rightarrow> 'a list \<Rightarrow> 'a list" where
  "uniquify_loop seen [] = []"
| "uniquify_loop seen (x # xs) = (if x \<in> set seen then uniquify_loop seen xs else x # uniquify_loop (x # seen) xs)"

definition uniquify_list :: "'a list \<Rightarrow> 'a list" where
  "uniquify_list seq = uniquify_loop [] seq"

section \<open>Properties\<close>

definition candidates :: "string \<Rightarrow> program list \<Rightarrow> program list" where
  "candidates launch_dir ps = filter (\<lambda>p. pg_is_program p \<and> in_subtree launch_dir p) ps"

lemma find_loop_candidates:
  "find_loop dir launch_dir name found ps =
     (case find (\<lambda>p. name \<in> set (program_names dir launch_dir p)) (candidates launch_dir ps) of
        Some p \<Rightarrow> Inr p
      | None \<Rightarrow> Inl (Not_Found name (found @ concat (map (program_names dir launch_dir) (candidates launch_dir ps)))))"
  by (induction ps arbitrary: found) (auto simp: candidates_def split: option.splits)

text \<open>A program is found by its plain name or by its name relative to the launch directory: the result is
  the first ns-3 program under the launch directory with that name, and when there is none the error
  lists both names of every candidate.\<close>

theorem find_program_first:
  "find_program dir launch ps name =
     (let launch_dir = abspath dir launch; cands = candidates launch_dir ps
      in case find (\<lambda>p. name \<in> set (program_names dir launch_dir p)) cands of
           Some p \<Rightarrow> Inr p
         | None \<Rightarrow> Inl (Not_Found name (concat (map (program_names dir launch_dir) cands))))"
  by (simp add: find_program_def find_loop_candidates Let_def split: option.splits)

text \<open>The test for the subtree compares characters, so a sibling directory whose name goes on passes it.\<close>

lemma sibling_directory_in_subtree:
  "find_program ''/'' ''/w/ns-3-dev''
     [\<lparr> pg_name = ''first'', pg_is_program = True, pg_path = ''/w/ns-3-dev-old/examples'',
        pg_bld = ''/w/ns-3-dev-old/build'', pg_node = ''/x'' \<rparr>] ''first''
   = Inr \<lparr> pg_name = ''first'', pg_is_program = True, pg_path = ''/w/ns-3-dev-old/examples'',
        pg_bld = ''/w/ns-3-dev-old/build'', pg_node = ''/x'' \<rparr>"
  by code_simp

lemma format_literal:
  assumes "CHR ''%'' \<notin> set w"
  shows "format_one used arg (w @ rest) = rbind (format_one used arg rest) (\<lambda>s. Inr (w @ s))"
  using assms
proof (induction w)
  case Nil
  then show ?case by (cases "format_one used arg rest") simp_all
next
  case (Cons c w)
  then have "c \<noteq> CHR ''%''" by auto
  then show ?case using Cons by (cases "format_one used arg rest") simp_all
qed

definition plain_word :: "string \<Rightarrow> bool" where
  "plain_word w \<longleftrightarrow> bare w \<and> CHR ''%'' \<notin> set w"

lemma set_join: "set (join_with sep ws) \<subseteq> set sep \<union> \<Union> (set ` set ws)"
  by (induction sep ws rule: join_with.induct) auto

lemma format_tail:
  assumes "list_all plain_word ws"
  shows "format_one True arg (join_with '' '' ws) = Inr (join_with '' '' ws)"
proof -
  have "CHR ''%'' \<notin> set (join_with '' '' ws)"
    using set_join [of "'' ''" ws] assms by (auto simp: list_all_iff plain_word_def)
  then show ?thesis using format_literal [of "join_with '' '' ws" True arg "[]"] by simp
qed

lemma format_words:
  assumes "list_all plain_word pre" "list_all plain_word post"
  shows "format_one False arg (join_with '' '' (pre @ ''%s'' # post)) = Inr (join_with '' '' (pre @ arg # post))"
  using assms
proof (induction pre)
  case Nil
  have "format_one False arg (''%s'' @ rest) = rbind (format_one True arg rest) (\<lambda>s. Inr (arg @ s))" for rest
    by simp
  then show ?case
    using format_tail [OF Nil(2), of arg] format_literal [of "'' ''" True arg "join_with '' '' post"]
    by (cases "post = []") (simp_all add: join_with_Cons del: format_one.simps(2))
next
  case (Cons w pre)
  then have w: "CHR ''%'' \<notin> set w" by (simp add: plain_word_def)
  let ?rest = "join_with '' '' (pre @ ''%s'' # post)"
  have "format_one False arg (w @ '' '' @ ?rest) = rbind (format_one False arg ?rest) (\<lambda>s. Inr (w @ '' '' @ s))"
    using format_literal [of "w @ '' ''" False arg ?rest] w by simp
  then show ?case using Cons by (simp add: join_with_Cons)
qed

lemma template_words:
  "ws \<noteq> [] \<Longrightarrow> foldl (\<lambda>cmd arg. cmd @ '' '' @ arg) (join_with '' '' ws) args = join_with '' '' (ws @ args)"
proof (induction args arbitrary: ws)
  case Nil
  then show ?case by simp
next
  case (Cons a args)
  have "join_with '' '' ws @ '' '' @ a = join_with '' '' (ws @ [a])"
    using Cons.prems by (induction "'' ''" ws rule: join_with.induct) simp_all
  then show ?case using Cons.IH [of "ws @ [a]"] by simp
qed

lemma space_in_join: "length ws \<ge> 2 \<Longrightarrow> CHR '' '' \<in> set (join_with '' '' ws)"
  by (induction "'' ''" ws rule: join_with.induct) auto

lemma template_not_default:
  assumes "pre @ post \<noteq> []"
  shows "join_with '' '' (pre @ ''%s'' # post) \<noteq> ''%s''"
proof -
  have "length (pre @ ''%s'' # post) \<ge> 2" using assms by (cases pre; cases post) simp_all
  then have "CHR '' '' \<in> set (join_with '' '' (pre @ ''%s'' # post))" by (rule space_in_join)
  moreover have "CHR '' '' \<notin> set ''%s''" by simp
  ultimately show ?thesis by metis
qed

text \<open>With a command template the program runs exactly where the template has \<open>%s\<close>: the words of the
  template before it, the path of the program, then the arguments, each word as it was given, also when
  the path has backslashes in it.\<close>

theorem template_command_line:
  assumes find: "prog_of (strip_cc program_string) = Inr obj"
    and words: "list_all plain_word pre" "list_all plain_word args" "bare (pg_node obj)"
    and more: "pre @ args \<noteq> []"
  shows "get_run_program prog_of program_string
           (Some (get_command_template (Some (join_with '' '' (pre @ [''%s'']))) args))
         = Inr (strip_cc program_string, pre @ pg_node obj # args)"
proof -
  have "join_with '' '' (pre @ [''%s'']) \<noteq> []" by (cases pre) (simp_all add: join_with_Cons)
  then have tmpl: "get_command_template (Some (join_with '' '' (pre @ [''%s'']))) args
      = join_with '' '' (pre @ ''%s'' # args)"
    using template_words [of "pre @ [''%s'']" args] by (simp add: get_command_template_def)
  have "list_all bare (pre @ pg_node obj # args)"
    using words by (auto simp: list_all_iff plain_word_def)
  then have "shlex_split (double_backslashes (join_with '' '' (pre @ pg_node obj # args)))
      = Inr (pre @ pg_node obj # args)"
    by (rule shlex_bare_words)
  then show ?thesis
    using find template_not_default [OF more] format_words [OF words(1,2), of "pg_node obj"]
    by (simp add: get_run_program_def tmpl lift_py_def)
qed

definition sample_program :: program where
  "sample_program = \<lparr> pg_name = ''first'', pg_is_program = True, pg_path = ''/w/ns'', pg_bld = ''/w/ns/build'',
     pg_node = ''/w'' @ [backslash] @ ''first'' \<rparr>"

theorem template_command_line_witness:
  "get_run_program (\<lambda>_. Inr sample_program) ''first.cc''
     (Some (get_command_template (Some ''strace -f %s'') [''--a=1'']))
   = Inr (''first'', [''strace'', ''-f'', ''/w'' @ [backslash] @ ''first'', ''--a=1''])"
proof -
  have 1: "list_all plain_word [''strace'', ''-f'']" "list_all plain_word [''--a=1'']" "bare (pg_node sample_program)"
    by code_simp+
  have "strip_cc ''first.cc'' = ''first''" by code_simp
  then show ?thesis
    using template_command_line [OF _ 1, of "\<lambda>_. Inr sample_program" "''first.cc''"]
    by (simp add: sample_program_def)
qed

lemma leak_error_False: "leak_error s = False"
proof -
  have "\<not> contains_str ''== LEAK SUMMARY'' [c]" for c by (simp add: startswith_def)
  then show ?thesis by (simp add: leak_error_def items_of_text_def list_ex_iff del: contains_str.simps)
qed

text \<open>The leak summary of valgrind is never noticed: the scan of the error output goes through its
  characters and not its lines, so a process that leaks but exits with zero counts as a success whatever
  valgrind wrote.\<close>

theorem leak_summary_ignored:
  assumes valgrind: "set_valgrind rs" "\<not> has_template rs" "\<not> set_gdb rs" "VALGRIND env = v # vs"
    and start: "start \<lparr> la_argv = v # valgrind_flags @ argv, la_env = proc_env, la_cwd = cwd, la_pipe_stderr = True \<rparr>
      = Inr (0, stderrdata)"
  shows "run_argv sigs start rs env proc_env False cwd argv = Inr 0"
  using assms by (simp add: run_argv_def leak_error_False check_retval_def)

definition leaky_start :: start_command where
  "leaky_start _ = Inr (0, ''==42== LEAK SUMMARY:'')"

definition sample_settings :: run_settings where
  "sample_settings = \<lparr> set_valgrind = True, set_gdb = False, set_command_template = None, set_cwd_launch = None,
     base_cwd_launch = ''/w'' \<rparr>"

definition sample_env :: build_env where
  "sample_env = \<lparr> NS3_MODULE_PATH = [], NS3_EXECUTABLE_PATH = [], VALGRIND = [''/usr/bin/valgrind''],
     PYTHON = [''/usr/bin/python''], pymoddir = ''m'', pyvizdir = ''v'' \<rparr>"

theorem leak_summary_ignored_witness:
  "contains_str ''== LEAK SUMMARY'' ''==42== LEAK SUMMARY:''
   \<and> run_argv [] leaky_start sample_settings sample_env [] False None [''prog''] = Inr 0"
proof
  show "contains_str ''== LEAK SUMMARY'' ''==42== LEAK SUMMARY:''" by code_simp
  show "run_argv [] leaky_start sample_settings sample_env [] False None [''prog''] = Inr 0"
    by (rule leak_summary_ignored [where stderrdata = "''==42== LEAK SUMMARY:''"])
      (auto simp: sample_settings_def sample_env_def has_template_def leaky_start_def)
qed

lemma check_retval_ok: "check_retval sigs argv retval = Inr r \<longleftrightarrow> retval = 0 \<and> r = 0"
  by (auto simp: check_retval_def split: option.splits)

text \<open>Outside the debugger a program run either returns zero, and then a process was started and
  exited with zero, or raises: no nonzero code is ever returned to the caller, and nothing is returned
  under the conflicting options \<open>--valgrind\<close> and \<open>--command-template\<close>.\<close>

theorem run_argv_returns_zero:
  assumes "run_argv sigs start rs env proc_env force cwd argv = Inr r" "\<not> set_gdb rs"
  shows "r = 0
    \<and> \<not> (set_valgrind rs \<and> has_template rs)
    \<and> (\<exists>l out. start l = Inr (0, out) \<and> la_env l = proc_env \<and> la_cwd l = cwd
         \<and> la_argv l = (if set_valgrind rs \<and> \<not> force then hd (VALGRIND env) # valgrind_flags @ argv else argv))"
proof (cases "set_valgrind rs \<and> \<not> force")
  case True
  then obtain v vs where v: "VALGRIND env = v # vs" and nt: "\<not> has_template rs"
    using assms by (auto simp: run_argv_def split: if_splits list.splits)
  let ?l = "\<lparr> la_argv = v # valgrind_flags @ argv, la_env = proc_env, la_cwd = cwd, la_pipe_stderr = True \<rparr>"
  obtain code out where st: "start ?l = Inr (code, out)"
    and chk: "check_retval sigs (v # valgrind_flags @ argv) code = Inr r"
    using assms True v nt by (auto simp: run_argv_def rbind_eq_Inr leak_error_False Let_def)
  have r: "r = 0" "code = 0" using chk check_retval_ok by blast+
  have "start ?l = Inr (0, out) \<and> la_env ?l = proc_env \<and> la_cwd ?l = cwd \<and> la_argv ?l = hd (VALGRIND env) # valgrind_flags @ argv"
    using st r v by simp
  then show ?thesis using True nt r(1) by metis
next
  case False
  let ?l = "\<lparr> la_argv = argv, la_env = proc_env, la_cwd = cwd, la_pipe_stderr = False \<rparr>"
  have nt: "\<not> (set_valgrind rs \<and> has_template rs)" using assms by (auto simp: run_argv_def split: if_splits)
  obtain code out where st: "start ?l = Inr (code, out)" and chk: "check_retval sigs argv code = Inr r"
    using assms False nt by (auto simp: run_argv_def rbind_eq_Inr)
  have r: "r = 0" "code = 0" using chk check_retval_ok by blast+
  have "start ?l = Inr (0, out) \<and> la_env ?l = proc_env \<and> la_cwd ?l = cwd \<and> la_argv ?l = argv"
    using st r by simp
  then show ?thesis using False nt r(1) by metis
qed

definition strict_start :: start_command where
  "strict_start l = (if la_argv l = [''prog''] then Inr (0, []) else Inl (Not_Started (la_argv l)))"

theorem run_argv_returns_zero_witness:
  "\<exists>l out. strict_start l = Inr (0, out) \<and> la_cwd l = Some ''/w'' \<and> la_argv l = [''prog'']"
proof -
  let ?rs = "sample_settings \<lparr> set_valgrind := False \<rparr>"
  have "run_argv [] strict_start ?rs sample_env [] False (Some ''/w'') [''prog''] = Inr 0" "\<not> set_gdb ?rs"
    by (simp_all add: run_argv_def sample_settings_def check_retval_def strict_start_def)
  from run_argv_returns_zero [OF this] obtain l out
    where "strict_start l = Inr (0, out)" "la_cwd l = Some ''/w''" "la_argv l = [''prog'']"
    by (auto simp: sample_settings_def)
  then show ?thesis by blast
qed

lemma uniquify_loop_set: "set (uniquify_loop seen xs) = set xs - set seen"
  by (induction xs arbitrary: seen) auto

lemma uniquify_list_distinct: "distinct (uniquify_list xs) \<and> set (uniquify_list xs) = set xs"
proof -
  have "distinct (uniquify_loop seen xs)" for seen
    by (induction xs arbitrary: seen) (simp_all add: uniquify_loop_set)
  then show ?thesis by (simp add: uniquify_list_def uniquify_loop_set)
qed

end
