(* ===== verification/Cflags.thy ===== *)
theory Cflags
  imports Py_Prelude
begin

text \<open>
  \<open>waf-tools/cflags.py\<close>: the compiler flags of a build profile.  The configuration set of waf is a
  parameter: \<open>configure\<close> reads variables of it with a function and its effect on it is the list of
  \<open>append_value\<close> calls it makes, in their order.
\<close>

section \<open>Compiler traits\<close>

datatype compiler = Gcc | Icc | Msvc

fun warnings_table :: "compiler \<Rightarrow> string list list" where
  "warnings_table Gcc = [[''-Wall''], [''-Werror''], [''-Wextra'']]"
| "warnings_table Icc = [[], [], [''-Wall'']]"
| "warnings_table Msvc = [[''/W2''], [''/WX''], [''/Wall'']]"

text \<open>The loop \<open>for l in range(level)\<close>, which stops at the end of the table.\<close>

fun warnings_loop :: "string list list \<Rightarrow> nat \<Rightarrow> nat \<Rightarrow> string list \<Rightarrow> string list" where
  "warnings_loop table l 0 warnings = warnings"
| "warnings_loop table l (Suc n) warnings =
     (if l < length table then warnings_loop table (l + 1) n (warnings @ table ! l) else warnings)"

definition get_warnings_flags :: "compiler \<Rightarrow> int \<Rightarrow> string list" where
  "get_warnings_flags c level = warnings_loop (warnings_table c) 0 (nat level) []"

text \<open>The methods fall off their end for other levels, which gives \<open>None\<close>.\<close>

definition get_optimization_flags :: "compiler \<Rightarrow> int \<Rightarrow> string list option" where
  "get_optimization_flags c level =
     (if level = 0 then Some (case c of Msvc \<Rightarrow> [''/Od''] | _ \<Rightarrow> [''-O0''])
      else if level = 1 then Some (case c of Msvc \<Rightarrow> [] | _ \<Rightarrow> [''-O''])
      else if level = 2 then Some (case c of Msvc \<Rightarrow> [''/O2''] | _ \<Rightarrow> [''-O2''])
      else if level = 3 then Some (case c of Msvc \<Rightarrow> [''/Ox''] | _ \<Rightarrow> [''-O3''])
      else None)"

definition get_debug_flags :: "compiler \<Rightarrow> int \<Rightarrow> (string list \<times> string list) option" where
  "get_debug_flags c level =
     (if level = 0 then Some (case c of Msvc \<Rightarrow> [] | _ \<Rightarrow> [''-g0''], [''NDEBUG''])
      else if level = 1 then Some (case c of Msvc \<Rightarrow> [''/ZI'', ''/RTC1''] | _ \<Rightarrow> [''-g''], [])
      else if level \<ge> 2 then Some (case c of Msvc \<Rightarrow> [''/ZI'', ''/RTC1''] | _ \<Rightarrow> [''-ggdb'', ''-g3''], [''_DEBUG''])
      else None)"

section \<open>Profiles\<close>

definition compiler_mapping :: "(string, compiler) dict" where
  "compiler_mapping =
     [(''gcc'', Gcc), (''g++'', Gcc), (''msvc'', Msvc), (''icc'', Icc), (''icpc'', Icc), (''clang'', Gcc), (''clang++'', Gcc)]"

text \<open>Profile name: optimisation level, warnings level, debug level.\<close>

definition profiles :: "(string, int \<times> int \<times> int) dict" where
  "profiles = [(''default'', 2, 1, 1), (''debug'', 0, 2, 3), (''release'', 3, 1, 0)]"

definition default_profile :: string where
  "default_profile = ''default''"

section \<open>The configuration step\<close>

record cflags_options =
  build_profile :: string
  disable_werror :: bool

text \<open>A value appended to a variable; \<open>None\<close> is passed on as the code passes it.\<close>

type_synonym append_call = "string \<times> string list option"

definition find_compiler :: "string option \<Rightarrow> string option \<Rightarrow> compiler option" where
  "find_compiler cc cxx =
     (case (case cc of None \<Rightarrow> None | Some n \<Rightarrow> dict_get compiler_mapping n) of
        Some c \<Rightarrow> Some c
      | None \<Rightarrow> (case cxx of None \<Rightarrow> None | Some n \<Rightarrow> dict_get compiler_mapping n))"

definition flag_calls :: "string \<Rightarrow> string \<Rightarrow> string list option \<Rightarrow> string list \<Rightarrow> string list \<Rightarrow> string list
    \<Rightarrow> append_call list" where
  "flag_calls flags defines optimizations debug warnings debug_defs =
     [(flags, optimizations), (flags, Some debug), (flags, Some warnings), (defines, Some debug_defs)]"

definition configure :: "cflags_options \<Rightarrow> string option \<Rightarrow> string option \<Rightarrow> (string \<Rightarrow> string list)
    \<Rightarrow> append_call list result" where
  "configure opts cc cxx env =
     (if cc = None \<and> cxx = None then Inl (OtherError ''WafError'')
      else case find_compiler cc cxx of
        None \<Rightarrow> Inr []
      | Some compiler \<Rightarrow>
          (case dict_get profiles (build_profile opts) of
             None \<Rightarrow> Inl KeyError
           | Some (opt_level, warn_level, dbg_level) \<Rightarrow>
               (case get_debug_flags compiler dbg_level of
                  None \<Rightarrow> Inl TypeError
                | Some (debug, debug_defs) \<Rightarrow>
                    let optimizations = get_optimization_flags compiler opt_level;
                        warnings0 = get_warnings_flags compiler warn_level;
                        warnings = (if disable_werror opts then remove1 ''-Werror'' warnings0 else warnings0)
                    in Inr ((if cc \<noteq> None \<and> env ''CCFLAGS'' = []
                             then flag_calls ''CCFLAGS'' ''CCDEFINES'' optimizations debug warnings debug_defs else [])
                          @ (if cxx \<noteq> None \<and> env ''CXXFLAGS'' = []
                             then flag_calls ''CXXFLAGS'' ''CXXDEFINES'' optimizations debug warnings debug_defs else [])))))"

section \<open>Properties\<close>

lemma warnings_loop_take:
  "warnings_loop table l n ws = ws @ concat (take n (drop l table))"
  by (induction table l n ws rule: warnings_loop.induct) (auto simp: Cons_nth_drop_Suc [symmetric])

lemma get_warnings_flags_take: "get_warnings_flags c level = concat (take (nat level) (warnings_table c))"
  by (simp add: get_warnings_flags_def warnings_loop_take)

lemma warnings_cumulative:
  "l \<le> m \<Longrightarrow> \<exists>more. get_warnings_flags c m = get_warnings_flags c l @ more"
proof -
  assume "l \<le> m"
  then have "take (nat m) (warnings_table c) = take (nat l) (warnings_table c) @ take (nat m - nat l) (drop (nat l) (warnings_table c))"
    by (metis le_add_diff_inverse nat_mono take_add)
  then show ?thesis by (simp add: get_warnings_flags_take)
qed

lemma no_second_werror: "''-Werror'' \<notin> set (remove1 ''-Werror'' (get_warnings_flags c level))"
proof -
  have "distinct (concat (warnings_table c))" by (cases c) simp_all
  moreover have "concat (warnings_table c) = get_warnings_flags c level @ concat (drop (nat level) (warnings_table c))"
    unfolding get_warnings_flags_take by (metis append_take_drop_id concat_append)
  ultimately have "distinct (get_warnings_flags c level)" by (metis distinct_append)
  then show ?thesis by simp
qed

text \<open>The configuration step leaves the variables alone that the user has set: it appends flags of a
  language exactly when its compiler is named and its flags are empty, every appended value is a list
  (no level of a profile falls off the end of a table), and with \<open>--disable-werror\<close> no \<open>-Werror\<close> is
  among them.\<close>

theorem configure_flags:
  assumes ok: "configure opts cc cxx env = Inr calls"
  shows "(\<forall>(var, value) \<in> set calls. value \<noteq> None
            \<and> (var \<in> {''CCFLAGS'', ''CCDEFINES''} \<and> cc \<noteq> None \<and> env ''CCFLAGS'' = []
               \<or> var \<in> {''CXXFLAGS'', ''CXXDEFINES''} \<and> cxx \<noteq> None \<and> env ''CXXFLAGS'' = [])
            \<and> (disable_werror opts \<longrightarrow> ''-Werror'' \<notin> set (the value)))
    \<and> (calls = [] \<longleftrightarrow> find_compiler cc cxx = None
          \<or> (cc = None \<or> env ''CCFLAGS'' \<noteq> []) \<and> (cxx = None \<or> env ''CXXFLAGS'' \<noteq> []))"
proof (cases "find_compiler cc cxx")
  case None
  then show ?thesis using ok by (auto simp: configure_def split: if_splits)
next
  case (Some c)
  obtain ol wl dl where prof: "dict_get profiles (build_profile opts) = Some (ol, wl, dl)"
    using ok Some by (auto simp: configure_def split: if_splits option.splits)
  obtain dbg defs where dbg: "get_debug_flags c dl = Some (dbg, defs)"
    using ok Some prof by (auto simp: configure_def split: if_splits option.splits)
  let ?w = "if disable_werror opts then remove1 ''-Werror'' (get_warnings_flags c wl) else get_warnings_flags c wl"
  have calls: "calls =
      (if cc \<noteq> None \<and> env ''CCFLAGS'' = []
         then flag_calls ''CCFLAGS'' ''CCDEFINES'' (get_optimization_flags c ol) dbg ?w defs else [])
    @ (if cxx \<noteq> None \<and> env ''CXXFLAGS'' = []
         then flag_calls ''CXXFLAGS'' ''CXXDEFINES'' (get_optimization_flags c ol) dbg ?w defs else [])"
    using ok Some prof dbg by (auto simp: configure_def Let_def split: if_splits)
  have ol: "ol \<in> {0, 2, 3}" using prof by (auto simp: profiles_def split: if_splits)
  then obtain opt where opt: "get_optimization_flags c ol = Some opt" "''-Werror'' \<notin> set opt"
    by (cases c) (auto simp: get_optimization_flags_def)
  have dbg_ok: "''-Werror'' \<notin> set dbg" "''-Werror'' \<notin> set defs"
    using dbg by (cases c; auto simp: get_debug_flags_def split: if_splits)+
  show ?thesis
    using Some opt dbg_ok no_second_werror [of c wl] unfolding calls
    by (auto simp: flag_calls_def)
qed

theorem configure_flags_witness:
  "\<exists>calls. configure \<lparr> build_profile = ''debug'', disable_werror = True \<rparr> (Some ''gcc'') (Some ''g++'')
       (\<lambda>v. if v = ''CCFLAGS'' then [''-O1''] else []) = Inr calls
     \<and> calls \<noteq> [] \<and> list_all (\<lambda>(var, value). var \<in> {''CXXFLAGS'', ''CXXDEFINES''} \<and> ''-Werror'' \<notin> set (the value)) calls"
proof -
  let ?o = "\<lparr> build_profile = ''debug'', disable_werror = True \<rparr>"
  let ?env = "\<lambda>v. if v = ''CCFLAGS'' then [''-O1''] else [] :: string list"
  let ?calls = "flag_calls ''CXXFLAGS'' ''CXXDEFINES'' (Some [''-O0'']) [''-ggdb'', ''-g3''] [''-Wall''] [''_DEBUG'']"
  have run: "configure ?o (Some ''gcc'') (Some ''g++'') ?env = Inr ?calls" by code_simp
  from configure_flags [OF this] have "list_all (\<lambda>(var, value). var \<in> {''CXXFLAGS'', ''CXXDEFINES''} \<and> ''-Werror'' \<notin> set (the value)) ?calls"
    unfolding list_all_iff by auto
  then show ?thesis using run by (intro exI [of _ ?calls]) (simp add: flag_calls_def)
qed

text \<open>
  The same option keeps the flag of \<open>msvc\<close> that makes warnings errors, and the flags of the C compiler are
  used for a C++ compiler of another kind.
\<close>

lemma disable_werror_keeps_msvc:
  "configure \<lparr> build_profile = ''debug'', disable_werror = True \<rparr> (Some ''msvc'') None (\<lambda>v. [])
   = Inr (flag_calls ''CCFLAGS'' ''CCDEFINES'' (Some [''/Od'']) [''/ZI'', ''/RTC1''] [''/W2'', ''/WX''] [''_DEBUG''])"
  by code_simp

lemma mixed_compilers_share_flags:
  "configure \<lparr> build_profile = ''release'', disable_werror = False \<rparr> (Some ''gcc'') (Some ''msvc'') (\<lambda>v. [])
   = Inr (flag_calls ''CCFLAGS'' ''CCDEFINES'' (Some [''-O3'']) [''-g0''] [''-Wall''] [''NDEBUG'']
        @ flag_calls ''CXXFLAGS'' ''CXXDEFINES'' (Some [''-O3'']) [''-g0''] [''-Wall''] [''NDEBUG''])"
  by code_simp

end
