(* ===== verification/Version_Tags.thy ===== *)
theory Version_Tags
  imports Py_Regex Py_Handler
begin

text \<open>
  The version tags of \<open>waf-tools/versioning.py\<close>: what \<open>git describe\<close> prints is cut into fields, the task writes
  the fields to the cache file and to the environment of the build, and \<open>configure\<close> chooses between the
  repository and a cache.  The git commands, the files and the options are parameters; strings are ASCII.
\<close>

section \<open>Fields of a tag\<close>

text \<open>\<open>ns-(\d+)\.(\d+)(?:.(\d+))?(?:-(RC.+))?.*\<close>: what follows the second number is optional, so that the
  greedy choice of each number is the one that is taken.  A dot matches every character but the end of a
  line, in the third group too.\<close>

definition any_char :: "char \<Rightarrow> bool" where
  "any_char c \<longleftrightarrow> c \<noteq> CHR 0x0A"

definition match_patch :: "string \<Rightarrow> string \<times> string" where
  "match_patch s =
     (case s of
        [] \<Rightarrow> ([], s)
      | c # r \<Rightarrow> (if any_char c then (case match_digits r of None \<Rightarrow> ([], s) | Some (p, r') \<Rightarrow> (p, r')) else ([], s)))"

definition match_candidate :: "string \<Rightarrow> string" where
  "match_candidate s =
     (case match_lit ''-RC'' s of
        None \<Rightarrow> []
      | Some r \<Rightarrow> (case match_run any_char r of None \<Rightarrow> [] | Some (w, _) \<Rightarrow> ''RC'' @ w))"

definition match_version :: "string \<Rightarrow> (string \<times> string \<times> string \<times> string) option" where
  "match_version s =
     Option.bind (match_lit ''ns-'' s) (\<lambda>s1. Option.bind (match_digits s1) (\<lambda>(major, s2).
     Option.bind (match_lit ''.'' s2) (\<lambda>s3. Option.bind (match_digits s3) (\<lambda>(minor, s4).
     (case match_patch s4 of (patch, s5) \<Rightarrow> Some (major, minor, patch, match_candidate s5))))))"

type_synonym fields = "(string, string) dict"

definition in_quotes :: "string \<Rightarrow> string" where
  "in_quotes s = quote @ s @ quote"

text \<open>\<open>_parse_version_tag\<close>: its result, and the fields.\<close>

definition parse_version_tag :: "string \<Rightarrow> fields \<Rightarrow> fields \<times> bool" where
  "parse_version_tag tag fs =
     (let safe_tag = strip tag
      in (case match_version safe_tag of
            None \<Rightarrow> (fs, False)
          | Some (major, minor, patch, rc) \<Rightarrow>
              (dict_set (dict_set (dict_set (dict_set (dict_set fs
                 ''VERSION_TAG'' (in_quotes safe_tag)) ''VERSION_MAJOR'' major) ''VERSION_MINOR'' minor)
                 ''VERSION_PATCH'' (if patch = [] then ''0'' else patch))
                 ''VERSION_RELEASE_CANDIDATE'' (in_quotes rc), True)))"

section \<open>The closest tag\<close>

text \<open>\<open>(.+)-(\d+)-(g[a-fA-F0-9]+)(?:-(dirty))?\<close>: the first group is the longest one that leaves a match for
  the others.\<close>

definition is_hex :: "char \<Rightarrow> bool" where
  "is_hex c \<longleftrightarrow> (let n = of_char c :: nat in 97 \<le> n \<and> n \<le> 102 \<or> 65 \<le> n \<and> n \<le> 70 \<or> 48 \<le> n \<and> n \<le> 57)"

definition match_distance :: "string \<Rightarrow> (string \<times> string \<times> bool) option" where
  "match_distance s =
     Option.bind (match_lit ''-'' s) (\<lambda>s1. Option.bind (match_digits s1) (\<lambda>(n, s2).
     Option.bind (match_lit ''-g'' s2) (\<lambda>s3. Option.bind (match_run is_hex s3) (\<lambda>(h, s4).
     Some (n, CHR ''g'' # h, startswith s4 ''-dirty'')))))"

fun longest_tag :: "nat \<Rightarrow> string \<Rightarrow> (string \<times> string \<times> string \<times> bool) option" where
  "longest_tag 0 s = None"
| "longest_tag (Suc k) s =
     (case match_distance (drop (Suc k) s) of
        Some (n, h, d) \<Rightarrow> Some (take (Suc k) s, n, h, d)
      | None \<Rightarrow> longest_tag k s)"

definition match_describe :: "string \<Rightarrow> (string \<times> string \<times> string \<times> bool) option" where
  "match_describe out = longest_tag (length (takeWhile any_char out)) out"

text \<open>The two commands, \<open>git describe --tags --dirty --long\<close> and \<open>git describe --tags --abbrev=0 --match ns-3* HEAD\<close>;
  an exception of theirs is raised again with the text of the error output.\<close>

record git =
  git_describe :: "string result"
  git_ns3_tag :: "string result"

definition find_closest_tag :: "git \<Rightarrow> (fields, unit) handler" where
  "find_closest_tag g =
     hbind (hread (\<lambda>_. git_describe g)) (\<lambda>out.
       (case match_describe out of
          None \<Rightarrow> hread (\<lambda>_. Inl ValueError)
        | Some (tag, distance, commit, dirty) \<Rightarrow>
            hseq (hset (\<lambda>fs. dict_set fs ''CLOSEST_TAG'' (in_quotes tag)))
           (hseq (hset (\<lambda>fs. dict_set fs ''VERSION_TAG_DISTANCE'' distance))
           (hseq (hset (\<lambda>fs. dict_set fs ''VERSION_COMMIT_HASH'' (in_quotes commit)))
           (hseq (hset (\<lambda>fs. dict_set fs ''VERSION_DIRTY_FLAG'' (if dirty then ''1'' else ''0'')))
                 (hset (\<lambda>fs. fst (parse_version_tag tag fs))))))))"

definition find_closest_ns3_tag :: "git \<Rightarrow> (fields, unit) handler" where
  "find_closest_ns3_tag g =
     hbind (hread (\<lambda>_. git_ns3_tag g)) (\<lambda>out fs.
       (case parse_version_tag (strip out) fs of
          (fs', ok) \<Rightarrow> (fs', if ok then Inr () else Inl ValueError)))"

section \<open>The task\<close>

text \<open>The environment of the build, with the values that this module stores in it, and the cache file.\<close>

datatype env_value = Env_flag bool | Env_text string

type_synonym env_values = "(string, env_value) dict"

record version_state =
  vs_fields :: fields
  vs_cache :: "fields option"
  vs_env :: env_values

definition on_fields :: "(fields, 'a) handler \<Rightarrow> (version_state, 'a) handler" where
  "on_fields m s = (case m (vs_fields s) of (fs, r) \<Rightarrow> (s \<lparr> vs_fields := fs \<rparr>, r))"

definition update_env :: "fields \<Rightarrow> env_values \<Rightarrow> env_values" where
  "update_env fs env = foldl (\<lambda>e (k, v). dict_set e k (Env_text v)) env fs"

text \<open>\<open>run\<close>: \<open>store\<close> is the outcome of writing the cache file.\<close>

definition find_and_store :: "unit result \<Rightarrow> git \<Rightarrow> (version_state, unit) handler" where
  "find_and_store stored g =
     hseq (on_fields (find_closest_tag g))
    (hseq (\<lambda>s. if ''VERSION_TAG'' \<in> set (dict_keys (vs_fields s)) then (s, Inr ())
               else on_fields (find_closest_ns3_tag g) s)
    (hseq (hread (\<lambda>_. stored))
    (hseq (hset (\<lambda>s. s \<lparr> vs_cache := Some (vs_fields s) \<rparr>))
          (hset (\<lambda>s. s \<lparr> vs_env := update_env (vs_fields s) (vs_env s) \<rparr>)))))"

definition run_version_task :: "unit result \<Rightarrow> git \<Rightarrow> version_state \<Rightarrow> version_state \<times> int" where
  "run_version_task stored g s =
     (case find_and_store stored g s of (s', Inl e) \<Rightarrow> (s', 1) | (s', Inr _) \<Rightarrow> (s', 0))"

definition new_task :: "env_values \<Rightarrow> version_state" where
  "new_task env = \<lparr> vs_fields = [], vs_cache = None, vs_env = env \<rparr>"

text \<open>The tasks of \<open>generate_version_defines\<close>, in the order in which they run.\<close>

datatype version_task = Subst | Git_ns3_version_info

definition generate_version_defines :: "env_values \<Rightarrow> version_task list" where
  "generate_version_defines env =
     (if dict_get env ''HAVE_NS3_REPO'' = Some (Env_flag True) then [Git_ns3_version_info, Subst] else [Subst])"

section \<open>Configuration\<close>

text \<open>The two checks: the output of a command that succeeds and is not empty.\<close>

definition check_output :: "string result \<Rightarrow> bool" where
  "check_output r = (case r of Inl _ \<Rightarrow> False | Inr out \<Rightarrow> strip out \<noteq> [])"

definition check_git_repo :: "unit result \<Rightarrow> string result \<Rightarrow> bool" where
  "check_git_repo find_program toplevel = check_output (rbind find_program (\<lambda>_. toplevel))"

definition check_git_repo_has_ns3_tags :: "string result \<Rightarrow> bool" where
  "check_git_repo_has_ns3_tags tag = check_output tag"

text \<open>\<open>configure\<close>; \<open>caches\<close> are the contents of the cache files that the search finds, or the exception of loading.\<close>

definition configuration_error :: py_exn where
  "configuration_error = OtherError ''ConfigurationError''"

definition configure_version ::
    "bool \<Rightarrow> unit result \<Rightarrow> string result \<Rightarrow> string result \<Rightarrow> fields result list \<Rightarrow> (env_values, unit) handler" where
  "configure_version enable_build_version find_program toplevel ns3_tag caches =
     (if \<not> enable_build_version then hreturn ()
      else
        let has_git_repo = check_git_repo find_program toplevel;
            has_ns3_tags = has_git_repo \<and> check_git_repo_has_ns3_tags ns3_tag
        in hseq (hset (\<lambda>e. dict_set e ''HAVE_GIT_REPO'' (Env_flag has_git_repo)))
          (hseq (hset (\<lambda>e. dict_set e ''HAVE_NS3_REPO'' (Env_flag has_ns3_tags)))
             (if has_ns3_tags then hreturn ()
              else (case caches of
                      [] \<Rightarrow> hread (\<lambda>_. Inl configuration_error)
                    | c # _ \<Rightarrow> hbind (hread (\<lambda>_. c)) (\<lambda>fs. hset (update_env fs))))))"

section \<open>Round trips\<close>

definition digits :: "string \<Rightarrow> bool" where
  "digits s \<longleftrightarrow> s \<noteq> [] \<and> list_all is_digit s"

definition version_text :: "string \<Rightarrow> string \<Rightarrow> string option \<Rightarrow> string option \<Rightarrow> string" where
  "version_text major minor patch rc =
     ''ns-'' @ major @ ''.'' @ minor @ (case patch of None \<Rightarrow> [] | Some p \<Rightarrow> ''.'' @ p)
     @ (case rc of None \<Rightarrow> [] | Some r \<Rightarrow> ''-RC'' @ r)"

definition describe_text :: "string \<Rightarrow> string \<Rightarrow> string \<Rightarrow> bool \<Rightarrow> string" where
  "describe_text tag n h dirty = tag @ ''-'' @ n @ ''-g'' @ h @ (if dirty then ''-dirty'' else []) @ newline"

lemma match_candidate_rc:
  "list_all any_char r \<Longrightarrow> r \<noteq> [] \<Longrightarrow> match_candidate (''-RC'' @ r) = ''RC'' @ r"
  unfolding match_candidate_def match_lit_app by (simp add: match_run_whole)

lemma match_version_text:
  assumes "digits major" "digits minor" "pred_option digits patch" "pred_option (\<lambda>r. r \<noteq> [] \<and> list_all any_char r) rc"
  shows "match_version (version_text major minor patch rc)
    = Some (major, minor, case patch of None \<Rightarrow> [] | Some p \<Rightarrow> p, case rc of None \<Rightarrow> [] | Some r \<Rightarrow> ''RC'' @ r)"
proof -
  define t where "t = (case rc of None \<Rightarrow> [] | Some r \<Rightarrow> ''-RC'' @ r)"
  define u where "u = (case patch of None \<Rightarrow> [] | Some p \<Rightarrow> ''.'' @ p) @ t"
  have t: "t = [] \<or> \<not> is_digit (hd t)" "match_candidate t = (case rc of None \<Rightarrow> [] | Some r \<Rightarrow> ''RC'' @ r)"
    "match_patch t = ([], t)"
  proof -
    show "t = [] \<or> \<not> is_digit (hd t)" by (auto simp: t_def is_digit_def split: option.splits)
    show "match_candidate t = (case rc of None \<Rightarrow> [] | Some r \<Rightarrow> ''RC'' @ r)"
      using match_candidate_rc assms(4) by (cases rc) (simp_all add: t_def match_candidate_def)
    show "match_patch t = ([], t)"
      by (cases rc) (simp_all add: t_def match_patch_def match_run_no is_digit_def)
  qed
  have u: "u = [] \<or> \<not> is_digit (hd u)" "match_patch u = (case patch of None \<Rightarrow> [] | Some p \<Rightarrow> p, t)"
  proof -
    show "u = [] \<or> \<not> is_digit (hd u)" using t(1) by (cases patch) (auto simp: u_def is_digit_def)
    show "match_patch u = (case patch of None \<Rightarrow> [] | Some p \<Rightarrow> p, t)"
    proof (cases patch)
      case (Some p)
      then have "match_digits (p @ t) = Some (p, t)" using assms(3) t(1) by (intro match_run_app) (simp_all add: digits_def)
      then show ?thesis using Some by (simp add: u_def match_patch_def any_char_def)
    qed (simp add: u_def t(3))
  qed
  have minor: "match_digits (minor @ u) = Some (minor, u)"
    using assms(2) u(1) by (intro match_run_app) (simp_all add: digits_def)
  have major: "match_digits (major @ ''.'' @ minor @ u) = Some (major, ''.'' @ minor @ u)"
    using assms(1) by (intro match_run_app) (simp_all add: digits_def is_digit_def)
  have "version_text major minor patch rc = ''ns-'' @ major @ ''.'' @ minor @ u"
    by (simp add: version_text_def u_def t_def)
  then show ?thesis using major minor u(2) t(2) unfolding match_version_def by (simp only: match_lit_app bind.bind_lunit prod.case)
qed

text \<open>The tag of a description is found as a whole, also one that itself ends like a description.\<close>

lemma match_distance_text:
  assumes "digits n" "h \<noteq> []" "list_all is_hex h"
  shows "match_distance (''-'' @ n @ ''-g'' @ h @ (if dirty then ''-dirty'' else []) @ newline) = Some (n, CHR ''g'' # h, dirty)"
proof -
  let ?e = "(if dirty then ''-dirty'' else []) @ newline"
  have 1: "match_digits (n @ ''-g'' @ h @ ?e) = Some (n, ''-g'' @ h @ ?e)"
    using assms(1) by (intro match_run_app) (simp_all add: digits_def is_digit_def)
  have 2: "match_run is_hex (h @ ?e) = Some (h, ?e)"
    using assms(2,3) by (intro match_run_app) (simp_all add: is_hex_def Let_def)
  show ?thesis
    unfolding match_distance_def match_lit_app bind.bind_lunit 1 prod.case 2 by (simp add: startswith_def)
qed

text \<open>Inside the distance and the commit no other distance begins.\<close>

fun dash_digit :: "string \<Rightarrow> bool" where
  "dash_digit [] \<longleftrightarrow> False"
| "dash_digit (c # s) \<longleftrightarrow> c = CHR ''-'' \<and> s \<noteq> [] \<and> is_digit (hd s) \<or> dash_digit s"

lemma dash_digit_free: "CHR ''-'' \<notin> set x \<Longrightarrow> dash_digit (x @ y) = dash_digit y"
  by (induction x) auto

lemma dash_digit_drop: "dash_digit (drop k s) \<Longrightarrow> dash_digit s"
  by (induction s arbitrary: k) (auto simp: drop_Cons split: nat.splits)

lemma match_distance_dash: "match_distance s \<noteq> None \<Longrightarrow> dash_digit s"
proof -
  assume some: "match_distance s \<noteq> None"
  then obtain m where m: "match_lit ''-'' s = Some m" by (cases "match_lit ''-'' s") (simp_all add: match_distance_def)
  then have "match_digits m \<noteq> None" using some by (cases "match_digits m") (simp_all add: match_distance_def)
  then show ?thesis using m [unfolded match_lit_eq] by (cases m) (auto simp: match_run_def Let_def split: if_splits)
qed

lemma no_distance_inside:
  assumes "digits n" "list_all is_hex h" "0 < k"
  shows "match_distance (drop k (''-'' @ n @ ''-g'' @ h @ (if dirty then ''-dirty'' else []) @ newline)) = None"
proof -
  have n: "CHR ''-'' \<notin> set n" using assms(1) by (auto simp: digits_def list_all_iff is_digit_def)
  have h: "CHR ''-'' \<notin> set h" using assms(2) by (auto simp: list_all_iff is_hex_def Let_def)
  have "\<not> dash_digit (n @ ''-g'' @ h @ (if dirty then ''-dirty'' else []) @ newline)"
    by (simp add: dash_digit_free [OF n] dash_digit_free [OF h] is_digit_def)
  then have "\<not> dash_digit (drop k (''-'' @ n @ ''-g'' @ h @ (if dirty then ''-dirty'' else []) @ newline))"
  proof -
    obtain j where k: "k = Suc j" using assms(3) by (cases k) auto
    have "drop k (CHR ''-'' # s) = drop j s" for s using k by simp
    then show ?thesis using dash_digit_drop \<open>\<not> dash_digit (n @ _)\<close> by (metis append_Cons append_Nil)
  qed
  then show ?thesis using match_distance_dash by blast
qed

lemma longest_tag_stops:
  "match_distance (drop k s) = Some (n, h, d) \<Longrightarrow> 0 < k \<Longrightarrow> (\<forall>j. k < j \<longrightarrow> j \<le> m \<longrightarrow> match_distance (drop j s) = None)
   \<Longrightarrow> k \<le> m \<Longrightarrow> longest_tag m s = Some (take k s, n, h, d)"
proof (induction m)
  case (Suc m)
  show ?case
  proof (cases "k = Suc m")
    case False
    then have "match_distance (drop (Suc m) s) = None" using Suc.prems(3,4) by simp
    then show ?thesis using Suc False by simp
  qed (use Suc.prems(1) in simp)
qed simp

lemma match_describe_text:
  assumes "tag \<noteq> []" "list_all any_char tag" "digits n" "h \<noteq> []" "list_all is_hex h"
  shows "match_describe (describe_text tag n h dirty) = Some (tag, n, CHR ''g'' # h, dirty)"
proof -
  let ?r = "''-'' @ n @ ''-g'' @ h @ (if dirty then ''-dirty'' else []) @ newline"
  let ?m = "length (takeWhile any_char (tag @ ?r))"
  have m: "length tag \<le> ?m" using assms(2) by (simp add: takeWhile_append2 list_all_iff)
  have "longest_tag ?m (tag @ ?r) = Some (take (length tag) (tag @ ?r), n, CHR ''g'' # h, dirty)"
  proof (rule longest_tag_stops [OF _ _ _ m])
    show "match_distance (drop (length tag) (tag @ ?r)) = Some (n, CHR ''g'' # h, dirty)"
      using match_distance_text [OF assms(3-5)] by simp
    show "\<forall>j. length tag < j \<longrightarrow> j \<le> ?m \<longrightarrow> match_distance (drop j (tag @ ?r)) = None"
    proof (intro allI impI)
      fix j assume "length tag < j"
      then have "match_distance (drop (j - length tag) ?r) = None"
        by (intro no_distance_inside [OF assms(3,5)]) simp
      then show "match_distance (drop j (tag @ ?r)) = None" using \<open>length tag < j\<close> by simp
    qed
  qed (use assms(1) in simp)
  then show ?thesis by (simp add: match_describe_def describe_text_def)
qed

definition version_ok :: "string \<Rightarrow> string \<Rightarrow> string option \<Rightarrow> string option \<Rightarrow> bool" where
  "version_ok major minor patch rc \<longleftrightarrow> digits major \<and> digits minor \<and> pred_option digits patch
     \<and> pred_option (\<lambda>r. r \<noteq> [] \<and> list_all any_char r \<and> \<not> py_space (last r)) rc"

lemma version_text_facts:
  assumes "version_ok major minor patch rc"
  shows "strip (version_text major minor patch rc) = version_text major minor patch rc"
    "list_all any_char (version_text major minor patch rc)" "version_text major minor patch rc \<noteq> []"
proof -
  let ?t = "version_text major minor patch rc"
  have d: "list_all any_char s" if "list_all is_digit s" for s
    using that by (auto simp: list_all_iff is_digit_def any_char_def)
  have l: "\<not> py_space (last s)" if "digits s" for s
    using that digit_not_space by (auto simp: digits_def list_all_iff)
  show "?t \<noteq> []" by (simp add: version_text_def)
  have "\<not> py_space (last ?t)"
    using assms l by (auto simp: version_ok_def version_text_def digits_def last_append split: option.splits)
  moreover have "\<not> py_space (hd ?t)" by (simp add: version_text_def py_space_def)
  ultimately show "strip ?t = ?t" using \<open>?t \<noteq> []\<close> by (intro strip_text)
  show "list_all any_char ?t"
    using assms d by (auto simp: version_ok_def version_text_def digits_def any_char_def split: option.splits)
qed

lemma parse_version_text:
  assumes "version_ok major minor patch rc"
  shows "parse_version_tag (version_text major minor patch rc) fs =
    (dict_set (dict_set (dict_set (dict_set (dict_set fs
       ''VERSION_TAG'' (in_quotes (version_text major minor patch rc))) ''VERSION_MAJOR'' major) ''VERSION_MINOR'' minor)
       ''VERSION_PATCH'' (case patch of None \<Rightarrow> ''0'' | Some p \<Rightarrow> p))
       ''VERSION_RELEASE_CANDIDATE'' (in_quotes (case rc of None \<Rightarrow> [] | Some r \<Rightarrow> ''RC'' @ r)), True)"
proof -
  have "pred_option (\<lambda>r. r \<noteq> [] \<and> list_all any_char r) rc" using assms by (cases rc) (simp_all add: version_ok_def)
  then have "match_version (version_text major minor patch rc)
    = Some (major, minor, case patch of None \<Rightarrow> [] | Some p \<Rightarrow> p, case rc of None \<Rightarrow> [] | Some r \<Rightarrow> ''RC'' @ r)"
    using assms by (intro match_version_text) (simp_all add: version_ok_def)
  moreover have "(if (case patch of None \<Rightarrow> [] | Some p \<Rightarrow> p) = [] then ''0'' else (case patch of None \<Rightarrow> [] | Some p \<Rightarrow> p))
    = (case patch of None \<Rightarrow> ''0'' | Some p \<Rightarrow> p)"
    using assms by (cases patch) (simp_all add: version_ok_def digits_def)
  ultimately show ?thesis using version_text_facts(1) [OF assms] by (simp add: parse_version_tag_def)
qed

section \<open>What the task promises\<close>

text \<open>The fields of a commit that is \<open>n\<close> commits after the tag.\<close>

definition described_fields ::
    "string \<Rightarrow> string \<Rightarrow> string option \<Rightarrow> string option \<Rightarrow> string \<Rightarrow> string \<Rightarrow> bool \<Rightarrow> fields" where
  "described_fields major minor patch rc n h dirty =
     (let tag = version_text major minor patch rc in
     [(''CLOSEST_TAG'', in_quotes tag), (''VERSION_TAG_DISTANCE'', n), (''VERSION_COMMIT_HASH'', in_quotes (CHR ''g'' # h)),
      (''VERSION_DIRTY_FLAG'', if dirty then ''1'' else ''0''), (''VERSION_TAG'', in_quotes tag),
      (''VERSION_MAJOR'', major), (''VERSION_MINOR'', minor),
      (''VERSION_PATCH'', case patch of None \<Rightarrow> ''0'' | Some p \<Rightarrow> p),
      (''VERSION_RELEASE_CANDIDATE'', in_quotes (case rc of None \<Rightarrow> [] | Some r \<Rightarrow> ''RC'' @ r))])"

lemma update_env_get:
  "dict_get (update_env fs env) k = (case dict_get (rev fs) k of Some v \<Rightarrow> Some (Env_text v) | None \<Rightarrow> dict_get env k)"
  unfolding update_env_def by (induction fs rule: rev_induct) (auto split: option.splits)

lemma find_described:
  assumes "version_ok major minor patch rc" "digits n" "h \<noteq> []" "list_all is_hex h"
    and "git_describe g = Inr (describe_text (version_text major minor patch rc) n h dirty)"
  shows "find_closest_tag g [] = (described_fields major minor patch rc n h dirty, Inr ())"
proof -
  note t = version_text_facts [OF assms(1)]
  note m = match_describe_text [OF t(3,2) assms(2-4), of dirty]
  show ?thesis
    by (simp add: find_closest_tag_def assms(5) m parse_version_text [OF assms(1)] described_fields_def Let_def)
qed

text \<open>C28 What git describes is read back: for a commit that is \<open>n\<close> commits after a version tag, the task succeeds,
  and the tag, its numbers, patch (0 when there is none) and release candidate, the distance, the commit and
  the flag of changes are in the cache file and in the environment of the build.\<close>

theorem version_of_description:
  assumes "version_ok major minor patch rc" "digits n" "h \<noteq> []" "list_all is_hex h"
    and "git_describe g = Inr (describe_text (version_text major minor patch rc) n h dirty)"
  shows "\<exists>s. run_version_task (Inr ()) g (new_task env) = (s, 0)
    \<and> vs_cache s = Some (described_fields major minor patch rc n h dirty)
    \<and> (\<forall>k. dict_get (vs_env s) k = (case dict_get (described_fields major minor patch rc n h dirty) k of
              Some v \<Rightarrow> Some (Env_text v) | None \<Rightarrow> dict_get env k))"
proof -
  let ?fs = "described_fields major minor patch rc n h dirty"
  have "distinct (dict_keys ?fs)" by (simp add: described_fields_def Let_def)
  then have rev: "dict_get (rev ?fs) k = dict_get ?fs k" for k 
    using map_of_inject_set [of "rev ?fs" ?fs] by (simp add: rev_map [symmetric])
  have "''VERSION_TAG'' \<in> set (dict_keys ?fs)" by (simp add: described_fields_def Let_def)
  then have "find_and_store (Inr ()) g (new_task env)
      = ((new_task env) \<lparr> vs_fields := ?fs, vs_cache := Some ?fs, vs_env := update_env ?fs env \<rparr>, Inr ())"
    using find_described [OF assms]
    by (simp add: find_and_store_def hseq_def hbind_def hread_def hset_def on_fields_def new_task_def)
  then show ?thesis by (simp add: run_version_task_def update_env_get rev)
qed

definition sample_git :: git where
  "sample_git = \<lparr> git_describe = Inr (''ns-3.35-RC1-12-g0a1b2c-dirty'' @ newline), git_ns3_tag = Inl ValueError \<rparr>"

theorem version_of_description_witness:
  "\<exists>s. run_version_task (Inr ()) sample_git (new_task []) = (s, 0) \<and>
     dict_get (vs_env s) ''VERSION_MINOR'' = Some (Env_text ''35'') \<and>
     dict_get (vs_env s) ''VERSION_PATCH'' = Some (Env_text ''0'') \<and>
     dict_get (vs_env s) ''VERSION_DIRTY_FLAG'' = Some (Env_text ''1'')"
proof -
  have ok: "version_ok ''3'' ''35'' None (Some ''1'')" "digits ''12''" "list_all is_hex ''0a1b2c''"
    by (simp_all add: version_ok_def digits_def is_digit_def any_char_def py_space_def is_hex_def Let_def)
  have "git_describe sample_git = Inr (describe_text (version_text ''3'' ''35'' None (Some ''1'')) ''12'' ''0a1b2c'' True)"
    by (simp add: sample_git_def describe_text_def version_text_def)
  from version_of_description [OF ok(1,2) _ ok(3) this, of "[]"] show ?thesis
    by (auto simp: described_fields_def Let_def)
qed

text \<open>The values that a field can have, whatever git prints.\<close>

definition field_ok :: "string \<Rightarrow> string \<Rightarrow> bool" where
  "field_ok k v \<longleftrightarrow>
     (if k \<in> {''VERSION_MAJOR'', ''VERSION_MINOR'', ''VERSION_PATCH'', ''VERSION_TAG_DISTANCE''} then digits v
      else if k = ''VERSION_DIRTY_FLAG'' then v \<in> {''0'', ''1''}
      else if k = ''VERSION_COMMIT_HASH'' then (\<exists>h. v = in_quotes (CHR ''g'' # h) \<and> h \<noteq> [] \<and> list_all is_hex h)
      else if k = ''VERSION_RELEASE_CANDIDATE'' then (\<exists>w. v = in_quotes w \<and> (w = [] \<or> startswith w ''RC''))
      else k \<in> {''VERSION_TAG'', ''CLOSEST_TAG''} \<and> (\<exists>w. v = in_quotes w))"

definition fields_ok :: "fields \<Rightarrow> bool" where
  "fields_ok fs \<longleftrightarrow> (\<forall>k v. dict_get fs k = Some v \<longrightarrow> field_ok k v)"

lemma fields_ok_set: "fields_ok fs \<Longrightarrow> field_ok k v \<Longrightarrow> fields_ok (dict_set fs k v)"
  by (simp add: fields_ok_def)

lemma match_version_parts:
  assumes "match_version s = Some (major, minor, patch, rc)"
  shows "digits major \<and> digits minor \<and> (patch = [] \<or> digits patch) \<and> (rc = [] \<or> startswith rc ''RC'')"
proof -
  obtain s1 s2 s3 s4 s5 where m: "match_digits s1 = Some (major, s2)" "match_digits s3 = Some (minor, s4)"
      "match_patch s4 = (patch, s5)" "rc = match_candidate s5"
  proof -
    obtain s1 p q where s1: "match_digits s1 = Some p" "match_digits (the (match_lit ''.'' (snd p))) = Some q"
      "(major, minor, patch, rc) = (fst p, fst q, fst (match_patch (snd q)), match_candidate (snd (match_patch (snd q))))"
      using assms by (auto simp: match_version_def bind_eq_Some_conv case_prod_beta)
    show ?thesis
      by (rule that [of s1 "snd p" "the (match_lit ''.'' (snd p))" "snd q" "snd (match_patch (snd q))"]) (use s1 in simp_all)
  qed
  have "patch = [] \<or> digits patch"
    using m(3) by (auto simp: match_patch_def digits_def split: list.splits if_splits option.splits dest!: match_run_SomeD)
  moreover have "rc = [] \<or> startswith rc ''RC''"
    unfolding m(4) match_candidate_def by (auto simp: startswith_def split: option.splits)
  ultimately show ?thesis using m(1,2) by (auto simp: digits_def dest!: match_run_SomeD)
qed

lemma parse_fields_ok: "fields_ok fs \<Longrightarrow> fields_ok (fst (parse_version_tag tag fs))"
  by (auto simp: parse_version_tag_def Let_def field_ok_def digits_def is_digit_def split: option.splits
      intro!: fields_ok_set dest!: match_version_parts)

lemma match_distance_parts:
  "match_distance s = Some (n, c, d) \<Longrightarrow> digits n \<and> (\<exists>h. c = CHR ''g'' # h \<and> h \<noteq> [] \<and> list_all is_hex h)"
  by (auto simp: match_distance_def bind_eq_Some_conv digits_def dest!: match_run_SomeD)

lemma longest_tag_parts:
  "longest_tag k s = Some (t, n, c, d) \<Longrightarrow> digits n \<and> (\<exists>h. c = CHR ''g'' # h \<and> h \<noteq> [] \<and> list_all is_hex h)"
  by (induction k) (auto split: option.splits dest: match_distance_parts)

lemma closest_fields_ok: "preserves fields_ok (find_closest_tag g)"
  unfolding find_closest_tag_def match_describe_def
proof (intro preserves_rules)
  fix out
  show "preserves fields_ok
    (case longest_tag (length (takeWhile any_char out)) out of None \<Rightarrow> hread (\<lambda>_. Inl ValueError)
     | Some (tag, distance, commit, dirty) \<Rightarrow>
         hseq (hset (\<lambda>fs. dict_set fs ''CLOSEST_TAG'' (in_quotes tag)))
           (hseq (hset (\<lambda>fs. dict_set fs ''VERSION_TAG_DISTANCE'' distance))
           (hseq (hset (\<lambda>fs. dict_set fs ''VERSION_COMMIT_HASH'' (in_quotes commit)))
           (hseq (hset (\<lambda>fs. dict_set fs ''VERSION_DIRTY_FLAG'' (if dirty then ''1'' else ''0'')))
                 (hset (\<lambda>fs. fst (parse_version_tag tag fs)))))))"
  proof (cases "longest_tag (length (takeWhile any_char out)) out")
    case (Some p)
    obtain tag n c d where p: "p = (tag, n, c, d)" by (rule prod_cases4)
    note parts = longest_tag_parts [OF Some [unfolded p]]
    show ?thesis
      unfolding Some p option.case prod.case
      by (intro preserves_seq preserves_set fields_ok_set parse_fields_ok) (use parts in \<open>auto simp: field_ok_def\<close>)
  qed (simp add: preserves_read)
qed

lemma ns3_fields_ok: "preserves fields_ok (find_closest_ns3_tag g)"
  unfolding find_closest_ns3_tag_def
proof (rule preserves_bind [OF preserves_read(1)])
  fix out
  show "preserves fields_ok (\<lambda>fs. case parse_version_tag (strip out) fs of (fs', ok) \<Rightarrow> (fs', if ok then Inr () else Inl ValueError))"
    using parse_fields_ok by (auto simp: preserves_def split: prod.splits) (metis fst_conv)
qed

text \<open>A tag never comes without its numbers.\<close>

definition tag_complete :: "fields \<Rightarrow> bool" where
  "tag_complete fs \<longleftrightarrow> (''VERSION_TAG'' \<in> set (dict_keys fs) \<longrightarrow>
     {''VERSION_MAJOR'', ''VERSION_MINOR'', ''VERSION_PATCH'', ''VERSION_RELEASE_CANDIDATE''} \<subseteq> set (dict_keys fs))"

lemma tag_complete_set: "tag_complete fs \<Longrightarrow> k \<noteq> ''VERSION_TAG'' \<Longrightarrow> tag_complete (dict_set fs k v)"
  unfolding tag_complete_def set_keys_set by blast

lemma parse_complete: "tag_complete fs \<Longrightarrow> tag_complete (fst (parse_version_tag tag fs))"
  unfolding parse_version_tag_def Let_def tag_complete_def
  by (cases "match_version (strip tag)") (auto simp only: option.case prod.case fst_conv set_keys_set split: prod.splits)

lemma complete_closest: "preserves tag_complete (find_closest_tag g)"
  unfolding find_closest_tag_def
proof (rule preserves_bind [OF preserves_read(1)])
  fix out
  show "preserves tag_complete
    (case match_describe out of None \<Rightarrow> hread (\<lambda>_. Inl ValueError)
     | Some (tag, distance, commit, dirty) \<Rightarrow>
         hseq (hset (\<lambda>fs. dict_set fs ''CLOSEST_TAG'' (in_quotes tag)))
           (hseq (hset (\<lambda>fs. dict_set fs ''VERSION_TAG_DISTANCE'' distance))
           (hseq (hset (\<lambda>fs. dict_set fs ''VERSION_COMMIT_HASH'' (in_quotes commit)))
           (hseq (hset (\<lambda>fs. dict_set fs ''VERSION_DIRTY_FLAG'' (if dirty then ''1'' else ''0'')))
                 (hset (\<lambda>fs. fst (parse_version_tag tag fs)))))))"
  proof (cases "match_describe out")
    case (Some p)
    obtain tag n c d where p: "p = (tag, n, c, d)" by (rule prod_cases4)
    show ?thesis
      unfolding Some p option.case prod.case
      by (intro preserves_seq preserves_set tag_complete_set parse_complete) simp_all
  qed (simp add: preserves_read)
qed

lemma complete_ns3: "preserves tag_complete (find_closest_ns3_tag g)"
  unfolding find_closest_ns3_tag_def
proof (rule preserves_bind [OF preserves_read(1)])
  fix out
  show "preserves tag_complete (\<lambda>fs. case parse_version_tag (strip out) fs of (fs', ok) \<Rightarrow> (fs', if ok then Inr () else Inl ValueError))"
    using parse_complete by (auto simp: preserves_def split: prod.splits) (metis fst_conv)
qed

lemma parse_true_tag: "parse_version_tag tag fs = (fs', True) \<Longrightarrow> ''VERSION_TAG'' \<in> set (dict_keys fs')"
  unfolding parse_version_tag_def Let_def
  by (cases "match_version (strip tag)") (auto simp only: option.case prod.case prod.inject set_keys_set split: prod.splits)

lemma ns3_returns_tag: "find_closest_ns3_tag g fs = (fs', Inr ()) \<Longrightarrow> ''VERSION_TAG'' \<in> set (dict_keys fs')"
  by (auto simp: find_closest_ns3_tag_def hbind_def hread_def split: sum.splits prod.splits if_splits dest: parse_true_tag simp del: set_map)

text \<open>C31 Whatever git prints and whichever command or file fails: the task answers 0 or 1; the fields it has are
  of their types (digits, a flag, a in_quotes commit, a in_quotes text); with 1 the environment of the build is as
  it was, with 0 the version tag and all its parts are there, and the cache file holds the fields.\<close>

theorem version_task_types:
  "case run_version_task stored g (new_task env) of (s, r) \<Rightarrow>
     fields_ok (vs_fields s) \<and>
     (r = 1 \<and> vs_env s = env \<or>
      r = 0 \<and> vs_cache s = Some (vs_fields s) \<and> vs_env s = update_env (vs_fields s) env \<and>
      {''VERSION_TAG'', ''VERSION_MAJOR'', ''VERSION_MINOR'', ''VERSION_PATCH'', ''VERSION_RELEASE_CANDIDATE''}
        \<subseteq> set (dict_keys (vs_fields s)))"
proof -
  let ?s0 = "new_task env"
  obtain f1 r1 where 1: "find_closest_tag g [] = (f1, r1)" by fastforce
  have p1: "fields_ok f1" "tag_complete f1"
    using preservesD [OF closest_fields_ok, of "[]" g] preservesD [OF complete_closest, of "[]" g] 1
    by (simp_all add: fields_ok_def tag_complete_def)
  have s1: "on_fields (find_closest_tag g) ?s0 = (?s0 \<lparr> vs_fields := f1 \<rparr>, r1)" by (simp add: on_fields_def new_task_def 1)
  obtain f2 r2 where 2: "(if ''VERSION_TAG'' \<in> set (dict_keys f1) then (f1, Inr ()) else find_closest_ns3_tag g f1) = (f2, r2)"
    by fastforce
  have p2: "fields_ok f2" "tag_complete f2"
    using p1 preservesD [OF ns3_fields_ok, of f1 g] preservesD [OF complete_ns3, of f1 g] 2
    by (auto split: if_splits)
  have t2: "''VERSION_TAG'' \<in> set (dict_keys f2)" if "r2 = Inr ()"
    using 2 ns3_returns_tag [of g f1 f2] that by (auto split: if_splits simp del: set_map)
  have s2: "(if ''VERSION_TAG'' \<in> set (dict_keys (vs_fields (?s0 \<lparr> vs_fields := f1 \<rparr>))) then (?s0 \<lparr> vs_fields := f1 \<rparr>, Inr ())
      else on_fields (find_closest_ns3_tag g) (?s0 \<lparr> vs_fields := f1 \<rparr>)) = (?s0 \<lparr> vs_fields := f2 \<rparr>, r2)"
    using 2 by (auto simp: on_fields_def split: if_splits)
  have run: "find_and_store stored g ?s0 = (case r1 of Inl e \<Rightarrow> (?s0 \<lparr> vs_fields := f1 \<rparr>, Inl e) | Inr _ \<Rightarrow>
      (case r2 of Inl e \<Rightarrow> (?s0 \<lparr> vs_fields := f2 \<rparr>, Inl e) | Inr _ \<Rightarrow>
      (case stored of Inl e \<Rightarrow> (?s0 \<lparr> vs_fields := f2 \<rparr>, Inl e) | Inr _ \<Rightarrow>
         (?s0 \<lparr> vs_fields := f2, vs_cache := Some f2, vs_env := update_env f2 env \<rparr>, Inr ()))))"
    unfolding find_and_store_def hseq_def hbind_def s1 prod.case
    by (cases r1; cases r2; cases stored) (simp_all only: sum.case s2 prod.case hread_def hset_def, simp_all add: new_task_def)
  show ?thesis
    using p1 p2 t2 unfolding run_version_task_def run tag_complete_def
    by (auto simp: new_task_def split: sum.splits simp del: set_map)
qed

text \<open>The dot before the third number is not in_quotes: any character separates it.\<close>

lemma patch_after_any_character: "match_version ''ns-3.35-2021'' = Some (''3'', ''35'', ''2021'', [])"
  by code_simp

text \<open>Without tags and without a cache file the configuration fails, after it has set the two flags.\<close>

lemma configure_without_version:
  "configure_version True (Inr ()) (Inr ''/src'') (Inl e) [] env =
     (dict_set (dict_set env ''HAVE_GIT_REPO'' (Env_flag True)) ''HAVE_NS3_REPO'' (Env_flag False), Inl configuration_error)"
proof -
  have "check_output (Inr ''/src'')" by code_simp
  then show ?thesis
    by (simp add: configure_version_def check_git_repo_def check_git_repo_has_ns3_tags_def check_output_def hread_def Let_def)
qed

end
