(* ===== verification/Timeline_Data.thy ===== *)
theory Timeline_Data
  imports Py_Prelude
begin

text \<open>
  The data of \<open>utils/grid.py\<close>: ranges and events on named lines, the binary searches that select the
  visible ones, sorting, bounds, and the lookup of a line that creates it.  The script runs under
  Python 2 only (\<open>gtk\<close>, \<open>has_key\<close>, \<open>sort(cmp)\<close>).  Times are numbers of any ordered ring, integers in a
  data file.  An object that the code gets from a list and changes afterwards is named by its position.
\<close>

section \<open>Ranges and events\<close>

record ('t, 'v) data_range =
  dr_start :: 't
  dr_end :: 't
  dr_value :: 'v

text \<open>\<open>EventString\<close>, \<open>EventInt\<close> and \<open>EventFloat\<close> differ in the type of the value.\<close>

record ('t, 'v) event =
  ev_at :: 't
  ev_value :: 'v

definition ranges_cmp :: "('t::linordered_idom, 'v) data_range \<Rightarrow> ('t, 'v) data_range \<Rightarrow> int" where
  "ranges_cmp a b =
     (let diff = dr_start a - dr_start b in if diff < 0 then -1 else if diff > 0 then 1 else 0)"

definition events_cmp :: "('t::linordered_idom, 'v) event \<Rightarrow> ('t, 'v) event \<Rightarrow> int" where
  "events_cmp a b =
     (let diff = ev_at a - ev_at b in if diff < 0 then -1 else if diff > 0 then 1 else 0)"

text \<open>\<open>list.sort(cmp)\<close>: a stable insertion of every item before the first one that is not smaller.\<close>

fun insert_cmp :: "('a \<Rightarrow> 'a \<Rightarrow> int) \<Rightarrow> 'a \<Rightarrow> 'a list \<Rightarrow> 'a list" where
  "insert_cmp cmp x [] = [x]"
| "insert_cmp cmp x (y # ys) = (if cmp x y \<le> 0 then x # y # ys else y # insert_cmp cmp x ys)"

definition sort_cmp :: "('a \<Rightarrow> 'a \<Rightarrow> int) \<Rightarrow> 'a list \<Rightarrow> 'a list" where
  "sort_cmp cmp xs = foldr (insert_cmp cmp) xs []"

lemma insert_cmp_key:
  assumes "\<And>x y. cmp x y \<le> 0 \<longleftrightarrow> f x \<le> f y"
  shows "insert_cmp cmp x xs = insort_key f x xs"
  by (induction xs) (simp_all add: assms)

lemma sort_cmp_key:
  assumes "\<And>x y. cmp x y \<le> 0 \<longleftrightarrow> f x \<le> f y"
  shows "sort_cmp cmp xs = sort_key f xs"
  by (induction xs) (simp_all add: sort_cmp_def insert_cmp_key [OF assms])

lemma ranges_cmp_le: "ranges_cmp a b \<le> 0 \<longleftrightarrow> dr_start a \<le> dr_start b"
  by (auto simp: ranges_cmp_def Let_def)

lemma events_cmp_le: "events_cmp a b \<le> 0 \<longleftrightarrow> ev_at a \<le> ev_at b"
  by (auto simp: events_cmp_def Let_def)

lemmas sort_ranges_key = sort_cmp_key [of ranges_cmp dr_start, OF ranges_cmp_le]
lemmas sort_events_key = sort_cmp_key [of events_cmp ev_at, OF events_cmp_le]

section \<open>A line of ranges\<close>

record 't timeline_ranges =
  tr_name :: string
  tr_ranges :: "('t, string) data_range list"

function range_search :: "('t::linordered_idom, 'v) data_range list \<Rightarrow> 't \<Rightarrow> int \<Rightarrow> int \<Rightarrow> int" where
  "range_search rs key l u =
     (if l \<le> u then
        (let i = (l + u) div 2; r = rs ! nat i
         in if key \<ge> dr_start r \<and> key \<le> dr_end r then i
            else if key < dr_start r then range_search rs key l (i - 1)
            else range_search rs key (i + 1) u)
      else -1)"
  by pat_completeness auto
termination by (relation "measure (\<lambda>(rs, key, l, u). nat (u - l + 1))") auto

declare range_search.simps [simp del]

definition search_range :: "('t::linordered_idom, 'v) data_range list \<Rightarrow> 't \<Rightarrow> int" where
  "search_range rs key = range_search rs key 0 (int (length rs) - 1)"

definition add_range :: "('t, string) data_range \<Rightarrow> 't timeline_ranges \<Rightarrow> 't timeline_ranges" where
  "add_range r tr = tr \<lparr> tr_ranges := tr_ranges tr @ [r] \<rparr>"

definition get_ranges_bounds :: "'t::linordered_idom timeline_ranges \<Rightarrow> 't \<Rightarrow> 't \<Rightarrow> int \<times> int" where
  "get_ranges_bounds tr start stop =
     (let s = search_range (tr_ranges tr) start; e = search_range (tr_ranges tr) stop
      in if s = -1 \<and> e = -1 then (0, 0)
         else if s = -1 then (0, e + 1)
         else if e = -1 then (s, int (length (tr_ranges tr)))
         else (s, e + 1))"

definition slice :: "'a list \<Rightarrow> int \<Rightarrow> int \<Rightarrow> 'a list" where
  "slice xs lo hi = drop (nat lo) (take (nat hi) xs)"

definition get_ranges :: "'t::linordered_idom timeline_ranges \<Rightarrow> 't \<Rightarrow> 't \<Rightarrow> ('t, string) data_range list" where
  "get_ranges tr start stop =
     (let s = search_range (tr_ranges tr) start; e = search_range (tr_ranges tr) stop
      in if s = -1 \<and> e = -1 then []
         else if s = -1 then slice (tr_ranges tr) 0 (e + 1)
         else if e = -1 then slice (tr_ranges tr) s (int (length (tr_ranges tr)))
         else slice (tr_ranges tr) s (e + 1))"

definition sort_ranges :: "'t::linordered_idom timeline_ranges \<Rightarrow> 't timeline_ranges" where
  "sort_ranges tr = tr \<lparr> tr_ranges := sort_cmp ranges_cmp (tr_ranges tr) \<rparr>"

definition range_bounds :: "'t::linordered_idom timeline_ranges \<Rightarrow> 't \<times> 't" where
  "range_bounds tr =
     (if tr_ranges tr \<noteq> [] then (dr_start (hd (tr_ranges tr)), dr_end (last (tr_ranges tr))) else (0, 0))"

section \<open>A line of events\<close>

record ('t, 'v) timeline_events =
  te_name :: string
  te_events :: "('t, 'v) event list"

function event_search :: "('t::linordered_idom, 'v) event list \<Rightarrow> 't \<Rightarrow> int \<Rightarrow> int \<Rightarrow> int" where
  "event_search es key l u =
     (if l \<le> u then
        (let i = (l + u) div 2
         in if key = ev_at (es ! nat i) then i
            else if key < ev_at (es ! nat i) then event_search es key l (i - 1)
            else event_search es key (i + 1) u)
      else l)"
  by pat_completeness auto
termination by (relation "measure (\<lambda>(es, key, l, u). nat (u - l + 1))") auto

declare event_search.simps [simp del]

definition search_event :: "('t::linordered_idom, 'v) event list \<Rightarrow> 't \<Rightarrow> int" where
  "search_event es key = event_search es key 0 (int (length es) - 1)"

definition add_event :: "('t, 'v) event \<Rightarrow> ('t, 'v) timeline_events \<Rightarrow> ('t, 'v) timeline_events" where
  "add_event e te = te \<lparr> te_events := te_events te @ [e] \<rparr>"

definition get_events_bounds :: "('t::linordered_idom, 'v) timeline_events \<Rightarrow> 't \<Rightarrow> 't \<Rightarrow> int \<times> int" where
  "get_events_bounds te start stop = (search_event (te_events te) start, search_event (te_events te) stop + 1)"

definition get_events :: "('t::linordered_idom, 'v) timeline_events \<Rightarrow> 't \<Rightarrow> 't \<Rightarrow> ('t, 'v) event list" where
  "get_events te start stop =
     (let s = search_event (te_events te) start; e = search_event (te_events te) stop
      in slice (te_events te) s (e + 1))"

definition sort_events :: "('t::linordered_idom, 'v) timeline_events \<Rightarrow> ('t, 'v) timeline_events" where
  "sort_events te = te \<lparr> te_events := sort_cmp events_cmp (te_events te) \<rparr>"

definition event_bounds :: "('t::linordered_idom, 'v) timeline_events \<Rightarrow> 't \<times> 't" where
  "event_bounds te =
     (if te_events te \<noteq> [] then (ev_at (hd (te_events te)), ev_at (last (te_events te))) else (0, 0))"

section \<open>Timelines\<close>

record 't timeline =
  tl_name :: string
  tl_ranges :: "'t timeline_ranges list"
  tl_event_str :: "('t, string) timeline_events list"
  tl_event_int :: "('t, int) timeline_events list"

text \<open>The loop that looks for an object by its name and appends a new one when there is none; the result
  is the position of the object and the list.\<close>

fun find_or_add :: "('a \<Rightarrow> string) \<Rightarrow> (string \<Rightarrow> 'a) \<Rightarrow> string \<Rightarrow> 'a list \<Rightarrow> nat \<times> 'a list" where
  "find_or_add nm create name [] = (0, [create name])"
| "find_or_add nm create name (x # xs) =
     (if nm x = name then (0, x # xs)
      else (case find_or_add nm create name xs of (i, ys) \<Rightarrow> (Suc i, x # ys)))"

definition new_ranges :: "string \<Rightarrow> 't timeline_ranges" where
  "new_ranges name = \<lparr> tr_name = name, tr_ranges = [] \<rparr>"

definition new_events :: "string \<Rightarrow> ('t, 'v) timeline_events" where
  "new_events name = \<lparr> te_name = name, te_events = [] \<rparr>"

definition new_timeline :: "string \<Rightarrow> 't timeline" where
  "new_timeline name = \<lparr> tl_name = name, tl_ranges = [], tl_event_str = [], tl_event_int = [] \<rparr>"

definition get_range :: "string \<Rightarrow> 't timeline \<Rightarrow> nat \<times> 't timeline" where
  "get_range name tline =
     (case find_or_add tr_name new_ranges name (tl_ranges tline) of (i, rs) \<Rightarrow> (i, tline \<lparr> tl_ranges := rs \<rparr>))"

definition get_event_str :: "string \<Rightarrow> 't timeline \<Rightarrow> nat \<times> 't timeline" where
  "get_event_str name tline =
     (case find_or_add te_name new_events name (tl_event_str tline) of (i, es) \<Rightarrow> (i, tline \<lparr> tl_event_str := es \<rparr>))"

definition get_event_int :: "string \<Rightarrow> 't timeline \<Rightarrow> nat \<times> 't timeline" where
  "get_event_int name tline =
     (case find_or_add te_name new_events name (tl_event_int tline) of (i, es) \<Rightarrow> (i, tline \<lparr> tl_event_int := es \<rparr>))"

definition sort_timeline :: "'t::linordered_idom timeline \<Rightarrow> 't timeline" where
  "sort_timeline tline =
     tline \<lparr> tl_ranges := map sort_ranges (tl_ranges tline),
          tl_event_int := map sort_events (tl_event_int tline),
          tl_event_str := map sort_events (tl_event_str tline) \<rparr>"

text \<open>One round of a loop over bounds: the running pair grows to contain the next one.\<close>

definition widen :: "'t::linordered_idom \<times> 't \<Rightarrow> 't \<times> 't \<Rightarrow> 't \<times> 't" where
  "widen b c = (if fst c < fst b then fst c else fst b, if snd c > snd b then snd c else snd b)"

definition timeline_bounds :: "'t::linordered_idom timeline \<Rightarrow> 't \<times> 't" where
  "timeline_bounds tline =
     (let b1 = foldl (\<lambda>b r. widen b (range_bounds r)) (0, 0) (tl_ranges tline);
          b2 = foldl (\<lambda>b e. widen b (event_bounds e)) b1 (tl_event_str tline)
      in foldl (\<lambda>b e. widen b (event_bounds e)) b2 (tl_event_int tline))"

definition get_timeline :: "string \<Rightarrow> 't timeline list \<Rightarrow> nat \<times> 't timeline list" where
  "get_timeline name tlines = find_or_add tl_name new_timeline name tlines"

definition sort_timelines :: "'t::linordered_idom timeline list \<Rightarrow> 't timeline list" where
  "sort_timelines tlines = map sort_timeline tlines"

definition timelines_bounds :: "'t::linordered_idom timeline list \<Rightarrow> 't \<times> 't" where
  "timelines_bounds tlines = foldl (\<lambda>b tline. widen b (timeline_bounds tline)) (0, 0) tlines"

definition get_all_range_values :: "(string list \<Rightarrow> string list) \<Rightarrow> 't timeline list \<Rightarrow> string list" where
  "get_all_range_values enum tlines =
     enum (dict_keys (foldl (\<lambda>d v. dict_set d v (1 :: int)) []
       (concat (map (\<lambda>tline. concat (map (\<lambda>rs. map dr_value (tr_ranges rs)) (tl_ranges tline))) tlines))))"

section \<open>The searches\<close>

definition disjoint_ranges :: "('t::linordered_idom, 'v) data_range list \<Rightarrow> bool" where
  "disjoint_ranges rs \<longleftrightarrow>
     sorted_wrt (\<lambda>a b. dr_end a < dr_start b) rs \<and> list_all (\<lambda>r. dr_start r \<le> dr_end r) rs"

definition covers :: "('t::linordered_idom, 'v) data_range \<Rightarrow> 't \<Rightarrow> bool" where
  "covers r key \<longleftrightarrow> dr_start r \<le> key \<and> key \<le> dr_end r"

lemma disjoint_rangesD:
  assumes "disjoint_ranges rs" "i < j" "j < length rs"
  shows "dr_end (rs ! i) < dr_start (rs ! j)"
  using assms by (simp add: disjoint_ranges_def sorted_wrt_iff_nth_less)

lemma disjoint_ranges_le: "disjoint_ranges rs \<Longrightarrow> i < length rs \<Longrightarrow> dr_start (rs ! i) \<le> dr_end (rs ! i)"
  by (simp add: disjoint_ranges_def list_all_length)

lemma middle_bounds: "l \<le> u \<Longrightarrow> l \<le> (l + u) div 2 \<and> (l + u) div 2 \<le> (u :: int)"
  by presburger

lemma range_search_miss:
  assumes "\<forall>r \<in> set rs. \<not> covers r key" "0 \<le> l" "u < int (length rs)"
  shows "range_search rs key l u = -1"
  using assms
proof (induction rs key l u rule: range_search.induct)
  case (1 rs key l u)
  show ?case
  proof (cases "l \<le> u")
    case True
    define i where "i = (l + u) div 2"
    have i: "l \<le> i" "i \<le> u" using middle_bounds [OF True] by (simp_all add: i_def)
    then have "rs ! nat i \<in> set rs" using "1.prems" by simp
    then have "\<not> (dr_start (rs ! nat i) \<le> key \<and> key \<le> dr_end (rs ! nat i))"
      using "1.prems"(1) by (auto simp: covers_def)
    then show ?thesis
      using True "1.IH" [OF True refl, folded i_def, OF refl] "1.prems" i
      by (subst range_search.simps) (auto simp: Let_def i_def [symmetric])
  qed (simp add: range_search.simps)
qed

lemma range_search_hit:
  assumes "disjoint_ranges rs" "covers (rs ! nat k) key" "0 \<le> l" "l \<le> k" "k \<le> u" "u < int (length rs)"
  shows "range_search rs key l u = k"
  using assms
proof (induction rs key l u rule: range_search.induct)
  case (1 rs key l u)
  then have True: "l \<le> u" by simp
  define i where "i = (l + u) div 2"
  have i: "l \<le> i" "i \<le> u" using middle_bounds [OF True] by (simp_all add: i_def)
  have key: "dr_start (rs ! nat k) \<le> key" "key \<le> dr_end (rs ! nat k)" using "1.prems"(2) by (simp_all add: covers_def)
  have disj: "a < b \<Longrightarrow> 0 \<le> a \<Longrightarrow> b < int (length rs) \<Longrightarrow> dr_end (rs ! nat a) < dr_start (rs ! nat b)" for a b
    using disjoint_rangesD [OF "1.prems"(1), of "nat a" "nat b"] by simp
  have le: "dr_start (rs ! nat i) \<le> dr_end (rs ! nat i)"
    using disjoint_ranges_le [OF "1.prems"(1), of "nat i"] "1.prems" i by simp
  consider "i = k" | "i < k" | "k < i" by linarith
  then show ?case
  proof cases
    case 1
    then show ?thesis using True key by (subst range_search.simps) (simp add: Let_def i_def [symmetric])
  next
    case 2
    then have "dr_end (rs ! nat i) < key" using disj [of i k] key "1.prems" i by simp
    then show ?thesis
      using True "1.IH"(2) [OF True refl, folded i_def, OF refl] "1.prems" i 2 le
      by (subst range_search.simps) (auto simp: Let_def i_def [symmetric])
  next
    case 3
    then have "key < dr_start (rs ! nat i)" using disj [of k i] key "1.prems" i by simp
    then show ?thesis
      using True "1.IH"(1) [OF True refl, folded i_def, OF refl] "1.prems" i 3
      by (subst range_search.simps) (auto simp: Let_def i_def [symmetric])
  qed
qed

lemma search_range_cases:
  assumes "disjoint_ranges rs"
  shows "if \<exists>r \<in> set rs. covers r key
         then 0 \<le> search_range rs key \<and> search_range rs key < int (length rs)
              \<and> covers (rs ! nat (search_range rs key)) key
         else search_range rs key = -1"
proof (cases "\<exists>r \<in> set rs. covers r key")
  case True
  then obtain k where k: "k < length rs" "covers (rs ! k) key" by (auto simp: in_set_conv_nth)
  then have "search_range rs key = int k"
    unfolding search_range_def using assms by (intro range_search_hit) simp_all
  then show ?thesis using True k by simp
next
  case False
  then have "search_range rs key = -1"
    unfolding search_range_def by (intro range_search_miss) auto
  then show ?thesis using False by simp
qed

lemma event_search_position:
  assumes "sorted_wrt (<) (map ev_at es)"
    and "p = int (length (takeWhile (\<lambda>e. ev_at e < key) es))"
    and "0 \<le> l" "l \<le> p" "p \<le> u + 1" "u < int (length es)"
  shows "event_search es key l u = p"
  using assms
proof (induction es key l u rule: event_search.induct)
  case (1 es key l u)
  have less: "ev_at (es ! a) < ev_at (es ! b)" if "a < b" "b < length es" for a b
    using "1.prems"(1) that by (simp add: sorted_wrt_iff_nth_less)
  have before: "ev_at (es ! a) < key" if "int a < p" for a
    using that "1.prems"(2) nth_mem [of a "takeWhile (\<lambda>e. ev_at e < key) es"]
    by (auto simp: takeWhile_nth dest: set_takeWhileD)
  have at_p: "\<not> ev_at (es ! nat p) < key" if "p < int (length es)"
    using that "1.prems"(2) nth_length_takeWhile [of "\<lambda>e. ev_at e < key" es] by simp
  show ?case
  proof (cases "l \<le> u")
    case True
    define i where "i = (l + u) div 2"
    have i: "l \<le> i" "i \<le> u" using middle_bounds [OF True] by (simp_all add: i_def)
    have after: "key < ev_at (es ! nat i)" if "p < i"
    proof -
      have "ev_at (es ! nat p) < ev_at (es ! nat i)" using that i "1.prems" by (intro less) auto
      then show ?thesis using at_p that i "1.prems" by force
    qed
    consider "i = p" "ev_at (es ! nat i) = key" | "i = p" "key < ev_at (es ! nat i)" | "i < p" | "p < i"
      using at_p i "1.prems" by force
    then show ?thesis
    proof cases
      case 1
      then show ?thesis using True by (subst event_search.simps) (simp add: Let_def i_def [symmetric])
    next
      case 2
      then show ?thesis
        using True "1.IH"(1) [OF True, folded i_def, OF refl] "1.prems" i
        by (subst event_search.simps) (auto simp: Let_def i_def [symmetric])
    next
      case 3
      then have "ev_at (es ! nat i) < key" using before [of "nat i"] i "1.prems" by simp
      then show ?thesis
        using True "1.IH"(2) [OF True, folded i_def, OF refl] "1.prems" i 3
        by (subst event_search.simps) (auto simp: Let_def i_def [symmetric])
    next
      case 4
      then show ?thesis
        using True "1.IH"(1) [OF True, folded i_def, OF refl] "1.prems" i after
        by (subst event_search.simps) (auto simp: Let_def i_def [symmetric])
    qed
  next
    case False
    then show ?thesis using "1.prems" by (simp add: event_search.simps)
  qed
qed

lemma search_event_position:
  assumes "sorted_wrt (<) (map ev_at es)"
  shows "search_event es key = int (length (takeWhile (\<lambda>e. ev_at e < key) es))"
  unfolding search_event_def
  by (rule event_search_position [OF assms refl]) (simp_all add: length_takeWhile_le)

section \<open>The visible part\<close>

lemma take_position:
  assumes "sorted (map f xs)"
  shows "take (length (takeWhile (\<lambda>x. f x < k) xs)) xs = filter (\<lambda>x. f x < k) xs"
    and "drop (length (takeWhile (\<lambda>x. f x < k) xs)) xs = filter (\<lambda>x. \<not> f x < k) xs"
proof -
  have "takeWhile (\<lambda>x. f x < k) xs = filter (\<lambda>x. f x < k) xs \<and> dropWhile (\<lambda>x. f x < k) xs = filter (\<lambda>x. \<not> f x < k) xs"
    using assms
  proof (induction xs)
    case Nil
    then show ?case by simp
  next
    case (Cons x xs)
    then have "sorted (map f xs)" "\<forall>y \<in> set xs. f x \<le> f y" by auto
    show ?case
    proof (cases "f x < k")
      case True
      then show ?thesis using Cons by simp
    next
      case False
      then have "\<forall>y \<in> set xs. \<not> f y < k" using \<open>\<forall>y \<in> set xs. f x \<le> f y\<close> by force
      then have "filter (\<lambda>x. f x < k) xs = []" "filter (\<lambda>x. \<not> f x < k) xs = xs"
        by (simp_all add: filter_empty_conv filter_id_conv)
      then show ?thesis using False by simp
    qed
  qed
  then show "take (length (takeWhile (\<lambda>x. f x < k) xs)) xs = filter (\<lambda>x. f x < k) xs"
    "drop (length (takeWhile (\<lambda>x. f x < k) xs)) xs = filter (\<lambda>x. \<not> f x < k) xs"
    using takeWhile_eq_take [of "\<lambda>x. f x < k" xs] dropWhile_eq_drop [of "\<lambda>x. f x < k" xs] by argo+
qed

lemma sorted_hd_filter:
  fixes f :: "'a \<Rightarrow> 'b::linorder"
  assumes "sorted_wrt (<) (map f xs)"
  shows "take 1 (filter (\<lambda>x. \<not> f x < k) xs)
     = filter (\<lambda>x. f x = k) xs @ (if k \<in> f ` set xs then [] else take 1 (filter (\<lambda>x. f x > k) xs))"
  using assms
proof (induction xs)
  case Nil
  then show ?case by simp
next
  case (Cons x xs)
  then have rest: "\<forall>y \<in> set xs. f x < f y" by auto
  consider "f x < k" | "f x = k" | "k < f x" by force
  then show ?case
  proof cases
    case 1
    then have "\<not> k < f x" "f x \<noteq> k" by auto
    then show ?thesis using 1 Cons by (auto simp: image_iff)
  next
    case 2
    then have "\<forall>y \<in> set xs. f y \<noteq> k" using rest by force
    then have "filter (\<lambda>x. f x = k) xs = []" by (simp add: filter_empty_conv)
    then show ?thesis using 2 by simp
  next
    case 3
    then have "\<forall>y \<in> set xs. f y \<noteq> k" using rest by force
    then have "filter (\<lambda>x. f x = k) xs = []" "k \<notin> f ` set xs" by (auto simp: filter_empty_conv)
    then show ?thesis using 3 by auto
  qed
qed

lemma takeWhile_less_mono:
  "start \<le> stop \<Longrightarrow> length (takeWhile (\<lambda>x. f x < start) xs) \<le> length (takeWhile (\<lambda>x. f x < stop) xs)"
  for f :: "'a \<Rightarrow> 'b::linorder"
  by (induction xs) auto

lemma window_filters:
  fixes f :: "'a \<Rightarrow> 'b::linorder"
  assumes "sorted_wrt (<) (map f xs)" "start \<le> stop"
  shows "filter (\<lambda>x. start \<le> f x \<and> f x < stop) xs @ filter (\<lambda>x. f x = stop) xs
       = filter (\<lambda>x. start \<le> f x \<and> f x \<le> stop) xs"
  using assms
proof (induction xs)
  case Nil
  then show ?case by simp
next
  case (Cons x xs)
  then have later: "\<forall>y \<in> set xs. f x < f y" by auto
  show ?case
  proof (cases "f x < stop")
    case True
    then show ?thesis using Cons by auto
  next
    case False
    then have "filter (\<lambda>x. start \<le> f x \<and> f x < stop) xs = []"
      using later by (auto simp: filter_empty_conv)
    then show ?thesis using False Cons by auto
  qed
qed

lemma get_events_positions:
  assumes sorted: "sorted_wrt (<) (map ev_at (te_events te))" and le: "start \<le> stop"
  shows "get_events te start stop =
    filter (\<lambda>e. start \<le> ev_at e \<and> ev_at e < stop) (te_events te)
    @ take 1 (filter (\<lambda>e. \<not> ev_at e < stop) (te_events te))"
proof -
  let ?es = "te_events te"
  let ?p = "length (takeWhile (\<lambda>e. ev_at e < start) ?es)" and ?q = "length (takeWhile (\<lambda>e. ev_at e < stop) ?es)"
  have srt: "sorted (map ev_at ?es)" using sorted strict_sorted_imp_sorted by blast
  have pq: "?p \<le> ?q" by (rule takeWhile_less_mono [OF le])
  have len: "length (take ?q ?es) = ?q" by (simp add: length_takeWhile_le)
  have "get_events te start stop = drop ?p (take (?q + 1) ?es)"
    by (simp add: get_events_def Let_def search_event_position [OF sorted] slice_def nat_add_distrib)
  also have "take (?q + 1) ?es = take ?q ?es @ take 1 (drop ?q ?es)" by (rule take_add)
  also have "drop ?p (take ?q ?es @ take 1 (drop ?q ?es)) = drop ?p (take ?q ?es) @ take 1 (drop ?q ?es)"
    using pq len by simp
  also have "drop ?p (take ?q ?es) = filter (\<lambda>e. start \<le> ev_at e \<and> ev_at e < stop) ?es"
  proof -
    have "take ?q ?es = filter (\<lambda>e. ev_at e < stop) ?es" by (rule take_position(1) [OF srt])
    also have "\<dots> = filter (\<lambda>e. ev_at e < start) (filter (\<lambda>e. ev_at e < stop) ?es)
        @ filter (\<lambda>e. \<not> ev_at e < start) (filter (\<lambda>e. ev_at e < stop) ?es)"
    proof -
      have "sorted (map ev_at (filter (\<lambda>e. ev_at e < stop) ?es))" using srt by (rule sorted_filter)
      from take_position [OF this, of start] show ?thesis by (metis append_take_drop_id)
    qed
    also have "filter (\<lambda>e. ev_at e < start) (filter (\<lambda>e. ev_at e < stop) ?es) = filter (\<lambda>e. ev_at e < start) ?es"
      using le by (auto intro: filter_cong order_less_le_trans)
    finally have "take ?q ?es = filter (\<lambda>e. ev_at e < start) ?es
        @ filter (\<lambda>e. \<not> ev_at e < start) (filter (\<lambda>e. ev_at e < stop) ?es)" .
    moreover have "length (filter (\<lambda>e. ev_at e < start) ?es) = ?p"
      using take_position(1) [OF srt, of start] by (metis length_take length_takeWhile_le min.absorb2)
    ultimately have "drop ?p (take ?q ?es) = filter (\<lambda>e. \<not> ev_at e < start) (filter (\<lambda>e. ev_at e < stop) ?es)"
      by simp
    then show ?thesis by (simp add: conj_commute not_less)
  qed
  also have "drop ?q ?es = filter (\<lambda>e. \<not> ev_at e < stop) ?es" by (rule take_position(2) [OF srt])
  finally show ?thesis .
qed

text \<open>The events that are selected for a window, when no two events of the line are at the same time:
  exactly those inside the window, in order, and, when no event is at its end, the first event after it
  as well.\<close>

theorem get_events_window:
  assumes "sorted_wrt (<) (map ev_at (te_events te))" and "start \<le> stop"
  shows "get_events te start stop =
    filter (\<lambda>e. start \<le> ev_at e \<and> ev_at e \<le> stop) (te_events te)
    @ (if stop \<in> ev_at ` set (te_events te) then []
       else take 1 (filter (\<lambda>e. ev_at e > stop) (te_events te)))"
  unfolding get_events_positions [OF assms] sorted_hd_filter [OF assms(1)]
  by (simp only: append_assoc [symmetric] window_filters [OF assms])

text \<open>The searches in a list of ranges, by the position of a range that covers the key.\<close>

lemma search_range_at:
  "disjoint_ranges rs \<Longrightarrow> k < length rs \<Longrightarrow> covers (rs ! k) key \<Longrightarrow> search_range rs key = int k"
  unfolding search_range_def by (intro range_search_hit) simp_all

lemma search_range_none: "\<forall>r \<in> set rs. \<not> covers r key \<Longrightarrow> search_range rs key = -1"
  unfolding search_range_def by (intro range_search_miss) auto

lemma filter_prefix:
  assumes "\<forall>i < length xs. P (xs ! i) \<longleftrightarrow> i < n" shows "filter P xs = take n xs"
  using assms
proof (induction xs arbitrary: n)
  case Nil
  then show ?case by simp
next
  case (Cons x xs)
  then have h: "P x \<longleftrightarrow> 0 < n" by force
  have "\<forall>i < length xs. P (xs ! i) \<longleftrightarrow> i < n - 1"
  proof (intro allI impI)
    fix i assume "i < length xs"
    then show "P (xs ! i) \<longleftrightarrow> i < n - 1" using Cons.prems [rule_format, of "Suc i"] by auto
  qed
  then have "filter P xs = take (n - 1) xs" by (rule Cons.IH)
  then show ?case using h by (cases n) simp_all
qed

lemma filter_suffix:
  assumes "\<forall>i < length xs. P (xs ! i) \<longleftrightarrow> n \<le> i" shows "filter P xs = drop n xs"
  using assms
proof (induction xs arbitrary: n)
  case Nil
  then show ?case by simp
next
  case (Cons x xs)
  then have h: "P x \<longleftrightarrow> n = 0" by force
  have "\<forall>i < length xs. P (xs ! i) \<longleftrightarrow> n - 1 \<le> i"
  proof (intro allI impI)
    fix i assume "i < length xs"
    then show "P (xs ! i) \<longleftrightarrow> n - 1 \<le> i" using Cons.prems [rule_format, of "Suc i"] by auto
  qed
  then have "filter P xs = drop (n - 1) xs" by (rule Cons.IH)
  then show ?case using h by (cases n) simp_all
qed

lemma range_start_iff:
  assumes "disjoint_ranges rs" "k < length rs" "covers (rs ! k) key" "i < length rs"
  shows "dr_start (rs ! i) \<le> key \<longleftrightarrow> i < Suc k"
proof -
  consider "i < k" | "i = k" | "k < i" by linarith
  then show ?thesis
  proof cases
    case 1
    then show ?thesis
      using disjoint_rangesD [OF assms(1) 1 assms(2)] disjoint_ranges_le [OF assms(1,4)] assms(3)
      by (auto simp: covers_def)
  next
    case 2
    then show ?thesis using assms(3) by (simp add: covers_def)
  next
    case 3
    then show ?thesis using disjoint_rangesD [OF assms(1) 3 assms(4)] assms(3) by (auto simp: covers_def)
  qed
qed

lemma range_end_iff:
  assumes "disjoint_ranges rs" "k < length rs" "covers (rs ! k) key" "i < length rs"
  shows "key \<le> dr_end (rs ! i) \<longleftrightarrow> k \<le> i"
proof -
  consider "i < k" | "i = k" | "k < i" by linarith
  then show ?thesis
  proof cases
    case 1
    then show ?thesis using disjoint_rangesD [OF assms(1) 1 assms(2)] assms(3) by (auto simp: covers_def)
  next
    case 2
    then show ?thesis using assms(3) by (simp add: covers_def)
  next
    case 3
    then show ?thesis
      using disjoint_rangesD [OF assms(1) 3 assms(4)] disjoint_ranges_le [OF assms(1,4)] assms(3)
      by (auto simp: covers_def)
  qed
qed

lemma ranges_up_to:
  "disjoint_ranges rs \<Longrightarrow> k < length rs \<Longrightarrow> covers (rs ! k) key
    \<Longrightarrow> filter (\<lambda>r. dr_start r \<le> key) rs = take (Suc k) rs"
  by (intro filter_prefix allI impI) (rule range_start_iff)

lemma ranges_from:
  "disjoint_ranges rs \<Longrightarrow> k < length rs \<Longrightarrow> covers (rs ! k) key
    \<Longrightarrow> filter (\<lambda>r. key \<le> dr_end r) rs = drop k rs"
  by (intro filter_suffix allI impI) (rule range_end_iff)

lemma slice_nat: "slice xs (int a) (int b) = drop a (take b xs)"
  by (simp add: slice_def)

text \<open>The ranges that are selected for a window, for disjoint sorted ranges: when both ends of the window
  lie in ranges, exactly those that meet the window; when one end lies in a gap, the selection is open at
  that end; when both do, nothing is selected.\<close>

theorem get_ranges_window:
  assumes disj: "disjoint_ranges (tr_ranges tr)" and le: "start \<le> stop"
  shows "get_ranges tr start stop =
    (if \<exists>r \<in> set (tr_ranges tr). covers r start then
       (if \<exists>r \<in> set (tr_ranges tr). covers r stop
        then filter (\<lambda>r. start \<le> dr_end r \<and> dr_start r \<le> stop) (tr_ranges tr)
        else filter (\<lambda>r. start \<le> dr_end r) (tr_ranges tr))
     else
       (if \<exists>r \<in> set (tr_ranges tr). covers r stop
        then filter (\<lambda>r. dr_start r \<le> stop) (tr_ranges tr) else []))"
proof -
  let ?rs = "tr_ranges tr"
  have miss: "search_range ?rs key = -1" if "\<not> (\<exists>r \<in> set ?rs. covers r key)" for key
    using that by (intro search_range_none) simp
  have hit: "\<exists>k < length ?rs. covers (?rs ! k) key \<and> search_range ?rs key = int k"
    if "\<exists>r \<in> set ?rs. covers r key" for key
    using that search_range_at [OF disj] by (metis in_set_conv_nth)
  show ?thesis
  proof (cases "\<exists>r \<in> set ?rs. covers r start"; cases "\<exists>r \<in> set ?rs. covers r stop")
    assume s: "\<exists>r \<in> set ?rs. covers r start" and e: "\<exists>r \<in> set ?rs. covers r stop"
    obtain a b where a: "a < length ?rs" "covers (?rs ! a) start" "search_range ?rs start = int a"
      and b: "b < length ?rs" "covers (?rs ! b) stop" "search_range ?rs stop = int b"
      using hit [OF s] hit [OF e] by blast
    have "get_ranges tr start stop = drop a (take (Suc b) ?rs)"
      using a b slice_nat [of ?rs a "Suc b"] by (simp add: get_ranges_def add.commute)
    also have "\<dots> = filter (\<lambda>r. start \<le> dr_end r) (take (Suc b) ?rs)"
      using range_end_iff [OF disj a(1,2)] by (intro filter_suffix [symmetric]) simp
    also have "\<dots> = filter (\<lambda>r. start \<le> dr_end r \<and> dr_start r \<le> stop) ?rs"
      by (simp add: ranges_up_to [OF disj b(1,2), symmetric] conj_commute)
    finally show ?thesis using s e by simp
  next
    assume s: "\<exists>r \<in> set ?rs. covers r start" and e: "\<not> (\<exists>r \<in> set ?rs. covers r stop)"
    obtain a where a: "a < length ?rs" "covers (?rs ! a) start" "search_range ?rs start = int a"
      using hit [OF s] by blast
    have "get_ranges tr start stop = drop a ?rs"
      using a miss [OF e] slice_nat [of ?rs a "length ?rs"] by (simp add: get_ranges_def)
    then show ?thesis using s e ranges_from [OF disj a(1,2)] by simp
  next
    assume s: "\<not> (\<exists>r \<in> set ?rs. covers r start)" and e: "\<exists>r \<in> set ?rs. covers r stop"
    obtain b where b: "b < length ?rs" "covers (?rs ! b) stop" "search_range ?rs stop = int b"
      using hit [OF e] by blast
    have "get_ranges tr start stop = take (Suc b) ?rs"
      using b miss [OF s] slice_nat [of ?rs 0 "Suc b"] by (simp add: get_ranges_def add.commute)
    then show ?thesis using s e ranges_up_to [OF disj b(1,2)] by simp
  next
    assume s: "\<not> (\<exists>r \<in> set ?rs. covers r start)" and e: "\<not> (\<exists>r \<in> set ?rs. covers r stop)"
    then show ?thesis using miss [OF s] miss [OF e] by (simp add: get_ranges_def)
  qed
qed

definition sample_ranges :: "int timeline_ranges" where
  "sample_ranges = \<lparr> tr_name = ''r'', tr_ranges =
     [\<lparr> dr_start = 1, dr_end = 2, dr_value = ''a'' \<rparr>, \<lparr> dr_start = 4, dr_end = 5, dr_value = ''b'' \<rparr>,
      \<lparr> dr_start = 7, dr_end = 8, dr_value = ''c'' \<rparr>] \<rparr>"

definition sample_events :: "(int, int) timeline_events" where
  "sample_events = \<lparr> te_name = ''e'', te_events =
     [\<lparr> ev_at = 1, ev_value = 10 \<rparr>, \<lparr> ev_at = 3, ev_value = 30 \<rparr>, \<lparr> ev_at = 6, ev_value = 60 \<rparr>] \<rparr>"

theorem get_events_window_witness:
  "map ev_value (get_events sample_events 2 4) = [30, 60]"
proof -
  have "sorted_wrt (<) (map ev_at (te_events sample_events))" by code_simp
  from get_events_window [OF this, of 2 4] show ?thesis by (simp add: sample_events_def)
qed

text \<open>In the last window below every range is visible, and none is selected.\<close>

theorem get_ranges_window_witness:
  "map dr_value (get_ranges sample_ranges 2 7) = [''a'', ''b'', ''c'']
   \<and> map dr_value (get_ranges sample_ranges 3 7) = [''a'', ''b'', ''c''] \<and> get_ranges sample_ranges 0 9 = []"
proof -
  have d: "disjoint_ranges (tr_ranges sample_ranges)" by code_simp
  show ?thesis
    using get_ranges_window [OF d, of 2 7] get_ranges_window [OF d, of 3 7] get_ranges_window [OF d, of 0 9]
    by (simp add: sample_ranges_def covers_def)
qed

section \<open>Bounds\<close>

definition sorted_events :: "('t::linordered_idom, 'v) timeline_events \<Rightarrow> bool" where
  "sorted_events te \<longleftrightarrow> sorted (map ev_at (te_events te))"

definition lows :: "'t timeline \<Rightarrow> 't set" where
  "lows tline =
     (\<Union>rs \<in> set (tl_ranges tline). dr_start ` set (tr_ranges rs))
     \<union> (\<Union>es \<in> set (tl_event_str tline). ev_at ` set (te_events es))
     \<union> (\<Union>es \<in> set (tl_event_int tline). ev_at ` set (te_events es))"

definition highs :: "'t timeline \<Rightarrow> 't set" where
  "highs tline =
     (\<Union>rs \<in> set (tl_ranges tline). dr_end ` set (tr_ranges rs))
     \<union> (\<Union>es \<in> set (tl_event_str tline). ev_at ` set (te_events es))
     \<union> (\<Union>es \<in> set (tl_event_int tline). ev_at ` set (te_events es))"

definition ordered_timeline :: "'t::linordered_idom timeline \<Rightarrow> bool" where
  "ordered_timeline tline \<longleftrightarrow>
     list_all (\<lambda>rs. disjoint_ranges (tr_ranges rs)) (tl_ranges tline)
     \<and> list_all sorted_events (tl_event_str tline) \<and> list_all sorted_events (tl_event_int tline)"

text \<open>
  A pair \<open>b\<close> encloses a set of low and a set of high numbers as tightly as zero allows: its first number
  is the greatest one below zero and all low numbers, its second the least one above.
\<close>

definition encloses :: "'t::linordered_idom \<times> 't \<Rightarrow> 't set \<Rightarrow> 't set \<Rightarrow> bool" where
  "encloses b L H \<longleftrightarrow>
     (\<forall>x. x \<le> fst b \<and> x \<le> 0 \<longleftrightarrow> x \<le> 0 \<and> (\<forall>y \<in> L. x \<le> y))
     \<and> (\<forall>x. snd b \<le> x \<and> 0 \<le> x \<longleftrightarrow> 0 \<le> x \<and> (\<forall>y \<in> H. y \<le> x))"

lemma encloses_low: "encloses b L H \<Longrightarrow> x \<le> 0 \<Longrightarrow> x \<le> fst b \<longleftrightarrow> (\<forall>y \<in> L. x \<le> y)"
  and encloses_high: "encloses b L H \<Longrightarrow> 0 \<le> x \<Longrightarrow> snd b \<le> x \<longleftrightarrow> (\<forall>y \<in> H. y \<le> x)"
  by (auto simp: encloses_def)

lemma encloses_range:
  assumes "disjoint_ranges (tr_ranges rs)"
  shows "encloses (range_bounds rs) (dr_start ` set (tr_ranges rs)) (dr_end ` set (tr_ranges rs))"
proof (cases "tr_ranges rs")
  case Nil
  then show ?thesis by (auto simp: encloses_def range_bounds_def)
next
  case (Cons r xs)
  have first: "dr_start r \<le> dr_start y" if yin: "y \<in> set (tr_ranges rs)" for y
  proof -
    obtain i where "i < length (tr_ranges rs)" "y = tr_ranges rs ! i" using yin by (auto simp: in_set_conv_nth)
    then show ?thesis
      using disjoint_rangesD [OF assms, of 0 i] disjoint_ranges_le [OF assms, of 0] Cons by (cases "i = 0") auto
  qed
  have final: "dr_end y \<le> dr_end (last (tr_ranges rs))" if yin: "y \<in> set (tr_ranges rs)" for y
  proof -
    obtain i where i: "i < length (tr_ranges rs)" "y = tr_ranges rs ! i" using yin by (auto simp: in_set_conv_nth)
    let ?n = "length (tr_ranges rs) - 1"
    have lst: "last (tr_ranges rs) = tr_ranges rs ! ?n" using Cons by (simp add: last_conv_nth)
    show ?thesis
    proof (cases "i = ?n")
      case False
      then have "i < ?n" "?n < length (tr_ranges rs)" using i Cons by auto
      then show ?thesis
        using disjoint_rangesD [OF assms, of i ?n] disjoint_ranges_le [OF assms, of ?n] i lst by auto
    qed (use i lst in simp)
  qed
  have "range_bounds rs = (dr_start r, dr_end (last (tr_ranges rs)))" using Cons by (simp add: range_bounds_def)
  moreover have "r \<in> set (tr_ranges rs)" "last (tr_ranges rs) \<in> set (tr_ranges rs)" using Cons by simp_all
  ultimately show ?thesis using first final by (auto simp: encloses_def intro: order_trans)
qed

lemma encloses_events:
  assumes "sorted_events te"
  shows "encloses (event_bounds te) (ev_at ` set (te_events te)) (ev_at ` set (te_events te))"
proof (cases "te_events te")
  case Nil
  then show ?thesis by (auto simp: encloses_def event_bounds_def)
next
  case (Cons e es)
  have s: "sorted (map ev_at (te_events te))" using assms by (simp add: sorted_events_def)
  have first: "\<forall>y \<in> set (te_events te). ev_at e \<le> ev_at y" using s Cons by auto
  have final: "ev_at y \<le> ev_at (last (te_events te))" if yin: "y \<in> set (te_events te)" for y
  proof -
    obtain i where i: "i < length (te_events te)" "y = te_events te ! i" using yin by (auto simp: in_set_conv_nth)
    have "last (te_events te) = te_events te ! (length (te_events te) - 1)" using Cons by (simp add: last_conv_nth)
    then show ?thesis using sorted_nth_mono [OF s, of i "length (te_events te) - 1"] i by simp
  qed
  have "event_bounds te = (ev_at e, ev_at (last (te_events te)))" using Cons by (simp add: event_bounds_def)
  moreover have "e \<in> set (te_events te)" "last (te_events te) \<in> set (te_events te)" using Cons by simp_all
  ultimately show ?thesis using first final by (auto simp: encloses_def intro: order_trans)
qed

lemma widen_iff:
  "x \<le> fst (widen b c) \<longleftrightarrow> x \<le> fst b \<and> x \<le> fst c" "snd (widen b c) \<le> x \<longleftrightarrow> snd b \<le> x \<and> snd c \<le> x"
  by (auto simp: widen_def)

lemma fold_widen_iff:
  "x \<le> fst (foldl (\<lambda>b y. widen b (f y)) b ys) \<longleftrightarrow> x \<le> fst b \<and> (\<forall>y \<in> set ys. x \<le> fst (f y))"
  "snd (foldl (\<lambda>b y. widen b (f y)) b ys) \<le> x \<longleftrightarrow> snd b \<le> x \<and> (\<forall>y \<in> set ys. snd (f y) \<le> x)"
  by (induction ys arbitrary: b) (auto simp: widen_iff)

lemma timeline_bounds_iff:
  "x \<le> fst (timeline_bounds tline) \<longleftrightarrow> x \<le> 0
     \<and> (\<forall>rs \<in> set (tl_ranges tline). x \<le> fst (range_bounds rs))
     \<and> (\<forall>es \<in> set (tl_event_str tline). x \<le> fst (event_bounds es))
     \<and> (\<forall>es \<in> set (tl_event_int tline). x \<le> fst (event_bounds es))"
  "snd (timeline_bounds tline) \<le> x \<longleftrightarrow> 0 \<le> x
     \<and> (\<forall>rs \<in> set (tl_ranges tline). snd (range_bounds rs) \<le> x)
     \<and> (\<forall>es \<in> set (tl_event_str tline). snd (event_bounds es) \<le> x)
     \<and> (\<forall>es \<in> set (tl_event_int tline). snd (event_bounds es) \<le> x)"
  by (auto simp: timeline_bounds_def Let_def fold_widen_iff)

lemma encloses_timeline:
  assumes "ordered_timeline tline"
  shows "x \<le> fst (timeline_bounds tline) \<longleftrightarrow> x \<le> 0 \<and> (\<forall>y \<in> lows tline. x \<le> y)"
    and "snd (timeline_bounds tline) \<le> x \<longleftrightarrow> 0 \<le> x \<and> (\<forall>y \<in> highs tline. y \<le> x)"
proof -
  have r: "encloses (range_bounds rs) (dr_start ` set (tr_ranges rs)) (dr_end ` set (tr_ranges rs))"
    if "rs \<in> set (tl_ranges tline)" for rs
    using that assms by (intro encloses_range) (auto simp: ordered_timeline_def list_all_iff)
  have s: "encloses (event_bounds es) (ev_at ` set (te_events es)) (ev_at ` set (te_events es))"
    if "es \<in> set (tl_event_str tline)" for es
    using that assms by (intro encloses_events) (auto simp: ordered_timeline_def list_all_iff)
  have i: "encloses (event_bounds es) (ev_at ` set (te_events es)) (ev_at ` set (te_events es))"
    if "es \<in> set (tl_event_int tline)" for es
    using that assms by (intro encloses_events) (auto simp: ordered_timeline_def list_all_iff)
  show "x \<le> fst (timeline_bounds tline) \<longleftrightarrow> x \<le> 0 \<and> (\<forall>y \<in> lows tline. x \<le> y)"
  proof (cases "x \<le> 0")
    case True
    have "\<forall>rs \<in> set (tl_ranges tline). x \<le> fst (range_bounds rs) \<longleftrightarrow> (\<forall>y \<in> dr_start ` set (tr_ranges rs). x \<le> y)"
      and "\<forall>es \<in> set (tl_event_str tline). x \<le> fst (event_bounds es) \<longleftrightarrow> (\<forall>y \<in> ev_at ` set (te_events es). x \<le> y)"
      and "\<forall>es \<in> set (tl_event_int tline). x \<le> fst (event_bounds es) \<longleftrightarrow> (\<forall>y \<in> ev_at ` set (te_events es). x \<le> y)"
      by (intro ballI encloses_low [OF r True] encloses_low [OF s True] encloses_low [OF i True]; assumption)+
    then show ?thesis unfolding timeline_bounds_iff lows_def ball_Un ball_UN using True by simp
  qed (simp add: timeline_bounds_iff)
  show "snd (timeline_bounds tline) \<le> x \<longleftrightarrow> 0 \<le> x \<and> (\<forall>y \<in> highs tline. y \<le> x)"
  proof (cases "0 \<le> x")
    case True
    have "\<forall>rs \<in> set (tl_ranges tline). snd (range_bounds rs) \<le> x \<longleftrightarrow> (\<forall>y \<in> dr_end ` set (tr_ranges rs). y \<le> x)"
      and "\<forall>es \<in> set (tl_event_str tline). snd (event_bounds es) \<le> x \<longleftrightarrow> (\<forall>y \<in> ev_at ` set (te_events es). y \<le> x)"
      and "\<forall>es \<in> set (tl_event_int tline). snd (event_bounds es) \<le> x \<longleftrightarrow> (\<forall>y \<in> ev_at ` set (te_events es). y \<le> x)"
      by (intro ballI encloses_high [OF r True] encloses_high [OF s True] encloses_high [OF i True]; assumption)+
    then show ?thesis unfolding timeline_bounds_iff highs_def ball_Un ball_UN using True by simp
  qed (simp add: timeline_bounds_iff)
qed

lemma finite_lows [simp]: "finite (lows tline)" "finite (highs tline)"
  by (simp_all add: lows_def highs_def)

text \<open>The bounds of ordered timelines are exact: the lower bound is the least of zero and all the times at
  which a range starts or an event happens, the upper bound the greatest of zero and all the times at
  which a range ends or an event happens.\<close>

theorem timelines_bounds_exact:
  assumes "list_all ordered_timeline tlines"
  shows "timelines_bounds tlines =
    (Min (insert 0 (\<Union> (lows ` set tlines))), Max (insert 0 (\<Union> (highs ` set tlines))))"
proof (rule prod_eqI)
  have o: "ordered_timeline tline" if "tline \<in> set tlines" for tline
    using assms that by (simp add: list_all_iff)
  have "x \<le> fst (timelines_bounds tlines) \<longleftrightarrow> x \<le> Min (insert 0 (\<Union> (lows ` set tlines)))" for x
    using encloses_timeline(1) [OF o] by (auto simp: timelines_bounds_def fold_widen_iff)
  then show "fst (timelines_bounds tlines) = fst (Min (insert 0 (\<Union> (lows ` set tlines))), Max (insert 0 (\<Union> (highs ` set tlines))))"
    by (metis fst_conv order_antisym order_refl)
  have "snd (timelines_bounds tlines) \<le> x \<longleftrightarrow> Max (insert 0 (\<Union> (highs ` set tlines))) \<le> x" for x
    using encloses_timeline(2) [OF o] by (auto simp: timelines_bounds_def fold_widen_iff)
  then show "snd (timelines_bounds tlines) = snd (Min (insert 0 (\<Union> (lows ` set tlines))), Max (insert 0 (\<Union> (highs ` set tlines))))"
    by (metis snd_conv order_antisym order_refl)
qed

theorem timelines_bounds_exact_witness:
  "timelines_bounds [\<lparr> tl_name = ''t'', tl_ranges = [sample_ranges], tl_event_str = [], tl_event_int = [sample_events] \<rparr>]
   = (0, 8)"
proof -
  let ?t = "\<lparr> tl_name = ''t'', tl_ranges = [sample_ranges], tl_event_str = [], tl_event_int = [sample_events] \<rparr>"
  have "list_all ordered_timeline [?t]" by code_simp
  from timelines_bounds_exact [OF this] show ?thesis
    by (simp add: lows_def highs_def sample_ranges_def sample_events_def)
qed

end
