(* ===== verification/Timeline_Read.thy ===== *)
theory Timeline_Read
  imports Timeline_Data Py_Regex
begin

text \<open>
  The reader of \<open>utils/grid.py\<close>: the colours of the range values, the four regular expressions of a data
  file, the loop of \<open>read_data\<close> over its lines and the range that \<open>main\<close> shows first.  Under Python 2
  the division of two integers rounds down.
\<close>

section \<open>Colours\<close>

record color =
  col_r :: int
  col_g :: int
  col_b :: int

definition set_color :: "int \<Rightarrow> int \<Rightarrow> int \<Rightarrow> color \<Rightarrow> color" where
  "set_color r g b c = c \<lparr> col_r := r, col_g := g, col_b := b \<rparr>"

text \<open>The list \<open>default_colors\<close> belongs to the class, so that all objects take colours from the same one.\<close>

record colors =
  col_names :: "(string, color) dict"
  col_free :: "color list"

abbreviation rgb :: "int \<Rightarrow> int \<Rightarrow> int \<Rightarrow> color" where
  "rgb r g b \<equiv> \<lparr> col_r = r, col_g = g, col_b = b \<rparr>"

definition default_colors :: "color list" where
  "default_colors = [rgb 1 0 0, rgb 0 1 0, rgb 0 0 1, rgb 1 1 0, rgb 1 0 1, rgb 0 1 1]"

definition add_color :: "string \<Rightarrow> color \<Rightarrow> colors \<Rightarrow> colors" where
  "add_color name c cs = cs \<lparr> col_names := dict_set (col_names cs) name c \<rparr>"

definition lookup_color :: "string \<Rightarrow> colors \<Rightarrow> (color \<times> colors) result" where
  "lookup_color name cs =
     rbind (if name \<notin> set (dict_keys (col_names cs)) then
              (if col_free cs = [] then Inl IndexError
               else Inr (add_color name (last (col_free cs)) (cs \<lparr> col_free := butlast (col_free cs) \<rparr>)))
            else Inr cs)
       (\<lambda>cs'. case dict_get (col_names cs') name of Some c \<Rightarrow> Inr (c, cs') | None \<Rightarrow> Inl KeyError)"

fun lookup_colors :: "string list \<Rightarrow> colors \<Rightarrow> (color list \<times> colors) result" where
  "lookup_colors [] cs = Inr ([], cs)"
| "lookup_colors (v # vs) cs =
     rbind (lookup_color v cs) (\<lambda>(c, cs1). rbind (lookup_colors vs cs1) (\<lambda>(xs, cs2). Inr (c # xs, cs2)))"

section \<open>The lines of a data file\<close>

datatype item =
    Range_item string string string int int
  | Event_str_item string string string int
  | Event_int_item string string int int
  | Color_item string color

text \<open>\<open>([^ ]+)\<close> followed by a space, and \<open>([0-9]+)\<close> with and without a space after it: the greedy choice is
  the only one that can match.\<close>

definition match_word :: "string \<Rightarrow> (string \<times> string) option" where
  "match_word s =
     (let w = takeWhile (\<lambda>c. c \<noteq> CHR '' '') s; r = dropWhile (\<lambda>c. c \<noteq> CHR '' '') s
      in if w = [] \<or> r = [] then None else Some (w, tl r))"

definition digits_space :: "string \<Rightarrow> (string \<times> string) option" where
  "digits_space s = Option.bind (match_digits s) (\<lambda>(w, r). map_option (Pair w) (match_lit '' '' r))"

definition int_of_digits :: "string \<Rightarrow> int" where
  "int_of_digits s = int (nat_of_str s)"

definition match_range :: "string \<Rightarrow> item option" where
  "match_range s =
     Option.bind (match_lit ''range '' s) (\<lambda>s1. Option.bind (match_word s1) (\<lambda>(name, s2).
     Option.bind (match_word s2) (\<lambda>(rname, s3). Option.bind (match_word s3) (\<lambda>(v, s4).
     Option.bind (digits_space s4) (\<lambda>(b, s5). Option.bind (match_digits s5) (\<lambda>(e, _).
       Some (Range_item name rname v (int_of_digits b) (int_of_digits e))))))))"

definition match_event_str :: "string \<Rightarrow> item option" where
  "match_event_str s =
     Option.bind (match_lit ''event-str '' s) (\<lambda>s1. Option.bind (match_word s1) (\<lambda>(name, s2).
     Option.bind (match_word s2) (\<lambda>(ename, s3). Option.bind (match_word s3) (\<lambda>(v, s4).
     Option.bind (match_digits s4) (\<lambda>(a, _). Some (Event_str_item name ename v (int_of_digits a)))))))"

definition match_event_int :: "string \<Rightarrow> item option" where
  "match_event_int s =
     Option.bind (match_lit ''event-int '' s) (\<lambda>s1. Option.bind (match_word s1) (\<lambda>(name, s2).
     Option.bind (match_word s2) (\<lambda>(ename, s3). Option.bind (digits_space s3) (\<lambda>(v, s4).
     Option.bind (match_digits s4) (\<lambda>(a, _).
       Some (Event_int_item name ename (int_of_digits v) (int_of_digits a)))))))"

definition hex_digit :: "char \<Rightarrow> nat option" where
  "hex_digit c =
     (let n = of_char c :: nat
      in if 48 \<le> n \<and> n \<le> 57 then Some (n - 48)
         else if 97 \<le> n \<and> n \<le> 102 then Some (n - 87)
         else if 65 \<le> n \<and> n \<le> 70 then Some (n - 55)
         else None)"

definition match_hex2 :: "string \<Rightarrow> (int \<times> string) option" where
  "match_hex2 s =
     (case s of a # b # r \<Rightarrow>
        Option.bind (hex_digit a) (\<lambda>x. map_option (\<lambda>y. (int (16 * x + y), r)) (hex_digit b))
      | _ \<Rightarrow> None)"

definition match_color :: "string \<Rightarrow> item option" where
  "match_color s =
     Option.bind (match_lit ''color '' s) (\<lambda>s1. Option.bind (match_word s1) (\<lambda>(name, s2).
     Option.bind (match_lit ''#'' s2) (\<lambda>s3. Option.bind (match_hex2 s3) (\<lambda>(r, s4).
     Option.bind (match_hex2 s4) (\<lambda>(g, s5). Option.bind (match_hex2 s5) (\<lambda>(b, _).
       Some (Color_item name (rgb (r div 255) (g div 255) (b div 255)))))))))"

definition parse_data_line :: "string \<Rightarrow> item option" where
  "parse_data_line s =
     (case match_range s of Some i \<Rightarrow> Some i
      | None \<Rightarrow> (case match_event_str s of Some i \<Rightarrow> Some i
      | None \<Rightarrow> (case match_event_int s of Some i \<Rightarrow> Some i
      | None \<Rightarrow> match_color s)))"

section \<open>Storing the items\<close>

text \<open>The objects that \<open>get\<close>, \<open>get_range\<close> and \<open>get_event_...\<close> return stay in their lists; what is done to
  them afterwards is done at their position.\<close>

definition put_range :: "string \<Rightarrow> ('t, string) data_range \<Rightarrow> 't timeline \<Rightarrow> 't timeline" where
  "put_range name r tline =
     (case get_range name tline of (i, t) \<Rightarrow>
        t \<lparr> tl_ranges := (tl_ranges t)[i := add_range r (tl_ranges t ! i)] \<rparr>)"

definition put_event_str :: "string \<Rightarrow> ('t, string) event \<Rightarrow> 't timeline \<Rightarrow> 't timeline" where
  "put_event_str name e tline =
     (case get_event_str name tline of (i, t) \<Rightarrow>
        t \<lparr> tl_event_str := (tl_event_str t)[i := add_event e (tl_event_str t ! i)] \<rparr>)"

definition put_event_int :: "string \<Rightarrow> ('t, int) event \<Rightarrow> 't timeline \<Rightarrow> 't timeline" where
  "put_event_int name e tline =
     (case get_event_int name tline of (i, t) \<Rightarrow>
        t \<lparr> tl_event_int := (tl_event_int t)[i := add_event e (tl_event_int t ! i)] \<rparr>)"

definition put_timeline :: "string \<Rightarrow> ('t timeline \<Rightarrow> 't timeline) \<Rightarrow> 't timeline list \<Rightarrow> 't timeline list" where
  "put_timeline name f tlines = (case get_timeline name tlines of (i, ts) \<Rightarrow> ts[i := f (ts ! i)])"

definition store_item :: "item \<Rightarrow> colors \<times> int timeline list \<Rightarrow> colors \<times> int timeline list" where
  "store_item it s = (case s of (cs, tlines) \<Rightarrow> (case it of
     Range_item name rname v b e \<Rightarrow>
       (cs, put_timeline name (put_range rname \<lparr> dr_start = b, dr_end = e, dr_value = v \<rparr>) tlines)
   | Event_str_item name ename v a \<Rightarrow>
       (cs, put_timeline name (put_event_str ename \<lparr> ev_at = a, ev_value = v \<rparr>) tlines)
   | Event_int_item name ename v a \<Rightarrow>
       (cs, put_timeline name (put_event_int ename \<lparr> ev_at = a, ev_value = v \<rparr>) tlines)
   | Color_item name c \<Rightarrow> (add_color name c cs, tlines)))"

definition read_line :: "string \<Rightarrow> colors \<times> int timeline list \<Rightarrow> colors \<times> int timeline list" where
  "read_line line s = (case parse_data_line line of Some it \<Rightarrow> store_item it s | None \<Rightarrow> s)"

definition read_data :: "string list \<Rightarrow> colors \<times> int timeline list" where
  "read_data lines =
     (case fold read_line lines (\<lparr> col_names = [], col_free = default_colors \<rparr>, []) of
        (cs, tlines) \<Rightarrow> (cs, sort_timelines tlines))"

section \<open>Finding what was stored\<close>

definition named :: "('a \<Rightarrow> string) \<Rightarrow> (string \<Rightarrow> 'a) \<Rightarrow> string \<Rightarrow> 'a list \<Rightarrow> 'a" where
  "named nm create n xs = (case List.find (\<lambda>x. nm x = n) xs of Some x \<Rightarrow> x | None \<Rightarrow> create n)"

definition upd_named :: "('a \<Rightarrow> string) \<Rightarrow> (string \<Rightarrow> 'a) \<Rightarrow> ('a \<Rightarrow> 'a) \<Rightarrow> string \<Rightarrow> 'a list \<Rightarrow> 'a list" where
  "upd_named nm create f n xs = (case find_or_add nm create n xs of (i, ys) \<Rightarrow> ys[i := f (ys ! i)])"

lemma upd_named_simps [simp]:
  "upd_named nm create f n [] = [f (create n)]"
  "upd_named nm create f n (x # xs) = (if nm x = n then f x # xs else x # upd_named nm create f n xs)"
  by (auto simp: upd_named_def split: prod.splits)

lemma named_simps [simp]:
  "named nm create n [] = create n"
  "named nm create n (x # xs) = (if nm x = n then x else named nm create n xs)"
  by (simp_all add: named_def)

text \<open>The contract of the lines: an object that \<open>create\<close> makes has the name it was made for, and the
  changes of the client keep names.\<close>

locale named_store =
  fixes nm :: "'a \<Rightarrow> string" and create :: "string \<Rightarrow> 'a" and keeps :: "('a \<Rightarrow> 'a) \<Rightarrow> bool"
  assumes nm_create: "nm (create n) = n"
    and nm_keeps: "keeps f \<Longrightarrow> nm (f x) = nm x"
begin

lemma named_upd:
  assumes "keeps f"
  shows "named nm create m (upd_named nm create f n xs) =
    (if m = n then f (named nm create n xs) else named nm create m xs)"
  by (induction xs) (auto simp: nm_create nm_keeps [OF assms])

lemma names_upd:
  assumes "keeps f"
  shows "map nm (upd_named nm create f n xs) = (if n \<in> set (map nm xs) then map nm xs else map nm xs @ [n])"
  by (induction xs) (auto simp: nm_create nm_keeps [OF assms])

lemma distinct_upd: "keeps f \<Longrightarrow> distinct (map nm xs) \<Longrightarrow> distinct (map nm (upd_named nm create f n xs))"
  by (subst names_upd) auto

lemma nm_named: "nm (named nm create n xs) = n"
  by (induction xs) (auto simp: nm_create)

lemma named_map: "keeps f \<Longrightarrow> f (create n) = create n \<Longrightarrow> named nm create n (map f xs) = f (named nm create n xs)"
  by (induction xs) (auto simp: nm_keeps)

end

interpretation range_lines: named_store tr_name new_ranges "\<lambda>f. \<forall>x. tr_name (f x) = tr_name x"
  by unfold_locales (auto simp: new_ranges_def)

interpretation event_lines: named_store te_name new_events "\<lambda>f. \<forall>x. te_name (f x) = te_name x"
  by unfold_locales (auto simp: new_events_def)

interpretation timeline_lines: named_store tl_name new_timeline "\<lambda>f. \<forall>x. tl_name (f x) = tl_name x"
  by unfold_locales (auto simp: new_timeline_def)

lemma name_kept [simp]:
  "tr_name (add_range r rs) = tr_name rs" "te_name (add_event e es) = te_name es"
  "tr_name (sort_ranges rs) = tr_name rs" "te_name (sort_events es) = te_name es"
  "tl_name (sort_timeline tline) = tl_name tline"
  by (simp_all add: add_range_def add_event_def sort_ranges_def sort_events_def sort_timeline_def)

lemma put_range_upd:
  "put_range n r tline = tline \<lparr> tl_ranges := upd_named tr_name new_ranges (add_range r) n (tl_ranges tline) \<rparr>"
  by (simp add: put_range_def get_range_def upd_named_def split: prod.splits)

lemma put_event_str_upd:
  "put_event_str n e tline = tline \<lparr> tl_event_str := upd_named te_name new_events (add_event e) n (tl_event_str tline) \<rparr>"
  by (simp add: put_event_str_def get_event_str_def upd_named_def split: prod.splits)

lemma put_event_int_upd:
  "put_event_int n e tline = tline \<lparr> tl_event_int := upd_named te_name new_events (add_event e) n (tl_event_int tline) \<rparr>"
  by (simp add: put_event_int_def get_event_int_def upd_named_def split: prod.splits)

lemma put_timeline_upd: "put_timeline n f tlines = upd_named tl_name new_timeline f n tlines"
  by (simp add: put_timeline_def get_timeline_def upd_named_def)

lemmas put_upd = put_range_upd put_event_str_upd put_event_int_upd put_timeline_upd

lemma put_name [simp]:
  "tl_name (put_range n r tline) = tl_name tline"
  "tl_name (put_event_str n e1 tline) = tl_name tline"
  "tl_name (put_event_int n e2 tline) = tl_name tline"
  by (simp_all add: put_upd)

definition ranges_at :: "string \<Rightarrow> string \<Rightarrow> 't timeline list \<Rightarrow> ('t, string) data_range list" where
  "ranges_at n m tlines = tr_ranges (named tr_name new_ranges m (tl_ranges (named tl_name new_timeline n tlines)))"

definition event_strs_at :: "string \<Rightarrow> string \<Rightarrow> 't timeline list \<Rightarrow> ('t, string) event list" where
  "event_strs_at n m tlines = te_events (named te_name new_events m (tl_event_str (named tl_name new_timeline n tlines)))"

definition event_ints_at :: "string \<Rightarrow> string \<Rightarrow> 't timeline list \<Rightarrow> ('t, int) event list" where
  "event_ints_at n m tlines = te_events (named te_name new_events m (tl_event_int (named tl_name new_timeline n tlines)))"

fun item_ranges :: "string \<Rightarrow> string \<Rightarrow> item \<Rightarrow> (int, string) data_range list" where
  "item_ranges n m (Range_item name rname v b e) =
     (if name = n \<and> rname = m then [\<lparr> dr_start = b, dr_end = e, dr_value = v \<rparr>] else [])"
| "item_ranges n m it = []"

fun item_event_strs :: "string \<Rightarrow> string \<Rightarrow> item \<Rightarrow> (int, string) event list" where
  "item_event_strs n m (Event_str_item name ename v a) =
     (if name = n \<and> ename = m then [\<lparr> ev_at = a, ev_value = v \<rparr>] else [])"
| "item_event_strs n m it = []"

fun item_event_ints :: "string \<Rightarrow> string \<Rightarrow> item \<Rightarrow> (int, int) event list" where
  "item_event_ints n m (Event_int_item name ename v a) =
     (if name = n \<and> ename = m then [\<lparr> ev_at = a, ev_value = v \<rparr>] else [])"
| "item_event_ints n m it = []"

fun item_colors :: "item \<Rightarrow> (string \<times> color) list" where
  "item_colors (Color_item name c) = [(name, c)]"
| "item_colors it = []"

lemma store_item_at:
  "ranges_at n m (snd (store_item it (cs, tlines))) = ranges_at n m tlines @ item_ranges n m it"
  "event_strs_at n m (snd (store_item it (cs, tlines))) = event_strs_at n m tlines @ item_event_strs n m it"
  "event_ints_at n m (snd (store_item it (cs, tlines))) = event_ints_at n m tlines @ item_event_ints n m it"
  by (cases it; simp add: store_item_def put_timeline_upd ranges_at_def event_strs_at_def event_ints_at_def
      timeline_lines.named_upd;
      simp add: put_upd range_lines.named_upd event_lines.named_upd add_range_def add_event_def)+

definition items_of :: "string list \<Rightarrow> item list" where
  "items_of lines = concat (map (\<lambda>l. case parse_data_line l of Some it \<Rightarrow> [it] | None \<Rightarrow> []) lines)"

lemma read_lines_store: "fold read_line lines s = fold store_item (items_of lines) s"
  by (induction lines arbitrary: s) (simp_all add: items_of_def read_line_def split: option.splits)

lemma store_items_at:
  "ranges_at n m (snd (fold store_item its s)) = ranges_at n m (snd s) @ concat (map (item_ranges n m) its)"
  "event_strs_at n m (snd (fold store_item its s)) = event_strs_at n m (snd s) @ concat (map (item_event_strs n m) its)"
  "event_ints_at n m (snd (fold store_item its s)) = event_ints_at n m (snd s) @ concat (map (item_event_ints n m) its)"
  by (induction its arbitrary: s; simp add: store_item_at [of _ _ _ "fst s" "snd s" for s, simplified])+

lemma sort_new [simp]:
  "sort_timeline (new_timeline n) = new_timeline n"
  "sort_ranges (new_ranges n) = new_ranges n"
  "sort_events (new_events n) = new_events n"
  by (simp_all add: sort_timeline_def sort_ranges_def sort_events_def new_timeline_def new_ranges_def
      new_events_def sort_cmp_def)

lemma sort_timelines_at:
  "ranges_at n m (sort_timelines tlines) = sort_key dr_start (ranges_at n m tlines)"
  "event_strs_at n m (sort_timelines tlines) = sort_key ev_at (event_strs_at n m tlines)"
  "event_ints_at n m (sort_timelines tlines) = sort_key ev_at (event_ints_at n m tlines)"
  unfolding sort_timelines_def ranges_at_def event_strs_at_def event_ints_at_def
  by (simp_all add: timeline_lines.named_map sort_timeline_def [of "named _ _ _ _"] range_lines.named_map
      event_lines.named_map)
    (simp_all add: sort_ranges_def sort_events_def sort_ranges_key sort_events_key)

definition distinct_names :: "'t timeline list \<Rightarrow> bool" where
  "distinct_names tlines \<longleftrightarrow> distinct (map tl_name tlines)
     \<and> list_all (\<lambda>t. distinct (map tr_name (tl_ranges t)) \<and> distinct (map te_name (tl_event_str t))
          \<and> distinct (map te_name (tl_event_int t))) tlines"

lemma list_all_upd_named:
  "list_all P xs \<Longrightarrow> (\<And>x. P x \<Longrightarrow> P (f x)) \<Longrightarrow> P (create n) \<Longrightarrow> list_all P (upd_named nm create f n xs)"
  by (induction xs) auto

lemma distinct_names_store:
  "distinct_names (snd s) \<Longrightarrow> distinct_names (snd (store_item it s))"
  by (cases s; cases it; simp add: store_item_def put_timeline_upd distinct_names_def timeline_lines.distinct_upd;
      intro list_all_upd_named;
      simp add: put_upd new_timeline_def range_lines.distinct_upd event_lines.distinct_upd)

lemma distinct_names_sort: "distinct_names (sort_timelines tlines) = distinct_names tlines"
  by (simp add: distinct_names_def sort_timelines_def sort_timeline_def comp_def list.pred_map)

lemma distinct_names_fold: "distinct_names (snd s) \<Longrightarrow> distinct_names (snd (fold store_item its s))"
  by (induction its arbitrary: s) (simp_all add: distinct_names_store)

lemma read_data_items:
  "snd (read_data lines) = sort_timelines (snd (fold store_item (items_of lines) (\<lparr> col_names = [], col_free = default_colors \<rparr>, [])))"
  by (simp add: read_data_def read_lines_store split: prod.splits)

lemma store_items_colors:
  "dict_get (col_names (fst (fold store_item its s))) v =
     dict_get (rev (concat (map item_colors its)) @ col_names (fst s)) v"
proof (induction its arbitrary: s)
  case (Cons it its)
  have "dict_get (col_names (fst (store_item it s))) v = dict_get (item_colors it @ col_names (fst s)) v"
    by (cases s; cases it) (auto simp: store_item_def add_color_def update_conv)
  moreover have "length (item_colors it) \<le> 1" by (cases it) simp_all
  then have "rev (item_colors it) = item_colors it" by (cases "item_colors it") simp_all
  ultimately show ?case using Cons by (simp add: map_add_def split: option.splits)
qed simp

text \<open>What a data file puts on a line is found there, for any file: the ranges, string events and integer
  events of line m of timeline n are those of the file's lines that name n and m, in the order of their
  times and, among equal times, of the file; the colour of a value is the last one the file gives it; no
  two timelines and no two lines of a timeline have the same name.\<close>

theorem read_data_contents:
  "ranges_at n m (snd (read_data lines)) = sort_key dr_start (concat (map (item_ranges n m) (items_of lines)))
   \<and> event_strs_at n m (snd (read_data lines)) = sort_key ev_at (concat (map (item_event_strs n m) (items_of lines)))
   \<and> event_ints_at n m (snd (read_data lines)) = sort_key ev_at (concat (map (item_event_ints n m) (items_of lines)))
   \<and> dict_get (col_names (fst (read_data lines))) v = dict_get (rev (concat (map item_colors (items_of lines)))) v
   \<and> distinct_names (snd (read_data lines))"
proof -
  have "ranges_at n m [] = ([] :: (int, string) data_range list)"
    "event_strs_at n m [] = ([] :: (int, string) event list)" "event_ints_at n m [] = ([] :: (int, int) event list)"
    by (simp_all add: ranges_at_def event_strs_at_def event_ints_at_def new_timeline_def new_ranges_def new_events_def)
  moreover have "distinct_names (snd (read_data lines))"
    unfolding read_data_items distinct_names_sort
    by (rule distinct_names_fold) (simp add: distinct_names_def)
  moreover have "fst (read_data lines) = fst (fold store_item (items_of lines) (\<lparr> col_names = [], col_free = default_colors \<rparr>, []))"
    by (simp add: read_data_def read_lines_store split: prod.splits)
  ultimately show ?thesis
    unfolding read_data_items sort_timelines_at store_items_at by (simp add: store_items_colors)
qed

section \<open>Colours of the values\<close>

definition give_colors :: "string list \<Rightarrow> colors \<Rightarrow> colors" where
  "give_colors vs cs = \<lparr> col_names = col_names cs @ zip vs (rev (col_free cs)),
     col_free = take (length (col_free cs) - length vs) (col_free cs) \<rparr>"

definition unnamed :: "string list \<Rightarrow> colors \<Rightarrow> string list" where
  "unnamed vs cs = filter (\<lambda>v. v \<notin> set (dict_keys (col_names cs))) vs"

lemma dict_get_app:
  "k \<in> fst ` set d \<Longrightarrow> (m ++ map_of d) k = map_of d k" "k \<notin> fst ` set d \<Longrightarrow> (m ++ map_of d) k = m k"
  by (simp_all add: map_add_dom_app_simps dom_map_of_conv_image_fst)

lemma lookup_color_cases:
  "lookup_color v cs =
     (if v \<in> set (dict_keys (col_names cs)) then Inr (the (dict_get (col_names cs) v), cs)
      else if col_free cs = [] then Inl IndexError
      else Inr (last (col_free cs), give_colors [v] cs))"
proof (cases "v \<in> set (dict_keys (col_names cs))")
  case True
  then obtain c where "dict_get (col_names cs) v = Some c" using dict_key_get by fast
  then show ?thesis using True by (simp add: lookup_color_def)
next
  case False
  then show ?thesis
    by (cases "col_free cs" rule: rev_exhaust)
      (simp_all add: lookup_color_def give_colors_def add_color_def dict_set_new dict_get_app)
qed

lemma give_colors_Cons:
  assumes "col_free cs \<noteq> []"
  shows "give_colors vs (give_colors [v] cs) = give_colors (v # vs) cs"
  using assms by (cases "col_free cs" rule: rev_exhaust) (simp_all add: give_colors_def)

lemma dict_get_give_old:
  "v \<in> set (dict_keys (col_names cs)) \<Longrightarrow> dict_get (col_names (give_colors vs cs)) v = dict_get (col_names cs) v"
  by (simp add: give_colors_def dict_get_app)

lemma unnamed_give:
  assumes "col_free cs \<noteq> []" "v \<notin> set vs"
  shows "unnamed vs (give_colors [v] cs) = unnamed vs cs"
  using assms by (cases "col_free cs" rule: rev_exhaust) (auto simp: give_colors_def unnamed_def intro!: filter_cong)

text \<open>Colours of distinct values: the values that the data file names keep their colours, the others get
  the default colours from the end of the list, each one once, and there is an IndexError exactly when
  there are more of them than default colours left.\<close>

theorem lookup_colors_outcome:
  assumes "distinct vs"
  shows "lookup_colors vs cs =
    (if length (unnamed vs cs) \<le> length (col_free cs)
     then (let cs' = give_colors (unnamed vs cs) cs in Inr (map (\<lambda>v. the (dict_get (col_names cs') v)) vs, cs'))
     else Inl IndexError)"
  using assms
proof (induction vs arbitrary: cs)
  case Nil
  then show ?case by (simp add: unnamed_def give_colors_def)
next
  case (Cons v vs)
  show ?case
  proof (cases "v \<in> set (dict_keys (col_names cs))")
    case True
    then have "unnamed (v # vs) cs = unnamed vs cs" by (simp add: unnamed_def)
    then show ?thesis using True Cons by (simp add: lookup_color_cases dict_get_give_old Let_def)
  next
    case False
    then have u: "unnamed (v # vs) cs = v # unnamed vs cs" by (simp add: unnamed_def)
    show ?thesis
    proof (cases "col_free cs" rule: rev_exhaust)
      case Nil
      then show ?thesis using False u by (simp add: lookup_color_cases)
    next
      case (snoc fs c)
      let ?cs1 = "give_colors [v] cs"
      have f: "col_free ?cs1 = fs" "last (col_free cs) = c" using snoc by (simp_all add: give_colors_def)
      have ne: "col_free cs \<noteq> []" using snoc by simp
      have "dict_get (col_names ?cs1) v = Some c"
        using False snoc by (simp add: give_colors_def dict_get_app)
      moreover have "v \<in> set (dict_keys (col_names ?cs1))" using snoc by (simp add: give_colors_def)
      ultimately have v: "dict_get (col_names (give_colors (v # unnamed vs cs) cs)) v = Some c"
        using dict_get_give_old [of v ?cs1] give_colors_Cons [OF ne] by metis
      have "v \<notin> set vs" "distinct vs" using Cons.prems by simp_all
      then show ?thesis
        using Cons.IH [of ?cs1] False u f ne v snoc
        by (simp add: lookup_color_cases unnamed_give give_colors_Cons Let_def)
    qed
  qed
qed

theorem lookup_colors_outcome_witness:
  "lookup_colors [''b'', ''a''] (add_color ''a'' (rgb 1 1 1) \<lparr> col_names = [], col_free = default_colors \<rparr>)
   = Inr ([rgb 0 1 1, rgb 1 1 1],
       \<lparr> col_names = [(''a'', rgb 1 1 1), (''b'', rgb 0 1 1)], col_free = butlast default_colors \<rparr>)"
proof -
  have "distinct [''b'', ''a'']" by simp
  from lookup_colors_outcome [OF this] show ?thesis
    by (simp add: unnamed_def give_colors_def add_color_def default_colors_def Let_def)
qed

text \<open>The two digits of a component are divided by 255 in integers: it is 1 for \<open>ff\<close> and 0 otherwise.\<close>

lemma hex_digit_range: "hex_digit c = Some n \<Longrightarrow> n \<le> 15"
  by (simp add: hex_digit_def Let_def split: if_splits)

lemma match_hex2_range:
  assumes "match_hex2 s = Some (x, r)"
  shows "0 \<le> x \<and> x \<le> 255"
proof -
  obtain a b m n where "hex_digit a = Some m" "hex_digit b = Some n" "x = int (16 * m + n)"
    using assms by (auto simp: match_hex2_def bind_eq_Some_conv split: list.splits)
  then show ?thesis using hex_digit_range [of a m] hex_digit_range [of b n] by simp
qed

lemma match_color_saturated:
  "match_color s = Some (Color_item name c) \<Longrightarrow> col_r c \<in> {0, 1} \<and> col_g c \<in> {0, 1} \<and> col_b c \<in> {0, 1}"
proof -
  have d: "x div 255 = 0 \<or> x div 255 = 1" if "0 \<le> x" "x \<le> 255" for x :: int using that by presburger
  assume "match_color s = Some (Color_item name c)"
  then show ?thesis
    by (auto simp: match_color_def bind_eq_Some_conv dest!: match_hex2_range dest: d)
qed

section \<open>Written lines\<close>

definition is_word :: "string \<Rightarrow> bool" where
  "is_word w \<longleftrightarrow> w \<noteq> [] \<and> CHR '' '' \<notin> set w"

definition hex_component :: "int \<Rightarrow> string" where
  "hex_component x = (if x = 1 then ''ff'' else ''00'')"

fun show_item :: "item \<Rightarrow> string" where
  "show_item (Range_item n m v b e) =
     ''range '' @ n @ '' '' @ m @ '' '' @ v @ '' '' @ nat_str (nat b) @ '' '' @ nat_str (nat e) @ newline"
| "show_item (Event_str_item n m v a) =
     ''event-str '' @ n @ '' '' @ m @ '' '' @ v @ '' '' @ nat_str (nat a) @ newline"
| "show_item (Event_int_item n m v a) =
     ''event-int '' @ n @ '' '' @ m @ '' '' @ nat_str (nat v) @ '' '' @ nat_str (nat a) @ newline"
| "show_item (Color_item n c) =
     ''color '' @ n @ '' #'' @ hex_component (col_r c) @ hex_component (col_g c) @ hex_component (col_b c) @ newline"

fun item_ok :: "item \<Rightarrow> bool" where
  "item_ok (Range_item n m v b e) \<longleftrightarrow> is_word n \<and> is_word m \<and> is_word v \<and> 0 \<le> b \<and> 0 \<le> e"
| "item_ok (Event_str_item n m v a) \<longleftrightarrow> is_word n \<and> is_word m \<and> is_word v \<and> 0 \<le> a"
| "item_ok (Event_int_item n m v a) \<longleftrightarrow> is_word n \<and> is_word m \<and> 0 \<le> v \<and> 0 \<le> a"
| "item_ok (Color_item n c) \<longleftrightarrow>
     is_word n \<and> col_r c \<in> {0, 1} \<and> col_g c \<in> {0, 1} \<and> col_b c \<in> {0, 1}"

lemma match_word_app [simp]: "is_word w \<Longrightarrow> match_word (w @ CHR '' '' # r) = Some (w, r)"
proof -
  assume w: "is_word w"
  then have "list_all (\<lambda>c. c \<noteq> CHR '' '') w" by (auto simp: is_word_def list_all_iff)
  from takeWhile_until [OF this, of "CHR '' '' # r"] w show ?thesis
    by (simp add: match_word_def is_word_def Let_def)
qed

lemma match_digits_newline [simp]: "match_digits (nat_str n @ newline) = Some (nat_str n, newline)"
  by (rule match_digits_app) (simp add: is_digit_def)

lemma digits_space_app [simp]: "digits_space (nat_str n @ CHR '' '' # r) = Some (nat_str n, r)"
proof -
  have "match_digits (nat_str n @ CHR '' '' # r) = Some (nat_str n, CHR '' '' # r)"
    by (rule match_digits_app) (simp add: is_digit_def)
  then show ?thesis by (simp add: digits_space_def match_lit_def startswith_def)
qed

lemma match_hex2_component [simp]:
  "match_hex2 (hex_component x @ r) = Some (if x = 1 then 255 else 0, r)"
  by (simp add: match_hex2_def hex_component_def hex_digit_def)

lemma int_of_digits_str [simp]: "0 \<le> i \<Longrightarrow> int_of_digits (nat_str (nat i)) = i"
  by (simp add: int_of_digits_def)

lemmas match_defs = match_range_def match_event_str_def match_event_int_def match_color_def

text \<open>A line that is written for an item, with words without spaces, times that are not negative and
  saturated colours, is read back as that item.\<close>

theorem parse_show_item:
  assumes "item_ok it"
  shows "parse_data_line (show_item it) = Some it"
proof (cases it)
  case (Range_item n m v b e)
  then show ?thesis using assms by (simp add: parse_data_line_def match_defs match_lit_Cons)
next
  case (Event_str_item n m v a)
  then show ?thesis using assms by (simp add: parse_data_line_def match_defs match_lit_Cons)
next
  case (Event_int_item n m v a)
  then show ?thesis using assms by (simp add: parse_data_line_def match_defs match_lit_Cons)
next
  case (Color_item n c)
  then have "rgb (if col_r c = 1 then 1 else 0) (if col_g c = 1 then 1 else 0) (if col_b c = 1 then 1 else 0) = c"
    using assms by auto
  then show ?thesis
    using assms Color_item by (simp add: parse_data_line_def match_defs match_lit_Cons if_distrib [of "\<lambda>x. x div 255"] cong: if_cong)
qed

theorem parse_show_item_witness:
  "parse_data_line (''range node state up 4 12'' @ newline) = Some (Range_item ''node'' ''state'' ''up'' 4 12)"
proof -
  have "item_ok (Range_item ''node'' ''state'' ''up'' 4 12)" by (simp add: is_word_def)
  moreover have "nat_str 4 = ''4''" "nat_str 12 = ''12''" by code_simp+
  ultimately show ?thesis using parse_show_item [of "Range_item ''node'' ''state'' ''up'' 4 12"] by simp
qed

end
