(* ===== verification/Py_Num.thy ===== *)
theory Py_Num
  imports Complex_Main Py_Prelude
begin

text \<open>
  The numbers of \<open>utils/grid.py\<close>, which runs under Python 2 only: an integer or a float.  Mixed operations give a float, the division of
  two integers rounds down, and comparisons look at the values only.  A float is its exact value, a
  rational number: rounding is not modelled.
\<close>

section \<open>Numbers and their operations\<close>

datatype pynum = PyInt int | PyFloat rat

fun pval :: "pynum \<Rightarrow> rat" where
  "pval (PyInt i) = of_int i"
| "pval (PyFloat r) = r"

fun is_float :: "pynum \<Rightarrow> bool" where
  "is_float (PyInt i) \<longleftrightarrow> False"
| "is_float (PyFloat r) \<longleftrightarrow> True"

definition arith :: "(int \<Rightarrow> int \<Rightarrow> int) \<Rightarrow> (rat \<Rightarrow> rat \<Rightarrow> rat) \<Rightarrow> pynum \<Rightarrow> pynum \<Rightarrow> pynum" where
  "arith f g a b = (case (a, b) of (PyInt x, PyInt y) \<Rightarrow> PyInt (f x y) | _ \<Rightarrow> PyFloat (g (pval a) (pval b)))"

instantiation pynum :: "{zero, one, plus, minus, uminus, times, ord}"
begin

definition zero_pynum :: pynum where "zero_pynum = PyInt 0"
definition one_pynum :: pynum where "one_pynum = PyInt 1"
definition plus_pynum :: "pynum \<Rightarrow> pynum \<Rightarrow> pynum" where "plus_pynum = arith (+) (+)"
definition minus_pynum :: "pynum \<Rightarrow> pynum \<Rightarrow> pynum" where "minus_pynum = arith (-) (-)"
definition times_pynum :: "pynum \<Rightarrow> pynum \<Rightarrow> pynum" where "times_pynum = arith (*) (*)"
definition uminus_pynum :: "pynum \<Rightarrow> pynum" where "uminus_pynum a = PyInt 0 - a"
definition less_pynum :: "pynum \<Rightarrow> pynum \<Rightarrow> bool" where "less_pynum a b \<longleftrightarrow> pval a < pval b"
definition less_eq_pynum :: "pynum \<Rightarrow> pynum \<Rightarrow> bool" where "less_eq_pynum a b \<longleftrightarrow> pval a \<le> pval b"

instance ..

end

instance pynum :: semigroup_add
  by standard (auto simp: plus_pynum_def arith_def split: pynum.splits)

instance pynum :: numeral ..

instance pynum :: preorder
  by standard (auto simp: less_pynum_def less_eq_pynum_def)

text \<open>\<open>a == b\<close>, division and remainder with and without the check of the divisor, \<open>max\<close>, \<open>min\<close>,
  \<open>abs\<close>, \<open>int\<close> and \<open>float\<close>.\<close>

definition peq :: "pynum \<Rightarrow> pynum \<Rightarrow> bool" where
  "peq a b \<longleftrightarrow> pval a = pval b"

definition pquot :: "pynum \<Rightarrow> pynum \<Rightarrow> pynum" where
  "pquot a b = arith (div) (/) a b"

definition pdiv :: "pynum \<Rightarrow> pynum \<Rightarrow> pynum result" where
  "pdiv a b = (if peq b 0 then Inl ZeroDivisionError else Inr (pquot a b))"

definition pmod :: "pynum \<Rightarrow> pynum \<Rightarrow> pynum result" where
  "pmod a b =
     (if peq b 0 then Inl ZeroDivisionError
      else Inr (arith (mod) (\<lambda>x y. x - y * of_int \<lfloor>x / y\<rfloor>) a b))"

definition pmax :: "pynum \<Rightarrow> pynum \<Rightarrow> pynum" where
  "pmax a b = (if a < b then b else a)"

definition pmin :: "pynum \<Rightarrow> pynum \<Rightarrow> pynum" where
  "pmin a b = (if b < a then b else a)"

definition pabs :: "pynum \<Rightarrow> pynum" where
  "pabs a = (if a < 0 then - a else a)"

definition py_int :: "pynum \<Rightarrow> int" where
  "py_int a = (if pval a < 0 then - \<lfloor>- pval a\<rfloor> else \<lfloor>pval a\<rfloor>)"

definition py_float :: "pynum \<Rightarrow> pynum" where
  "py_float a = PyFloat (pval a)"

text \<open>\<open>range(a, b, step)\<close> for a positive step.\<close>

definition py_range :: "int \<Rightarrow> int \<Rightarrow> int \<Rightarrow> int list" where
  "py_range a b step = map (\<lambda>k. a + step * int k) [0 ..< nat ((b - a + step - 1) div step)]"

section \<open>Values\<close>

lemma pval_0 [simp]: "pval 0 = 0" and pval_1 [simp]: "pval 1 = 1"
  by (simp_all add: zero_pynum_def one_pynum_def)

lemma pval_arith [simp]:
  "pval (a + b) = pval a + pval b" "pval (a - b) = pval a - pval b" "pval (a * b) = pval a * pval b"
  "pval (- a) = - pval a"
  by (auto simp: plus_pynum_def minus_pynum_def times_pynum_def uminus_pynum_def arith_def split: pynum.splits)

lemma PyInt_ops [simp]:
  "PyInt a + PyInt b = PyInt (a + b)" "PyInt a - PyInt b = PyInt (a - b)" "PyInt a * PyInt b = PyInt (a * b)"
  by (simp_all add: plus_pynum_def minus_pynum_def times_pynum_def arith_def)

lemma numeral_PyInt: "numeral n = PyInt (numeral n)"
proof (induction n)
  case One
  show ?case by (simp add: numeral_One one_pynum_def)
next
  case (Bit0 n)
  then show ?case by (metis PyInt_ops(1) numeral_Bit0)
next
  case (Bit1 n)
  then show ?case by (metis PyInt_ops(1) numeral_Bit1 one_pynum_def)
qed

lemma pval_numeral [simp]: "pval (numeral n) = numeral n"
  by (simp add: numeral_PyInt)

lemma is_float_simps [simp]:
  "\<not> is_float 0" "\<not> is_float 1" "\<not> is_float (numeral n)"
  "is_float (a + b) \<longleftrightarrow> is_float a \<or> is_float b" "is_float (a - b) \<longleftrightarrow> is_float a \<or> is_float b"
  "is_float (a * b) \<longleftrightarrow> is_float a \<or> is_float b" "is_float (pquot a b) \<longleftrightarrow> is_float a \<or> is_float b"
  "is_float (py_float a)"
  by (auto simp: zero_pynum_def one_pynum_def numeral_PyInt plus_pynum_def minus_pynum_def times_pynum_def
      pquot_def arith_def py_float_def split: pynum.splits)

lemma pval_py_float [simp]: "pval (py_float a) = pval a"
  by (simp add: py_float_def)

lemma pval_pquot_float: "is_float a \<or> is_float b \<Longrightarrow> pval (pquot a b) = pval a / pval b"
  by (auto simp: pquot_def arith_def split: pynum.splits)

lemma pquot_PyInt [simp]: "pquot (PyInt a) (PyInt b) = PyInt (a div b)"
  by (simp add: pquot_def arith_def)

lemma pnum_less [simp]: "a < b \<longleftrightarrow> pval a < pval b" for a b :: pynum
  by (simp add: less_pynum_def)

lemma pnum_le [simp]: "a \<le> b \<longleftrightarrow> pval a \<le> pval b" for a b :: pynum
  by (simp add: less_eq_pynum_def)

lemma pval_max [simp]: "pval (pmax a b) = max (pval a) (pval b)"
  by (simp add: pmax_def)

lemma pval_min [simp]: "pval (pmin a b) = min (pval a) (pval b)"
  by (simp add: pmin_def)

lemma pval_abs [simp]: "pval (pabs a) = \<bar>pval a\<bar>"
  by (simp add: pabs_def)

lemma pynum_eqI: "pval a = pval b \<Longrightarrow> is_float a = is_float b \<Longrightarrow> a = b"
  by (cases a; cases b) auto

text \<open>The remainder lies between 0 and a positive divisor, and taking it away leaves a multiple.\<close>

lemma pmod_positive:
  assumes "0 < b" "pmod a b = Inr m"
  shows "0 \<le> pval m" "pval m < pval b" "\<exists>k :: int. pval a - pval m = of_int k * pval b"
proof -
  have b: "0 < pval b" using assms(1) by simp
  have "0 \<le> pval m \<and> pval m < pval b \<and> (\<exists>k :: int. pval a - pval m = of_int k * pval b)"
  proof (cases "is_float a \<or> is_float b")
    case True
    then have m: "pval m = pval a - pval b * of_int \<lfloor>pval a / pval b\<rfloor>"
      using assms(2) b by (auto simp: pmod_def peq_def arith_def split: pynum.splits)
    have "of_int \<lfloor>pval a / pval b\<rfloor> * pval b \<le> pval a"
      using b by (rule floor_divide_lower)
    moreover have "pval a < (of_int \<lfloor>pval a / pval b\<rfloor> + 1) * pval b"
      using b by (rule floor_divide_upper)
    ultimately have "of_int \<lfloor>pval a / pval b\<rfloor> * pval b \<le> pval a" "pval a < (of_int \<lfloor>pval a / pval b\<rfloor> + 1) * pval b"
      by simp_all
    then show ?thesis unfolding m by (auto simp: algebra_simps intro: exI [of _ "\<lfloor>pval a / pval b\<rfloor>"])
  next
    case False
    then obtain x y where xy: "a = PyInt x" "b = PyInt y" by (cases a; cases b) auto
    then have y: "0 < y" using b by simp
    have m: "m = PyInt (x mod y)" using assms(2) xy y by (simp add: pmod_def peq_def arith_def)
    have "of_int x - of_int (x mod y) = (of_int (x div y) * of_int y :: rat)"
      by (metis div_mult_mod_eq add_diff_cancel_right' of_int_diff of_int_mult)
    then show ?thesis using y m xy by auto
  qed
  then show "0 \<le> pval m" "pval m < pval b" "\<exists>k :: int. pval a - pval m = of_int k * pval b" by auto
qed

lemma py_int_of_int [simp]: "pval a = of_int i \<Longrightarrow> py_int a = i"
  by (simp add: py_int_def)

lemma zle_div_iff: "0 < (c :: int) \<Longrightarrow> a \<le> b div c \<longleftrightarrow> a * c \<le> b"
proof
  assume c: "0 < c" and "a \<le> b div c"
  then have "a * c \<le> (b div c) * c" by (simp add: mult_right_mono)
  also have "\<dots> \<le> b" using c by (metis pos_mod_sign minus_mod_eq_div_mult diff_ge_0_iff_ge le_diff_eq add.commute diff_add_cancel le_add_same_cancel1)
  finally show "a * c \<le> b" .
next
  assume "0 < c" "a * c \<le> b"
  then show "a \<le> b div c" using zdiv_mono1 [of "a * c" b c] by simp
qed

lemma set_py_range:
  assumes "0 < step"
  shows "x \<in> set (py_range a b step) \<longleftrightarrow> (\<exists>k :: int. 0 \<le> k \<and> x = a + step * k) \<and> x < b"
proof
  assume "x \<in> set (py_range a b step)"
  then obtain k :: nat where k: "int k < (b - a + step - 1) div step" "x = a + step * int k"
    by (auto simp: py_range_def zless_nat_eq_int_zless)
  then have "int k + 1 \<le> (b - a + step - 1) div step" by simp
  then have "(int k + 1) * step \<le> b - a + step - 1"
    using assms by (simp add: pos_imp_zdiv_nonneg_iff zle_div_iff)
  then have "x < b" using k by (simp add: algebra_simps)
  then show "(\<exists>k :: int. 0 \<le> k \<and> x = a + step * k) \<and> x < b" using k by (intro conjI exI [of _ "int k"]) simp_all
next
  assume "(\<exists>k :: int. 0 \<le> k \<and> x = a + step * k) \<and> x < b"
  then obtain k where k: "0 \<le> k" "x = a + step * k" "x < b" by auto
  then have "(k + 1) * step \<le> b - a + step - 1" by (simp add: algebra_simps)
  then have "k + 1 \<le> (b - a + step - 1) div step" using assms by (simp add: zle_div_iff)
  then show "x \<in> set (py_range a b step)"
    using k unfolding py_range_def by (auto intro!: image_eqI [of _ _ "nat k"])
qed

lemma length_py_range: "length (py_range a b step) = nat ((b - a + step - 1) div step)"
  by (simp add: py_range_def)

end
