(* ===== verification/Timeline_Draw.thy ===== *)
theory Timeline_Draw
  imports Timeline_Read Py_Num
begin

text \<open>
  The renderers of \<open>utils/grid.py\<close>, a script for Python 2: the legend of the colours, the lines of a timeline, and the scales.
  Drawing is the list of the calls of the cairo context; the extents of a text come from cairo and are a
  parameter.  An attribute that a method sets later is an option, absent before.
\<close>

section \<open>Calls of the drawing context\<close>

datatype draw_op =
    Rectangle pynum pynum pynum pynum
  | Set_rgb pynum pynum pynum
  | Line_width pynum
  | Stroke
  | Stroke_preserve
  | Fill
  | Move_to pynum pynum
  | Line_to pynum pynum
  | Rel_line_to pynum pynum
  | Close_path
  | Show_text string
  | Operator_source
  | Translate pynum pynum
  | Set_dash pynum
  | Save
  | Restore
  | Clip
  | Source_buffer
  | Paint

text \<open>\<open>text_extents(s)[1:4]\<close>: vertical bearing, width and height.\<close>

record extents =
  ext_bearing :: pynum
  ext_width :: pynum
  ext_height :: pynum

definition need :: "'a option \<Rightarrow> 'a result" where
  "need a = (case a of None \<Rightarrow> Inl AttributeError | Some x \<Rightarrow> Inr x)"

definition grey :: draw_op where
  "grey = Set_rgb (PyFloat (9 / 10)) (PyFloat (9 / 10)) (PyFloat (9 / 10))"

definition black :: draw_op where
  "black = Set_rgb 0 0 0"

definition all_letters :: string where
  "all_letters = ''ABCDEFGHIJKLMNOPQRSTUVWXYZabcedefghijklmnopqrstuvwxyz0123456789''"

section \<open>The legend\<close>

record legend =
  lg_padding :: pynum
  lg_legends :: "string list"
  lg_colors :: "color list"
  lg_size :: "(pynum \<times> pynum) option"

definition new_legend :: "string list \<Rightarrow> color list \<Rightarrow> legend" where
  "new_legend legends cs = \<lparr> lg_padding = 10, lg_legends = legends, lg_colors = cs, lg_size = None \<rparr>"

text \<open>One round of the loop of \<open>layout\<close> and of \<open>draw\<close>: the height of the line so far, the height of the
  lines before it and the width in use.\<close>

definition legend_item :: "(string \<Rightarrow> extents) \<Rightarrow> pynum \<Rightarrow> string \<Rightarrow> pynum" where
  "legend_item ext pad l = pad + pad + ext_width (ext l) + pad"

definition legend_step ::
    "(string \<Rightarrow> extents) \<Rightarrow> pynum \<Rightarrow> pynum \<Rightarrow> string \<Rightarrow> pynum \<times> pynum \<times> pynum \<Rightarrow> pynum \<times> pynum \<times> pynum" where
  "legend_step ext pad width l s =
     (case s of (line_height, total_height, line_used) \<Rightarrow>
        let item_width = legend_item ext pad l;
            item_height = ext_height (ext l) + pad;
            line_height = (if item_height > line_height then item_height else line_height)
        in if line_used + item_width > width then (line_height, total_height + line_height, pad + item_width)
           else (line_height, total_height, line_used + item_width))"

definition layout_legend :: "(string \<Rightarrow> extents) \<Rightarrow> pynum \<Rightarrow> legend \<Rightarrow> legend" where
  "layout_legend ext width lg =
     (case fold (legend_step ext (lg_padding lg) width) (lg_legends lg) (0, lg_padding lg, lg_padding lg) of
        (line_height, total_height, line_used) \<Rightarrow> lg \<lparr> lg_size := Some (width, total_height + line_height) \<rparr>)"

definition legend_height :: "legend \<Rightarrow> pynum result" where
  "legend_height lg = rbind (need (lg_size lg)) (\<lambda>(w, h). Inr h)"

fun draw_legends ::
    "(string \<Rightarrow> extents) \<Rightarrow> pynum \<Rightarrow> pynum \<Rightarrow> color list \<Rightarrow> nat \<Rightarrow> string list \<Rightarrow> pynum \<times> pynum \<times> pynum
     \<Rightarrow> draw_op list result" where
  "draw_legends ext pad width cs i [] s = Inr []"
| "draw_legends ext pad width cs i (l # ls) s =
     (case legend_step ext pad width l s of (line_height, total_height, line_used) \<Rightarrow>
        let x = line_used - legend_item ext pad l
        in if i < length cs then
             rbind (draw_legends ext pad width cs (i + 1) ls (line_height, total_height, line_used))
               (\<lambda>ops. Inr ([Rectangle x total_height pad pad, black, Line_width 2, Stroke_preserve,
                            Set_rgb (PyInt (col_r (cs ! i))) (PyInt (col_g (cs ! i))) (PyInt (col_b (cs ! i))), Fill,
                            Move_to (x + pad * 2) (total_height + ext_height (ext l)), black, Show_text l] @ ops))
           else Inl IndexError)"

definition draw_legend :: "(string \<Rightarrow> extents) \<Rightarrow> legend \<Rightarrow> draw_op list result" where
  "draw_legend ext lg =
     (if lg_legends lg = [] then Inr []
      else rbind (need (lg_size lg)) (\<lambda>(width, _).
        draw_legends ext (lg_padding lg) width (lg_colors lg) 0 (lg_legends lg) (0, lg_padding lg, lg_padding lg)))"

section \<open>The timelines\<close>

record view_layout =
  vl_left :: pynum
  vl_right :: pynum
  vl_text :: pynum
  vl_width :: pynum
  vl_height :: pynum

record tview =
  tv_padding :: pynum
  tv_timelines :: "int timeline list"
  tv_range :: "(pynum \<times> pynum) option"
  tv_layout :: "view_layout option"

definition new_view :: "int timeline list \<Rightarrow> tview" where
  "new_view tlines = \<lparr> tv_padding = 10, tv_timelines = tlines, tv_range = None, tv_layout = None \<rparr>"

definition set_render_range :: "pynum \<Rightarrow> pynum \<Rightarrow> tview \<Rightarrow> tview" where
  "set_render_range start stop tv = tv \<lparr> tv_range := Some (start, stop) \<rparr>"

definition view_height :: "tview \<Rightarrow> pynum result" where
  "view_height tv = rbind (need (tv_layout tv)) (\<lambda>vl. Inr (vl_height vl))"

definition data_x_start :: "tview \<Rightarrow> pynum result" where
  "data_x_start tv =
     rbind (need (tv_layout tv)) (\<lambda>vl.
       Inr (pquot (tv_padding tv) 2 + vl_left vl + tv_padding tv + vl_right vl + pquot (tv_padding tv) 2))"

definition line_names :: "'t timeline \<Rightarrow> string list" where
  "line_names t = map tr_name (tl_ranges t) @ map te_name (tl_event_int t) @ map te_name (tl_event_str t)"

definition widest :: "(string \<Rightarrow> extents) \<Rightarrow> string list \<Rightarrow> pynum" where
  "widest ext ns = fold (\<lambda>n w. pmax w (ext_width (ext n))) ns 0"

definition layout_view :: "(string \<Rightarrow> extents) \<Rightarrow> pynum \<Rightarrow> tview \<Rightarrow> tview" where
  "layout_view ext width tv =
     (let pad = tv_padding tv; tls = tv_timelines tv;
          max_text_height = ext_height (ext all_letters);
          left_width = widest ext (map tl_name tls);
          right_width = widest ext (concat (map line_names tls));
          left_n_lines = PyInt (int (length tls));
          range_n = PyInt (int (length (concat (map tl_ranges tls))));
          eventint_n = PyInt (int (length (concat (map tl_event_int tls))));
          eventstr_n = PyInt (int (length (concat (map tl_event_str tls))));
          left_height = left_n_lines * max_text_height + (left_n_lines - 1) * pad;
          right_n_lines = range_n + eventint_n + eventstr_n;
          right_height = (right_n_lines - 1) * pad + right_n_lines * max_text_height;
          right_data_height =
            (eventint_n + eventstr_n) * (max_text_height + 5) + range_n * 10 + (right_n_lines - 1) * pad;
          height = pmax (pmax left_height right_height) right_data_height
      in tv \<lparr> tv_layout := Some \<lparr> vl_left = left_width, vl_right = right_width, vl_text = max_text_height,
                                  vl_width = width, vl_height = height + pad \<rparr> \<rparr>)"

definition draw_line :: "pynum \<Rightarrow> pynum \<Rightarrow> pynum \<Rightarrow> pynum \<Rightarrow> draw_op list" where
  "draw_line x y width height =
     [Move_to x y, Rel_line_to width height, Close_path, Operator_source, Line_width (PyFloat 1), black, Stroke]"

text \<open>Every other line has a grey background.\<close>

definition background :: "pynum \<Rightarrow> int \<Rightarrow> pynum \<Rightarrow> pynum \<Rightarrow> pynum \<Rightarrow> pynum \<Rightarrow> draw_op list" where
  "background pad n x y width height =
     (if n mod 2 = 0 then [Rectangle x (y - pquot pad 2) width (height + pad), grey, Fill] else [])"

text \<open>The pixel of a time: \<open>int(x + (at - start) * width / (end - start))\<close>.\<close>

definition time_x :: "pynum \<times> pynum \<Rightarrow> pynum \<Rightarrow> pynum \<Rightarrow> pynum \<Rightarrow> int result" where
  "time_x win x width a =
     rbind (pdiv ((a - fst win) * width) (snd win - fst win)) (\<lambda>q. Inr (py_int (x + q)))"

text \<open>The searches compare numbers, and comparisons of integers with floats look at their values.\<close>

definition exact_ranges :: "int timeline_ranges \<Rightarrow> rat timeline_ranges" where
  "exact_ranges rs =
     \<lparr> tr_name = tr_name rs,
       tr_ranges = map (\<lambda>r. \<lparr> dr_start = of_int (dr_start r), dr_end = of_int (dr_end r), dr_value = dr_value r \<rparr>)
         (tr_ranges rs) \<rparr>"

definition exact_events :: "(int, 'v) timeline_events \<Rightarrow> (rat, 'v) timeline_events" where
  "exact_events es =
     \<lparr> te_name = te_name es, te_events = map (\<lambda>e. \<lparr> ev_at = of_int (ev_at e), ev_value = ev_value e \<rparr>) (te_events es) \<rparr>"

fun draw_event_marks ::
    "pynum \<times> pynum \<Rightarrow> pynum \<Rightarrow> ('v \<Rightarrow> string) \<Rightarrow> pynum \<Rightarrow> pynum \<Rightarrow> pynum \<Rightarrow> int \<Rightarrow> (int, 'v) event list
     \<Rightarrow> draw_op list result" where
  "draw_event_marks win text sv x y width last_x [] = Inr []"
| "draw_event_marks win text sv x y width last_x (e # es) =
     rbind (time_x win x width (PyInt (ev_at e))) (\<lambda>real_x.
       if real_x > last_x + 2 then
         rbind (draw_event_marks win text sv x y width real_x es) (\<lambda>ops.
           Inr ([Rectangle (PyInt real_x) y 1 1, Set_rgb 1 0 0, Stroke, Move_to (PyInt real_x) (y + text), black,
                 Show_text (sv (ev_value e))] @ ops))
       else draw_event_marks win text sv x y width last_x es)"

definition draw_events ::
    "tview \<Rightarrow> view_layout \<Rightarrow> ('v \<Rightarrow> string) \<Rightarrow> int \<Rightarrow> (int, 'v) timeline_events \<Rightarrow> pynum \<Rightarrow> pynum \<Rightarrow> pynum \<Rightarrow> pynum
     \<Rightarrow> draw_op list result" where
  "draw_events tv vl sv n events x y width height =
     rbind (need (tv_range tv)) (\<lambda>win.
       case get_events_bounds (exact_events events) (pval (fst win)) (pval (snd win)) of (lo, hi) \<Rightarrow>
         rbind (draw_event_marks win (vl_text vl) sv x y width (py_int x) (slice (te_events events) lo hi)) (\<lambda>ops.
           Inr (background (tv_padding tv) n x y width height @ ops)))"

fun draw_range_boxes ::
    "pynum \<times> pynum \<Rightarrow> pynum \<Rightarrow> pynum \<Rightarrow> pynum \<Rightarrow> int \<Rightarrow> (int, string) data_range list \<Rightarrow> colors
     \<Rightarrow> (draw_op list \<times> colors) result" where
  "draw_range_boxes win x y width last_x [] cs = Inr ([], cs)"
| "draw_range_boxes win x y width last_x (r # rs) cs =
     rbind (time_x win x width (pmax (PyInt (dr_start r)) (fst win))) (\<lambda>x_start.
     rbind (time_x win x width (pmin (PyInt (dr_end r)) (snd win))) (\<lambda>x_end.
       if x_end > last_x then
         rbind (lookup_color (dr_value r) cs) (\<lambda>(c, cs1).
         rbind (draw_range_boxes win x y width x_end rs cs1) (\<lambda>(ops, cs2).
           Inr ([Rectangle (PyInt x_start) y (PyInt (x_end - x_start)) 10, black, Stroke_preserve,
                 Set_rgb (PyInt (col_r c)) (PyInt (col_g c)) (PyInt (col_b c)), Fill] @ ops, cs2)))
       else draw_range_boxes win x y width last_x rs cs))"

definition draw_ranges ::
    "tview \<Rightarrow> int \<Rightarrow> int timeline_ranges \<Rightarrow> pynum \<Rightarrow> pynum \<Rightarrow> pynum \<Rightarrow> pynum \<Rightarrow> colors \<Rightarrow> (draw_op list \<times> colors) result" where
  "draw_ranges tv n ranges x y width height cs =
     rbind (need (tv_range tv)) (\<lambda>win.
       case get_ranges_bounds (exact_ranges ranges) (pval (fst win)) (pval (snd win)) of (lo, hi) \<Rightarrow>
         rbind (draw_range_boxes win x y width (py_int (x - 1)) (slice (tr_ranges ranges) lo hi) cs) (\<lambda>(ops, cs').
           Inr (background (tv_padding tv) n x y width height @ ops, cs')))"

text \<open>The state of \<open>draw\<close>: the height reached, the number of lines drawn, the colours and the calls so far.\<close>

record pen =
  pn_y :: pynum
  pn_grey :: int
  pn_colors :: colors
  pn_ops :: "draw_op list"

definition emit :: "draw_op list \<Rightarrow> pen \<Rightarrow> pen" where
  "emit ops p = p \<lparr> pn_ops := pn_ops p @ ops \<rparr>"

definition name_line :: "(string \<Rightarrow> extents) \<Rightarrow> view_layout \<Rightarrow> pynum \<Rightarrow> pynum \<Rightarrow> string \<Rightarrow> draw_op list" where
  "name_line ext vl x y name =
     [Move_to x (y + vl_text vl - (ext_height (ext name) + ext_bearing (ext name))), Show_text name]"

text \<open>The columns of \<open>draw\<close>: where the names on the left and on the right start, and where the data does.\<close>

definition left_x :: "tview \<Rightarrow> pynum" where
  "left_x tv = pquot (tv_padding tv) 2"

definition right_x :: "tview \<Rightarrow> view_layout \<Rightarrow> pynum" where
  "right_x tv vl = left_x tv + vl_left vl + tv_padding tv"

definition data_x :: "tview \<Rightarrow> view_layout \<Rightarrow> pynum" where
  "data_x tv vl = right_x tv vl + vl_right vl + pquot (tv_padding tv) 2"

definition next_line :: "tview \<Rightarrow> view_layout \<Rightarrow> pynum \<Rightarrow> pen \<Rightarrow> pen" where
  "next_line tv vl used p =
     (let y = pn_y p + used + tv_padding tv
      in emit (draw_line (right_x tv vl - pquot (tv_padding tv) 2) (y - pquot (tv_padding tv) 2)
                 (vl_right vl + tv_padding tv) 0)
           (p \<lparr> pn_y := y, pn_grey := pn_grey p + 1 \<rparr>))"

definition draw_event_line ::
    "(string \<Rightarrow> extents) \<Rightarrow> tview \<Rightarrow> view_layout \<Rightarrow> ('v \<Rightarrow> string) \<Rightarrow> (int, 'v) timeline_events \<Rightarrow> pen \<Rightarrow> pen result" where
  "draw_event_line ext tv vl sv es p =
     (let p1 = emit (name_line ext vl (right_x tv vl) (pn_y p) (te_name es)) p
      in rbind (draw_events tv vl sv (pn_grey p) es (data_x tv vl) (pn_y p) (vl_width vl - data_x tv vl) (vl_text vl + 5))
           (\<lambda>ops. Inr (next_line tv vl (vl_text vl + 5) (emit ops p1))))"

definition draw_range_line ::
    "(string \<Rightarrow> extents) \<Rightarrow> tview \<Rightarrow> view_layout \<Rightarrow> int timeline_ranges \<Rightarrow> pen \<Rightarrow> pen result" where
  "draw_range_line ext tv vl rs p =
     (let p1 = emit (name_line ext vl (right_x tv vl) (pn_y p) (tr_name rs)) p
      in rbind (draw_ranges tv (pn_grey p) rs (data_x tv vl) (pn_y p) (vl_width vl - data_x tv vl) 10 (pn_colors p))
           (\<lambda>(ops, cs). Inr (next_line tv vl (vl_text vl) (emit ops (p1 \<lparr> pn_colors := cs \<rparr>)))))"

definition draw_timeline ::
    "(string \<Rightarrow> extents) \<Rightarrow> tview \<Rightarrow> view_layout \<Rightarrow> int timeline \<Rightarrow> pen \<Rightarrow> pen result" where
  "draw_timeline ext tv vl t p =
     rbind (rfold (draw_event_line ext tv vl int_str) (tl_event_int t)
              (emit (name_line ext vl (left_x tv) (pn_y p) (tl_name t)) p)) (\<lambda>p1.
     rbind (rfold (draw_event_line ext tv vl (\<lambda>s. s)) (tl_event_str t) p1) (\<lambda>p2.
     rbind (rfold (draw_range_line ext tv vl) (tl_ranges t) p2) (\<lambda>p3.
       Inr (emit (draw_line 0 (pn_y p3 - pquot (tv_padding tv) 2) (vl_width vl) 0) p3))))"

definition draw_view :: "(string \<Rightarrow> extents) \<Rightarrow> tview \<Rightarrow> colors \<Rightarrow> pen result" where
  "draw_view ext tv cs =
     rbind (need (tv_layout tv)) (\<lambda>vl.
     rbind (rfold (draw_timeline ext tv vl) (tv_timelines tv)
              \<lparr> pn_y = pquot (tv_padding tv) 2, pn_grey = 1, pn_colors = cs, pn_ops = draw_line 0 0 (vl_width vl) 0 \<rparr>) (\<lambda>p.
       let bot_y = pn_y p - pquot (tv_padding tv) 2
       in Inr (emit (draw_line (left_x tv + vl_left vl + pquot (tv_padding tv) 2) 0 0 bot_y
                     @ draw_line (right_x tv vl + vl_right vl + pquot (tv_padding tv) 2) 0 0 bot_y) p)))"

section \<open>The scales\<close>

record scale =
  sc_top :: bool
  sc_bounds :: "(pynum \<times> pynum) option"
  sc_delta :: "pynum option"
  sc_width :: "pynum option"
  sc_height :: "pynum option"

definition new_scale :: scale where
  "new_scale = \<lparr> sc_top = False, sc_bounds = None, sc_delta = None, sc_width = None, sc_height = None \<rparr>"

definition set_bounds :: "pynum \<Rightarrow> pynum \<Rightarrow> scale \<Rightarrow> scale" where
  "set_bounds lo hi sc = sc \<lparr> sc_bounds := Some (lo, hi) \<rparr>"

definition set_top :: "scale \<Rightarrow> scale" where
  "set_top sc = sc \<lparr> sc_top := True \<rparr>"

definition set_bot :: "scale \<Rightarrow> scale" where
  "set_bot sc = sc \<lparr> sc_top := False \<rparr>"

definition scale_x :: "pynum \<times> pynum \<Rightarrow> pynum \<Rightarrow> pynum \<Rightarrow> pynum result" where
  "scale_x b width x = pdiv ((x - fst b) * width) (snd b - fst b)"

definition get_position :: "scale \<Rightarrow> pynum \<Rightarrow> pynum result" where
  "get_position sc x =
     rbind (need (sc_bounds sc)) (\<lambda>b. rbind (need (sc_width sc)) (\<lambda>w. scale_x b w x))"

text \<open>\<open>while (closest*10) < data_delta\<close>, from 1.\<close>

function closest_loop :: "pynum \<Rightarrow> int \<Rightarrow> int" where
  "closest_loop d c = (if 0 < c \<and> PyInt (c * 10) < d then closest_loop d (c * 10) else c)"
  by pat_completeness auto
termination
  by (relation "measure (\<lambda>(d, c). nat (\<lceil>pval d\<rceil> - c))") (auto simp: less_ceiling_iff zless_nat_eq_int_zless)

declare closest_loop.simps [simp del]

definition scale_delta :: "pynum \<Rightarrow> int" where
  "scale_delta d =
     (let closest = closest_loop d 1
      in if peq (pquot d (PyInt closest)) 0 then closest
         else if peq (pquot d (PyInt closest)) 1 then closest div 10
         else closest)"

definition first_tick :: "pynum \<Rightarrow> pynum \<Rightarrow> pynum result" where
  "first_tick lo delta = rbind (pmod lo delta) (\<lambda>m. Inr (lo - m + delta))"

definition final_tick :: "pynum \<Rightarrow> pynum \<Rightarrow> pynum result" where
  "final_tick hi delta = rbind (pmod hi delta) (\<lambda>m. Inr (hi - m))"

definition layout_scale :: "(string \<Rightarrow> extents) \<Rightarrow> pynum \<Rightarrow> scale \<Rightarrow> scale result" where
  "layout_scale ext width sc =
     rbind (need (sc_bounds sc)) (\<lambda>(lo, hi).
       let delta = PyInt (scale_delta (hi - lo))
       in rbind (first_tick lo delta) (\<lambda>start. rbind (final_tick hi delta) (\<lambda>stop.
            Inr (sc \<lparr> sc_delta := Some delta, sc_width := Some width,
                     sc_height := Some (ext_height (ext all_letters) + 10) \<rparr>))))"

definition scale_height :: "scale \<Rightarrow> pynum result" where
  "scale_height sc = need (sc_height sc)"

definition ticks :: "pynum \<times> pynum \<Rightarrow> pynum \<Rightarrow> int list result" where
  "ticks b delta =
     rbind (first_tick (fst b) delta) (\<lambda>start. rbind (final_tick (snd b) delta) (\<lambda>stop.
       Inr (py_range (py_int start) (py_int (stop + delta)) (py_int delta))))"

definition draw_tick :: "(string \<Rightarrow> extents) \<Rightarrow> scale \<Rightarrow> pynum \<times> pynum \<Rightarrow> pynum \<Rightarrow> int \<Rightarrow> draw_op list result" where
  "draw_tick ext sc b width x =
     rbind (scale_x b width (PyInt x)) (\<lambda>real_x.
       let s = (if sc_top sc then PyInt (-1) else 1);
           e = ext (int_str x);
           text_delta = (if sc_top sc then ext_height e + ext_bearing e else - ext_bearing e)
       in Inr [Move_to real_x 0, Line_to real_x (5 * s), Close_path, Stroke,
               Move_to (real_x - pquot (ext_width e) 2) ((5 + 5 + text_delta) * s), Show_text (int_str x)])"

definition draw_subtick :: "scale \<Rightarrow> pynum \<times> pynum \<Rightarrow> pynum \<Rightarrow> int \<Rightarrow> draw_op list result" where
  "draw_subtick sc b width x =
     rbind (scale_x b width (PyInt x)) (\<lambda>real_x.
       let s = (if sc_top sc then PyInt (-1) else 1)
       in Inr [Move_to real_x 0, Line_to real_x (3 * s), Close_path, Stroke])"

definition draw_scale :: "(string \<Rightarrow> extents) \<Rightarrow> scale \<Rightarrow> draw_op list result" where
  "draw_scale ext sc =
     rbind (need (sc_delta sc)) (\<lambda>delta. rbind (need (sc_bounds sc)) (\<lambda>b. rbind (need (sc_width sc)) (\<lambda>width.
     rbind (ticks b delta) (\<lambda>xs. rbind (rmap (draw_tick ext sc b width) xs) (\<lambda>major.
       let sub = pquot delta 10
       in rbind (if sub > 0 then rbind (ticks b sub) (rmap (draw_subtick sc b width)) else Inr []) (\<lambda>minor.
            Inr ([black, Line_width (PyFloat 1)] @ concat major @ concat minor)))))))"

section \<open>The marks of a scale\<close>

lemma closest_loop_bounds:
  assumes "0 < c"
  shows "pval d \<le> of_int (10 * closest_loop d c) \<and> c \<le> closest_loop d c
    \<and> (closest_loop d c = c \<or> 10 dvd closest_loop d c \<and> of_int (closest_loop d c) < pval d)"
  using assms
proof (induction d c rule: closest_loop.induct)
  case (1 d c)
  show ?case
  proof (cases "PyInt (c * 10) < d")
    case True
    then have "closest_loop d c = closest_loop d (c * 10)" using 1 by (subst closest_loop.simps) simp
    then show ?thesis using 1 True by auto
  next
    case False
    then have "closest_loop d c = c" by (subst closest_loop.simps) simp
    then show ?thesis using False by simp
  qed
qed

lemma closest_from_1:
  "pval d \<le> of_int (10 * closest_loop d 1)"
  "closest_loop d 1 = 1 \<or> 10 \<le> closest_loop d 1 \<and> 10 dvd closest_loop d 1 \<and> of_int (closest_loop d 1) < pval d"
proof -
  have *: "pval d \<le> of_int (10 * closest_loop d 1) \<and> 1 \<le> closest_loop d 1
    \<and> (closest_loop d 1 = 1 \<or> 10 dvd closest_loop d 1 \<and> of_int (closest_loop d 1) < pval d)"
    by (rule closest_loop_bounds) simp
  then show "pval d \<le> of_int (10 * closest_loop d 1)" by simp
  have "10 \<le> closest_loop d 1" if "10 dvd closest_loop d 1" using * that zdvd_imp_le [OF that] by simp
  then show "closest_loop d 1 = 1 \<or> 10 \<le> closest_loop d 1 \<and> 10 dvd closest_loop d 1 \<and> of_int (closest_loop d 1) < pval d"
    using * by blast
qed

lemma pquot_by_1 [simp]: "pval (pquot d (PyInt 1)) = pval d"
  by (cases d) (simp_all add: pquot_def arith_def)

lemma quot_one_less:
  assumes "peq (pquot d (PyInt c)) 1" "0 < c"
  shows "pval d < of_int (2 * c)"
proof (cases d)
  case (PyInt i)
  then have "i div c = 1" using assms by (simp add: peq_def)
  then have "i < 2 * c" using zle_div_iff [OF assms(2), of 2 i] by simp
  then show ?thesis using PyInt by simp
next
  case (PyFloat r)
  then have "r / of_int c = 1" using assms by (simp add: peq_def pquot_def arith_def)
  then show ?thesis using assms(2) PyFloat by (simp add: divide_eq_1_iff)
qed

lemma scale_delta_cases:
  obtains "pval d = 1" "scale_delta d = 0"
  | "pval d \<noteq> 1" "0 < scale_delta d" "pval d \<le> of_int (20 * scale_delta d)"
proof -
  define c where "c = closest_loop d 1"
  have c: "pval d \<le> of_int (10 * c)" "c = 1 \<or> 10 \<le> c \<and> 10 dvd c \<and> of_int c < pval d"
    using closest_from_1 [of d] by (simp_all add: c_def)
  show thesis
  proof (cases "c = 1")
    case True
    then show ?thesis using c that by (cases "pval d = 1") (auto simp: scale_delta_def c_def [symmetric] peq_def)
  next
    case False
    then have c10: "10 \<le> c" "10 dvd c" "of_int c < pval d" using c by simp_all
    have "(10 :: rat) \<le> of_int c" using c10(1) by (metis of_int_le_iff of_int_numeral)
    then have "10 < pval d" using c10(3) by simp
    moreover have "10 * (c div 10) = c" using c10 by simp
    moreover have "scale_delta d = (if peq (pquot d (PyInt c)) 0 then c else if peq (pquot d (PyInt c)) 1 then c div 10 else c)"
      by (simp add: scale_delta_def c_def Let_def)
    moreover have "peq (pquot d (PyInt c)) 1 \<Longrightarrow> pval d < of_int (2 * c)" using quot_one_less c10 by simp
    ultimately show ?thesis using that(2) c10 c
      by (auto split: if_splits)
  qed
qed

lemma pmod_PyInt:
  assumes "0 < k" "pmod a (PyInt k) = Inr m"
  obtains j where "pval m = pval a - of_int (j * k)" "of_int (j * k) \<le> pval a" "pval a < of_int ((j + 1) * k)"
proof -
  have "0 < PyInt k" using assms(1) by simp
  from pmod_positive [OF this assms(2)] obtain j
    where "0 \<le> pval m" "pval m < of_int k" "pval a - pval m = of_int j * of_int k" by auto
  then show thesis using that [of j] by (simp add: algebra_simps)
qed

lemma pmod_ok: "0 < k \<Longrightarrow> \<exists>m. pmod a (PyInt k) = Inr m"
  by (simp add: pmod_def peq_def)

text \<open>The numbers of \<open>ticks\<close>: from the first multiple of the step above the lower bound to the last one
  that is not above the upper bound.\<close>

lemma ticks_multiples:
  assumes "0 < k"
  obtains j i where "ticks (lo, hi) (PyInt k) = Inr (py_range ((j + 1) * k) ((i + 1) * k) k)"
    "of_int (j * k) \<le> pval lo" "pval lo < of_int ((j + 1) * k)"
    "of_int (i * k) \<le> pval hi" "pval hi < of_int ((i + 1) * k)"
proof -
  obtain m n where mn: "pmod lo (PyInt k) = Inr m" "pmod hi (PyInt k) = Inr n" using pmod_ok [OF assms] by metis
  obtain j where j: "pval m = pval lo - of_int (j * k)" "of_int (j * k) \<le> pval lo" "pval lo < of_int ((j + 1) * k)"
    by (rule pmod_PyInt [OF assms mn(1)])
  obtain i where i: "pval n = pval hi - of_int (i * k)" "of_int (i * k) \<le> pval hi" "pval hi < of_int ((i + 1) * k)"
    by (rule pmod_PyInt [OF assms mn(2)])
  have "pval (lo - m + PyInt k) = of_int ((j + 1) * k)" using j(1) by (simp add: algebra_simps)
  moreover have "pval (hi - n + PyInt k) = of_int ((i + 1) * k)" using i(1) by (simp add: algebra_simps)
  ultimately have "py_int (lo - m + PyInt k) = (j + 1) * k" "py_int (hi - n + PyInt k) = (i + 1) * k"
    by (simp_all only: py_int_of_int)
  moreover have "py_int (PyInt k) = k" by (rule py_int_of_int) simp
  ultimately have "ticks (lo, hi) (PyInt k) = Inr (py_range ((j + 1) * k) ((i + 1) * k) k)"
    using mn by (simp add: ticks_def first_tick_def final_tick_def)
  then show thesis using that j i by blast
qed

lemma set_multiples:
  assumes "0 < k"
  shows "x \<in> set (py_range ((j + 1) * k) ((i + 1) * k) k) \<longleftrightarrow> k dvd x \<and> j * k < x \<and> x < (i + 1) * k"
  unfolding set_py_range [OF assms]
proof (rule iffI; elim conjE exE)
  fix n :: int assume "0 \<le> n" "x = (j + 1) * k + k * n" "x < (i + 1) * k"
  moreover have "0 \<le> k * n" using \<open>0 \<le> n\<close> assms by simp
  ultimately show "k dvd x \<and> j * k < x \<and> x < (i + 1) * k" using assms by (auto simp: algebra_simps intro: add_pos_nonneg)
next
  assume x: "k dvd x" "j * k < x" "x < (i + 1) * k"
  then obtain q where q: "x = k * q" by blast
  then have "j < q" using x(2) assms by (simp add: mult.commute)
  then show "(\<exists>n\<ge>0. x = (j + 1) * k + k * n) \<and> x < (i + 1) * k"
    using x(3) q by (intro conjI exI [of _ "q - j - 1"]) (auto simp: algebra_simps)
qed

lemma between_multiples:
  assumes "0 < (k :: int)" "k dvd x" "j * k \<le> b" "b < (j + 1) * k"
  shows "b < x \<longleftrightarrow> j * k < x" "x \<le> b \<longleftrightarrow> x < (j + 1) * k"
proof -
  obtain q where q: "x = q * k" using assms(2) by (metis dvd_def mult.commute)
  have "j < q \<Longrightarrow> (j + 1) * k \<le> q * k" "q < j + 1 \<Longrightarrow> q * k \<le> j * k" using assms(1) by simp_all
  moreover have "j * k < q * k \<longleftrightarrow> j < q" "q * k < (j + 1) * k \<longleftrightarrow> q < j + 1" using assms(1) by simp_all
  ultimately show "b < x \<longleftrightarrow> j * k < x" "x \<le> b \<longleftrightarrow> x < (j + 1) * k"
    unfolding q using assms(3, 4) by linarith+
qed

text \<open>Laying out a scale fails exactly when its bounds differ by 1, with a division by zero; otherwise its
  step is a positive integer.\<close>

theorem layout_scale_outcome:
  assumes "sc_bounds sc = Some (lo, hi)"
  shows "layout_scale ext width sc =
    (if pval hi - pval lo = 1 then Inl ZeroDivisionError
     else Inr (sc \<lparr> sc_delta := Some (PyInt (scale_delta (hi - lo))), sc_width := Some width,
                  sc_height := Some (ext_height (ext all_letters) + 10) \<rparr>))"
proof (rule scale_delta_cases [of "hi - lo"])
  assume "pval (hi - lo) = 1" "scale_delta (hi - lo) = 0"
  then show ?thesis using assms by (simp add: layout_scale_def need_def first_tick_def pmod_def peq_def)
next
  assume "pval (hi - lo) \<noteq> 1" and d: "0 < scale_delta (hi - lo)"
  then show ?thesis
    using assms pmod_ok [OF d, of lo] pmod_ok [OF d, of hi]
    by (auto simp: layout_scale_def need_def first_tick_def final_tick_def)
qed

theorem layout_scale_outcome_witness:
  "\<forall>ext. layout_scale ext 100 (set_bounds 0 1 new_scale) = Inl ZeroDivisionError"
proof
  fix ext
  have "sc_bounds (set_bounds 0 1 new_scale) = Some (0, 1)" by (simp add: set_bounds_def)
  from layout_scale_outcome [OF this] show "layout_scale ext 100 (set_bounds 0 1 new_scale) = Inl ZeroDivisionError" by simp
qed

text \<open>The marks that a laid out scale draws are, in increasing order, the multiples of its step above
  its lower bound and not above its upper bound, and there are at most twenty of them.\<close>

theorem scale_ticks_exact:
  assumes "pval hi - pval lo \<noteq> 1"
  shows "\<exists>xs. ticks (lo, hi) (PyInt (scale_delta (hi - lo))) = Inr xs
    \<and> set xs = {x. scale_delta (hi - lo) dvd x \<and> pval lo < of_int x \<and> of_int x \<le> pval hi}
    \<and> sorted_wrt (<) xs \<and> length xs \<le> 20"
proof (rule scale_delta_cases [of "hi - lo"])
  assume "pval (hi - lo) = 1"
  then show ?thesis using assms by simp
next
  define k where "k = scale_delta (hi - lo)"
  assume "0 < scale_delta (hi - lo)" "pval (hi - lo) \<le> of_int (20 * scale_delta (hi - lo))"
  then have k: "0 < k" "pval hi - pval lo \<le> of_int (20 * k)" by (simp_all add: k_def)
  obtain j i where t: "ticks (lo, hi) (PyInt k) = Inr (py_range ((j + 1) * k) ((i + 1) * k) k)"
    and j: "of_int (j * k) \<le> pval lo" "pval lo < of_int ((j + 1) * k)"
    and i: "of_int (i * k) \<le> pval hi" "pval hi < of_int ((i + 1) * k)"
    by (rule ticks_multiples [OF k(1)])
  have L: "j * k \<le> \<lfloor>pval lo\<rfloor>" "\<lfloor>pval lo\<rfloor> < (j + 1) * k"
    using j by (simp_all only: le_floor_iff floor_less_iff)
  have H: "i * k \<le> \<lfloor>pval hi\<rfloor>" "\<lfloor>pval hi\<rfloor> < (i + 1) * k"
    using i by (simp_all only: le_floor_iff floor_less_iff)
  have lohi: "pval lo < of_int x \<longleftrightarrow> j * k < x" "of_int x \<le> pval hi \<longleftrightarrow> x < (i + 1) * k" if "k dvd x" for x
    using between_multiples [OF k(1) that L] between_multiples [OF k(1) that H]
    by (simp_all only: le_floor_iff [symmetric] floor_less_iff [symmetric])
  have "(of_int ((i - j - 1) * k) :: rat) < of_int (20 * k)" using i(1) j(2) k(2) by (simp add: algebra_simps)
  then have "(i - j - 1) * k < 20 * k" by (simp only: of_int_less_iff)
  then have "i - j \<le> 20" using k(1) by simp
  moreover have "((i + 1) * k - (j + 1) * k + k - 1) div k = i - j"
  proof -
    have eq: "(i + 1) * k - (j + 1) * k + k - 1 = (k - 1) + (i - j) * k" by (simp add: algebra_simps)
    have "(k - 1) div k = 0" using k(1) by (simp add: div_pos_pos_trivial)
    then show ?thesis unfolding eq using k(1) div_mult_self1 [of k "k - 1" "i - j"] by linarith
  qed
  ultimately have "length (py_range ((j + 1) * k) ((i + 1) * k) k) \<le> 20" by (simp add: length_py_range)
  moreover have "sorted_wrt (<) (py_range ((j + 1) * k) ((i + 1) * k) k)"
    using k(1) by (simp add: py_range_def sorted_wrt_map sorted_wrt_iff_nth_less)
  moreover have "set (py_range ((j + 1) * k) ((i + 1) * k) k) = {x. k dvd x \<and> pval lo < of_int x \<and> of_int x \<le> pval hi}"
    unfolding set_eq_iff mem_Collect_eq set_multiples [OF k(1)] using lohi by blast
  ultimately show ?thesis using t unfolding k_def [symmetric] by blast
qed

theorem scale_ticks_exact_witness:
  "\<exists>xs. ticks (0, PyInt 45) (PyInt (scale_delta (PyInt 45 - 0))) = Inr xs
    \<and> set xs = {x. scale_delta (PyInt 45 - 0) dvd x \<and> pval 0 < of_int x \<and> of_int x \<le> pval (PyInt 45)}
    \<and> sorted_wrt (<) xs \<and> length xs \<le> 20"
proof -
  have "pval (PyInt 45) - pval 0 \<noteq> 1" by simp
  from scale_ticks_exact [OF this] show ?thesis .
qed

section \<open>Where the legends are\<close>

fun legend_places ::
    "(string \<Rightarrow> extents) \<Rightarrow> pynum \<Rightarrow> pynum \<Rightarrow> string list \<Rightarrow> pynum \<times> pynum \<times> pynum \<Rightarrow> (pynum \<times> pynum \<times> string) list" where
  "legend_places ext pad width [] s = []"
| "legend_places ext pad width (l # ls) s =
     (case legend_step ext pad width l s of (line_height, total_height, line_used) \<Rightarrow>
        (line_used - legend_item ext pad l, total_height, l)
        # legend_places ext pad width ls (line_height, total_height, line_used))"

definition legend_box :: "(string \<Rightarrow> extents) \<Rightarrow> pynum \<Rightarrow> color \<Rightarrow> pynum \<times> pynum \<times> string \<Rightarrow> draw_op list" where
  "legend_box ext pad c p =
     (case p of (x, y, l) \<Rightarrow>
        [Rectangle x y pad pad, black, Line_width 2, Stroke_preserve,
         Set_rgb (PyInt (col_r c)) (PyInt (col_g c)) (PyInt (col_b c)), Fill,
         Move_to (x + pad * 2) (y + ext_height (ext l)), black, Show_text l])"

lemma draw_legends_places:
  "i + length ls \<le> length cs \<Longrightarrow> draw_legends ext pad width cs i ls s =
     Inr (concat (map2 (legend_box ext pad) (drop i cs) (legend_places ext pad width ls s)))"
proof (induction ls arbitrary: i s)
  case (Cons l ls)
  have "drop i cs = cs ! i # drop (Suc i) cs" using Cons.prems by (simp add: Cons_nth_drop_Suc)
  then show ?case using Cons by (auto simp: legend_box_def Let_def split: prod.splits)
qed simp

text \<open>Two places keep clear of each other: the second is to the right on the same line or below.\<close>

definition clear_of :: "(string \<Rightarrow> extents) \<Rightarrow> pynum \<Rightarrow> pynum \<times> pynum \<times> string \<Rightarrow> pynum \<times> pynum \<times> string \<Rightarrow> bool" where
  "clear_of ext pad p q =
     (case (p, q) of ((x, y, l), (x', y', l')) \<Rightarrow>
        peq y y' \<and> x + legend_item ext pad l \<le> x' \<or> y + ext_height (ext l) + pad \<le> y')"

definition inside_legend :: "(string \<Rightarrow> extents) \<Rightarrow> pynum \<Rightarrow> pynum \<Rightarrow> rat \<Rightarrow> pynum \<times> pynum \<times> string \<Rightarrow> bool" where
  "inside_legend ext pad width height p =
     (case p of (x, y, l) \<Rightarrow>
        pad \<le> x \<and> x + legend_item ext pad l \<le> width \<and> pad \<le> y \<and> pval y + pval (ext_height (ext l)) + pval pad \<le> height)"

definition fits :: "(string \<Rightarrow> extents) \<Rightarrow> pynum \<Rightarrow> pynum \<Rightarrow> string \<Rightarrow> bool" where
  "fits ext pad width l \<longleftrightarrow> 0 \<le> ext_width (ext l) \<and> 0 \<le> ext_height (ext l) \<and> pad + legend_item ext pad l \<le> width"

lemma legend_step_cases:
  assumes "legend_step ext pad width l (lh, th, lu) = (lh', th', lu')"
  shows "pval lh' = max (pval lh) (pval (ext_height (ext l)) + pval pad)"
    and "(pval th' = pval th \<and> pval lu' = pval lu + pval (legend_item ext pad l) \<and> pval lu' \<le> pval width)
      \<or> (pval th' = pval th + pval lh' \<and> pval lu' = pval pad + pval (legend_item ext pad l))"
  using assms by (auto simp: legend_step_def Let_def split: if_splits)

lemma legend_places_after:
  assumes "(x, y, l) \<in> set (legend_places ext pad width ls (lh, th, lu))" "list_all (fits ext pad width) ls" "0 < pad" "0 \<le> lh"
  shows "pval y = pval th \<and> pval lu \<le> pval x \<or> pval th + pval lh \<le> pval y"
  using assms
proof (induction ls arbitrary: lh th lu)
  case (Cons k ls)
  obtain lh' th' lu' where s: "legend_step ext pad width k (lh, th, lu) = (lh', th', lu')" by (metis prod_cases3)
  note step = legend_step_cases [OF s]
  have k: "fits ext pad width k" "list_all (fits ext pad width) ls" using Cons.prems(2) by simp_all
  have w: "0 \<le> pval (legend_item ext pad k)" "pval lh \<le> pval lh'" "0 \<le> lh'"
    using k(1) step(1) Cons.prems(3,4) by (auto simp: fits_def legend_item_def)
  consider "x = lu' - legend_item ext pad k" "y = th'" | "(x, y, l) \<in> set (legend_places ext pad width ls (lh', th', lu'))"
    using Cons.prems(1) s by auto
  then show ?case
  proof cases
    case 1
    then show ?thesis using step(2) w by auto
  next
    case 2
    from Cons.IH [OF 2 k(2) Cons.prems(3) w(3)] show ?thesis using step(2) w by auto
  qed
qed simp

lemma legend_fold_grows:
  assumes "fold (legend_step ext pad width) ls (lh, th, lu) = (lh2, th2, lu2)" "0 \<le> lh"
  shows "pval th + pval lh \<le> pval th2 + pval lh2"
  using assms
proof (induction ls arbitrary: lh th lu)
  case (Cons k ls)
  obtain lh' th' lu' where s: "legend_step ext pad width k (lh, th, lu) = (lh', th', lu')" by (metis prod_cases3)
  note step = legend_step_cases [OF s]
  have "0 \<le> lh'" using step(1) Cons.prems(2) by simp
  with Cons.IH [of lh' th' lu'] have "pval th' + pval lh' \<le> pval th2 + pval lh2" using Cons.prems(1) s by simp
  moreover have "pval lh \<le> pval lh'" using step(1) by simp
  ultimately show ?case using step(2) Cons.prems(2) by auto
qed simp

lemma legend_places_ok:
  assumes "fold (legend_step ext pad width) ls (lh, th, lu) = (lh2, th2, lu2)"
    and "list_all (fits ext pad width) ls" "0 < pad" "0 \<le> lh" "pad \<le> lu" "pad \<le> th"
  shows "sorted_wrt (clear_of ext pad) (legend_places ext pad width ls (lh, th, lu))
    \<and> list_all (inside_legend ext pad width (pval th2 + pval lh2)) (legend_places ext pad width ls (lh, th, lu))"
  using assms
proof (induction ls arbitrary: lh th lu)
  case (Cons k ls)
  obtain lh' th' lu' where s: "legend_step ext pad width k (lh, th, lu) = (lh', th', lu')" by (metis prod_cases3)
  note step = legend_step_cases [OF s]
  have k: "fits ext pad width k" "list_all (fits ext pad width) ls" using Cons.prems(2) by simp_all
  have "0 \<le> pval (legend_item ext pad k)" using k(1) Cons.prems(3) by (auto simp: fits_def legend_item_def)
  then have st: "0 \<le> lh'" "pad \<le> lu'" "pad \<le> th'" using step Cons.prems(3-6) by auto
  have f: "fold (legend_step ext pad width) ls (lh', th', lu') = (lh2, th2, lu2)" using Cons.prems(1) s by simp
  note IH = Cons.IH [OF f k(2) Cons.prems(3) st]
  have "clear_of ext pad (lu' - legend_item ext pad k, th', k) q" if "q \<in> set (legend_places ext pad width ls (lh', th', lu'))" for q
  proof -
    obtain x y l where q: "q = (x, y, l)" by (metis prod_cases3)
    from legend_places_after [OF that [unfolded q] k(2) Cons.prems(3) st(1)] show ?thesis
      using step(1) by (auto simp: clear_of_def q peq_def)
  qed
  moreover have "inside_legend ext pad width (pval th2 + pval lh2) (lu' - legend_item ext pad k, th', k)"
  proof -
    have "pval (ext_height (ext k)) + pval pad \<le> pval lh'" using step(1) by simp
    then show ?thesis
      using step(2) st k(1) legend_fold_grows [OF f st(1)] Cons.prems(5) by (auto simp: inside_legend_def fits_def)
  qed
  ultimately show ?case using IH s by simp
qed simp

text \<open>When the room is wide enough for each legend alone, the legends are drawn in order, one box and
  text per legend in its colour, at places that do not overlap and lie inside the width given to
  \<open>layout\<close> and the height it computes.\<close>

theorem legend_boxes_clear:
  assumes "list_all (fits ext (lg_padding lg) width) (lg_legends lg)" "0 < lg_padding lg"
    and "length (lg_legends lg) \<le> length (lg_colors lg)"
  shows "\<exists>ps h. legend_height (layout_legend ext width lg) = Inr h
    \<and> map (\<lambda>(x, y, l). l) ps = lg_legends lg
    \<and> draw_legend ext (layout_legend ext width lg) = Inr (concat (map2 (legend_box ext (lg_padding lg)) (lg_colors lg) ps))
    \<and> sorted_wrt (clear_of ext (lg_padding lg)) ps
    \<and> list_all (inside_legend ext (lg_padding lg) width (pval h)) ps"
proof -
  let ?s = "(0, lg_padding lg, lg_padding lg)" and ?pad = "lg_padding lg" and ?ls = "lg_legends lg"
  let ?ps = "legend_places ext ?pad width ?ls ?s"
  obtain lh th lu where f: "fold (legend_step ext ?pad width) ?ls ?s = (lh, th, lu)" by (metis prod_cases3)
  have m: "map (\<lambda>(x, y, l). l) (legend_places ext ?pad width ls s) = ls" for ls s
    by (induction ls arbitrary: s) (auto split: prod.splits)
  have d: "draw_legend ext (layout_legend ext width lg) = Inr (concat (map2 (legend_box ext ?pad) (lg_colors lg) ?ps))"
    using assms(3) draw_legends_places [of 0 ?ls "lg_colors lg" ext ?pad width ?s]
    by (auto simp: draw_legend_def layout_legend_def need_def f)
  have "legend_height (layout_legend ext width lg) = Inr (th + lh)"
    by (simp add: legend_height_def layout_legend_def need_def f)
  moreover have "sorted_wrt (clear_of ext ?pad) ?ps \<and> list_all (inside_legend ext ?pad width (pval th + pval lh)) ?ps"
    using assms by (intro legend_places_ok [OF f]) simp_all
  ultimately show ?thesis using d m [of ?ls ?s] by (intro exI [of _ ?ps] exI [of _ "th + lh"]) simp
qed

theorem legend_boxes_clear_witness:
  "let ext = (\<lambda>s. \<lparr> ext_bearing = 0, ext_width = PyInt (int (length s)), ext_height = 8 \<rparr>);
       lg = new_legend [''up'', ''down''] [rgb 1 0 0, rgb 0 1 0]
   in \<exists>ps h. legend_height (layout_legend ext 80 lg) = Inr h
    \<and> map (\<lambda>(x, y, l). l) ps = [''up'', ''down'']
    \<and> draw_legend ext (layout_legend ext 80 lg) = Inr (concat (map2 (legend_box ext 10) [rgb 1 0 0, rgb 0 1 0] ps))
    \<and> sorted_wrt (clear_of ext 10) ps \<and> list_all (inside_legend ext 10 80 (pval h)) ps"
proof -
  let ?ext = "\<lambda>s. \<lparr> ext_bearing = 0, ext_width = PyInt (int (length s)), ext_height = 8 \<rparr>"
  let ?lg = "new_legend [''up'', ''down''] [rgb 1 0 0, rgb 0 1 0]"
  have "list_all (fits ?ext (lg_padding ?lg) 80) (lg_legends ?lg)" "0 < lg_padding ?lg"
    "length (lg_legends ?lg) \<le> length (lg_colors ?lg)"
    by (simp_all add: new_legend_def fits_def legend_item_def)
  from legend_boxes_clear [OF this] show ?thesis by (simp add: new_legend_def)
qed

section \<open>The height of the lines\<close>

lemma rfold_adds:
  fixes g :: "'s \<Rightarrow> rat"
  assumes "\<And>x s s'. f x s = Inr s' \<Longrightarrow> g s' = g s + h x" "rfold f xs s = Inr s'"
  shows "g s' = g s + sum_list (map h xs)"
  using assms(2) by (induction xs arbitrary: s) (auto simp: rbind_eq_Inr assms(1))

lemma draw_event_line_y:
  "draw_event_line ext tv vl sv es p = Inr p' \<Longrightarrow> pval (pn_y p') = pval (pn_y p) + (pval (vl_text vl) + 5 + pval (tv_padding tv))"
  by (auto simp: draw_event_line_def rbind_eq_Inr next_line_def emit_def Let_def)

lemma draw_range_line_y:
  "draw_range_line ext tv vl rs p = Inr p' \<Longrightarrow> pval (pn_y p') = pval (pn_y p) + (pval (vl_text vl) + pval (tv_padding tv))"
  by (auto simp: draw_range_line_def rbind_eq_Inr next_line_def emit_def Let_def split: prod.splits)

definition n_events :: "'t timeline \<Rightarrow> nat" where
  "n_events t = length (tl_event_int t) + length (tl_event_str t)"

definition n_ranges :: "'t timeline \<Rightarrow> nat" where
  "n_ranges t = length (tl_ranges t)"

lemma draw_timeline_y:
  assumes "draw_timeline ext tv vl t p = Inr p'"
  shows "pval (pn_y p') = pval (pn_y p) + (of_nat (n_events t) * (pval (vl_text vl) + 5 + pval (tv_padding tv))
    + of_nat (n_ranges t) * (pval (vl_text vl) + pval (tv_padding tv)))"
proof -
  obtain p1 p2 p3 where
    1: "rfold (draw_event_line ext tv vl int_str) (tl_event_int t) (emit (name_line ext vl (left_x tv) (pn_y p) (tl_name t)) p) = Inr p1"
    and 2: "rfold (draw_event_line ext tv vl (\<lambda>s. s)) (tl_event_str t) p1 = Inr p2"
    and 3: "rfold (draw_range_line ext tv vl) (tl_ranges t) p2 = Inr p3" and 4: "pn_y p' = pn_y p3"
    using assms by (auto simp: draw_timeline_def rbind_eq_Inr emit_def)
  let ?e = "pval (vl_text vl) + 5 + pval (tv_padding tv)" and ?r = "pval (vl_text vl) + pval (tv_padding tv)"
  have "pval (pn_y p1) = pval (pn_y (emit (name_line ext vl (left_x tv) (pn_y p) (tl_name t)) p))
      + sum_list (map (\<lambda>_. ?e) (tl_event_int t))"
    by (rule rfold_adds [where g = "\<lambda>p. pval (pn_y p)", OF _ 1]) (rule draw_event_line_y)
  moreover have "pval (pn_y p2) = pval (pn_y p1) + sum_list (map (\<lambda>_. ?e) (tl_event_str t))"
    by (rule rfold_adds [where g = "\<lambda>p. pval (pn_y p)", OF _ 2]) (rule draw_event_line_y)
  moreover have "pval (pn_y p3) = pval (pn_y p2) + sum_list (map (\<lambda>_. ?r) (tl_ranges t))"
    by (rule rfold_adds [where g = "\<lambda>p. pval (pn_y p)", OF _ 3]) (rule draw_range_line_y)
  ultimately show ?thesis
    using 4 by (simp add: sum_list_triv emit_def n_events_def n_ranges_def algebra_simps)
qed

text \<open>The numbers of lines of events and of ranges in all timelines.\<close>

definition all_events :: "'t timeline list \<Rightarrow> nat" where
  "all_events tlines = sum_list (map n_events tlines)"

definition all_ranges :: "'t timeline list \<Rightarrow> nat" where
  "all_ranges tlines = sum_list (map n_ranges tlines)"

lemma all_events_length:
  "length (concat (map tl_event_int ts)) + length (concat (map tl_event_str ts)) = all_events ts"
  "length (concat (map tl_ranges ts)) = all_ranges ts"
  by (induction ts) (simp_all add: all_events_def all_ranges_def n_events_def n_ranges_def)

lemma rfold_timelines_y:
  "rfold (draw_timeline ext tv vl) ts p = Inr p' \<Longrightarrow>
   pval (pn_y p') = pval (pn_y p) + of_nat (all_events ts) * (pval (vl_text vl) + 5 + pval (tv_padding tv))
     + of_nat (all_ranges ts) * (pval (vl_text vl) + pval (tv_padding tv))"
proof (induction ts arbitrary: p)
  case (Cons t ts)
  then obtain p1 where 1: "draw_timeline ext tv vl t p = Inr p1" and 2: "rfold (draw_timeline ext tv vl) ts p1 = Inr p'"
    by (auto simp: rbind_eq_Inr)
  show ?case using Cons.IH [OF 2] draw_timeline_y [OF 1] by (simp add: all_events_def all_ranges_def algebra_simps)
qed (simp add: all_events_def all_ranges_def)

lemma layout_view_height:
  assumes "view_height (layout_view ext width tv) = Inr h" "tv_padding tv = 10"
  defines "n \<equiv> of_nat (length (tv_timelines tv)) :: rat" and "e \<equiv> of_nat (all_events (tv_timelines tv)) :: rat"
    and "r \<equiv> of_nat (all_ranges (tv_timelines tv)) :: rat" and "t \<equiv> pval (ext_height (ext all_letters))"
  shows "pval h = max (max (n * (t + 10)) ((e + r) * (t + 10))) (e * (t + 15) + r * 20)"
proof -
  have e: "e = of_nat (length (concat (map tl_event_int (tv_timelines tv)))) + of_nat (length (concat (map tl_event_str (tv_timelines tv))))"
    by (simp only: e_def all_events_length(1) [symmetric] of_nat_add)
  have r: "r = of_nat (length (concat (map tl_ranges (tv_timelines tv))))"
    by (simp only: r_def all_events_length(2))
  have "pval h = max (max (n * t + (n - 1) * 10) ((r + e - 1) * 10 + (r + e) * t)) (e * (t + 5) + r * 10 + (r + e - 1) * 10) + 10"
    using assms(1,2) unfolding e r n_def t_def
    by (auto simp: view_height_def need_def layout_view_def Let_def algebra_simps simp del: length_concat)
  then show ?thesis by (simp add: max_add_distrib_left [symmetric] algebra_simps max_def)
qed

text \<open>The lines that are drawn end above the height that \<open>layout\<close> computed unless both events and
  ranges are there, the text is higher than 10 and the lines outgrow the names on the left: a timeline
  with ranges and events then runs over into the scale below.\<close>

theorem drawn_lines_height:
  assumes "tv_padding tv = 10" "draw_view ext (layout_view ext width tv) cs = Inr p"
    and "view_height (layout_view ext width tv) = Inr h"
    and "all_events (tv_timelines tv) = e" "all_ranges (tv_timelines tv) = r"
    and "pval (ext_height (ext all_letters)) = t" "0 \<le> t"
  shows "pval (pn_y p) - 5 = of_nat e * (t + 15) + of_nat r * (t + 10)
    \<and> (pval (pn_y p) - 5 \<le> pval h \<longleftrightarrow>
        e = 0 \<or> r = 0 \<or> t \<le> 10 \<or> pval (pn_y p) - 5 \<le> of_nat (length (tv_timelines tv)) * (t + 10))"
proof -
  obtain vl where vl: "tv_layout (layout_view ext width tv) = Some vl" "vl_text vl = ext_height (ext all_letters)"
    by (simp add: layout_view_def Let_def)
  have pt: "tv_padding (layout_view ext width tv) = 10" "tv_timelines (layout_view ext width tv) = tv_timelines tv"
    using assms(1) by (simp_all add: layout_view_def Let_def)
  have "(10 :: pynum) = PyInt 10" "(2 :: pynum) = PyInt 2" by (simp_all only: numeral_PyInt)
  moreover have "pval (pquot (PyInt 10) (PyInt 2)) = 5" by simp
  ultimately have half: "pval (pquot 10 2) = 5" by (simp only:)
  have y: "pval (pn_y p) - 5 = of_nat e * (t + 15) + of_nat r * (t + 10)"
    using assms(2) vl pt half assms(4-6)
    by (auto simp: draw_view_def need_def rbind_eq_Inr emit_def Let_def dest!: rfold_timelines_y)
  have h: "pval h = max (max (of_nat (length (tv_timelines tv)) * (t + 10)) ((of_nat e + of_nat r) * (t + 10))) (of_nat e * (t + 15) + of_nat r * 20)"
    using layout_view_height [OF assms(3,1)] assms(4-6) by simp
  have "of_nat e * (t + 15) + of_nat r * (t + 10) \<le> (of_nat e + of_nat r) * (t + 10) \<longleftrightarrow> e = 0"
    by (simp add: algebra_simps)
  moreover have "of_nat e * (t + 15) + of_nat r * (t + 10) \<le> of_nat e * (t + 15) + of_nat r * 20 \<longleftrightarrow> r = 0 \<or> t \<le> 10"
  proof -
    have "of_nat e * (t + 15) + of_nat r * (t + 10) \<le> of_nat e * (t + 15) + of_nat r * 20 \<longleftrightarrow> of_nat r * t \<le> of_nat r * 10"
      by (simp add: algebra_simps)
    then show ?thesis by (cases "r = 0") simp_all
  qed
  ultimately show ?thesis using y unfolding y h le_max_iff_disj by blast
qed

definition sample_ext :: "string \<Rightarrow> extents" where
  "sample_ext s = \<lparr> ext_bearing = 0, ext_width = PyInt (int (length s)), ext_height = 20 \<rparr>"

definition sample_view :: tview where
  "sample_view = set_render_range 0 10 (new_view (snd (read_data
     [''range n state up 2 6'', ''event-int n sent 7 4''])))"

theorem drawn_lines_height_witness:
  "\<exists>p h. draw_view sample_ext (layout_view sample_ext 200 sample_view) \<lparr> col_names = [], col_free = default_colors \<rparr> = Inr p
     \<and> view_height (layout_view sample_ext 200 sample_view) = Inr h
     \<and> pval (pn_y p) - 5 = 65 \<and> \<not> pval (pn_y p) - 5 \<le> pval h"
proof -
  let ?cs = "\<lparr> col_names = [], col_free = default_colors \<rparr>" and ?tv = "layout_view sample_ext 200 sample_view"
  have "\<not> isl (draw_view sample_ext ?tv ?cs)" by code_simp
  then obtain p where p: "draw_view sample_ext ?tv ?cs = Inr p" by (cases "draw_view sample_ext ?tv ?cs") simp_all
  have "\<not> isl (view_height ?tv)" by code_simp
  then obtain h where h: "view_height ?tv = Inr h" by (cases "view_height ?tv") simp_all
  have s: "tv_padding sample_view = 10" "all_events (tv_timelines sample_view) = 1"
    "all_ranges (tv_timelines sample_view) = 1" "pval (ext_height (sample_ext all_letters)) = 20" "length (tv_timelines sample_view) = 1"
    by code_simp+
  from drawn_lines_height [OF s(1) p h s(2-4)] s(5)
  have "pval (pn_y p) - 5 = 65 \<and> \<not> pval (pn_y p) - 5 \<le> pval h" by auto
  then show ?thesis using p h by blast
qed

end
