(* ===== verification/Timeline_Window.thy ===== *)
theory Timeline_Window
  imports Timeline_Draw Py_Handler
begin

text \<open>
  The window of \<open>utils/grid.py\<close>: the geometry of the whole picture, the visible range and its clamping,
  and the widget that changes the range while a mouse button is down.  GTK prints an
  exception that a handler raises and goes on with the next event.
\<close>

section \<open>The picture\<close>

record graphic =
  gr_start :: pynum
  gr_end :: pynum
  gr_mid :: scale
  gr_bot :: scale
  gr_width :: pynum
  gr_height :: pynum
  gr_range :: "(pynum \<times> pynum) option"
  gr_data :: tview
  gr_legend :: legend

text \<open>The constructor, \<open>set_data\<close> and \<open>set_top_legend\<close>, which \<open>main\<close> calls before everything else.\<close>

definition new_graphic :: "pynum \<Rightarrow> pynum \<Rightarrow> tview \<Rightarrow> legend \<Rightarrow> graphic" where
  "new_graphic start stop data lg =
     \<lparr> gr_start = py_float start, gr_end = py_float stop, gr_mid = set_top new_scale,
       gr_bot = set_bot (set_bounds start stop new_scale), gr_width = 1, gr_height = 1, gr_range = None,
       gr_data = data, gr_legend = lg \<rparr>"

definition data_rectangle :: "graphic \<Rightarrow> (pynum \<times> pynum \<times> pynum \<times> pynum) result" where
  "data_rectangle g =
     rbind (legend_height (gr_legend g)) (\<lambda>y. rbind (data_x_start (gr_data g)) (\<lambda>x.
     rbind (view_height (gr_data g)) (\<lambda>h. Inr (x, y, gr_width g - x, h))))"

definition get_view_range :: "graphic \<Rightarrow> (pynum \<times> pynum) result" where
  "get_view_range g = need (gr_range g)"

definition scale_data :: "pynum \<Rightarrow> graphic \<Rightarrow> pynum result" where
  "scale_data x g =
     rbind (data_x_start (gr_data g)) (\<lambda>x_start. rbind (pdiv x (gr_width g - x_start)) (\<lambda>q.
     rbind (get_view_range g) (\<lambda>(lo, hi). Inr (q * (hi - lo)))))"

definition selection_rectangle :: "graphic \<Rightarrow> (pynum \<times> pynum \<times> pynum \<times> pynum) result" where
  "selection_rectangle g =
     rbind (legend_height (gr_legend g)) (\<lambda>lh. rbind (view_height (gr_data g)) (\<lambda>dh.
     rbind (scale_height (gr_mid g)) (\<lambda>mh. rbind (scale_height (gr_bot g)) (\<lambda>bh.
     rbind (get_view_range g) (\<lambda>(lo, hi). rbind (get_position (gr_bot g) lo) (\<lambda>x_start.
     rbind (get_position (gr_bot g) hi) (\<lambda>x_end.
       Inr (x_start, lh + dh + mh + 20, x_end - x_start, bh + 20))))))))"

definition scale_selection :: "pynum \<Rightarrow> graphic \<Rightarrow> pynum result" where
  "scale_selection x g = rbind (pdiv x (gr_width g)) (\<lambda>q. Inr (q * (gr_end g - gr_start g)))"

definition layout_graphic :: "(string \<Rightarrow> extents) \<Rightarrow> pynum \<Rightarrow> pynum \<Rightarrow> (graphic, unit) handler" where
  "layout_graphic ext width height =
     hseq (hset (\<lambda>g. g \<lparr> gr_width := width, gr_height := height,
                        gr_legend := layout_legend ext width (gr_legend g),
                        gr_data := layout_view ext width (gr_data g) \<rparr>))
     (hbind (hread (\<lambda>g. rbind (data_x_start (gr_data g)) (\<lambda>x. layout_scale ext (width - x) (gr_mid g)))) (\<lambda>mid.
      hseq (hset (\<lambda>g. g \<lparr> gr_mid := mid \<rparr>))
     (hbind (hread (\<lambda>g. layout_scale ext width (gr_bot g))) (\<lambda>bot.
      hset (\<lambda>g. g \<lparr> gr_bot := bot \<rparr>)))))"

definition clamp_range :: "graphic \<Rightarrow> pynum \<Rightarrow> pynum \<Rightarrow> pynum \<times> pynum" where
  "clamp_range g start stop =
     (let s = pmin start stop; e = pmax start stop in (pmax (gr_start g) s, pmin (gr_end g) e))"

definition set_range :: "(string \<Rightarrow> extents) \<Rightarrow> pynum \<Rightarrow> pynum \<Rightarrow> (graphic, unit) handler" where
  "set_range ext start stop g =
     (case clamp_range g start stop of (s, e) \<Rightarrow>
        layout_graphic ext (gr_width g) (gr_height g)
          (g \<lparr> gr_range := Some (s, e), gr_data := set_render_range s e (gr_data g),
              gr_mid := set_bounds s e (gr_mid g) \<rparr>))"

text \<open>The lines that join the selection on the lower scale with the scale above it, and the parts of the
  lower scale that are not selected.\<close>

definition connections :: "pynum \<Rightarrow> pynum \<Rightarrow> pynum \<Rightarrow> pynum \<Rightarrow> pynum \<Rightarrow> draw_op list" where
  "connections width x0 select_start select_end h =
     [Move_to 0 h, Line_to x0 h, Line_to select_start (h + 20), Line_to 0 (h + 20), Line_to 0 h,
      black, Line_width 1, Stroke_preserve, grey, Fill,
      Move_to width h, Line_to width (h + 20), Line_to select_end (h + 20), Line_to width h,
      black, Line_width 1, Stroke_preserve, grey, Fill]"

definition unused_parts :: "pynum \<Rightarrow> pynum \<Rightarrow> pynum \<Rightarrow> pynum \<Rightarrow> pynum \<Rightarrow> draw_op list" where
  "unused_parts width unused_start unused_end h unused_height =
     [Rectangle 0 h unused_start unused_height, Rectangle unused_end h (width - unused_end) unused_height, grey, Fill,
      Move_to unused_end h, Line_to width h, Line_to width (h + unused_height), Line_to 0 (h + unused_height),
      Line_to 0 h, Line_to unused_start h, Close_path, Line_width 2, black, Stroke,
      Move_to unused_start h, Line_to unused_end h, Close_path, Line_width 1, grey, Stroke,
      Save, Move_to (pmax unused_start 2) h, Rel_line_to 0 unused_height,
      Move_to (pmin unused_end (width - 2)) h, Rel_line_to 0 unused_height,
      Set_dash 5, black, Line_width 1, Stroke, Restore]"

definition draw_graphic :: "(string \<Rightarrow> extents) \<Rightarrow> graphic \<Rightarrow> colors \<Rightarrow> (draw_op list \<times> colors) result" where
  "draw_graphic ext g cs =
     rbind (draw_legend ext (gr_legend g)) (\<lambda>legend_ops. rbind (legend_height (gr_legend g)) (\<lambda>lh.
     rbind (draw_view ext (gr_data g) cs) (\<lambda>p. rbind (data_x_start (gr_data g)) (\<lambda>x0.
     rbind (view_height (gr_data g)) (\<lambda>dh. rbind (scale_height (gr_mid g)) (\<lambda>mh.
     rbind (draw_scale ext (gr_mid g)) (\<lambda>mid_ops. rbind (get_view_range g) (\<lambda>(lo, hi).
     rbind (get_position (gr_bot g) lo) (\<lambda>select_start. rbind (get_position (gr_bot g) hi) (\<lambda>select_end.
     rbind (scale_height (gr_bot g)) (\<lambda>bh. rbind (draw_scale ext (gr_bot g)) (\<lambda>bot_ops.
       let width = gr_width g; used = lh + dh + mh
       in Inr ([Save, Set_rgb 1 1 1, Operator_source, Rectangle 0 0 width (gr_height g), Fill]
            @ [Save] @ legend_ops @ [Restore]
            @ [Move_to 0 lh, Line_to width lh, Close_path, Line_width 2, black, Stroke]
            @ [Save, Translate 0 lh] @ pn_ops p @ [Restore]
            @ [Save, Translate x0 used] @ mid_ops @ [Restore]
            @ [Move_to x0 used, Rel_line_to 0 (- mh), Close_path, black, Line_width 2, Stroke]
            @ [Move_to 0 used, Line_to width used, Close_path, Line_width 2, black, Stroke]
            @ connections width x0 select_start select_end used
            @ unused_parts width select_start select_end (used + 20) (bh + 20)
            @ [Save, Translate 0 (used + 20)] @ bot_ops @ [Restore], pn_colors p)))))))))))))"

section \<open>The widget\<close>

datatype cursor = Double_arrow | Fleur | No_cursor

datatype gtk_call =
    Queue_draw
  | Queue_area pynum int int int
  | Set_cursor cursor

text \<open>The flags are what the code assigns to them: \<open>False\<close> and \<open>True\<close>, which are the numbers 0 and 1, or
  for \<open>__moving_right\<close> the width of the widget.  A number is true when it is not 0.\<close>

record widget =
  wd_graphic :: graphic
  wd_colors :: colors
  moving_left :: bool
  moving_right :: pynum
  moving_both :: bool
  moving_top :: bool
  full_redraw :: bool
  left_cur :: "pynum option"
  right_cur :: "pynum option"
  both_start :: "pynum option"
  both_cur :: "pynum option"
  top_start :: "pynum option"
  top_cur :: "pynum option"
  wd_width :: "pynum option"
  wd_height :: "pynum option"
  wd_buffer :: "draw_op list option"
  wd_calls :: "gtk_call list"

definition truthy :: "pynum \<Rightarrow> bool" where
  "truthy a \<longleftrightarrow> pval a \<noteq> 0"

definition new_widget :: "graphic \<Rightarrow> colors \<Rightarrow> widget" where
  "new_widget g cs =
     \<lparr> wd_graphic = g, wd_colors = cs, moving_left = False, moving_right = 0, moving_both = False,
       moving_top = False, full_redraw = True, left_cur = None, right_cur = None, both_start = None,
       both_cur = None, top_start = None, top_cur = None, wd_width = None, wd_height = None,
       wd_buffer = None, wd_calls = [] \<rparr>"

definition gtk :: "gtk_call \<Rightarrow> widget \<Rightarrow> widget" where
  "gtk c w = w \<lparr> wd_calls := wd_calls w @ [c] \<rparr>"

definition on_graphic :: "(graphic, 'a) handler \<Rightarrow> (widget, 'a) handler" where
  "on_graphic m w = (case m (wd_graphic w) of (g, r) \<Rightarrow> (w \<lparr> wd_graphic := g \<rparr>, r))"

definition redraw :: "widget \<Rightarrow> widget" where
  "redraw w = gtk Queue_draw (w \<lparr> full_redraw := True \<rparr>)"

text \<open>Zooming keeps the left border and doubles or halves the width.\<close>

definition set_smaller_zoom :: "(string \<Rightarrow> extents) \<Rightarrow> (widget, unit) handler" where
  "set_smaller_zoom ext =
     hbind (hread (\<lambda>w. get_view_range (wd_graphic w))) (\<lambda>(start, stop).
     hseq (on_graphic (set_range ext start (start + (stop - start) * 2))) (hset redraw))"

definition set_bigger_zoom :: "(string \<Rightarrow> extents) \<Rightarrow> (widget, unit) handler" where
  "set_bigger_zoom ext =
     hbind (hread (\<lambda>w. get_view_range (wd_graphic w))) (\<lambda>(start, stop).
     hseq (on_graphic (set_range ext start (start + pquot (stop - start) 2))) (hset redraw))"

text \<open>The picture is drawn into the buffer of the window once more; the surface that is written to the file
  is a new one, and the result is what was drawn on it.\<close>

definition output_png :: "(string \<Rightarrow> extents) \<Rightarrow> (widget, draw_op list) handler" where
  "output_png ext =
     hbind (hread (\<lambda>w. need (wd_buffer w))) (\<lambda>buf.
     hbind (hread (\<lambda>w. draw_graphic ext (wd_graphic w) (wd_colors w))) (\<lambda>(ops, cs).
     hseq (hset (\<lambda>w. w \<lparr> wd_buffer := Some (buf @ ops), wd_colors := cs \<rparr>)) (hreturn [])))"

definition strictly_in :: "pynum \<Rightarrow> pynum \<Rightarrow> pynum \<Rightarrow> bool" where
  "strictly_in a x b \<longleftrightarrow> a < x \<and> x < b"

definition button_press :: "pynum \<Rightarrow> pynum \<Rightarrow> (widget, bool) handler" where
  "button_press ex ey =
     hbind (hread (\<lambda>w. selection_rectangle (wd_graphic w))) (\<lambda>(x, y, width, height).
     hbind (hread (\<lambda>w. data_rectangle (wd_graphic w))) (\<lambda>(d_x, d_y, d_width, d_height).
       if strictly_in y ey (y + height) \<and> pabs (ex - x) < 5 then
         hseq (hset (\<lambda>w. w \<lparr> moving_left := True \<rparr>)) (hreturn True)
       else if strictly_in y ey (y + height) \<and> pabs (ex - (x + width)) < 5 then
         hseq (hset (\<lambda>w. w \<lparr> moving_right := 1 \<rparr>)) (hreturn True)
       else if strictly_in y ey (y + height) \<and> strictly_in x ex (x + width) then
         hseq (hset (\<lambda>w. w \<lparr> moving_both := True, both_start := Some ex, both_cur := Some ex \<rparr>)) (hreturn True)
       else if strictly_in d_y ey (d_y + d_height) \<and> strictly_in d_x ex (d_x + d_width) then
         hseq (hset (\<lambda>w. w \<lparr> moving_top := True, top_start := Some ex, top_cur := Some ex \<rparr>)) (hreturn True)
       else hreturn False))"

definition release_left :: "(string \<Rightarrow> extents) \<Rightarrow> (widget, bool) handler" where
  "release_left ext =
     hseq (hset (\<lambda>w. w \<lparr> moving_left := False \<rparr>))
     (hbind (hread (\<lambda>w. rbind (need (left_cur w)) (\<lambda>c. scale_selection c (wd_graphic w)))) (\<lambda>left.
      hbind (hread (\<lambda>w. get_view_range (wd_graphic w))) (\<lambda>(lo, right).
      hseq (on_graphic (set_range ext left right)) (hseq (hset redraw) (hreturn True)))))"

definition release_right :: "(string \<Rightarrow> extents) \<Rightarrow> (widget, bool) handler" where
  "release_right ext =
     hseq (hset (\<lambda>w. w \<lparr> moving_right := 0 \<rparr>))
     (hbind (hread (\<lambda>w. rbind (need (right_cur w)) (\<lambda>c. scale_selection c (wd_graphic w)))) (\<lambda>right.
      hbind (hread (\<lambda>w. get_view_range (wd_graphic w))) (\<lambda>(left, hi).
      hseq (on_graphic (set_range ext left right)) (hseq (hset redraw) (hreturn True)))))"

definition release_both :: "(string \<Rightarrow> extents) \<Rightarrow> (widget, bool) handler" where
  "release_both ext =
     hseq (hset (\<lambda>w. w \<lparr> moving_both := False \<rparr>))
     (hbind (hread (\<lambda>w. rbind (need (both_cur w)) (\<lambda>c. rbind (need (both_start w)) (\<lambda>s.
               scale_selection (c - s) (wd_graphic w))))) (\<lambda>delta.
      hbind (hread (\<lambda>w. get_view_range (wd_graphic w))) (\<lambda>(left, right).
      hseq (on_graphic (set_range ext (left + delta) (right + delta))) (hseq (hset redraw) (hreturn True)))))"

definition button_release :: "(string \<Rightarrow> extents) \<Rightarrow> (widget, bool) handler" where
  "button_release ext w =
     (if moving_left w then release_left ext w
      else if truthy (moving_right w) then release_right ext w
      else if moving_both w then release_both ext w
      else if moving_top w then (w \<lparr> moving_top := False \<rparr>, Inr False)
      else (w, Inr False))"

text \<open>\<open>queue_draw_area\<close> of the lower scale.\<close>

definition queue_area :: "pynum \<Rightarrow> pynum \<Rightarrow> (widget, bool) handler" where
  "queue_area y height =
     hbind (hread (\<lambda>w. need (wd_width w))) (\<lambda>width.
     hseq (hset (gtk (Queue_area 0 (py_int y) (py_int width) (py_int height)))) (hreturn True))"

definition motion_left :: "pynum \<Rightarrow> pynum \<times> pynum \<times> pynum \<times> pynum \<Rightarrow> (widget, bool) handler" where
  "motion_left ex r =
     (case r of (x, y, width, height) \<Rightarrow>
        hseq (hset (\<lambda>w. w \<lparr> left_cur := Some (if ex \<le> 0 then 0 else if x + width \<le> ex then x + width else ex) \<rparr>))
          (queue_area y height))"

definition motion_right :: "pynum \<Rightarrow> pynum \<times> pynum \<times> pynum \<times> pynum \<Rightarrow> (widget, bool) handler" where
  "motion_right ex r =
     (case r of (x, y, width, height) \<Rightarrow>
        hbind (hread (\<lambda>w. need (wd_width w))) (\<lambda>ww.
        hseq (hset (\<lambda>w. if ww \<le> ex then w \<lparr> moving_right := ww \<rparr>
                        else w \<lparr> right_cur := Some (if ex < x then x else ex) \<rparr>))
          (queue_area y height)))"

definition motion_both :: "pynum \<Rightarrow> pynum \<times> pynum \<times> pynum \<times> pynum \<Rightarrow> (widget, bool) handler" where
  "motion_both ex r =
     (case r of (x, y, width, height) \<Rightarrow>
        hbind (hread (\<lambda>w. rbind (need (wd_width w)) (\<lambda>ww. rbind (need (both_start w)) (\<lambda>s. Inr (ww, s))))) (\<lambda>(ww, s).
        let cur_e = ww - (x + width - s); cur_s = s - x
        in hseq (hset (\<lambda>w. w \<lparr> both_cur := Some (if ex < cur_s then cur_s else if cur_e < ex then cur_e else ex) \<rparr>))
             (queue_area y height)))"

definition motion_top :: "(string \<Rightarrow> extents) \<Rightarrow> pynum \<Rightarrow> (widget, bool) handler" where
  "motion_top ext ex =
     hseq (hset (\<lambda>w. w \<lparr> top_cur := Some ex \<rparr>))
     (hbind (hread (\<lambda>w. rbind (need (top_start w)) (\<lambda>s. scale_data (s - ex) (wd_graphic w)))) (\<lambda>delta.
      hbind (hread (\<lambda>w. get_view_range (wd_graphic w))) (\<lambda>(left, right).
      hseq (on_graphic (set_range ext (left + delta) (right + delta)))
        (hseq (hset (\<lambda>w. gtk Queue_draw (w \<lparr> full_redraw := True, top_start := Some ex \<rparr>))) (hreturn True)))))"

definition hover :: "pynum \<Rightarrow> pynum \<Rightarrow> pynum \<times> pynum \<times> pynum \<times> pynum \<Rightarrow> (widget, bool) handler" where
  "hover ex ey r =
     (case r of (x, y, width, height) \<Rightarrow>
        hbind (hread (\<lambda>w. data_rectangle (wd_graphic w))) (\<lambda>(d_x, d_y, d_width, d_height).
          if strictly_in y ey (y + height) \<and> (pabs (ex - x) < 5 \<or> pabs (ex - (x + width)) < 5) then
            hseq (hset (gtk (Set_cursor Double_arrow))) (hreturn True)
          else if strictly_in y ey (y + height) \<and> strictly_in x ex (x + width) then
            hseq (hset (gtk (Set_cursor Fleur))) (hreturn True)
          else if strictly_in d_y ey (d_y + d_height) \<and> strictly_in d_x ex (d_x + d_width) then
            hseq (hset (gtk (Set_cursor Fleur))) (hreturn True)
          else hseq (hset (gtk (Set_cursor No_cursor))) (hreturn False)))"

definition motion_notify :: "(string \<Rightarrow> extents) \<Rightarrow> pynum \<Rightarrow> pynum \<Rightarrow> (widget, bool) handler" where
  "motion_notify ext ex ey =
     hbind (hread (\<lambda>w. selection_rectangle (wd_graphic w))) (\<lambda>r w.
       if moving_left w then motion_left ex r w
       else if truthy (moving_right w) then motion_right ex r w
       else if moving_both w then motion_both ex r w
       else if moving_top w then motion_top ext ex w
       else hover ex ey r w)"

definition size_allocate :: "(string \<Rightarrow> extents) \<Rightarrow> pynum \<Rightarrow> pynum \<Rightarrow> (widget, unit) handler" where
  "size_allocate ext width height =
     hseq (hset (\<lambda>w. w \<lparr> wd_width := Some width, wd_height := Some height \<rparr>))
     (hseq (on_graphic (layout_graphic ext width height)) (hset redraw))"

definition refill_buffer :: "(string \<Rightarrow> extents) \<Rightarrow> (widget, unit) handler" where
  "refill_buffer ext =
     hseq (hset (\<lambda>w. w \<lparr> wd_buffer := Some [] \<rparr>))
     (hbind (hread (\<lambda>w. draw_graphic ext (wd_graphic w) (wd_colors w))) (\<lambda>(ops, cs).
      hset (\<lambda>w. w \<lparr> wd_buffer := Some ops, wd_colors := cs, full_redraw := False \<rparr>)))"

text \<open>The lines that show where a dragged border is; \<open>moving_both\<close> has set both of its attributes.\<close>

definition vertical_line :: "pynum \<Rightarrow> pynum \<Rightarrow> pynum \<Rightarrow> draw_op list" where
  "vertical_line x y height = [Move_to x y, Rel_line_to 0 height, Close_path, Line_width 1, black, Stroke]"

definition drag_marks :: "widget \<Rightarrow> pynum \<times> pynum \<times> pynum \<times> pynum \<Rightarrow> draw_op list result" where
  "drag_marks w r =
     (case r of (x, y, width, height) \<Rightarrow>
        rbind (if moving_left w then rbind (need (left_cur w)) (\<lambda>c. Inr (vertical_line (pmax c 2) y height)) else Inr [])
          (\<lambda>left.
        rbind (if truthy (moving_right w) then
                 rbind (need (right_cur w)) (\<lambda>c. rbind (need (wd_width w)) (\<lambda>ww.
                   Inr (vertical_line (pmin c (ww - 2)) y height)))
               else Inr []) (\<lambda>right.
        rbind (if moving_both w then
                 rbind (need (both_cur w)) (\<lambda>c. rbind (need (both_start w)) (\<lambda>s.
                   Inr [Move_to (x + (c - s)) y, Rel_line_to 0 height, Close_path,
                        Move_to (x + width + (c - s)) y, Rel_line_to 0 height, Close_path, black, Line_width 1, Stroke]))
               else Inr []) (\<lambda>both. Inr (left @ right @ both)))))"

definition expose :: "(string \<Rightarrow> extents) \<Rightarrow> pynum \<times> pynum \<times> pynum \<times> pynum \<Rightarrow> (widget, draw_op list) handler" where
  "expose ext area =
     hseq (\<lambda>w. if full_redraw w then refill_buffer ext w else (w, Inr ()))
     (hbind (hread (\<lambda>w. rbind (need (wd_buffer w)) (\<lambda>_.
               rbind (selection_rectangle (wd_graphic w)) (drag_marks w)))) (\<lambda>marks.
      case area of (ax, ay, aw, ah) \<Rightarrow>
        hreturn ([Rectangle ax ay aw ah, Clip, Source_buffer, Paint] @ marks)))"

section \<open>The script and its events\<close>

text \<open>\<open>main\<close> up to the window: an exception ends the script.\<close>

definition start_view :: "(string \<Rightarrow> extents) \<Rightarrow> (string list \<Rightarrow> string list) \<Rightarrow> string list \<Rightarrow> (graphic \<times> colors) result" where
  "start_view ext enum lines =
     (case read_data lines of (cs, tlines) \<Rightarrow> (case timelines_bounds tlines of (lower, upper) \<Rightarrow>
        let range_values = get_all_range_values enum tlines
        in rbind (lookup_colors range_values cs) (\<lambda>(range_colors, cs').
             let g = new_graphic (PyInt lower) (PyInt upper) (new_view tlines) (new_legend range_values range_colors);
                 range_mid = (upper - lower) div 2;
                 range_width = (upper - lower) div 10;
                 range_lo = range_mid - range_width div 2;
                 range_hi = range_mid + range_width div 2
             in (case set_range ext (PyInt range_lo) (PyInt range_hi) g of (g', r) \<Rightarrow>
                   rbind r (\<lambda>_. Inr (g', cs'))))))"

datatype gtk_event =
    Press pynum pynum
  | Release
  | Motion pynum pynum
  | Zoom_out
  | Zoom_in
  | Output_png
  | Allocate pynum pynum
  | Expose pynum pynum pynum pynum

text \<open>The callbacks that \<open>__init__\<close> and \<open>MainWindow\<close> connect, and whether they return; GTK prints an exception.\<close>

definition settle :: "'s \<times> 'a result \<Rightarrow> 's \<times> bool" where
  "settle p = (fst p, \<not> isl (snd p))"

definition event_outcome :: "(string \<Rightarrow> extents) \<Rightarrow> gtk_event \<Rightarrow> widget \<Rightarrow> widget \<times> bool" where
  "event_outcome ext ev w = (case ev of
     Press ex ey \<Rightarrow> settle (button_press ex ey w)
   | Release \<Rightarrow> settle (button_release ext w)
   | Motion ex ey \<Rightarrow> settle (motion_notify ext ex ey w)
   | Zoom_out \<Rightarrow> settle (set_smaller_zoom ext w)
   | Zoom_in \<Rightarrow> settle (set_bigger_zoom ext w)
   | Output_png \<Rightarrow> settle (output_png ext w)
   | Allocate width height \<Rightarrow> settle (size_allocate ext width height w)
   | Expose x y width height \<Rightarrow> settle (expose ext (x, y, width, height) w))"

definition run_event :: "(string \<Rightarrow> extents) \<Rightarrow> gtk_event \<Rightarrow> widget \<Rightarrow> widget" where
  "run_event ext ev w = fst (event_outcome ext ev w)"

lemma run_event_cases:
  "run_event ext (Press ex ey) w = fst (button_press ex ey w)"
  "run_event ext Release w = fst (button_release ext w)"
  "run_event ext (Motion ex ey) w = fst (motion_notify ext ex ey w)"
  "run_event ext Zoom_out w = fst (set_smaller_zoom ext w)"
  "run_event ext Zoom_in w = fst (set_bigger_zoom ext w)"
  "run_event ext Output_png w = fst (output_png ext w)"
  "run_event ext (Allocate width height) w = fst (size_allocate ext width height w)"
  "run_event ext (Expose x y width height) w = fst (expose ext (x, y, width, height) w)"
  by (simp_all add: run_event_def event_outcome_def settle_def)

section \<open>The visible range\<close>

definition range_inside :: "graphic \<Rightarrow> bool" where
  "range_inside g = (case gr_range g of None \<Rightarrow> True | Some (lo, hi) \<Rightarrow> gr_start g \<le> lo \<and> hi \<le> gr_end g)"

lemma preserves_on_graphic [preserves_rules]:
  "(\<And>g. Q g \<Longrightarrow> Q (fst (m g))) \<Longrightarrow> preserves (\<lambda>w. Q (wd_graphic w)) (on_graphic m)"
  by (auto simp: preserves_def on_graphic_def split: prod.splits) (metis fst_conv)

lemma layout_graphic_keeps [simp]:
  "gr_range (fst (layout_graphic ext width height g)) = gr_range g"
  "gr_start (fst (layout_graphic ext width height g)) = gr_start g"
  "gr_end (fst (layout_graphic ext width height g)) = gr_end g"
  by (simp_all add: layout_graphic_def split: sum.splits)

lemma set_range_range [simp]:
  "gr_range (fst (set_range ext a b g)) = Some (clamp_range g a b)"
  "gr_start (fst (set_range ext a b g)) = gr_start g"
  "gr_end (fst (set_range ext a b g)) = gr_end g"
  by (simp_all add: set_range_def split: prod.splits)

lemma clamp_range_inside: "gr_start g \<le> fst (clamp_range g a b)" "snd (clamp_range g a b) \<le> gr_end g"
  by (simp_all add: clamp_range_def Let_def)


lemma set_range_inside: "range_inside (fst (set_range ext a b g))"
  using clamp_range_inside [of g a b] by (cases "clamp_range g a b") (simp add: range_inside_def)

lemma layout_range_inside: "range_inside (fst (layout_graphic ext width height g)) = range_inside g"
  by (simp add: range_inside_def split: option.splits prod.splits)

lemma handler_tests:
  "button_release ext = (\<lambda>w. if moving_left w then release_left ext w
     else (\<lambda>w. if truthy (moving_right w) then release_right ext w
     else (\<lambda>w. if moving_both w then release_both ext w
     else (\<lambda>w. if moving_top w then hseq (hset (\<lambda>w. w \<lparr> moving_top := False \<rparr>)) (hreturn False) w
     else hreturn False w) w) w) w)"
  by (simp add: fun_eq_iff button_release_def)

definition fixed_bounds :: "rat \<Rightarrow> rat \<Rightarrow> graphic \<Rightarrow> bool" where
  "fixed_bounds a b g \<longleftrightarrow> range_inside g \<and> gr_range g \<noteq> None \<and> pval (gr_start g) = a \<and> pval (gr_end g) = b"

lemma fixed_bounds_handlers:
  assumes "fixed_bounds a b g"
  shows "fixed_bounds a b (fst (set_range ext c d g))" "fixed_bounds a b (fst (layout_graphic ext width height g))"
  using assms by (simp_all add: fixed_bounds_def set_range_inside layout_range_inside)

lemma run_event_bounds:
  assumes "fixed_bounds a b (wd_graphic w)"
  shows "fixed_bounds a b (wd_graphic (run_event ext ev w))"
proof -
  let ?P = "\<lambda>w. fixed_bounds a b (wd_graphic w)"
  note rules = preserves_rules fixed_bounds_handlers
  have "preserves ?P (button_press ex ey)" for ex ey
    unfolding button_press_def by (intro rules) (simp_all add: gtk_def)
  moreover have "preserves ?P (button_release ext)"
    unfolding handler_tests release_left_def release_right_def release_both_def
    by (intro rules) (simp_all add: gtk_def redraw_def)
  moreover have "preserves ?P (motion_notify ext ex ey)" for ex ey
    unfolding motion_notify_def motion_left_def motion_right_def motion_both_def motion_top_def hover_def queue_area_def
    by (intro rules) (simp_all add: gtk_def)
  moreover have "preserves ?P (set_smaller_zoom ext)" "preserves ?P (set_bigger_zoom ext)"
    unfolding set_smaller_zoom_def set_bigger_zoom_def by (intro rules; simp add: gtk_def redraw_def)+
  moreover have "preserves ?P (output_png ext)"
    unfolding output_png_def by (intro rules) simp_all
  moreover have "preserves ?P (size_allocate ext width height)" for width height
    unfolding size_allocate_def by (intro rules) (simp_all add: gtk_def redraw_def)
  moreover have "preserves ?P (expose ext area)" for area
    unfolding expose_def refill_buffer_def
    by (intro rules) simp_all
  ultimately show ?thesis using assms by (cases ev) (simp_all add: run_event_cases preserves_def)
qed


lemma run_events_bounds:
  "fixed_bounds a b (wd_graphic w) \<Longrightarrow> fixed_bounds a b (wd_graphic (fold (run_event ext) evs w))"
  by (induction evs arbitrary: w) (simp_all add: run_event_bounds)

lemma start_view_graphic:
  assumes "start_view ext enum lines = Inr (g, cs)" "timelines_bounds (snd (read_data lines)) = (lower, upper)"
  shows "\<exists>a b data lg. g = fst (set_range ext a b (new_graphic (PyInt lower) (PyInt upper) data lg))"
  using assms by (auto simp: start_view_def Let_def rbind_eq_Inr case_prod_beta)

text \<open>Whatever the user does, the visible range stays inside the bounds of the data of the file.\<close>

theorem visible_range_inside:
  assumes "start_view ext enum lines = Inr (g, cs)" "timelines_bounds (snd (read_data lines)) = (lower, upper)"
  shows "\<exists>lo hi. gr_range (wd_graphic (fold (run_event ext) evs (new_widget g cs))) = Some (lo, hi)
    \<and> PyInt lower \<le> lo \<and> hi \<le> PyInt upper"
proof -
  have "fixed_bounds (of_int lower) (of_int upper) g"
  proof -
    obtain a b data lg where "g = fst (set_range ext a b (new_graphic (PyInt lower) (PyInt upper) data lg))"
      using start_view_graphic [OF assms] by blast
    then show ?thesis by (simp add: fixed_bounds_def set_range_inside new_graphic_def)
  qed
  then have "fixed_bounds (of_int lower) (of_int upper) (wd_graphic (fold (run_event ext) evs (new_widget g cs)))"
    by (intro run_events_bounds) (simp add: new_widget_def)
  then show ?thesis by (auto simp: fixed_bounds_def range_inside_def)
qed

definition sample_lines :: "string list" where
  "sample_lines = [''range n state up 0 40'', ''range n state down 50 100'', ''event-int n sent 7 4'']"

definition some_ext :: "string \<Rightarrow> extents" where
  "some_ext s = \<lparr> ext_bearing = 0, ext_width = PyFloat (of_nat (length s)), ext_height = PyFloat 8 \<rparr>"

theorem visible_range_inside_witness:
  "\<exists>g cs. start_view some_ext id sample_lines = Inr (g, cs)
     \<and> (\<exists>lo hi. gr_range (wd_graphic (fold (run_event some_ext) [Zoom_out, Zoom_out, Zoom_out, Zoom_out, Zoom_out] (new_widget g cs)))
            = Some (lo, hi) \<and> PyInt 0 \<le> lo \<and> hi \<le> PyInt 100)"
proof -
  have "\<not> isl (start_view some_ext id sample_lines)" by code_simp
  then obtain g cs where s: "start_view some_ext id sample_lines = Inr (g, cs)"
    by (cases "start_view some_ext id sample_lines") auto
  have "timelines_bounds (snd (read_data sample_lines)) = (0, 100)" by code_simp
  from visible_range_inside [OF s this] s show ?thesis by blast
qed

section \<open>Dragging\<close>

definition flags :: "widget \<Rightarrow> bool \<times> bool \<times> bool \<times> bool" where
  "flags w = (moving_left w, truthy (moving_right w), moving_both w, moving_top w)"

abbreviation idle :: "bool \<times> bool \<times> bool \<times> bool" where
  "idle \<equiv> (False, False, False, False)"

definition n_drags :: "widget \<Rightarrow> nat" where
  "n_drags w = (case flags w of (l, r, b, t) \<Rightarrow> of_bool l + of_bool r + of_bool b + of_bool t)"

lemma preserves_flags_on_graphic [preserves_rules]:
  "preserves (\<lambda>w. Q (flags w)) (on_graphic m)"
  by (auto simp: preserves_def on_graphic_def flags_def split: prod.splits)

lemma truthy_simps [simp]: "\<not> truthy 0" "truthy 1"
  by (simp_all add: truthy_def)

text \<open>Presses and releases of a single mouse button take turns.\<close>

fun one_button :: "bool \<Rightarrow> gtk_event list \<Rightarrow> bool" where
  "one_button down [] \<longleftrightarrow> True"
| "one_button down (Press ex ey # evs) \<longleftrightarrow> \<not> down \<and> one_button True evs"
| "one_button down (Release # evs) \<longleftrightarrow> down \<and> one_button False evs"
| "one_button down (ev # evs) \<longleftrightarrow> one_button down evs"

definition drags_ok :: "bool \<Rightarrow> widget \<Rightarrow> bool" where
  "drags_ok down w \<longleftrightarrow> n_drags w \<le> of_bool down"

lemma press_drags: "drags_ok False w \<Longrightarrow> drags_ok True (fst (button_press ex ey w))"
  by (auto simp: button_press_def drags_ok_def n_drags_def flags_def split: sum.splits)

lemma release_rest:
  "preserves (\<lambda>w. Q (flags w)) (hbind (hread f) (\<lambda>c. hbind (hread g) (\<lambda>(l, r).
     hseq (on_graphic (set_range ext (a c l r) (b c l r))) (hseq (hset redraw) (hreturn True)))))"
  by (intro preserves_rules) (simp_all add: redraw_def gtk_def flags_def)

lemma release_drags:
  assumes "drags_ok True w"
  shows "drags_ok False (fst (button_release ext w))"
proof -
  have l: "flags w = (True, False, False, False) \<Longrightarrow> flags (fst (release_left ext w)) = idle"
    using preservesD [OF release_rest [where Q = "\<lambda>f. f = idle"], of "w \<lparr> moving_left := False \<rparr>"]
    by (simp add: release_left_def flags_def)
  have r: "flags w = (False, True, False, False) \<Longrightarrow> flags (fst (release_right ext w)) = idle"
    using preservesD [OF release_rest [where Q = "\<lambda>f. f = idle"], of "w \<lparr> moving_right := 0 \<rparr>"]
    by (simp add: release_right_def flags_def)
  have b: "flags w = (False, False, True, False) \<Longrightarrow> flags (fst (release_both ext w)) = idle"
    using preservesD [OF release_rest [where Q = "\<lambda>f. f = idle"], of "w \<lparr> moving_both := False \<rparr>"]
    by (simp add: release_both_def flags_def)
  show ?thesis
    using assms l r b unfolding drags_ok_def n_drags_def
    by (auto simp: button_release_def flags_def split: if_splits prod.splits)
qed

lemma motion_drags: "n_drags (fst (motion_notify ext ex ey w)) \<le> n_drags w"
proof -
  have q: "preserves (\<lambda>w. flags w = f) (queue_area y height)" for y height f
    unfolding queue_area_def by (intro preserves_rules) (simp_all add: gtk_def flags_def)
  have l: "preserves (\<lambda>w. flags w = f) (motion_left ex r)" for r f
    unfolding motion_left_def by (intro preserves_rules q) (simp_all add: flags_def)
  have b: "preserves (\<lambda>w. flags w = f) (motion_both ex r)" for r f
    unfolding motion_both_def by (intro preserves_rules q) (simp_all add: flags_def)
  have t: "preserves (\<lambda>w. flags w = f) (motion_top ext ex)" for f
    unfolding motion_top_def by (intro preserves_rules preserves_flags_on_graphic [where Q = "\<lambda>g. g = f"])
      (simp_all add: flags_def gtk_def)
  have h: "preserves (\<lambda>w. flags w = f) (hover ex ey r)" for r f
    unfolding hover_def by (intro preserves_rules) (simp_all add: flags_def gtk_def)
  have a: "n_drags (fst (queue_area y height w1)) = n_drags w1" for y height w1
    using preservesD [OF q refl, of y height w1] by (simp add: n_drags_def)
  have "n_drags (w \<lparr> moving_right := c \<rparr>) \<le> n_drags w" "n_drags (w \<lparr> right_cur := d \<rparr>) = n_drags w"
    if "truthy (moving_right w)" for c d
    using that by (auto simp: n_drags_def flags_def)
  then have r: "n_drags (fst (motion_right ex r w)) \<le> n_drags w" if "truthy (moving_right w)" for r
    using that by (simp add: motion_right_def a split: sum.splits prod.splits)
  note keep = preservesD [where P = "\<lambda>w'. flags w' = flags w", OF _ refl]
  show ?thesis
    using keep [OF l] keep [OF b] keep [OF t] keep [OF h] r
    by (auto simp: motion_notify_def n_drags_def split: sum.splits)
qed

fun uses_pointer :: "gtk_event \<Rightarrow> bool" where
  "uses_pointer (Press ex ey) \<longleftrightarrow> True"
| "uses_pointer Release \<longleftrightarrow> True"
| "uses_pointer (Motion ex ey) \<longleftrightarrow> True"
| "uses_pointer ev \<longleftrightarrow> False"

lemma other_drags:
  assumes "\<not> uses_pointer ev"
  shows "flags (run_event ext ev w) = flags w"
proof -
  note rules = preserves_rules preserves_flags_on_graphic [where Q = "\<lambda>g. g = flags w"]
  have "preserves (\<lambda>w'. flags w' = flags w) (set_smaller_zoom ext)" "preserves (\<lambda>w'. flags w' = flags w) (set_bigger_zoom ext)"
    unfolding set_smaller_zoom_def set_bigger_zoom_def by (intro rules; simp add: gtk_def redraw_def flags_def)+
  moreover have "preserves (\<lambda>w'. flags w' = flags w) (output_png ext)"
    unfolding output_png_def by (intro rules) (simp_all add: flags_def)
  moreover have "preserves (\<lambda>w'. flags w' = flags w) (size_allocate ext width height)" for width height
    unfolding size_allocate_def by (intro rules) (simp_all add: gtk_def redraw_def flags_def)
  moreover have "preserves (\<lambda>w'. flags w' = flags w) (expose ext area)" for area
    unfolding expose_def refill_buffer_def by (intro rules) (simp_all add: flags_def)
  ultimately show ?thesis using assms by (cases ev) (auto simp: run_event_cases preserves_def)
qed

lemma one_button_other: "\<not> uses_pointer ev \<Longrightarrow> one_button down (ev # evs) = one_button down evs"
  by (cases ev) auto

lemma drags_ok_events:
  "drags_ok down w \<Longrightarrow> one_button down evs \<Longrightarrow> n_drags (fold (run_event ext) evs w) \<le> 1"
proof (induction evs arbitrary: down w)
  case Nil
  then show ?case by (cases down) (auto simp: drags_ok_def)
next
  case (Cons ev evs)
  have "\<exists>d. drags_ok d (run_event ext ev w) \<and> one_button d evs"
  proof (cases "uses_pointer ev")
    case True
    then consider ex ey where "ev = Press ex ey" | "ev = Release" | ex ey where "ev = Motion ex ey" by (cases ev) auto
    then show ?thesis
    proof cases
      case (1 ex ey)
      then have "drags_ok False w" "one_button True evs" using Cons.prems by (cases down; simp)+
      then show ?thesis using press_drags [of w ex ey] 1 by (auto simp: run_event_cases)
    next
      case 2
      then have "drags_ok True w" "one_button False evs" using Cons.prems by (cases down; simp)+
      then show ?thesis using release_drags [of w ext] 2 by (auto simp: run_event_cases)
    next
      case (3 ex ey)
      then have "drags_ok down (run_event ext ev w)" "one_button down evs"
        using Cons.prems motion_drags [of ext ex ey w] by (simp_all add: run_event_cases drags_ok_def)
      then show ?thesis by blast
    qed
  next
    case False
    then have "n_drags (run_event ext ev w) = n_drags w" "one_button down evs"
      using other_drags [OF False, of ext w] one_button_other [OF False] Cons.prems(2) by (simp_all add: n_drags_def)
    then show ?thesis using Cons.prems(1) by (intro exI [of _ down]) (simp add: drags_ok_def)
  qed
  then show ?case using Cons.IH by auto
qed

text \<open>As long as the presses and releases of one mouse button take turns, at most one drag is going on,
  whatever else happens and whatever handlers raise; a new widget has none.\<close>

theorem one_drag_at_a_time:
  assumes "one_button False evs"
  shows "n_drags (fold (run_event ext) evs (new_widget g cs)) \<le> 1"
  by (rule drags_ok_events [OF _ assms]) (simp add: drags_ok_def n_drags_def flags_def new_widget_def)

theorem one_drag_at_a_time_witness:
  "\<forall>g cs. n_drags (fold (run_event some_ext) [Press 3 4, Motion 5 6, Zoom_in, Release, Motion 7 8, Press 1 2] (new_widget g cs)) \<le> 1"
  by (intro allI, rule one_drag_at_a_time) simp

text \<open>With a second button pressed during a drag there can be two drags: \<open>button_press\<close> does not look at the
  flags.\<close>

lemma press_ignores_flags:
  assumes "selection_rectangle (wd_graphic w) = Inr (x, y, width, height)" "data_rectangle (wd_graphic w) = Inr d"
    and "strictly_in y ey (y + height)" "pabs (ex - x) < 5" "moving_both w"
  shows "moving_left (fst (button_press ex ey w)) \<and> moving_both (fst (button_press ex ey w))"
  using assms by (cases d) (simp add: button_press_def)

section \<open>The effect of a drag\<close>

definition drag :: "(string \<Rightarrow> extents) \<Rightarrow> pynum \<times> pynum \<Rightarrow> (pynum \<times> pynum) list \<Rightarrow> widget \<Rightarrow> widget" where
  "drag ext p ms w =
     fold (run_event ext) (Press (fst p) (snd p) # map (\<lambda>(ex, ey). Motion ex ey) ms @ [Release]) w"

lemma need_simps [simp]: "need (Some x) = Inr x" "need None = Inl AttributeError"
  by (simp_all add: need_def)

lemma on_graphic_fields [simp]:
  "wd_graphic (fst (on_graphic m w)) = fst (m (wd_graphic w))"
  "flags (fst (on_graphic m w)) = flags w"
  by (simp_all add: on_graphic_def flags_def split: prod.splits)

lemma flags_update [simp]:
  "flags (w \<lparr> left_cur := a \<rparr>) = flags w" "flags (w \<lparr> right_cur := b \<rparr>) = flags w"
  "flags (w \<lparr> both_cur := c \<rparr>) = flags w" "flags (w \<lparr> both_start := d \<rparr>) = flags w"
  by (simp_all add: flags_def)

text \<open>The last step of a release: the range is set, also when laying out the picture raises.\<close>

lemma set_range_redraw:
  "wd_graphic (fst (hseq (on_graphic (set_range ext a b)) (hseq (hset redraw) (hreturn True)) w)) =
     fst (set_range ext a b (wd_graphic w))"
  by (auto simp: hseq_def hbind_def on_graphic_def hset_def hreturn_def redraw_def gtk_def split: prod.splits sum.splits)

lemma queue_area_graphic [simp]:
  "wd_graphic (fst (queue_area y height w)) = wd_graphic w"
  "flags (fst (queue_area y height w)) = flags w"
  "left_cur (fst (queue_area y height w)) = left_cur w"
  "right_cur (fst (queue_area y height w)) = right_cur w"
  "both_cur (fst (queue_area y height w)) = both_cur w"
  "both_start (fst (queue_area y height w)) = both_start w"
  "wd_width (fst (queue_area y height w)) = wd_width w"
  by (simp_all add: queue_area_def gtk_def flags_def split: sum.splits)




text \<open>A border that is pressed and released without a motion in between, in a widget that has not seen
  such a drag before: the handler raises an AttributeError, the drag is over and nothing has moved.\<close>

theorem release_without_motion:
  assumes "flags w = idle" "left_cur w = None"
    and "selection_rectangle (wd_graphic w) = Inr (x, y, width, height)" "data_rectangle (wd_graphic w) = Inr d"
    and "strictly_in y py (y + height)" "pabs (px - x) < 5"
  shows "snd (button_release ext (run_event ext (Press px py) w)) = Inl AttributeError
    \<and> wd_graphic (drag ext (px, py) [] w) = wd_graphic w \<and> flags (drag ext (px, py) [] w) = idle"
proof -
  have "run_event ext (Press px py) w = w \<lparr> moving_left := True \<rparr>"
    using assms(3-6) by (cases d) (simp add: run_event_cases button_press_def)
  then show ?thesis
    using assms(1,2) by (simp add: drag_def run_event_cases button_release_def release_left_def flags_def)
qed

text \<open>Dragging the right border to the edge of the widget or beyond does not move it: such a motion stores
  the width in the flag and not in the position, and without an earlier position the release raises
  an AttributeError.\<close>

theorem drag_right_to_edge:
  assumes "flags w = idle" "right_cur w = None" "wd_width w = Some ww" "pval ww \<noteq> 0"
    and "selection_rectangle (wd_graphic w) = Inr (x, y, width, height)" "data_rectangle (wd_graphic w) = Inr d"
    and "strictly_in y py (y + height)" "pabs (px - (x + width)) < 5" "5 \<le> pabs (px - x)"
    and "list_all (\<lambda>m. ww \<le> fst m) ms"
  shows "snd (button_release ext (fold (run_event ext) (Press px py # map (\<lambda>(ex, ey). Motion ex ey) ms) w)) = Inl AttributeError
    \<and> wd_graphic (drag ext (px, py) ms w) = wd_graphic w"
proof -
  have press: "run_event ext (Press px py) w = w \<lparr> moving_right := 1 \<rparr>"
    using assms(5-9) by (cases d) (simp add: run_event_cases button_press_def)
  have m: "fst (motion_notify ext ex ey w1) = fst (queue_area y height (w1 \<lparr> moving_right := ww \<rparr>))"
    if "ww \<le> ex" "wd_graphic w1 = wd_graphic w" "flags w1 = (False, True, False, False)" "wd_width w1 = Some ww" for ex ey w1
    using that assms(5) by (simp add: motion_notify_def motion_right_def flags_def)
  have "wd_graphic w' = wd_graphic w \<and> flags w' = (False, True, False, False) \<and> right_cur w' = None"
    if "list_all (\<lambda>m. ww \<le> fst m) ms" "wd_graphic w1 = wd_graphic w" "flags w1 = (False, True, False, False)"
      "wd_width w1 = Some ww" "right_cur w1 = None" "w' = fold (run_event ext) (map (\<lambda>(ex, ey). Motion ex ey) ms) w1" for w1 w'
    using that
  proof (induction ms arbitrary: w1)
    case (Cons q ms)
    let ?w2 = "run_event ext (Motion (fst q) (snd q)) w1"
    have "?w2 = fst (queue_area y height (w1 \<lparr> moving_right := ww \<rparr>))" using Cons.prems m by (simp add: run_event_cases)
    moreover have "flags (w1 \<lparr> moving_right := ww \<rparr>) = (False, True, False, False)"
      using Cons.prems(3) assms(4) by (simp add: flags_def truthy_def)
    ultimately have "wd_graphic ?w2 = wd_graphic w" "flags ?w2 = (False, True, False, False)" "wd_width ?w2 = Some ww" "right_cur ?w2 = None"
      using Cons.prems by simp_all
    moreover have "w' = fold (run_event ext) (map (\<lambda>(ex, ey). Motion ex ey) ms) ?w2" using Cons.prems(6) by (cases q) simp
    ultimately show ?case using Cons.IH [of ?w2] Cons.prems(1) by simp
  qed simp
  from this [OF assms(10), of "w \<lparr> moving_right := 1 \<rparr>"] assms(1-3)
  have w': "let w' = fold (run_event ext) (map (\<lambda>(ex, ey). Motion ex ey) ms) (w \<lparr> moving_right := 1 \<rparr>)
    in wd_graphic w' = wd_graphic w \<and> flags w' = (False, True, False, False) \<and> right_cur w' = None"
    by (simp add: flags_def Let_def)
  define w' where "w' = fold (run_event ext) (map (\<lambda>(ex, ey). Motion ex ey) ms) (w \<lparr> moving_right := 1 \<rparr>)"
  have "fold (run_event ext) (Press px py # map (\<lambda>(ex, ey). Motion ex ey) ms) w = w'"
    "drag ext (px, py) ms w = fst (button_release ext w')"
    by (simp_all add: w'_def drag_def press run_event_cases(2))
  moreover have "wd_graphic w' = wd_graphic w" "flags w' = (False, True, False, False)" "right_cur w' = None"
    using w' by (simp_all add: w'_def Let_def)
  ultimately show ?thesis by (simp add: button_release_def release_right_def flags_def)
qed

lemma motions_both:
  assumes "selection_rectangle (wd_graphic w) = Inr (x, y, width, height)" "flags w = (False, False, True, False)"
    and "wd_width w = Some ww" "both_start w = Some s"
  shows "let w' = fold (run_event ext) (map (\<lambda>(ex, ey). Motion ex ey) ms) w;
      lo = s - x; hi = ww - (x + width - s); m = fst (last ms)
    in wd_graphic w' = wd_graphic w \<and> flags w' = flags w \<and> both_start w' = Some s
    \<and> both_cur w' = (if ms = [] then both_cur w else Some (if m < lo then lo else if hi < m then hi else m))"
  using assms
proof (induction ms arbitrary: w)
  case (Cons m ms)
  let ?c = "if fst m < s - x then s - x else if ww - (x + width - s) < fst m then ww - (x + width - s) else fst m"
  let ?w1 = "run_event ext (Motion (fst m) (snd m)) w"
  have m: "?w1 = fst (queue_area y height (w \<lparr> both_cur := Some ?c \<rparr>))"
    using Cons.prems by (simp add: run_event_cases motion_notify_def motion_both_def flags_def)
  have w1: "wd_graphic ?w1 = wd_graphic w" "flags ?w1 = flags w" "both_start ?w1 = Some s" "both_cur ?w1 = Some ?c" "wd_width ?w1 = Some ww"
    unfolding m using Cons.prems by simp_all
  with Cons.IH [of ?w1] Cons.prems show ?case by (cases m) (simp add: Let_def)
qed simp

lemma selection_x:
  assumes "selection_rectangle g = Inr (x, y, width, height)" "gr_range g = Some (lo, hi)"
    and "sc_bounds (gr_bot g) = Some b" "sc_width (gr_bot g) = Some W" "is_float lo" "is_float hi"
  shows "pval x = (pval lo - pval (fst b)) * pval W / (pval (snd b) - pval (fst b))"
    and "pval (x + width) = (pval hi - pval (fst b)) * pval W / (pval (snd b) - pval (fst b))"
  using assms by (auto simp: selection_rectangle_def get_view_range_def get_position_def scale_x_def pdiv_def
      rbind_eq_Inr pval_pquot_float split: if_splits)

lemma shift_inside:
  fixes x x2 W lo hi S E shift :: rat
  assumes "S < E" "0 < W" "x = (lo - S) * W / (E - S)" "x2 = (hi - S) * W / (E - S)" "- x \<le> shift" "shift \<le> W - x2"
  shows "- (lo - S) \<le> shift / W * (E - S)" "shift / W * (E - S) \<le> E - hi"
proof -
  have "- x / W * (E - S) \<le> shift / W * (E - S)"
    using assms(1,2,5) by (intro mult_right_mono divide_right_mono) simp_all
  then show "- (lo - S) \<le> shift / W * (E - S)" using assms(1-3) by simp
  have "shift / W * (E - S) \<le> (W - x2) / W * (E - S)"
    using assms(1,2,6) by (intro mult_right_mono divide_right_mono) simp_all
  also have "\<dots> = (1 - (hi - S) / (E - S)) * (E - S)" using assms(1,2,4) by (simp add: diff_divide_distrib)
  also have "\<dots> = E - hi"
  proof -
    have "(hi - S) / (E - S) * (E - S) = hi - S" using assms(1) by simp
    then show ?thesis by (simp only: left_diff_distrib mult_1_left)
  qed
  finally show "shift / W * (E - S) \<le> E - hi" .
qed

text \<open>C13 Dragging the selection moves it without changing its width: the range is shifted by the time that
  corresponds to the motion of the pointer, kept where the selection stays inside the scale.  The range
  and the position of the press are floats, as they are after any earlier drag.\<close>

theorem drag_selection_keeps_width:
  assumes "flags w = idle" "gr_range (wd_graphic w) = Some (lo, hi)" "is_float lo" "is_float hi" "lo \<le> hi"
    and "range_inside (wd_graphic w)" "gr_start (wd_graphic w) < gr_end (wd_graphic w)" "wd_width w = Some W" "0 < W"
    and "gr_width (wd_graphic w) = W" "sc_width (gr_bot (wd_graphic w)) = Some W"
    and "sc_bounds (gr_bot (wd_graphic w)) = Some b" "pval (fst b) = pval (gr_start (wd_graphic w))"
    and "pval (snd b) = pval (gr_end (wd_graphic w))" "selection_rectangle (wd_graphic w) = Inr (x, y, width, height)"
    and "data_rectangle (wd_graphic w) = Inr d" "strictly_in y py (y + height)" "is_float px"
    and "5 \<le> pabs (px - x)" "5 \<le> pabs (px - (x + width))" "strictly_in x px (x + width)" "ms \<noteq> []"
    and "max (- pval x) (min (pval W - pval (x + width)) (pval (fst (last ms)) - pval px)) = shift"
  shows "\<exists>lo' hi'. gr_range (wd_graphic (drag ext (px, py) ms w)) = Some (lo', hi')
    \<and> pval lo' = pval lo + shift / pval W * (pval (snd b) - pval (fst b))
    \<and> pval hi' - pval lo' = pval hi - pval lo"
proof -
  let ?g = "wd_graphic w"
  let ?w1 = "w \<lparr> moving_both := True, both_start := Some px, both_cur := Some px \<rparr>"
  define w2 where "w2 = fold (run_event ext) (map (\<lambda>(ex, ey). Motion ex ey) ms) ?w1"
  define m where "m = fst (last ms)"
  define c where "c = (if m < px - x then px - x else if W - (x + width - px) < m then W - (x + width - px) else m)"
  have press: "run_event ext (Press px py) w = ?w1"
    using assms(15-17,19-21) by (cases d) (simp add: run_event_cases button_press_def)
  have w2: "wd_graphic w2 = ?g" "flags w2 = (False, False, True, False)" "both_start w2 = Some px" "both_cur w2 = Some c"
    using motions_both [of ?w1 x y width height W px ext ms] assms(1,8,15,22)
    by (simp_all add: w2_def Let_def flags_def c_def m_def)
  have d: "drag ext (px, py) ms w = fst (release_both ext w2)"
    using w2(2) by (simp add: drag_def press w2_def run_event_cases(2) button_release_def flags_def)
  define \<delta> where "\<delta> = pquot (c - px) W * (gr_end ?g - gr_start ?g)"
  have r: "gr_range (wd_graphic (drag ext (px, py) ms w)) = Some (clamp_range ?g (lo + \<delta>) (hi + \<delta>))"
    using w2 assms(2,9,10) unfolding d \<delta>_def
    by (simp add: release_both_def scale_selection_def pdiv_def peq_def get_view_range_def set_range_redraw)
  define S E where "S = pval (gr_start ?g)" and "E = pval (gr_end ?g)"
  have SE: "S < E" "S \<le> pval lo" "pval hi \<le> E" "pval lo \<le> pval hi" "0 < pval W"
    using assms(2,5,6,7,9) by (simp_all add: S_def E_def range_inside_def)
  have x: "pval x = (pval lo - S) * pval W / (E - S)" "pval (x + width) = (pval hi - S) * pval W / (E - S)"
    using selection_x [OF assms(15,2,12,11,3,4)] assms(13,14) by (simp_all add: S_def E_def)
  have "(pval hi - S) * pval W \<le> (E - S) * pval W" using SE by (simp add: mult_right_mono)
  then have xb: "0 \<le> pval x" "pval (x + width) \<le> pval W" "pval x \<le> pval (x + width)"
    using SE unfolding x by (simp_all add: divide_le_eq mult.commute divide_right_mono mult_left_mono)
  have c: "pval c - pval px = shift"
    using assms(23) xb by (auto simp: c_def m_def)
  then have \<delta>: "pval \<delta> = shift / pval W * (E - S)"
    using assms(18) by (simp add: \<delta>_def pval_pquot_float S_def E_def)
  have "- (pval lo - S) \<le> pval \<delta>" "pval \<delta> \<le> E - pval hi"
    unfolding \<delta> using shift_inside [OF SE(1,5) x] assms(23) xb by auto
  then have "pval (fst (clamp_range ?g (lo + \<delta>) (hi + \<delta>))) = pval lo + pval \<delta>"
    "pval (snd (clamp_range ?g (lo + \<delta>) (hi + \<delta>))) = pval hi + pval \<delta>"
    using SE by (simp_all add: clamp_range_def Let_def S_def [symmetric] E_def [symmetric])
  then show ?thesis
    using r \<delta> assms(13,14) by (cases "clamp_range ?g (lo + \<delta>) (hi + \<delta>)") (simp add: S_def E_def)
qed

text \<open>Zooming in and out again restores a range of floats inside the bounds, even if laying out the
  picture of the smaller range raises.\<close>

theorem zoom_in_out:
  assumes "gr_range (wd_graphic w) = Some (lo, hi)" "is_float lo \<or> is_float hi" "lo \<le> hi" "range_inside (wd_graphic w)"
  shows "\<exists>lo' hi'. gr_range (wd_graphic (run_event ext Zoom_out (run_event ext Zoom_in w))) = Some (lo', hi')
    \<and> pval lo' = pval lo \<and> pval hi' = pval hi"
proof -
  have z: "wd_graphic (fst (hseq (on_graphic (set_range ext a b)) (hset redraw) w)) = fst (set_range ext a b (wd_graphic w))" for a b w
    by (auto simp: hseq_def hbind_def on_graphic_def redraw_def gtk_def split: prod.splits sum.splits)
  let ?g = "wd_graphic w"
  let ?w1 = "run_event ext Zoom_in w"
  have w1: "wd_graphic ?w1 = fst (set_range ext lo (lo + pquot (hi - lo) 2) ?g)"
    using assms(1) by (simp add: run_event_cases set_bigger_zoom_def get_view_range_def z)
  obtain lo1 hi1 where c: "clamp_range ?g lo (lo + pquot (hi - lo) 2) = (lo1, hi1)" by fastforce
  have half: "pval (pquot (hi - lo) 2) = (pval hi - pval lo) / 2" using assms(2) by (subst pval_pquot_float) auto
  have v1: "pval lo1 = pval lo" "pval hi1 = pval lo + (pval hi - pval lo) / 2"
    using c half assms(1,3,4) by (auto simp: clamp_range_def Let_def range_inside_def)
  have r1: "gr_range (wd_graphic ?w1) = Some (lo1, hi1)" "gr_start (wd_graphic ?w1) = gr_start ?g" "gr_end (wd_graphic ?w1) = gr_end ?g"
    unfolding w1 using c by simp_all
  have "gr_range (wd_graphic (run_event ext Zoom_out ?w1)) = Some (clamp_range (wd_graphic ?w1) lo1 (lo1 + (hi1 - lo1) * 2))"
    using r1(1) by (simp add: run_event_cases(4) set_smaller_zoom_def get_view_range_def z)
  moreover have "pval (lo1 + (hi1 - lo1) * 2) = pval hi" using v1 by (simp add: field_simps)
  then have "pval (fst (clamp_range (wd_graphic ?w1) lo1 (lo1 + (hi1 - lo1) * 2))) = pval lo"
    "pval (snd (clamp_range (wd_graphic ?w1) lo1 (lo1 + (hi1 - lo1) * 2))) = pval hi"
    using v1(1) r1(2,3) assms(1,3,4) by (simp_all add: clamp_range_def Let_def range_inside_def del: pval_arith)
  ultimately show ?thesis by (cases "clamp_range (wd_graphic ?w1) lo1 (lo1 + (hi1 - lo1) * 2)") simp
qed

section \<open>The buffer\<close>

definition coherent :: "(string \<Rightarrow> extents) \<Rightarrow> widget \<Rightarrow> bool" where
  "coherent ext w \<longleftrightarrow> full_redraw w
     \<or> (\<exists>cs0 ops. draw_graphic ext (wd_graphic w) cs0 = Inr (ops, wd_colors w) \<and> wd_buffer w = Some ops)"

lemma valid_redraw [valid_rules]:
  "valid P (hseq (on_graphic m) (hset redraw)) (coherent ext)"
  "valid P (hseq (on_graphic m) (hseq (hset redraw) (hreturn x))) (coherent ext)"
  "valid P (hseq (on_graphic m) (hseq (hset (\<lambda>w. gtk c (w \<lparr> full_redraw := True, top_start := t \<rparr>))) (hreturn x))) (coherent ext)"
  by (auto simp: valid_def hseq_def hbind_def on_graphic_def hset_def hreturn_def coherent_def redraw_def gtk_def
      split: prod.splits sum.splits)

lemma valid_refill: "valid P (refill_buffer ext) (coherent ext)"
  unfolding refill_buffer_def valid_def by (auto simp: coherent_def split: sum.splits)

lemma event_coherent:
  assumes "coherent ext w" "snd (event_outcome ext ev w)" "ev \<noteq> Output_png"
  shows "coherent ext (run_event ext ev w)"
proof -
  let ?V = "\<lambda>m. valid (coherent ext) m (coherent ext)"
  have "?V (button_press ex ey)" for ex ey
    unfolding button_press_def by (intro valid_rules) (simp_all add: coherent_def)
  moreover have "?V (button_release ext)"
    unfolding handler_tests release_left_def release_right_def release_both_def
    by (intro valid_rules) (simp_all add: coherent_def)
  moreover have "?V (motion_notify ext ex ey)" for ex ey
    unfolding motion_notify_def motion_left_def motion_right_def motion_both_def motion_top_def hover_def queue_area_def
    by (intro valid_rules) (simp_all add: coherent_def gtk_def)
  moreover have "?V (set_smaller_zoom ext)" "?V (set_bigger_zoom ext)"
    unfolding set_smaller_zoom_def set_bigger_zoom_def by (intro valid_rules; simp)+
  moreover have "?V (size_allocate ext width height)" for width height
    unfolding size_allocate_def by (intro valid_rules) (simp_all add: coherent_def)
  moreover have "?V (expose ext area)" for area
  proof -
    have "valid (coherent ext) (\<lambda>w. if full_redraw w then refill_buffer ext w else (w, Inr ())) (coherent ext)"
      by (rule valid_branch(4) [OF valid_refill]) (simp add: valid_def)
    then show ?thesis unfolding expose_def by (rule valid_keep(2)) (intro valid_rules)
  qed
  ultimately show ?thesis
    using assms by (cases ev) (simp_all add: run_event_def event_outcome_def settle_def valid_def)
qed

fun all_return :: "(string \<Rightarrow> extents) \<Rightarrow> gtk_event list \<Rightarrow> widget \<Rightarrow> bool" where
  "all_return ext [] w \<longleftrightarrow> True"
| "all_return ext (ev # evs) w \<longleftrightarrow>
     ev \<noteq> Output_png \<and> snd (event_outcome ext ev w) \<and> all_return ext evs (run_event ext ev w)"

lemma events_coherent: "coherent ext w \<Longrightarrow> all_return ext evs w \<Longrightarrow> coherent ext (fold (run_event ext) evs w)"
  by (induction evs arbitrary: w) (simp_all add: event_coherent)

text \<open>As long as no handler raises and no picture has been written, what \<open>expose\<close> paints is the current
  picture: the buffer holds the drawing of the current state, however many changes came before.\<close>

theorem exposed_buffer_current:
  assumes "all_return ext evs (new_widget g cs)"
    and "expose ext area (fold (run_event ext) evs (new_widget g cs)) = (w, Inr ops)"
  shows "\<exists>cs0 picture. draw_graphic ext (wd_graphic w) cs0 = Inr (picture, wd_colors w)
    \<and> wd_buffer w = Some picture \<and> Source_buffer \<in> set ops"
proof -
  let ?w0 = "fold (run_event ext) evs (new_widget g cs)"
  have "coherent ext (new_widget g cs)" by (simp add: coherent_def new_widget_def)
  then have 0: "coherent ext ?w0" using assms(1) by (rule events_coherent)
  obtain w1 where 1: "coherent ext w1" "\<not> full_redraw w1"
    and e: "expose ext area ?w0 = hbind (hread (\<lambda>w. rbind (need (wd_buffer w)) (\<lambda>_.
               rbind (selection_rectangle (wd_graphic w)) (drag_marks w)))) (\<lambda>marks.
      case area of (ax, ay, aw, ah) \<Rightarrow>
        hreturn ([Rectangle ax ay aw ah, Clip, Source_buffer, Paint] @ marks)) w1"
  proof (cases "full_redraw ?w0")
    case True
    show thesis
    proof (cases "draw_graphic ext (wd_graphic ?w0) (wd_colors ?w0)")
      case (Inl e)
      then show ?thesis using True assms(2) by (simp add: expose_def hseq_def hbind_def refill_buffer_def hset_def hread_def)
    next
      case (Inr p)
      obtain pic cs1 where p: "p = (pic, cs1)" by (cases p)
      let ?w1 = "?w0 \<lparr> wd_buffer := Some pic, wd_colors := cs1, full_redraw := False \<rparr>"
      have "coherent ext ?w1" using Inr p by (auto simp: coherent_def)
      then show ?thesis
        using True Inr p by (intro that [of ?w1])
          (simp_all add: expose_def hseq_def hbind_def refill_buffer_def hset_def hread_def split: prod.splits)
    qed
  next
    case False
    then show thesis using 0 by (auto intro!: that simp: expose_def hseq_def hbind_def)
  qed
  have "w = w1" "Source_buffer \<in> set ops"
    using e assms(2) by (auto split: sum.splits prod.splits)
  then show ?thesis using 1 by (auto simp: coherent_def)
qed

text \<open>The file that \<open>output_png\<close> writes never shows the picture: nothing is drawn on its surface.\<close>

lemma output_png_blank: "output_png ext w = (w', Inr ops) \<Longrightarrow> ops = []"
  by (auto simp: output_png_def split: sum.splits prod.splits)

section \<open>A window\<close>

definition sample_window :: "pynum \<Rightarrow> pynum \<Rightarrow> widget" where
  "sample_window lo hi = run_event some_ext (Allocate 500 300)
     (new_widget (fst (set_range some_ext lo hi (new_graphic 0 100 (new_view []) (new_legend [] []))))
        \<lparr> col_names = [], col_free = default_colors \<rparr>)"

abbreviation window :: widget where
  "window \<equiv> sample_window (PyFloat 40) (PyFloat 60)"

lemma window_facts:
  "flags window = idle" "left_cur window = None" "right_cur window = None" "wd_width window = Some 500"
  "gr_range (wd_graphic window) = Some (PyFloat 40, PyFloat 60)"
  "selection_rectangle (wd_graphic window) = Inr (PyFloat 200, PyFloat 48, PyFloat 100, PyFloat 38)"
  "data_rectangle (wd_graphic window) = Inr (20, 10, 480, PyFloat 0)"
  "gr_width (wd_graphic window) = 500" "gr_start (wd_graphic window) = PyFloat 0" "gr_end (wd_graphic window) = PyFloat 100"
  "sc_width (gr_bot (wd_graphic window)) = Some 500" "sc_bounds (gr_bot (wd_graphic window)) = Some (0, 100)"
  by code_simp+


theorem release_without_motion_witness:
  "snd (button_release some_ext (run_event some_ext (Press (PyFloat 202) 60) window)) = Inl AttributeError"
  using release_without_motion [OF window_facts(1,2,6,7), of 60 "PyFloat 202" some_ext]
  by (simp add: strictly_in_def)

theorem drag_right_to_edge_witness:
  "wd_graphic (drag some_ext (PyFloat 302, 60) [(PyFloat 500, 60), (PyFloat 510, 60)] window) = wd_graphic window"
  using drag_right_to_edge [OF window_facts(1,3,4) _ window_facts(6,7),
      of 60 "PyFloat 302" "[(PyFloat 500, 60), (PyFloat 510, 60)]" some_ext]
  by (simp add: strictly_in_def)

theorem drag_selection_keeps_width_witness:
  "\<exists>lo' hi'. gr_range (wd_graphic (drag some_ext (PyFloat 224, 60) [(PyFloat 900, 60)] window)) = Some (lo', hi')
    \<and> pval lo' = 80 \<and> pval hi' = 100"
proof -
  have h: "is_float (PyFloat 40)" "is_float (PyFloat 60)" "PyFloat 40 \<le> PyFloat 60" "range_inside (wd_graphic window)"
    "gr_start (wd_graphic window) < gr_end (wd_graphic window)" "0 < (500 :: pynum)"
    "pval (fst (0, 100 :: pynum)) = pval (gr_start (wd_graphic window))" "pval (snd (0 :: pynum, 100)) = pval (gr_end (wd_graphic window))"
    by (simp_all add: window_facts range_inside_def)
  have p: "strictly_in (PyFloat 48) 60 (PyFloat 48 + PyFloat 38)" "is_float (PyFloat 224)"
    "5 \<le> pabs (PyFloat 224 - PyFloat 200)" "5 \<le> pabs (PyFloat 224 - (PyFloat 200 + PyFloat 100))"
    "strictly_in (PyFloat 200) (PyFloat 224) (PyFloat 200 + PyFloat 100)" "[(PyFloat 900, 60 :: pynum)] \<noteq> []"
    "max (- pval (PyFloat 200)) (min (pval 500 - pval (PyFloat 200 + PyFloat 100)) (pval (fst (last [(PyFloat 900, 60 :: pynum)])) - pval (PyFloat 224))) = 200"
    by (simp_all add: strictly_in_def)
  from drag_selection_keeps_width [OF window_facts(1,5) h(1-5) window_facts(4) h(6) window_facts(8,11,12) h(7,8) window_facts(6,7) p, of some_ext]
  show ?thesis by auto
qed

theorem zoom_in_out_witness:
  "\<exists>lo' hi'. gr_range (wd_graphic (run_event some_ext Zoom_out (run_event some_ext Zoom_in window))) = Some (lo', hi')
    \<and> pval lo' = 40 \<and> pval hi' = 60"
  using zoom_in_out [OF window_facts(5), of some_ext] by (simp add: range_inside_def window_facts)

theorem exposed_buffer_current_witness:
  "\<exists>w ops. expose some_ext (0, 0, 500, 300) window = (w, Inr ops)
    \<and> (\<exists>cs0 picture. draw_graphic some_ext (wd_graphic w) cs0 = Inr (picture, wd_colors w)
        \<and> wd_buffer w = Some picture \<and> Source_buffer \<in> set ops)"
proof -
  let ?g = "fst (set_range some_ext (PyFloat 40) (PyFloat 60) (new_graphic 0 100 (new_view []) (new_legend [] [])))"
  let ?cs = "\<lparr> col_names = [], col_free = default_colors \<rparr>"
  have r: "all_return some_ext [Allocate 500 300] (new_widget ?g ?cs)" by code_simp
  have f: "fold (run_event some_ext) [Allocate 500 300] (new_widget ?g ?cs) = window" by (simp add: sample_window_def)
  have "\<not> isl (snd (expose some_ext (0, 0, 500, 300) window))" by code_simp
  then obtain w ops where e: "expose some_ext (0, 0, 500, 300) window = (w, Inr ops)"
    by (cases "expose some_ext (0, 0, 500, 300) window"; cases "snd (expose some_ext (0, 0, 500, 300) window)") auto
  from exposed_buffer_current [OF r, unfolded f, OF e] e show ?thesis by blast
qed

end
