(* ===== verification/Module_Scan.thy ===== *)
theory Module_Scan
  imports Topsort Py_Path "HOL-Library.List_Lexorder" "HOL-Library.Char_ord"
begin

text \<open>
  The scanners of the Python bindings, \<open>bindings/python/ns3modulescan.py\<close> and
  \<open>ns3modulescan-modular.py\<close>: the header of a declaration inside \<open>ns3\<close>, the hook that annotates every
  declaration before it is scanned, the choice of a section for it and the order of the modules.  The
  declarations and the template functions come from pygccxml; the functions are parameters and a
  declaration is what the hook reads of it.
\<close>

section \<open>Annotations and declarations\<close>

datatype annot_value =
    V_none
  | V_true
  | V_str string
  | V_params "(string \<times> (string \<times> string) list) list"

type_synonym annots = "(string, annot_value) dict"

definition type_annotations :: "(string, annots) dict" where
  "type_annotations =
    [
     (''::ns3::AttributeChecker'',
        [(''automatic_type_narrowing'', V_str ''true''), (''allow_subclassing'', V_str ''false'')]),
     (''::ns3::AttributeValue'',
        [(''automatic_type_narrowing'', V_str ''true''), (''allow_subclassing'', V_str ''false'')]),
     (''::ns3::CommandLine'',
        [(''allow_subclassing'', V_str ''true'')]),
     (''::ns3::NscTcpL4Protocol'',
        [(''ignore'', V_str ''true'')]),
     (''ns3::RandomVariable::RandomVariable(ns3::RandomVariableBase const & variable) [constructor]'',
        [(''ignore'', V_none)]),
     (''ns3::RandomVariableBase * ns3::RandomVariable::Peek() const [member function]'',
        [(''ignore'', V_none)]),
     (''void ns3::RandomVariable::GetSeed(uint32_t * seed) const [member function]'',
        [(''params'', V_params [(''seed'', [(''direction'', ''out''), (''array_length'', ''6'')])])]),
     (''bool ns3::TypeId::LookupAttributeByName(std::string name, ns3::TypeId::AttributeInformation * info) const [member function]'',
        [(''params'', V_params [(''info'', [(''transfer_ownership'', ''false'')])])]),
     (''static bool ns3::TypeId::LookupByNameFailSafe(std::string name, ns3::TypeId * tid) [member function]'',
        [(''ignore'', V_none)]),
     (''bool ns3::TraceSourceAccessor::ConnectWithoutContext(ns3::ObjectBase * obj, ns3::CallbackBase const & cb) const [member function]'',
        [(''params'', V_params [(''obj'', [(''transfer_ownership'', ''false'')])])]),
     (''bool ns3::TraceSourceAccessor::Connect(ns3::ObjectBase * obj, std::string context, ns3::CallbackBase const & cb) const [member function]'',
        [(''params'', V_params [(''obj'', [(''transfer_ownership'', ''false'')])])]),
     (''bool ns3::TraceSourceAccessor::DisconnectWithoutContext(ns3::ObjectBase * obj, ns3::CallbackBase const & cb) const [member function]'',
        [(''params'', V_params [(''obj'', [(''transfer_ownership'', ''false'')])])]),
     (''bool ns3::TraceSourceAccessor::Disconnect(ns3::ObjectBase * obj, std::string context, ns3::CallbackBase const & cb) const [member function]'',
        [(''params'', V_params [(''obj'', [(''transfer_ownership'', ''false'')])])]),
     (''bool ns3::AttributeAccessor::Set(ns3::ObjectBase * object, ns3::AttributeValue const & value) const [member function]'',
        [(''params'', V_params [(''object'', [(''transfer_ownership'', ''false'')])])]),
     (''ns3::EmpiricalVariable::EmpiricalVariable(ns3::RandomVariableBase const & variable) [constructor]'',
        [(''ignore'', V_none)]),
     (''static ns3::AttributeList * ns3::AttributeList::GetGlobal() [member function]'',
        [(''caller_owns_return'', V_str ''false'')]),
     (''void ns3::CommandLine::Parse(int argc, char * * argv) const [member function]'',
        [(''ignore'', V_none)]),
     (''extern void ns3::PythonCompleteConstruct(ns3::Ptr<ns3::Object> object, ns3::TypeId typeId, ns3::AttributeList const & attributes) [free function]'',
        [(''ignore'', V_none)]),
     (''ns3::Ptr<ns3::Ipv4RoutingProtocol> ns3::Ipv4ListRouting::GetRoutingProtocol(uint32_t index, int16_t & priority) const [member function]'',
        [(''params'', V_params [(''priority'', [(''direction'', ''out'')])])]),
     (''ns3::Ipv4RoutingTableEntry * ns3::GlobalRouter::GetInjectedRoute(uint32_t i) [member function]'',
        [(''params'', V_params [(''return'', [(''caller_owns_return'', ''false'')])])]),
     (''ns3::Ipv4RoutingTableEntry * ns3::Ipv4GlobalRouting::GetRoute(uint32_t i) const [member function]'',
        [(''params'', V_params [(''return'', [(''caller_owns_return'', ''false'')])])]),
     (''::ns3::TestCase'',
        [(''ignore'', V_str ''true'')]),
     (''::ns3::TestRunner'',
        [(''ignore'', V_str ''true'')]),
     (''::ns3::TestSuite'',
        [(''ignore'', V_str ''true'')])
    ]"

datatype decl_kind =
    Member_function
  | Constructor
  | Free_function
  | Other_calldef
  | Class_decl
  | Enumeration
  | Other_decl

text \<open>The text of a declaration is its \<open>str\<close>, the defaults are those of its arguments.\<close>

record decl =
  de_kind :: decl_kind
  de_text :: string
  de_name :: string
  de_parent :: string
  de_decl_string :: string
  de_file :: string
  de_demangled :: string

text \<open>What the hook changes: the table, which is shared by all calls, the two annotations of the
  declaration, and the defaults of its arguments.\<close>

record hook_state =
  hs_table :: "(string, annots) dict"
  hs_global :: annots
  hs_params :: "(string, (string \<times> string) list) dict"
  hs_defaults :: "string option list"

definition dict_update :: "('k, 'v) dict \<Rightarrow> ('k, 'v) dict \<Rightarrow> ('k, 'v) dict" where
  "dict_update d e = fold (\<lambda>(k, v) d. dict_set d k v) e d"

definition set_global :: "string \<Rightarrow> annot_value \<Rightarrow> hook_state \<Rightarrow> hook_state" where
  "set_global k v hs = hs \<lparr> hs_global := dict_set (hs_global hs) k v \<rparr>"

section \<open>The header of a declaration\<close>

definition rstrip_slash :: "string \<Rightarrow> string" where
  "rstrip_slash s = rev (dropWhile (\<lambda>c. c = CHR ''/'') (rev s))"

definition path_split :: "string \<Rightarrow> string \<times> string" where
  "path_split p =
     (let tail = path_basename p; head = take (length p - length tail) p
      in (if head \<noteq> [] \<and> \<not> list_all (\<lambda>c. c = CHR ''/'') head then rstrip_slash head else head, tail))"

definition join_paths :: "string list \<Rightarrow> string result" where
  "join_paths ps = (case ps of [] \<Rightarrow> Inl TypeError | p # ps \<Rightarrow> Inr (foldl path_join p ps))"

text \<open>\<open>ns3modulescan.py\<close>: nothing stops the loop at the root directory.\<close>

partial_function (option) rel_path_loop :: "string \<Rightarrow> string list \<Rightarrow> string result option" where
  "rel_path_loop head l =
     (if head = [] then Some (Inl AssertionError)
      else (case path_split head of (h, t) \<Rightarrow>
        if t = ''ns3'' then Some (join_paths l) else rel_path_loop h (t # l)))"

definition get_ns3_relative_path :: "string \<Rightarrow> string result option" where
  "get_ns3_relative_path path = rel_path_loop path []"

text \<open>\<open>ns3modulescan-modular.py\<close>: the root directory is its own head.\<close>

lemma rstrip_slash_split: "rstrip_slash s @ rev (takeWhile (\<lambda>c. c = CHR ''/'') (rev s)) = s"
  by (metis rev_append rev_rev_ident rstrip_slash_def takeWhile_dropWhile_id)

lemma path_split_prefix: "\<exists>r. head = fst (path_split head) @ r"
proof -
  let ?h = "take (length head - length (path_basename head)) head"
  have "\<exists>r. ?h = fst (path_split head) @ r"
    using rstrip_slash_split [of ?h] by (auto simp: path_split_def Let_def) metis
  then show ?thesis by (metis append.assoc append_take_drop_id)
qed

lemma path_split_shorter: "path_split head = (h, t) \<Longrightarrow> h \<noteq> head \<Longrightarrow> length h < length head"
  using path_split_prefix [of head] by (metis append_Nil2 fst_conv length_append length_greater_0_conv less_add_same_cancel1)

function modular_path_loop :: "string \<Rightarrow> string list \<Rightarrow> string result" where
  "modular_path_loop head l =
     (if head = [] then Inl AssertionError
      else (case path_split head of (h, t) \<Rightarrow>
        if h = head then Inl ValueError
        else if t = ''ns3'' then join_paths l
        else modular_path_loop h (t # l)))"
  by pat_completeness auto
termination
  by (relation "measure (\<lambda>(head, l). length head)") (auto intro: path_split_shorter [OF sym])

declare modular_path_loop.simps [simp del]

definition modular_relative_path :: "string \<Rightarrow> string option result" where
  "modular_relative_path path =
     (if path = [] then Inr None else rbind (modular_path_loop path []) (\<lambda>h. Inr (Some h)))"

section \<open>The hook\<close>

definition member_of :: "decl \<Rightarrow> string \<Rightarrow> bool" where
  "member_of d parent \<longleftrightarrow> de_kind d = Member_function \<and> de_parent d = parent"

definition is_calldef :: "decl \<Rightarrow> bool" where
  "is_calldef d \<longleftrightarrow> de_kind d \<in> {Member_function, Constructor, Free_function, Other_calldef}"

definition fix_default :: "string option \<Rightarrow> string option" where
  "fix_default v =
     (if v = Some ''ns3::MilliSeconds( )'' then Some ''ns3::MilliSeconds(0)''
      else if v = Some ''ns3::Seconds( )'' then Some ''ns3::Seconds(0)''
      else v)"

text \<open>The part that both versions share: \<open>GetObject\<close>, the simulator, and the defaults of gccxml.\<close>

definition annotate_calls :: "string list \<Rightarrow> decl \<Rightarrow> hook_state \<Rightarrow> hook_state" where
  "annotate_calls template_args d hs =
     (let hs1 = (if member_of d ''Object'' \<and> de_name d = ''GetObject'' \<and> template_args = [''ns3::Object'']
                 then set_global ''template_instance_names'' (V_str ''ns3::Object=>GetObject'') hs else hs);
          hs2 = (if member_of d ''Simulator'' \<and> startswith (de_name d) ''Schedule''
                 then set_global ''ignore'' V_none hs1 else hs1);
          hs3 = (if member_of d ''Simulator'' \<and> de_name d = ''Run''
                 then set_global ''ignore'' V_true hs2 else hs2)
      in if is_calldef d then hs3 \<lparr> hs_defaults := map fix_default (hs_defaults hs3) \<rparr> else hs3)"

text \<open>A class: the state and whether the hook returns early.\<close>

definition annotate_class :: "decl \<Rightarrow> hook_state \<Rightarrow> hook_state \<times> bool" where
  "annotate_class d hs =
     (if startswith (de_decl_string d) ''::ns3::SimpleRefCount<'' then
        (set_global ''automatic_type_narrowing'' (V_str ''true'')
          (set_global ''peekref_method'' (V_str ''GetReferenceCount'')
            (set_global ''decref_method'' (V_str ''Unref'') (set_global ''incref_method'' (V_str ''Ref'') hs))), True)
      else if startswith (de_decl_string d) ''::ns3::Callback<'' then (set_global ''ignore'' V_none hs, True)
      else if startswith (de_decl_string d) ''::ns3::TracedCallback<'' then (set_global ''ignore'' V_none hs, True)
      else if startswith (de_decl_string d) ''::ns3::Ptr<'' then (set_global ''ignore'' V_none hs, True)
      else (case dict_get (hs_table hs) (de_decl_string d) of
          Some ann \<Rightarrow> (hs \<lparr> hs_global := dict_update (hs_global hs) ann \<rparr>, False)
        | None \<Rightarrow> (hs, False)))"

text \<open>\<open>parameter_annotations.update(value)\<close> for the value of \<open>params\<close>.\<close>

definition update_params :: "annot_value \<Rightarrow> hook_state \<Rightarrow> hook_state result" where
  "update_params v hs =
     (case v of
        V_params ps \<Rightarrow> Inr (hs \<lparr> hs_params := dict_update (hs_params hs) ps \<rparr>)
      | V_str s \<Rightarrow> (if s = [] then Inr hs else Inl ValueError)
      | _ \<Rightarrow> Inl TypeError)"

text \<open>\<open>del annotations['params']\<close> on the shared table.\<close>

definition drop_params :: "string \<Rightarrow> annots \<Rightarrow> hook_state \<Rightarrow> hook_state" where
  "drop_params text ann hs = hs \<lparr> hs_table := dict_set (hs_table hs) text (dict_del ann ''params'') \<rparr>"

text \<open>The table of methods and functions.  In \<open>ns3modulescan.py\<close> the dictionary is iterated while the entry is
  deleted, so that the iterator raises; the modular version iterates over a copy.\<close>

definition annotate_method :: "decl \<Rightarrow> hook_state \<Rightarrow> hook_state \<times> unit result" where
  "annotate_method d hs =
     (case dict_get (hs_table hs) (de_text d) of
        None \<Rightarrow> (hs, Inr ())
      | Some ann \<Rightarrow> (case dict_get ann ''params'' of
          Some v \<Rightarrow> (case update_params v hs of
              Inl e \<Rightarrow> (hs, Inl e)
            | Inr hs1 \<Rightarrow> (drop_params (de_text d) ann hs1, Inl (OtherError ''RuntimeError'')))
        | None \<Rightarrow> (hs \<lparr> hs_global := dict_update (hs_global hs) ann \<rparr>, Inr ())))"

definition modular_annotate_method :: "decl \<Rightarrow> hook_state \<Rightarrow> hook_state \<times> unit result" where
  "modular_annotate_method d hs =
     (case dict_get (hs_table hs) (de_text d) of
        None \<Rightarrow> (hs, Inr ())
      | Some ann \<Rightarrow> (case dict_get ann ''params'' of
          Some v \<Rightarrow> (case update_params v hs of
              Inl e \<Rightarrow> (hs, Inl e)
            | Inr hs1 \<Rightarrow>
                (let hs2 = drop_params (de_text d) ann hs1
                 in (hs2 \<lparr> hs_global := dict_update (hs_global hs2) (dict_del ann ''params'') \<rparr>, Inr ())))
        | None \<Rightarrow> (hs \<lparr> hs_global := dict_update (hs_global hs) ann \<rparr>, Inr ())))"

definition has_method_table :: "decl \<Rightarrow> bool" where
  "has_method_table d \<longleftrightarrow> de_kind d \<in> {Free_function, Member_function, Constructor}"

text \<open>\<open>pre_scan_hook\<close>: nothing when the search for the header does not end.\<close>

definition pre_scan_hook :: "(string \<Rightarrow> string list) \<Rightarrow> decl \<Rightarrow> hook_state \<Rightarrow> (hook_state \<times> unit result) option" where
  "pre_scan_hook targs d hs =
     (case get_ns3_relative_path (de_file d) of
        None \<Rightarrow> None
      | Some (Inl e) \<Rightarrow> Some (hs, Inl e)
      | Some (Inr header) \<Rightarrow>
          let hs1 = annotate_calls (targs (de_demangled d)) d
                      (set_global ''pygen_comment'' (V_str (header @ '': '' @ de_text d)) hs);
              (hs2, stop) = (if de_kind d = Class_decl then annotate_class d hs1 else (hs1, False))
          in Some (if stop then (hs2, Inr ())
                   else if de_kind d = Free_function \<and> de_name d = ''PeekPointer''
                   then (set_global ''ignore'' V_none hs2, Inr ())
                   else if has_method_table d then annotate_method d hs2
                   else (hs2, Inr ())))"

text \<open>\<open>PreScanHook\<close>: the modules of the template parameters of a class, by the headers they are declared in.\<close>

definition lookup_module :: "(string, string) dict \<Rightarrow> string option \<Rightarrow> string result" where
  "lookup_module headers h =
     (case Option.bind h (dict_get headers) of Some m \<Rightarrow> Inr m | None \<Rightarrow> Inl KeyError)"

fun parameter_modules :: "(string, string) dict \<Rightarrow> (string \<Rightarrow> string option) \<Rightarrow> string list \<Rightarrow> string list result" where
  "parameter_modules headers find_file [] = Inr []"
| "parameter_modules headers find_file (p # ps) =
     (case find_file p of
        None \<Rightarrow> parameter_modules headers find_file ps
      | Some f \<Rightarrow> (case modular_relative_path f of
          Inl ValueError \<Rightarrow> parameter_modules headers find_file ps
        | Inl e \<Rightarrow> Inl e
        | Inr h \<Rightarrow> rbind (lookup_module headers h) (\<lambda>m.
            rbind (parameter_modules headers find_file ps) (\<lambda>ms. Inr (m # ms)))))"

definition underscores :: "string \<Rightarrow> string" where
  "underscores s = map (\<lambda>c. if c = CHR ''-'' then CHR ''_'' else c) s"

definition class_module ::
    "(string, string) dict \<Rightarrow> string \<Rightarrow> (string \<Rightarrow> bool) \<Rightarrow> (string \<Rightarrow> string list) \<Rightarrow> (string \<Rightarrow> string option)
     \<Rightarrow> decl \<Rightarrow> string \<Rightarrow> string result" where
  "class_module headers module is_inst tparams find_file d m =
     (if is_inst (de_decl_string d) then
        rbind (parameter_modules headers find_file (tparams (de_name d))) (\<lambda>ms.
          Inr (if module \<in> set ms then module else m))
      else Inr m)"

definition quoted :: "string \<Rightarrow> string" where
  "quoted s = CHR 0x27 # s @ [CHR 0x27]"

definition modular_class ::
    "(string, string) dict \<Rightarrow> string \<Rightarrow> (string \<Rightarrow> bool) \<Rightarrow> (string \<Rightarrow> string list) \<Rightarrow> (string \<Rightarrow> string option)
     \<Rightarrow> decl \<Rightarrow> string \<Rightarrow> hook_state \<Rightarrow> hook_state \<times> (string \<times> bool) result" where
  "modular_class headers module is_inst tparams find_file d m hs =
     (case class_module headers module is_inst tparams find_file d m of
        Inl e \<Rightarrow> (hs, Inl e)
      | Inr m1 \<Rightarrow>
          let hs1 = (if m1 \<noteq> module then set_global ''import_from_module'' (V_str (''ns.'' @ underscores m1)) hs else hs);
              (hs2, stop) = annotate_class d hs1
          in (hs2, Inr (m1, stop)))"

definition modular_hook ::
    "(string, string) dict \<Rightarrow> string \<Rightarrow> (string \<Rightarrow> string list) \<Rightarrow> (string \<Rightarrow> bool) \<Rightarrow> (string \<Rightarrow> string list)
     \<Rightarrow> (string \<Rightarrow> string option) \<Rightarrow> decl \<Rightarrow> hook_state \<Rightarrow> hook_state \<times> unit result" where
  "modular_hook headers module targs is_inst tparams find_file d hs =
     (case modular_relative_path (de_file d) of
        Inl ValueError \<Rightarrow> (hs, Inr ())
      | Inl e \<Rightarrow> (hs, Inl e)
      | Inr None \<Rightarrow> (hs, Inr ())
      | Inr (Some header) \<Rightarrow>
          (if header = [] then (hs, Inr ())
           else (case lookup_module headers (Some header) of
             Inl e \<Rightarrow> (hs, Inl e)
           | Inr m \<Rightarrow>
               let hs1 = annotate_calls (targs (de_text d)) d
                     (set_global ''pygen_comment''
                       (V_str (header @ '' (module '' @ quoted m @ ''): '' @ de_text d)) hs)
               in (case (if de_kind d = Class_decl then modular_class headers module is_inst tparams find_file d m hs1
                         else (hs1, Inr (m, False))) of
                     (hs2, Inl e) \<Rightarrow> (hs2, Inl e)
                   | (hs2, Inr (m1, stop)) \<Rightarrow>
                       let hs3 = (if de_kind d = Enumeration \<and> m1 \<noteq> module
                                  then set_global ''import_from_module'' (V_str (''ns.'' @ m1)) hs2 else hs2)
                       in if stop then (hs2, Inr ())
                          else if de_kind d = Free_function \<and> (m1 \<noteq> module \<or> de_name d = ''PeekPointer'')
                          then (set_global ''ignore'' V_none hs3, Inr ())
                          else if has_method_table d then modular_annotate_method d hs3
                          else (hs3, Inr ())))))"

section \<open>Callbacks and sections\<close>

text \<open>\<open>scan_callback_classes\<close>: the template parameters of the callback classes, given as pairs of name and
  declaration string; the file lists their representations.\<close>

fun scan_callback_classes ::
    "(string \<Rightarrow> bool) \<Rightarrow> (string \<Rightarrow> string list) \<Rightarrow> (string list \<Rightarrow> string) \<Rightarrow> (string \<times> string) list \<Rightarrow> string result" where
  "scan_callback_classes is_inst tparams repr [] = Inr ('']'' @ newline)"
| "scan_callback_classes is_inst tparams repr ((name, ds) # cls) =
     (if \<not> startswith name ''Callback<'' then scan_callback_classes is_inst tparams repr cls
      else if \<not> is_inst ds then Inl AssertionError
      else rbind (scan_callback_classes is_inst tparams repr cls) (\<lambda>rest.
             Inr (''    '' @ repr (tparams ds) @ '','' @ newline @ rest)))"

definition callbacks_file ::
    "(string \<Rightarrow> bool) \<Rightarrow> (string \<Rightarrow> string list) \<Rightarrow> (string list \<Rightarrow> string) \<Rightarrow> (string \<times> string) list \<Rightarrow> string result" where
  "callbacks_file is_inst tparams repr cls =
     rbind (scan_callback_classes is_inst tparams repr cls) (\<lambda>rest. Inr (''callback_classes = ['' @ newline @ rest))"

text \<open>The classifier: the section of the header's base name, and the precedence of a section.\<close>

record classifier =
  cl_headers :: "(string, string) dict"
  cl_precedences :: "(string, int) dict"

definition classify :: "classifier \<Rightarrow> decl \<Rightarrow> string" where
  "classify c d = (case dict_get (cl_headers c) (path_basename (de_file d)) of Some s \<Rightarrow> s | None \<Rightarrow> ''__main__'')"

definition get_section_precedence :: "classifier \<Rightarrow> string \<Rightarrow> int result" where
  "get_section_precedence c s =
     (if s = ''__main__'' then Inr (-1)
      else (case dict_get (cl_precedences c) s of Some n \<Rightarrow> Inr n | None \<Rightarrow> Inl KeyError))"

text \<open>\<open>ns3_module_scan\<close> up to the parser: a module is its dependencies and its headers.  The lists of keys are
  sorted in place, which Python 2 allows.\<close>

type_synonym modules = "(string, string list \<times> string list) dict"

definition module_graph :: "modules \<Rightarrow> (string \<times> string) list" where
  "module_graph ms =
     concat (map (\<lambda>name. map (\<lambda>dep. (dep, name)) (sort (fst (the (dict_get ms name))))) (sort (dict_keys ms)))"

definition section_of :: "string \<Rightarrow> string" where
  "section_of m = ''ns3_module_'' @ underscores m"

definition add_section :: "modules \<Rightarrow> nat \<times> string \<Rightarrow> classifier \<Rightarrow> classifier result" where
  "add_section ms p c =
     (case dict_get ms (snd p) of
        None \<Rightarrow> Inl KeyError
      | Some (deps, headers) \<Rightarrow>
          Inr \<lparr> cl_headers = fold (\<lambda>h d. dict_set d h (section_of (snd p))) headers (cl_headers c),
                cl_precedences = dict_set (cl_precedences c) (section_of (snd p)) (int (fst p)) \<rparr>)"

definition scan_sections ::
    "((string \<times> string) list \<Rightarrow> 'e + string list) \<Rightarrow> modules \<Rightarrow> classifier result" where
  "scan_sections srt ms =
     (case srt (module_graph ms) of
        Inl e \<Rightarrow> Inl (OtherError ''CycleError'')
      | Inr ans \<Rightarrow> rfold (add_section ms) (enumerate 0 ans) \<lparr> cl_headers = [], cl_precedences = [] \<rparr>)"

section \<open>Paths\<close>

definition plain_part :: "string \<Rightarrow> bool" where
  "plain_part c \<longleftrightarrow> c \<noteq> [] \<and> CHR ''/'' \<notin> set c"

definition slashed :: "string list \<Rightarrow> string" where
  "slashed cs = concat (map (\<lambda>c. CHR ''/'' # c) cs)"

lemma slashed_snoc: "slashed (cs @ [c]) = slashed cs @ ''/'' @ c"
  by (simp add: slashed_def)

lemma path_split_append:
  assumes "plain_part t"
  shows "path_split (h @ ''/'' @ t) = (if h = [] \<or> last h = CHR ''/'' then fst (path_split (h @ ''/'' @ t)) else h, t)"
    and "h \<noteq> [] \<Longrightarrow> last h \<noteq> CHR ''/'' \<Longrightarrow> path_split (h @ ''/'' @ t) = (h, t)"
proof -
  have b: "path_basename (h @ ''/'' @ t) = t" using assms by (intro path_basename_append) (simp add: plain_part_def)
  have "path_split (h @ ''/'' @ t) = (h, t)" if "h \<noteq> []" "last h \<noteq> CHR ''/''"
  proof -
    have "rstrip_slash (h @ ''/'') = h" using that by (cases h rule: rev_cases) (simp_all add: rstrip_slash_def)
    moreover have "\<not> list_all (\<lambda>c. c = CHR ''/'') (h @ ''/'')" using that by (cases h rule: rev_cases) simp_all
    ultimately show ?thesis using that unfolding path_split_def b Let_def by simp
  qed
  moreover have "snd (path_split (h @ ''/'' @ t)) = t" unfolding path_split_def b by (simp add: Let_def)
  ultimately show "path_split (h @ ''/'' @ t) = (if h = [] \<or> last h = CHR ''/'' then fst (path_split (h @ ''/'' @ t)) else h, t)"
    and "h \<noteq> [] \<Longrightarrow> last h \<noteq> CHR ''/'' \<Longrightarrow> path_split (h @ ''/'' @ t) = (h, t)"
    by (auto simp: prod_eq_iff)
qed

lemma last_plain: "plain_part c \<Longrightarrow> last c \<noteq> CHR ''/''"
  by (metis last_in_set plain_part_def)

lemma last_slashed: "list_all plain_part cs \<Longrightarrow> cs \<noteq> [] \<Longrightarrow> last (slashed cs) \<noteq> CHR ''/''"
  by (cases cs rule: rev_cases) (simp_all add: slashed_snoc last_plain, simp add: plain_part_def)

definition header_part :: "string \<Rightarrow> bool" where
  "header_part c \<longleftrightarrow> plain_part c \<and> c \<noteq> ''ns3''"

lemma header_parts_plain: "list_all header_part cs \<Longrightarrow> list_all plain_part cs"
  by (simp add: header_part_def list_all_iff)

text \<open>The loops take the parts off one by one.\<close>

lemma loops_walk:
  assumes "list_all header_part cs" "pre \<noteq> []" "last pre \<noteq> CHR ''/''"
  shows "rel_path_loop (pre @ slashed cs) l = rel_path_loop pre (cs @ l)"
    and "modular_path_loop (pre @ slashed cs) l = modular_path_loop pre (cs @ l)"
proof -
  have "rel_path_loop (pre @ slashed cs) l = rel_path_loop pre (cs @ l)
    \<and> modular_path_loop (pre @ slashed cs) l = modular_path_loop pre (cs @ l)"
    using assms(1)
  proof (induction cs arbitrary: l rule: rev_induct)
    case (snoc c cs)
    then have c0: "header_part c" and cs: "list_all header_part cs" by simp_all
    then have c: "plain_part c" "c \<noteq> ''ns3''" by (simp_all add: header_part_def)
    have "last (pre @ slashed cs) \<noteq> CHR ''/''"
      using assms(3) last_slashed [OF header_parts_plain [OF cs]] by (cases "cs = []") (auto simp: slashed_def last_append)
    then have "path_split ((pre @ slashed cs) @ ''/'' @ c) = (pre @ slashed cs, c)"
      using assms(2) by (intro path_split_append(2) c(1)) simp_all
    then have split: "path_split (pre @ slashed (cs @ [c])) = (pre @ slashed cs, c)" by (simp add: slashed_snoc)
    have ne: "pre @ slashed (cs @ [c]) \<noteq> []" "pre @ slashed cs \<noteq> pre @ slashed (cs @ [c])"
      using assms(2) by (simp_all add: slashed_snoc)
    have "rel_path_loop (pre @ slashed (cs @ [c])) l = rel_path_loop (pre @ slashed cs) (c # l)"
      by (subst rel_path_loop.simps) (simp only: split ne c(2) if_False prod.case)
    moreover have "modular_path_loop (pre @ slashed (cs @ [c])) l = modular_path_loop (pre @ slashed cs) (c # l)"
      by (subst modular_path_loop.simps) (simp only: split ne c(2) if_False prod.case)
    ultimately show ?case using snoc.IH [OF cs, of "c # l"] by simp
  qed (simp add: slashed_def)
  then show "rel_path_loop (pre @ slashed cs) l = rel_path_loop pre (cs @ l)"
    and "modular_path_loop (pre @ slashed cs) l = modular_path_loop pre (cs @ l)" by simp_all
qed

lemma foldl_path_join:
  "list_all plain_part cs \<Longrightarrow> p \<noteq> [] \<Longrightarrow> last p \<noteq> CHR ''/'' \<Longrightarrow> foldl path_join p cs = join_with ''/'' (p # cs)"
proof (induction cs arbitrary: p)
  case (Cons c cs)
  then have c: "c \<noteq> []" "CHR ''/'' \<notin> set c" "last c \<noteq> CHR ''/''" by (auto simp: plain_part_def last_plain)
  then have "\<not> startswith c ''/''" by (cases c) (auto simp: startswith_def)
  moreover have "\<not> endswith p ''/''" using Cons.prems by (cases p rule: rev_cases) (auto simp: endswith_def startswith_def)
  ultimately have "path_join p c = p @ ''/'' @ c" using Cons.prems(2) by (simp add: path_join_def)
  moreover have "foldl path_join (p @ ''/'' @ c) cs = join_with ''/'' ((p @ ''/'' @ c) # cs)"
    using Cons.prems(1) c by (intro Cons.IH) simp_all
  ultimately show ?case by (cases cs) simp_all
qed simp

lemma join_paths_plain:
  assumes "list_all plain_part cs" "cs \<noteq> []"
  shows "join_paths cs = Inr (join_with ''/'' cs)"
proof -
  obtain p ps where cs: "cs = p # ps" using assms(2) by (cases cs) auto
  then have "list_all plain_part ps" "p \<noteq> []" "last p \<noteq> CHR ''/''"
    using assms(1) last_plain [of p] by (auto simp: plain_part_def)
  then show ?thesis by (simp add: join_paths_def cs foldl_path_join)
qed

text \<open>The header of a file is what follows the last directory \<open>ns3\<close> of its path, in both scanners.\<close>

theorem relative_path_after_ns3:
  assumes "list_all header_part cs" "cs \<noteq> []"
  shows "get_ns3_relative_path (base @ ''/ns3'' @ slashed cs) = Some (Inr (join_with ''/'' cs))
    \<and> modular_relative_path (base @ ''/ns3'' @ slashed cs) = Inr (Some (join_with ''/'' cs))"
proof -
  have ns3: "plain_part ''ns3''" by (simp add: plain_part_def)
  have "snd (path_split (base @ ''/'' @ ''ns3'')) = ''ns3''" by (subst path_split_append(1) [OF ns3]) simp
  moreover have "fst (path_split (base @ ''/'' @ ''ns3'')) \<noteq> base @ ''/'' @ ''ns3''"
  proof
    assume "fst (path_split (base @ ''/'' @ ''ns3'')) = base @ ''/'' @ ''ns3''"
    moreover have "length (fst (path_split p)) \<le> length p - length (path_basename p)" for p
    proof -
      have "length (rstrip_slash s) \<le> length s" for s
        using arg_cong [OF rstrip_slash_split [of s], of length] by simp
      from this [of "take (length p - length (path_basename p)) p"] show ?thesis
        by (auto simp: path_split_def Let_def)
    qed
    from this [of "base @ ''/'' @ ''ns3''"] have "length (fst (path_split (base @ ''/'' @ ''ns3''))) \<le> length base + 1"
      using path_basename_append [of "''ns3''" base] by simp
    ultimately show False by simp
  qed
  moreover have "join_paths cs = Inr (join_with ''/'' cs)"
    using assms header_parts_plain by (intro join_paths_plain) simp_all
  ultimately obtain h where h: "path_split (base @ ''/ns3'') = (h, ''ns3'')" "h \<noteq> base @ ''/ns3''"
    and j: "join_paths cs = Inr (join_with ''/'' cs)" by (cases "path_split (base @ ''/ns3'')") simp
  have "rel_path_loop (base @ ''/ns3'') cs = Some (Inr (join_with ''/'' cs))"
    by (subst rel_path_loop.simps) (simp add: h j)
  moreover have "modular_path_loop (base @ ''/ns3'') cs = Inr (join_with ''/'' cs)"
    using h(2) by (subst modular_path_loop.simps) (simp add: h(1) j)
  ultimately   show ?thesis
    using loops_walk [OF assms(1), of "base @ ''/ns3''" "[]"]
    by (simp add: get_ns3_relative_path_def modular_relative_path_def)
qed

theorem relative_path_after_ns3_witness:
  "get_ns3_relative_path ''/build/ns3/core/ptr.h'' = Some (Inr ''core/ptr.h'')
   \<and> modular_relative_path ''/build/ns3/core/ptr.h'' = Inr (Some ''core/ptr.h'')"
  using relative_path_after_ns3 [of "[''core'', ''ptr.h'']" "''/build''"]
  by (simp add: header_part_def plain_part_def slashed_def)

lemma returning_not_root: "rel_path_loop head l = Some y \<Longrightarrow> head \<noteq> ''/''"
proof (erule rel_path_loop.raw_induct [rotated])
  fix loop :: "string \<Rightarrow> string list \<Rightarrow> string result option" and head l y
  assume "\<And>h l y. loop h l = Some y \<Longrightarrow> h \<noteq> ''/''"
    and "(if head = [] then Some (Inl AssertionError)
      else case path_split head of (h, t) \<Rightarrow> if t = ''ns3'' then Some (join_paths l) else loop h (t # l)) = Some y"
  moreover have "path_split ''/'' = (''/'', [])" by code_simp
  ultimately have "head = ''/'' \<Longrightarrow> loop ''/'' ([] # l) = Some y" by simp
  then show "head \<noteq> ''/''" using \<open>\<And>h l y. loop h l = Some y \<Longrightarrow> h \<noteq> ''/''\<close> by blast
qed

lemma root_loops: "rel_path_loop ''/'' l = None"
  using returning_not_root by (cases "rel_path_loop ''/'' l") auto

text \<open>For a file outside \<open>ns3\<close>, given by an absolute path, the search of \<open>ns3modulescan.py\<close> does not end,
  while the modular scanner raises the ValueError that its hook catches.\<close>

theorem relative_path_outside_ns3:
  assumes "list_all header_part cs" "cs \<noteq> []"
  shows "get_ns3_relative_path (slashed cs) = None \<and> modular_relative_path (slashed cs) = Inl ValueError"
proof -
  obtain c ds where cs: "cs = c # ds" using assms(2) by (cases cs) auto
  have c: "plain_part c" "c \<noteq> ''ns3''" "list_all header_part ds" using assms(1) cs by (simp_all add: header_part_def)
  have ne: "''/'' @ c \<noteq> []" "last (''/'' @ c) \<noteq> CHR ''/''" using c(1) last_plain by (auto simp: plain_part_def)
  have b: "path_basename (''/'' @ c) = c" using path_basename_append [of c "[]"] c(1) by (simp add: plain_part_def)
  have split: "path_split (''/'' @ c) = (''/'', c)" unfolding path_split_def b Let_def by simp
  have root: "path_split ''/'' = (''/'', [])" by code_simp
  have "rel_path_loop (''/'' @ c) l = None" for l
    using split c(2) ne by (subst rel_path_loop.simps) (simp add: root_loops)
  moreover have "modular_path_loop (''/'' @ c) l = Inl ValueError" for l
    using split c ne by (subst modular_path_loop.simps) (simp add: modular_path_loop.simps [of "''/''"] root plain_part_def)
  moreover have "slashed cs = (''/'' @ c) @ slashed ds" by (simp add: slashed_def cs)
  ultimately show ?thesis
    using loops_walk [OF c(3) ne, of "[]"] by (simp add: get_ns3_relative_path_def modular_relative_path_def)
qed

theorem relative_path_outside_ns3_witness:
  "get_ns3_relative_path ''/usr/include/stdio.h'' = None
   \<and> modular_relative_path ''/usr/include/stdio.h'' = Inl ValueError"
  using relative_path_outside_ns3 [of "[''usr'', ''include'', ''stdio.h'']"]
  by (simp add: header_part_def plain_part_def slashed_def)

section \<open>The table of methods\<close>

text \<open>A method or constructor that the hook reaches with its table entry: the header is known.\<close>

definition annotated_method :: "(string, string) dict \<Rightarrow> hook_state \<Rightarrow> decl \<Rightarrow> (string \<times> (string \<times> string) list) list \<Rightarrow> bool" where
  "annotated_method headers hs d ps \<longleftrightarrow>
     de_kind d \<in> {Member_function, Constructor}
     \<and> (case modular_relative_path (de_file d) of
          Inr (Some h) \<Rightarrow> h \<noteq> [] \<and> h \<in> set (dict_keys headers) | _ \<Rightarrow> False)
     \<and> (case dict_get (hs_table hs) (de_text d) of
          Some ann \<Rightarrow> dict_get ann ''params'' = Some (V_params ps) | None \<Rightarrow> False)"

lemma annotate_calls_keeps [simp]:
  "hs_table (annotate_calls ts d hs) = hs_table hs" "hs_params (annotate_calls ts d hs) = hs_params hs"
  by (simp_all add: annotate_calls_def Let_def set_global_def)

lemma set_global_keeps [simp]:
  "hs_table (set_global k v hs) = hs_table hs" "hs_params (set_global k v hs) = hs_params hs"
  by (simp_all add: set_global_def)

lemma modular_hook_method:
  assumes "de_kind d \<in> {Member_function, Constructor}"
    and "modular_relative_path (de_file d) = Inr (Some h)" "h \<noteq> []" "dict_get headers h = Some m"
  shows "\<exists>hs1. modular_hook headers module targs is_inst tparams find_file d hs = modular_annotate_method d hs1
    \<and> hs_table hs1 = hs_table hs \<and> hs_params hs1 = hs_params hs"
  using assms by (auto simp: modular_hook_def lookup_module_def has_method_table_def Let_def)

text \<open>Parameter annotations of the table are used at most once: the first call of the modular hook on a
  method takes them over and deletes them from the table, which all later calls share, so that another
  call on the same declaration leaves the parameters without annotations; the hook of
  \<open>ns3modulescan.py\<close> raises a RuntimeError on such a method, since it changes the dictionary it
  iterates over.\<close>

theorem params_annotations_once:
  assumes "annotated_method headers hs d ps"
  shows "(let (hs1, r1) = modular_hook headers module targs is_inst tparams find_file d hs;
             (hs2, r2) = modular_hook headers module targs is_inst tparams find_file d
                           (hs1 \<lparr> hs_global := [], hs_params := [] \<rparr>)
         in r1 = Inr () \<and> hs_params hs1 = dict_update (hs_params hs) ps \<and> r2 = Inr () \<and> hs_params hs2 = [])
    \<and> snd (annotate_method d hs) = Inl (OtherError ''RuntimeError'')"
proof (rule conjI)
  obtain h m ann where h: "modular_relative_path (de_file d) = Inr (Some h)" "h \<noteq> []" "dict_get headers h = Some m"
    and k: "de_kind d \<in> {Member_function, Constructor}"
    and ann: "dict_get (hs_table hs) (de_text d) = Some ann" "dict_get ann ''params'' = Some (V_params ps)"
    using assms dict_key_get by (fastforce simp: annotated_method_def split: sum.splits option.splits)
  have fst: "snd (modular_annotate_method d hs1) = Inr ()"
    "hs_params (fst (modular_annotate_method d hs1)) = dict_update (hs_params hs1) ps"
    "dict_get (hs_table (fst (modular_annotate_method d hs1))) (de_text d) = Some (dict_del ann ''params'')"
    if "hs_table hs1 = hs_table hs" for hs1
    using that ann by (simp_all add: modular_annotate_method_def update_params_def drop_params_def Let_def)
  have snd: "snd (modular_annotate_method d hs1) = Inr ()" "hs_params (fst (modular_annotate_method d hs1)) = hs_params hs1"
    if "dict_get (hs_table hs1) (de_text d) = Some (dict_del ann ''params'')" for hs1
    using that by (simp_all add: modular_annotate_method_def)
  show "let (hs1, r1) = modular_hook headers module targs is_inst tparams find_file d hs;
             (hs2, r2) = modular_hook headers module targs is_inst tparams find_file d
                           (hs1 \<lparr> hs_global := [], hs_params := [] \<rparr>)
         in r1 = Inr () \<and> hs_params hs1 = dict_update (hs_params hs) ps \<and> r2 = Inr () \<and> hs_params hs2 = []"
  proof -
    obtain a where a: "modular_hook headers module targs is_inst tparams find_file d hs = modular_annotate_method d a"
      "hs_table a = hs_table hs" "hs_params a = hs_params hs"
      using modular_hook_method [OF k h, of module targs is_inst tparams find_file hs] by blast
    let ?hs1 = "fst (modular_annotate_method d a) \<lparr> hs_global := [], hs_params := [] \<rparr>"
    obtain b where b: "modular_hook headers module targs is_inst tparams find_file d ?hs1 = modular_annotate_method d b"
      "hs_table b = hs_table ?hs1" "hs_params b = hs_params ?hs1"
      using modular_hook_method [OF k h, of module targs is_inst tparams find_file ?hs1] by blast
    show ?thesis
      using a b fst [OF a(2)] snd [of b] by (simp add: Let_def case_prod_beta)
  qed
  show "snd (annotate_method d hs) = Inl (OtherError ''RuntimeError'')"
    using ann by (simp add: annotate_method_def update_params_def)
qed

definition sample_decl :: decl where
  "sample_decl = \<lparr> de_kind = Member_function,
     de_text = ''void ns3::RandomVariable::GetSeed(uint32_t * seed) const [member function]'',
     de_name = ''GetSeed'', de_parent = ''RandomVariable'', de_decl_string = '''',
     de_file = ''/build/ns3/random-variable.h'', de_demangled = '''' \<rparr>"

theorem params_annotations_once_witness:
  "let hs = \<lparr> hs_table = type_annotations, hs_global = [], hs_params = [], hs_defaults = [] \<rparr>;
       hook = modular_hook [(''random-variable.h'', ''core'')] ''core'' (\<lambda>_. []) (\<lambda>_. False) (\<lambda>_. []) (\<lambda>_. None) sample_decl;
       hs1 = fst (hook hs); hs2 = fst (hook (hs1 \<lparr> hs_global := [], hs_params := [] \<rparr>))
   in hs_params hs1 = [(''seed'', [(''direction'', ''out''), (''array_length'', ''6'')])] \<and> hs_params hs2 = []
      \<and> snd (annotate_method sample_decl hs) = Inl (OtherError ''RuntimeError'')"
proof -
  let ?hs = "\<lparr> hs_table = type_annotations, hs_global = [], hs_params = [], hs_defaults = [] \<rparr>"
  let ?ps = "[(''seed'', [(''direction'', ''out''), (''array_length'', ''6'')])]"
  have "modular_relative_path ''/build/ns3/random-variable.h'' = Inr (Some ''random-variable.h'')" by code_simp
  moreover have "case dict_get type_annotations (de_text sample_decl) of
      Some ann \<Rightarrow> dict_get ann ''params'' = Some (V_params ?ps) | None \<Rightarrow> False" by code_simp
  ultimately have a: "annotated_method [(''random-variable.h'', ''core'')] ?hs sample_decl ?ps"
    by (simp add: annotated_method_def sample_decl_def)
  from params_annotations_once [OF a, of "''core''" "\<lambda>_. []" "\<lambda>_. False" "\<lambda>_. []" "\<lambda>_. None"]
  show ?thesis by (simp add: Let_def case_prod_beta dict_update_def)
qed

section \<open>The order of the sections\<close>

text \<open>A sorter of modules lists each element once, and a module after the modules it depends on.\<close>

locale module_sorter =
  fixes srt :: "(string list \<Rightarrow> string list) \<Rightarrow> (string \<times> string) list \<Rightarrow> 'e + string list"
  assumes order: "dict_enum enum \<Longrightarrow> srt enum pairs = Inr ans \<Longrightarrow>
    distinct ans \<and> (\<forall>p c. (p, c) \<in> set pairs \<longrightarrow> (\<exists>i j. i < j \<and> j < length ans \<and> ans ! i = p \<and> ans ! j = c))"
begin

lemma add_sections:
  assumes "rfold (add_section ms) (enumerate n ans) c = Inr c'" "distinct ans" "inj_on section_of (set (dict_keys ms))"
  shows "set ans \<subseteq> set (dict_keys ms)
    \<and> (\<forall>k < length ans. dict_get (cl_precedences c') (section_of (ans ! k)) = Some (int (n + k)))
    \<and> (\<forall>s. s \<notin> section_of ` set ans \<longrightarrow> dict_get (cl_precedences c') s = dict_get (cl_precedences c) s)"
  using assms(1,2)
proof (induction ans arbitrary: n c)
  case (Cons m ans)
  then obtain c1 where c1: "add_section ms (n, m) c = Inr c1" and r: "rfold (add_section ms) (enumerate (Suc n) ans) c1 = Inr c'"
    by (auto simp: rbind_eq_Inr)
  have m: "m \<in> set (dict_keys ms)" "cl_precedences c1 = dict_set (cl_precedences c) (section_of m) (int n)"
    using c1 by (auto simp: add_section_def dest: dict_get_Some_key split: option.splits prod.splits)
  have IH: "set ans \<subseteq> set (dict_keys ms)"
    "\<And>k. k < length ans \<Longrightarrow> dict_get (cl_precedences c') (section_of (ans ! k)) = Some (int (Suc n + k))"
    "\<And>s. s \<notin> section_of ` set ans \<Longrightarrow> dict_get (cl_precedences c') s = dict_get (cl_precedences c1) s"
    using Cons.IH [OF r] Cons.prems(2) by auto
  have "section_of m \<notin> section_of ` set ans"
    using assms(3) m(1) IH(1) Cons.prems(2) by (auto dest: inj_onD)
  then have "dict_get (cl_precedences c') (section_of m) = Some (int n)" using IH(3) m(2) by simp
  then show ?case using IH m by (auto simp: nth_Cons split: nat.splits)
qed simp

lemma precedence:
  assumes "dict_enum enum" "scan_sections (srt enum) ms = Inr c" "inj_on section_of (set (dict_keys ms))"
    and "dict_get ms m = Some (deps, headers)" "dep \<in> set deps"
  shows "\<exists>i j. get_section_precedence c (section_of dep) = Inr i \<and> get_section_precedence c (section_of m) = Inr j
    \<and> 0 \<le> i \<and> i < j"
proof -
  obtain ans where s: "srt enum (module_graph ms) = Inr ans"
    and r: "rfold (add_section ms) (enumerate 0 ans) \<lparr> cl_headers = [], cl_precedences = [] \<rparr> = Inr c"
    using assms(2) by (auto simp: scan_sections_def split: sum.splits)
  have "(dep, m) \<in> set (module_graph ms)"
  proof -
    have "m \<in> set (sort (dict_keys ms))" using dict_get_Some_key [OF assms(4)] by (simp only: set_sort)
    then obtain xs ys where "sort (dict_keys ms) = xs @ m # ys" by (meson split_list)
    moreover have "(dep, m) \<in> set (map (\<lambda>dep. (dep, m)) (sort (fst (the (dict_get ms m)))))" using assms(4,5) by simp
    ultimately show ?thesis unfolding module_graph_def by (simp only: map_append list.map concat_append concat.simps set_append Un_iff simp_thms)
  qed
  then obtain i j where ij: "i < j" "j < length ans" "ans ! i = dep" "ans ! j = m" and d: "distinct ans"
    using order [OF assms(1) s] by blast
  have "dict_get (cl_precedences c) (section_of (ans ! k)) = Some (int k)" if "k < length ans" for k
    using add_sections [OF r d assms(3)] that by simp
  from this [of i] this [of j] ij show ?thesis
    by (auto simp: get_section_precedence_def section_of_def)
qed

end

lemma topsort_positions:
  assumes "dict_enum enum" "topsort enum pairs = Inr ans"
  shows "distinct ans \<and> (\<forall>p c. (p, c) \<in> set pairs \<longrightarrow> (\<exists>i j. i < j \<and> j < length ans \<and> ans ! i = p \<and> ans ! j = c))"
proof -
  obtain ans' st where t: "loop_inv pairs st ans' []"
    "topsort enum pairs = (if num_parents st \<noteq> [] then Inl (CycleError ans' (num_parents st) (children st))
                           else Inr ans')"
    using topsort_unfold [OF assms(1)] .
  then have st: "num_parents st = []" "ans' = ans" using assms(2) by (auto split: if_splits)
  have all: "set ans = elems pairs" using loop_inv_all_done [OF t(1) st(1)] st(2) by simp
  have pf: "distinct ans" "parents_first pairs ans" using t(1) st(2) by (simp_all add: loop_inv_def)
  have "\<exists>i j. i < j \<and> j < length ans \<and> ans ! i = p \<and> ans ! j = c" if e: "(p, c) \<in> set pairs" for p c
  proof -
    have "c \<in> set ans" unfolding all using e by (force simp: elems_def)
    then obtain as bs cs where "ans = as @ p # bs @ c # cs" using parents_first_before [OF pf(2) e] by blast
    then show ?thesis by (intro exI [of _ "length as"] exI [of _ "Suc (length as + length bs)"]) (simp add: nth_append)
  qed
  then show ?thesis using pf(1) by blast
qed

interpretation topsort_modules: module_sorter topsort
  by unfold_locales (rule topsort_positions)

text \<open>When the sections are set up, the section of a module comes after the sections of the modules it
  depends on: the precedences that the classifier answers are in this order.\<close>

theorem section_order:
  assumes "dict_enum enum" "scan_sections (topsort enum) ms = Inr c" "inj_on section_of (set (dict_keys ms))"
    and "dict_get ms m = Some (deps, headers)" "dep \<in> set deps"
  shows "\<exists>i j. get_section_precedence c (section_of dep) = Inr i \<and> get_section_precedence c (section_of m) = Inr j
    \<and> 0 \<le> i \<and> i < j"
  using assms by (rule topsort_modules.precedence)

definition sample_modules :: modules where
  "sample_modules = [(''wifi'', [''network'', ''core''], [''wifi-phy.h'']), (''network'', [''core''], [''node.h'']),
     (''core'', [], [''object.h'']), (''flow-monitor'', [], [''flow-monitor.h''])]"

theorem section_order_witness:
  "\<exists>c i j. scan_sections (topsort id) sample_modules = Inr c
    \<and> get_section_precedence c ''ns3_module_network'' = Inr i \<and> get_section_precedence c ''ns3_module_wifi'' = Inr j
    \<and> 0 \<le> i \<and> i < j"
proof -
  have "\<not> isl (scan_sections (topsort id) sample_modules)" by code_simp
  then obtain c where c: "scan_sections (topsort id) sample_modules = Inr c"
    by (cases "scan_sections (topsort id) sample_modules") simp_all
  have i: "inj_on section_of (set (dict_keys sample_modules))"
    by (simp add: sample_modules_def section_of_def underscores_def)
  have w: "dict_get sample_modules ''wifi'' = Some ([''network'', ''core''], [''wifi-phy.h''])" "''network'' \<in> set [''network'', ''core'']"
    by (simp_all add: sample_modules_def)
  have "section_of ''wifi'' = ''ns3_module_wifi''" "section_of ''network'' = ''ns3_module_network''"
    by (simp_all add: section_of_def underscores_def)
  then show ?thesis using section_order [OF dict_enum_id c i w] c by auto
qed

text \<open>A module without dependencies on which nothing depends has no section: its headers are classified as
  \<open>__main__\<close>.\<close>

lemma lonely_module_unclassified:
  "case scan_sections (topsort id) sample_modules of
     Inr c \<Rightarrow> classify c (sample_decl \<lparr> de_file := ''flow-monitor.h'' \<rparr>) = ''__main__''
   | Inl e \<Rightarrow> False"
  by code_simp

text \<open>For an enumeration of another module the dashes of the module name stay in the name of the import,
  which no Python module can have.\<close>

lemma enumeration_import_keeps_dash:
  "hs_global (fst (modular_hook [(''x.h'', ''flow-monitor'')] ''core'' (\<lambda>_. []) (\<lambda>_. False) (\<lambda>_. []) (\<lambda>_. None)
     (sample_decl \<lparr> de_kind := Enumeration, de_text := ''E'', de_file := ''/b/ns3/x.h'' \<rparr>)
     \<lparr> hs_table = [], hs_global = [], hs_params = [], hs_defaults = [] \<rparr>))
   = [(''pygen_comment'', V_str (''x.h (module '' @ quoted ''flow-monitor'' @ ''): E'')),
      (''import_from_module'', V_str ''ns.flow-monitor'')]"
  by code_simp

end
