(* ===== verification/Create_Module.thy ===== *)
theory Create_Module
  imports Py_Handler
begin

text \<open>
  The generator of module skeletons, \<open>utils/create-module.py\<close>: the templates, their formatting, the files
  of a module, the removal of a half made module, and the checks of names in \<open>main\<close>.  A path is the list
  of its parts below the current directory, the file system a dictionary of paths, and \<open>deny\<close> tells the
  paths that the operating system does not let the script create.  Names are ASCII strings.
\<close>

section \<open>Templates\<close>

definition WSCRIPT_TEMPLATE :: string where
  "WSCRIPT_TEMPLATE = text_lines
    [''# -*- Mode: python; py-indent-offset: 4; indent-tabs-mode: nil; coding: utf-8; -*-'',
     '''',
     ''# def options(opt):'',
     ''#     pass'',
     '''',
     ''# def configure(conf):'',
     ''#     conf.check_nonfatal(header_name='stdint.h', define_name='HAVE_STDINT_H')'',
     '''',
     ''def build(bld):'',
     ''    module = bld.create_ns3_module({MODULE!r}, ['core'])'',
     ''    module.source = ['',
     ''        'model/{MODULE}.cc','',
     ''        'helper/{MODULE}-helper.cc','',
     ''        ]'',
     '''',
     ''    module_test = bld.create_ns3_module_test_library('{MODULE}')'',
     ''    module_test.source = ['',
     ''        'test/{MODULE}-test-suite.cc','',
     ''        ]'',
     ''    # Tests encapsulating example programs should be listed here'',
     ''    if (bld.env['ENABLE_EXAMPLES']):'',
     ''        module_test.source.extend(['',
     ''        #    'test/{MODULE}-examples-test-suite.cc','',
     ''             ])'',
     '''',
     ''    headers = bld(features='ns3header')'',
     ''    headers.module = {MODULE!r}'',
     ''    headers.source = ['',
     ''        'model/{MODULE}.h','',
     ''        'helper/{MODULE}-helper.h','',
     ''        ]'',
     '''',
     ''    if bld.env.ENABLE_EXAMPLES:'',
     ''        bld.recurse('examples')'',
     '''',
     ''    # bld.ns3_python_bindings()'',
     '''']"

definition MODEL_CC_TEMPLATE :: string where
  "MODEL_CC_TEMPLATE = text_lines
    [''/* -*- Mode:C++; c-file-style:\"gnu\"; indent-tabs-mode:nil; -*- */'',
     '''',
     ''#include \"{MODULE}.h\"'',
     '''',
     ''namespace ns3 {{'',
     '''',
     ''/* ... */'',
     '''',
     '''',
     ''}}'',
     '''']"

definition MODEL_H_TEMPLATE :: string where
  "MODEL_H_TEMPLATE = text_lines
    [''/* -*- Mode:C++; c-file-style:\"gnu\"; indent-tabs-mode:nil; -*- */'',
     ''#ifndef {INCLUDE_GUARD}'',
     ''#define {INCLUDE_GUARD}'',
     '''',
     ''namespace ns3 {{'',
     '''',
     ''/* ... */'',
     '''',
     ''}}'',
     '''',
     ''#endif /* {INCLUDE_GUARD} */'',
     '''']"

definition HELPER_CC_TEMPLATE :: string where
  "HELPER_CC_TEMPLATE = text_lines
    [''/* -*- Mode:C++; c-file-style:\"gnu\"; indent-tabs-mode:nil; -*- */'',
     '''',
     ''#include \"{MODULE}-helper.h\"'',
     '''',
     ''namespace ns3 {{'',
     '''',
     ''/* ... */'',
     '''',
     '''',
     ''}}'',
     '''']"

definition HELPER_H_TEMPLATE :: string where
  "HELPER_H_TEMPLATE = text_lines
    [''/* -*- Mode:C++; c-file-style:\"gnu\"; indent-tabs-mode:nil; -*- */'',
     ''#ifndef {INCLUDE_GUARD}'',
     ''#define {INCLUDE_GUARD}'',
     '''',
     ''#include \"ns3/{MODULE}.h\"'',
     '''',
     ''namespace ns3 {{'',
     '''',
     ''/* ... */'',
     '''',
     ''}}'',
     '''',
     ''#endif /* {INCLUDE_GUARD} */'',
     '''']"

definition EXAMPLES_WSCRIPT_TEMPLATE :: string where
  "EXAMPLES_WSCRIPT_TEMPLATE = text_lines
    [''# -*- Mode: python; py-indent-offset: 4; indent-tabs-mode: nil; coding: utf-8; -*-'',
     '''',
     ''def build(bld):'',
     ''    obj = bld.create_ns3_program('{MODULE}-example', [{MODULE!r}])'',
     (''    obj.source = '{MODULE}-example.cc'' @ [CHR 0x27]),
     '''']"

definition EXAMPLE_CC_TEMPLATE :: string where
  "EXAMPLE_CC_TEMPLATE = text_lines
    [''/* -*- Mode:C++; c-file-style:\"gnu\"; indent-tabs-mode:nil; -*- */'',
     '''',
     ''#include \"ns3/core-module.h\"'',
     ''#include \"ns3/{MODULE}-helper.h\"'',
     '''',
     ''using namespace ns3;'',
     '''',
     '''',
     ''int '',
     ''main (int argc, char *argv[])'',
     ''{{'',
     ''  bool verbose = true;'',
     '''',
     ''  CommandLine cmd (__FILE__);'',
     ''  cmd.AddValue (\"verbose\", \"Tell application to log if true\", verbose);'',
     '''',
     ''  cmd.Parse (argc,argv);'',
     '''',
     ''  /* ... */'',
     '''',
     ''  Simulator::Run ();'',
     ''  Simulator::Destroy ();'',
     ''  return 0;'',
     ''}}'',
     '''',
     '''']"

definition TEST_CC_TEMPLATE :: string where
  "TEST_CC_TEMPLATE = text_lines
    [''/* -*- Mode:C++; c-file-style:\"gnu\"; indent-tabs-mode:nil; -*- */'',
     '''',
     ''// Include a header file from your module to test.'',
     ''#include \"ns3/{MODULE}.h\"'',
     '''',
     ''// An essential include is test.h'',
     ''#include \"ns3/test.h\"'',
     '''',
     ''// Do not put your test classes in namespace ns3.  You may find it useful'',
     ''// to use the using directive to access the ns3 namespace directly'',
     ''using namespace ns3;'',
     '''',
     ''// This is an example TestCase.'',
     ''class {CAPITALIZED}TestCase1 : public TestCase'',
     ''{{'',
     ''public:'',
     ''  {CAPITALIZED}TestCase1 ();'',
     ''  virtual ~{CAPITALIZED}TestCase1 ();'',
     '''',
     ''private:'',
     ''  virtual void DoRun (void);'',
     ''}};'',
     '''',
     ''// Add some help text to this case to describe what it is intended to test'',
     ''{CAPITALIZED}TestCase1::{CAPITALIZED}TestCase1 ()'',
     ''  : TestCase (\"{CAPITALIZED} test case (does nothing)\")'',
     ''{{'',
     ''}}'',
     '''',
     ''// This destructor does nothing but we include it as a reminder that'',
     ''// the test case should clean up after itself'',
     ''{CAPITALIZED}TestCase1::~{CAPITALIZED}TestCase1 ()'',
     ''{{'',
     ''}}'',
     '''',
     ''//'',
     ''// This method is the pure virtual method from class TestCase that every'',
     ''// TestCase must implement'',
     ''//'',
     ''void'',
     ''{CAPITALIZED}TestCase1::DoRun (void)'',
     ''{{'',
     ''  // A wide variety of test macros are available in src/core/test.h'',
     ''  NS_TEST_ASSERT_MSG_EQ (true, true, \"true doesn't equal true for some reason\");'',
     ''  // Use this one for floating point comparisons'',
     ''  NS_TEST_ASSERT_MSG_EQ_TOL (0.01, 0.01, 0.001, \"Numbers are not equal within tolerance\");'',
     ''}}'',
     '''',
     ''// The TestSuite class names the TestSuite, identifies what type of TestSuite,'',
     ''// and enables the TestCases to be run.  Typically, only the constructor for'',
     ''// this class must be defined'',
     ''//'',
     ''class {CAPITALIZED}TestSuite : public TestSuite'',
     ''{{'',
     ''public:'',
     ''  {CAPITALIZED}TestSuite ();'',
     ''}};'',
     '''',
     ''{CAPITALIZED}TestSuite::{CAPITALIZED}TestSuite ()'',
     ''  : TestSuite (\"{MODULE}\", UNIT)'',
     ''{{'',
     ''  // TestDuration for TestCase can be QUICK, EXTENSIVE or TAKES_FOREVER'',
     ''  AddTestCase (new {CAPITALIZED}TestCase1, TestCase::QUICK);'',
     ''}}'',
     '''',
     ''// Do not forget to allocate an instance of this TestSuite'',
     ''static {CAPITALIZED}TestSuite s{COMPOUND}TestSuite;'',
     '''']"

definition DOC_RST_TEMPLATE :: string where
  "DOC_RST_TEMPLATE = text_lines
    [''Example Module Documentation'',
     ''----------------------------'',
     '''',
     ''.. include:: replace.txt'',
     ''.. highlight:: cpp'',
     '''',
     ''.. heading hierarchy:'',
     ''   ------------- Chapter'',
     ''   ************* Section (#.#)'',
     ''   ============= Subsection (#.#.#)'',
     ''   ############# Paragraph (no number)'',
     '''',
     ''This is a suggested outline for adding new module documentation to |ns3|.'',
     ''See ``src/click/doc/click.rst`` for an example.'',
     '''',
     ''The introductory paragraph is for describing what this code is trying to'',
     ''model.'',
     '''',
     ''For consistency (italicized formatting), please use |ns3| to refer to'',
     ''ns-3 in the documentation (and likewise, |ns2| for ns-2).  These macros'',
     ''are defined in the file ``replace.txt``.'',
     '''',
     ''Model Description'',
     ''*****************'',
     '''',
     ''The source code for the new module lives in the directory ``{MODULE_DIR}``.'',
     '''',
     ''Add here a basic description of what is being modeled.'',
     '''',
     ''Design'',
     ''======'',
     '''',
     ''Briefly describe the software design of the model and how it fits into '',
     ''the existing ns-3 architecture. '',
     '''',
     ''Scope and Limitations'',
     ''====================='',
     '''',
     ''What can the model do?  What can it not do?  Please use this section to'',
     ''describe the scope and limitations of the model.'',
     '''',
     ''References'',
     ''=========='',
     '''',
     ''Add academic citations here, such as if you published a paper on this'',
     ''model, or if readers should read a particular specification or other work.'',
     '''',
     ''Usage'',
     ''*****'',
     '''',
     ''This section is principally concerned with the usage of your model, using'',
     ''the public API.  Focus first on most common usage patterns, then go'',
     ''into more advanced topics.'',
     '''',
     ''Building New Module'',
     ''==================='',
     '''',
     ''Include this subsection only if there are special build instructions or'',
     ''platform limitations.'',
     '''',
     ''Helpers'',
     ''======='',
     '''',
     ''What helper API will users typically use?  Describe it here.'',
     '''',
     ''Attributes'',
     ''=========='',
     '''',
     ''What classes hold attributes, and what are the key ones worth mentioning?'',
     '''',
     ''Output'',
     ''======'',
     '''',
     ''What kind of data does the model generate?  What are the key trace'',
     ''sources?   What kind of logging output can be enabled?'',
     '''',
     ''Advanced Usage'',
     ''=============='',
     '''',
     ''Go into further details (such as using the API outside of the helpers)'',
     ''in additional sections, as needed.'',
     '''',
     ''Examples'',
     ''========'',
     '''',
     ''What examples using this new code are available?  Describe them here.'',
     '''',
     ''Troubleshooting'',
     ''==============='',
     '''',
     ''Add any tips for avoiding pitfalls, etc.'',
     '''',
     ''Validation'',
     ''**********'',
     '''',
     ''Describe how the model has been tested/validated.  What tests run in the'',
     ''test suite?  How much API and code is covered by the tests?  Again, '',
     ''references to outside published work may help here.'']"

section \<open>Formatting\<close>

text \<open>\<open>str.format\<close> with keyword arguments: doubled braces stand for themselves, a field is a keyword with or
  without \<open>!r\<close>.  The representation is the one of a string without quotes, backslashes and control
  characters other than the end of line.\<close>

definition name_repr :: "string \<Rightarrow> string" where
  "name_repr s = [CHR 0x27] @ concat (map (\<lambda>c. if c = CHR 0x0A then [CHR 0x5C, CHR ''n''] else [c]) s) @ [CHR 0x27]"

definition format_field :: "(string, string) dict \<Rightarrow> string \<Rightarrow> string result" where
  "format_field kw f =
     (let raw = endswith f ''!r''; name = (if raw then take (length f - 2) f else f)
      in (case dict_get kw name of
            None \<Rightarrow> Inl KeyError
          | Some v \<Rightarrow> Inr (if raw then name_repr v else v)))"

function py_format :: "(string, string) dict \<Rightarrow> string \<Rightarrow> string result" where
  "py_format kw [] = Inr []"
| "py_format kw (c # s) =
     (if c = CHR ''{'' then
        (if s \<noteq> [] \<and> hd s = CHR ''{'' then rbind (py_format kw (tl s)) (\<lambda>t. Inr (c # t))
         else if CHR ''}'' \<notin> set s then Inl ValueError
         else rbind (format_field kw (takeWhile (\<lambda>d. d \<noteq> CHR ''}'') s)) (\<lambda>v.
              rbind (py_format kw (tl (dropWhile (\<lambda>d. d \<noteq> CHR ''}'') s))) (\<lambda>t. Inr (v @ t))))
      else if c = CHR ''}'' then
        (if s \<noteq> [] \<and> hd s = CHR ''}'' then rbind (py_format kw (tl s)) (\<lambda>t. Inr (c # t)) else Inl ValueError)
      else rbind (py_format kw s) (\<lambda>t. Inr (c # t)))"
  by pat_completeness auto
termination
  by (relation "measure (\<lambda>(kw, s). length s)") (auto simp: less_Suc_eq_le le_diff_conv intro: le_trans [OF length_dropWhile_le])

section \<open>Files\<close>

type_synonym path = "string list"

datatype node = Dir | File string

type_synonym fs = "(path, node) dict"

definition os_error :: "string \<Rightarrow> py_exn" where
  "os_error name = OtherError name"

definition path_exists :: "path \<Rightarrow> fs \<Rightarrow> bool" where
  "path_exists p fs \<longleftrightarrow> p = [] \<or> p \<in> set (dict_keys fs)"

definition is_dir :: "path \<Rightarrow> fs \<Rightarrow> bool" where
  "is_dir p fs \<longleftrightarrow> p = [] \<or> dict_get fs p = Some Dir"

text \<open>\<open>Path.mkdir(parents=True)\<close>: the missing directories above are made first.\<close>

definition make_dir :: "(path \<Rightarrow> bool) \<Rightarrow> bool \<Rightarrow> path \<Rightarrow> (fs, unit) handler" where
  "make_dir deny exist_ok p fs =
     (if path_exists p fs then
        (fs, if exist_ok \<and> is_dir p fs then Inr ()
             else Inl (os_error (if exist_ok then ''NotADirectoryError'' else ''FileExistsError'')))
      else if \<not> is_dir (butlast p) fs then (fs, Inl (os_error ''FileNotFoundError''))
      else if deny p then (fs, Inl (os_error ''PermissionError''))
      else (dict_set fs p Dir, Inr ()))"

fun make_dirs :: "(path \<Rightarrow> bool) \<Rightarrow> path \<Rightarrow> path \<Rightarrow> (fs, unit) handler" where
  "make_dirs deny p [] = hreturn ()"
| "make_dirs deny p (x # xs) =
     hseq (make_dir deny (xs \<noteq> []) (p @ [x])) (make_dirs deny (p @ [x]) xs)"

definition mkdir_parents :: "(path \<Rightarrow> bool) \<Rightarrow> path \<Rightarrow> (fs, unit) handler" where
  "mkdir_parents deny p = make_dirs deny [] p"

text \<open>Opening for writing makes an empty file.\<close>

definition open_write :: "(path \<Rightarrow> bool) \<Rightarrow> path \<Rightarrow> (fs, unit) handler" where
  "open_write deny p fs =
     (if is_dir p fs then (fs, Inl (os_error ''IsADirectoryError''))
      else if \<not> is_dir (butlast p) fs then (fs, Inl (os_error ''FileNotFoundError''))
      else if deny p then (fs, Inl (os_error ''PermissionError''))
      else (dict_set fs p (File []), Inr ()))"

definition create_file :: "(path \<Rightarrow> bool) \<Rightarrow> path \<Rightarrow> string \<Rightarrow> (string, string) dict \<Rightarrow> (fs, unit) handler" where
  "create_file deny p template kw =
     hseq (open_write deny p)
       (hbind (hread (\<lambda>_. py_format kw template)) (\<lambda>s. hset (\<lambda>fs. dict_set fs p (File s))))"

text \<open>\<open>shutil.rmtree\<close>\<close>

definition rmtree :: "path \<Rightarrow> fs \<Rightarrow> fs" where
  "rmtree p fs = filter (\<lambda>(q, n). take (length p) q \<noteq> p) fs"

section \<open>The parts of a module\<close>

definition capitalize :: "string \<Rightarrow> string" where
  "capitalize s = (case s of [] \<Rightarrow> [] | c # cs \<Rightarrow> upper_char c # map lower_char cs)"

definition guard_name :: "string \<Rightarrow> string" where
  "guard_name n = map upper_char (map (\<lambda>c. if c = CHR ''-'' then CHR ''_'' else c) n)"

definition camel_name :: "string \<Rightarrow> string" where
  "camel_name n = concat (map capitalize (split_on CHR ''-'' n))"

definition compound_name :: "string \<Rightarrow> string" where
  "compound_name n = (case split_on CHR ''-'' n of [] \<Rightarrow> [] | w # ws \<Rightarrow> w @ concat (map capitalize ws))"

definition make_wscript :: "(path \<Rightarrow> bool) \<Rightarrow> path \<Rightarrow> string \<Rightarrow> (fs, unit) handler" where
  "make_wscript deny d n = create_file deny (d @ [''wscript'']) WSCRIPT_TEMPLATE [(''MODULE'', n)]"

definition make_model :: "(path \<Rightarrow> bool) \<Rightarrow> path \<Rightarrow> string \<Rightarrow> (fs, unit) handler" where
  "make_model deny d n =
     hseq (mkdir_parents deny (d @ [''model'']))
    (hseq (create_file deny (d @ [''model'', n @ ''.cc'']) MODEL_CC_TEMPLATE [(''MODULE'', n)])
          (create_file deny (d @ [''model'', n @ ''.h'']) MODEL_H_TEMPLATE
             [(''MODULE'', n), (''INCLUDE_GUARD'', guard_name n @ ''_H'')]))"

definition make_test :: "(path \<Rightarrow> bool) \<Rightarrow> path \<Rightarrow> string \<Rightarrow> (fs, unit) handler" where
  "make_test deny d n =
     hseq (mkdir_parents deny (d @ [''test'']))
          (create_file deny (d @ [''test'', n @ ''-test-suite.cc'']) TEST_CC_TEMPLATE
             [(''MODULE'', n), (''CAPITALIZED'', camel_name n), (''COMPOUND'', compound_name n)])"

definition make_helper :: "(path \<Rightarrow> bool) \<Rightarrow> path \<Rightarrow> string \<Rightarrow> (fs, unit) handler" where
  "make_helper deny d n =
     hseq (mkdir_parents deny (d @ [''helper'']))
    (hseq (create_file deny (d @ [''helper'', n @ ''-helper.cc'']) HELPER_CC_TEMPLATE [(''MODULE'', n)])
          (create_file deny (d @ [''helper'', n @ ''-helper.h'']) HELPER_H_TEMPLATE
             [(''MODULE'', n), (''INCLUDE_GUARD'', guard_name n @ ''_HELPER_H'')]))"

definition make_examples :: "(path \<Rightarrow> bool) \<Rightarrow> path \<Rightarrow> string \<Rightarrow> (fs, unit) handler" where
  "make_examples deny d n =
     hseq (mkdir_parents deny (d @ [''examples'']))
    (hseq (create_file deny (d @ [''examples'', ''wscript'']) EXAMPLES_WSCRIPT_TEMPLATE [(''MODULE'', n)])
          (create_file deny (d @ [''examples'', n @ ''-example.cc'']) EXAMPLE_CC_TEMPLATE [(''MODULE'', n)]))"

definition make_doc :: "(path \<Rightarrow> bool) \<Rightarrow> path \<Rightarrow> string \<Rightarrow> (fs, unit) handler" where
  "make_doc deny d n =
     hseq (mkdir_parents deny (d @ [''doc'']))
          (create_file deny (d @ [''doc'', n @ ''.rst'']) DOC_RST_TEMPLATE
             [(''MODULE'', n), (''MODULE_DIR'', join_with ''/'' d)])"

definition make_parts :: "(path \<Rightarrow> bool) \<Rightarrow> path \<Rightarrow> string \<Rightarrow> (fs, unit) handler" where
  "make_parts deny d n =
     hseq (make_wscript deny d n) (hseq (make_model deny d n) (hseq (make_test deny d n)
    (hseq (make_helper deny d n) (hseq (make_examples deny d n) (make_doc deny d n)))))"

datatype message =
    Already_exists string
  | Creating path
  | Creation_failed string
  | Name_is_path string
  | Bad_characters string
  | All_created

text \<open>\<open>make_module\<close>: the messages, and whether the module was made.\<close>

definition make_module :: "(path \<Rightarrow> bool) \<Rightarrow> path \<times> string \<Rightarrow> fs \<Rightarrow> fs \<times> message list \<times> bool" where
  "make_module deny m fs =
     (case m of (modpath, n) \<Rightarrow>
        let d = modpath @ [n]
        in if path_exists d fs then (fs, [Already_exists n], False)
           else (case hseq (mkdir_parents deny d) (make_parts deny d n) fs of
               (fs', Inr _) \<Rightarrow> (fs', [Creating d], True)
             | (fs', Inl e) \<Rightarrow>
                 (if path_exists d fs' then rmtree d fs' else fs', [Creating d, Creation_failed n], False)))"

fun make_modules :: "(path \<Rightarrow> bool) \<Rightarrow> (path \<times> string) list \<Rightarrow> fs \<Rightarrow> fs \<times> message list \<times> bool" where
  "make_modules deny [] fs = (fs, [], True)"
| "make_modules deny (m # ms) fs =
     (case make_module deny m fs of
        (fs1, out1, ok) \<Rightarrow>
          (if ok then (case make_modules deny ms fs1 of (fs2, out2, ok2) \<Rightarrow> (fs2, out1 @ out2, ok2))
           else (fs1, out1, False)))"

section \<open>The names\<close>

text \<open>\<open>re.compile('^(\w|-)+$').match\<close>: \<open>$\<close> also matches before an end of line at the end.\<close>

definition word_char :: "char \<Rightarrow> bool" where
  "word_char c \<longleftrightarrow>
     (let n = of_char c :: nat in 48 \<le> n \<and> n \<le> 57 \<or> 65 \<le> n \<and> n \<le> 90 \<or> 97 \<le> n \<and> n \<le> 122 \<or> n = 95)"

definition allowed_name :: "string \<Rightarrow> bool" where
  "allowed_name s =
     (let r = dropWhile (\<lambda>c. word_char c \<or> c = CHR ''-'') s
      in s \<noteq> [] \<and> (word_char (hd s) \<or> hd s = CHR ''-'') \<and> (r = [] \<or> r = newline))"

text \<open>\<open>Path(s).parts\<close> of a relative path, \<open>s.strip('/')\<close>.\<close>

definition path_parts :: "string \<Rightarrow> path" where
  "path_parts s = filter (\<lambda>c. c \<noteq> [] \<and> c \<noteq> ''.'') (split_on CHR ''/'' s)"

definition strip_slashes :: "string \<Rightarrow> string" where
  "strip_slashes s = rev (dropWhile (\<lambda>c. c = CHR ''/'') (rev (dropWhile (\<lambda>c. c = CHR ''/'') s)))"

definition parser_error :: py_exn where
  "parser_error = OtherError ''SystemExit 2''"

text \<open>The project: exactly two leading slashes are a root of their own, to which \<open>relative_to('/')\<close> objects.\<close>

definition project_parts :: "string \<Rightarrow> path option result" where
  "project_parts project =
     (if project = [] then Inr None
      else if startswith project ''//'' \<and> \<not> startswith project ''///'' then Inl ValueError
      else if list_all allowed_name (path_parts project) then Inr (Some (path_parts project))
      else Inl parser_error)"

definition check_name :: "path option \<Rightarrow> string \<Rightarrow> (message list \<times> (path \<times> string) list) result" where
  "check_name project name0 =
     (let name = strip_slashes name0; parts = path_parts name
      in if name = [] then Inr ([], [])
         else if length parts > 2 then Inr ([Name_is_path name], [])
         else if parts = [] then Inl IndexError
         else if hd parts = ''src'' \<and> project \<noteq> None then Inl parser_error
         else
           let modpath = (case project of Some q \<Rightarrow> ''contrib'' # q
                          | None \<Rightarrow> [if hd parts = ''src'' then ''src'' else ''contrib'']);
               rest = (if hd parts = ''src'' \<or> hd parts = ''contrib'' then tl parts else parts)
           in if rest = [] then Inl IndexError
              else if \<not> allowed_name (hd rest) then Inr ([Bad_characters (hd rest)], [])
              else Inr ([], [(modpath, hd rest)]))"

fun check_names :: "path option \<Rightarrow> string list \<Rightarrow> (message list \<times> (path \<times> string) list) result" where
  "check_names project [] = Inr ([], [])"
| "check_names project (n # ns) =
     rbind (check_name project n) (\<lambda>(out1, ms1). rbind (check_names project ns) (\<lambda>(out2, ms2).
       Inr (out1 @ out2, ms1 @ ms2)))"

text \<open>\<open>main\<close> and the exit status of the script.\<close>

definition create_main ::
    "(path \<Rightarrow> bool) \<Rightarrow> string \<Rightarrow> string list \<Rightarrow> fs \<Rightarrow> fs \<times> message list result" where
  "create_main deny project names fs =
     (if \<not> (is_dir [''src''] fs \<and> is_dir [''contrib''] fs) then (fs, Inl parser_error)
      else (case rbind (project_parts project) (\<lambda>q. check_names q names) of
          Inl e \<Rightarrow> (fs, Inl e)
        | Inr (out, ms) \<Rightarrow> (case make_modules deny ms fs of
            (fs', out', ok) \<Rightarrow> (fs', Inr (out @ out' @ (if ok then [All_created] else []))))))"

definition create_status :: "message list result \<Rightarrow> int" where
  "create_status r = (case r of Inr out \<Rightarrow> 0 | Inl e \<Rightarrow> if e = parser_error then 2 else 1)"

section \<open>The templates format\<close>

text \<open>A template whose fields are among the given ones; this check follows the recursion of the formatting.\<close>

fun field_names :: "nat \<Rightarrow> string \<Rightarrow> string list option" where
  "field_names 0 s = None"
| "field_names (Suc k) s = (case s of [] \<Rightarrow> Some [] | c # s \<Rightarrow>
     (if c = CHR ''{'' then
        (if s \<noteq> [] \<and> hd s = CHR ''{'' then field_names k (tl s)
         else if CHR ''}'' \<notin> set s then None
         else (let f = takeWhile (\<lambda>d. d \<noteq> CHR ''}'') s
               in map_option ((#) (if endswith f ''!r'' then take (length f - 2) f else f))
                    (field_names k (tl (dropWhile (\<lambda>d. d \<noteq> CHR ''}'') s)))))
      else if c = CHR ''}'' then (if s \<noteq> [] \<and> hd s = CHR ''}'' then field_names k (tl s) else None)
      else field_names k s))"

lemma format_succeeds:
  "field_names k t = Some fs \<Longrightarrow> set fs \<subseteq> set (dict_keys kw) \<Longrightarrow> \<exists>s. py_format kw t = Inr s"
proof (induction k t arbitrary: fs rule: field_names.induct)
  case (2 k t)
  show ?case
  proof (cases t)
    case (Cons c s)
    let ?f = "takeWhile (\<lambda>d. d \<noteq> CHR ''}'') s" and ?r = "tl (dropWhile (\<lambda>d. d \<noteq> CHR ''}'') s)"
    consider "c = CHR ''{''" "s \<noteq> [] \<and> hd s = CHR ''{''" | "c = CHR ''{''" "\<not> (s \<noteq> [] \<and> hd s = CHR ''{'')"
      | "c = CHR ''}''" | "c \<noteq> CHR ''{''" "c \<noteq> CHR ''}''" by blast
    then show ?thesis
    proof cases
      case 1
      then have "field_names k (tl s) = Some fs" using "2.prems"(1) Cons by simp
      then obtain u where "py_format kw (tl s) = Inr u" using "2.IH"(1) [OF Cons 1] "2.prems"(2) by blast
      then show ?thesis using 1 Cons by simp
    next
      case c: 2
      then obtain gs where b: "CHR ''}'' \<in> set s" and g: "field_names k ?r = Some gs"
        and fs: "fs = (if endswith ?f ''!r'' then take (length ?f - 2) ?f else ?f) # gs"
        using "2.prems"(1) Cons by (auto simp: Let_def split: if_splits)
      have "\<exists>u. py_format kw ?r = Inr u"
        using c b "2.IH"(2) [OF Cons c(1) c(2) _ refl g] fs "2.prems"(2) by auto
      moreover have "\<exists>v. format_field kw ?f = Inr v"
        using fs "2.prems"(2) dict_key_get [of "hd fs" kw] by (auto simp: format_field_def Let_def split: if_splits)
      ultimately show ?thesis using c b Cons by auto
    next
      case 3
      then have b: "s \<noteq> [] \<and> hd s = CHR ''}''" "field_names k (tl s) = Some fs"
        using "2.prems"(1) Cons by (auto split: if_splits)
      then obtain u where "py_format kw (tl s) = Inr u" using 2 Cons 3 by fastforce
      then show ?thesis using 3 b Cons by simp
    next
      case 4
      then have "field_names k s = Some fs" using "2.prems"(1) Cons by simp
      then obtain u where "py_format kw s = Inr u" using "2.IH"(4) [OF Cons 4] "2.prems"(2) by blast
      then show ?thesis using 4 Cons by simp
    qed
  qed simp
qed simp

definition fields_in :: "string \<Rightarrow> string list \<Rightarrow> bool" where
  "fields_in t ks = (case field_names (length t + 1) t of Some fs \<Rightarrow> list_all (\<lambda>f. f \<in> set ks) fs | None \<Rightarrow> False)"

lemma fields_in_format: "fields_in t ks \<Longrightarrow> set ks \<subseteq> set (dict_keys kw) \<Longrightarrow> \<exists>s. py_format kw t = Inr s"
  using format_succeeds [of "length t + 1" t _ kw] by (fastforce simp: fields_in_def list_all_iff split: option.splits)

lemma fields_in_some: "fields_in t ks \<Longrightarrow> \<exists>k fs. field_names k t = Some fs"
  unfolding fields_in_def by (metis option.case_eq_if option.collapse)

text \<open>A template with complete fields formats piece by piece, here line by line.\<close>

lemma format_append:
  "field_names k t = Some fs \<Longrightarrow>
   py_format kw (t @ u) = rbind (py_format kw t) (\<lambda>x. rbind (py_format kw u) (\<lambda>y. Inr (x @ y)))"
proof (induction k t arbitrary: fs rule: field_names.induct)
  case (2 k t)
  have assoc: "rbind (rbind r f) g = rbind r (\<lambda>x. rbind (f x) g)" for r :: "'a result" and f :: "'a \<Rightarrow> 'b result" and g :: "'b \<Rightarrow> 'c result"
    by (cases r) simp_all
  show ?case
  proof (cases t)
    case Nil
    then show ?thesis by (cases "py_format kw u") simp_all
  next
    case (Cons c s)
    let ?f = "takeWhile (\<lambda>d. d \<noteq> CHR ''}'') s" and ?r = "tl (dropWhile (\<lambda>d. d \<noteq> CHR ''}'') s)"
    consider "c = CHR ''{''" "s \<noteq> [] \<and> hd s = CHR ''{''" | "c = CHR ''{''" "\<not> (s \<noteq> [] \<and> hd s = CHR ''{'')"
      | "c \<noteq> CHR ''{''" "c = CHR ''}''" | "c \<noteq> CHR ''{''" "c \<noteq> CHR ''}''" by blast
    then show ?thesis
    proof cases
      case 1
      then have "field_names k (tl s) = Some fs" using "2.prems"(1) Cons by simp
      note IH = "2.IH"(1) [OF Cons 1 this]
      show ?thesis using 1 Cons IH by (simp add: assoc)
    next
      case c: 2
      then obtain gs where b: "CHR ''}'' \<in> set s" and g: "field_names k ?r = Some gs"
        using "2.prems"(1) Cons by (auto simp: Let_def split: if_splits)
      note IH = "2.IH"(2) [OF Cons c(1) c(2) _ refl g]
      have "takeWhile (\<lambda>d. d \<noteq> CHR ''}'') (s @ u) = ?f" "tl (dropWhile (\<lambda>d. d \<noteq> CHR ''}'') (s @ u)) = ?r @ u"
        using b by (auto simp: takeWhile_append1 dropWhile_append1 dropWhile_eq_Nil_conv tl_append2)
      moreover have "hd (s @ u) = hd s" "s \<noteq> []" using b by (cases s; simp)+
      ultimately show ?thesis using c b Cons IH by (simp add: assoc)
    next
      case 3
      then have b: "s \<noteq> [] \<and> hd s = CHR ''}''" "field_names k (tl s) = Some fs"
        using "2.prems"(1) Cons by (auto split: if_splits)
      note IH = "2.IH"(3) [OF Cons 3 b]
      show ?thesis using 3 b(1) Cons IH by (simp add: assoc)
    next
      case 4
      then have "field_names k s = Some fs" using "2.prems"(1) Cons by simp
      note IH = "2.IH"(4) [OF Cons 4 this]
      show ?thesis using 4 Cons IH by (simp add: assoc)
    qed
  qed
qed simp

lemma text_lines_format:
  "list_all (\<lambda>l. fields_in l ks) ls \<Longrightarrow> set ks \<subseteq> set (dict_keys kw) \<Longrightarrow> \<exists>s. py_format kw (text_lines ls) = Inr s"
proof (induction ls)
  case (Cons l ls)
  then obtain u where u: "py_format kw (text_lines ls) = Inr u" by auto
  obtain s where s: "py_format kw l = Inr s" using fields_in_format [of l ks kw] Cons.prems by auto
  have "\<exists>k fs. field_names k l = Some fs" using Cons.prems(1) by (intro fields_in_some [of l ks]) simp
  then have "py_format kw (l @ newline @ text_lines ls) = Inr (s @ newline @ u)"
    using s u by (auto simp: format_append)
  then show ?case by (simp add: text_lines_def)
qed (simp add: text_lines_def)

lemma format_WSCRIPT_TEMPLATE: "set [''MODULE''] \<subseteq> set (dict_keys kw) \<Longrightarrow> \<exists>s. py_format kw WSCRIPT_TEMPLATE = Inr s"
  unfolding WSCRIPT_TEMPLATE_def by (rule text_lines_format [where ks = "[''MODULE'']"]) (code_simp, assumption)

lemma format_MODEL_CC_TEMPLATE: "set [''MODULE''] \<subseteq> set (dict_keys kw) \<Longrightarrow> \<exists>s. py_format kw MODEL_CC_TEMPLATE = Inr s"
  unfolding MODEL_CC_TEMPLATE_def by (rule text_lines_format [where ks = "[''MODULE'']"]) (code_simp, assumption)

lemma format_MODEL_H_TEMPLATE: "set [''MODULE'', ''INCLUDE_GUARD''] \<subseteq> set (dict_keys kw) \<Longrightarrow> \<exists>s. py_format kw MODEL_H_TEMPLATE = Inr s"
  unfolding MODEL_H_TEMPLATE_def by (rule text_lines_format [where ks = "[''MODULE'', ''INCLUDE_GUARD'']"]) (code_simp, assumption)

lemma format_HELPER_CC_TEMPLATE: "set [''MODULE''] \<subseteq> set (dict_keys kw) \<Longrightarrow> \<exists>s. py_format kw HELPER_CC_TEMPLATE = Inr s"
  unfolding HELPER_CC_TEMPLATE_def by (rule text_lines_format [where ks = "[''MODULE'']"]) (code_simp, assumption)

lemma format_HELPER_H_TEMPLATE: "set [''MODULE'', ''INCLUDE_GUARD''] \<subseteq> set (dict_keys kw) \<Longrightarrow> \<exists>s. py_format kw HELPER_H_TEMPLATE = Inr s"
  unfolding HELPER_H_TEMPLATE_def by (rule text_lines_format [where ks = "[''MODULE'', ''INCLUDE_GUARD'']"]) (code_simp, assumption)

lemma format_EXAMPLES_WSCRIPT_TEMPLATE: "set [''MODULE''] \<subseteq> set (dict_keys kw) \<Longrightarrow> \<exists>s. py_format kw EXAMPLES_WSCRIPT_TEMPLATE = Inr s"
  unfolding EXAMPLES_WSCRIPT_TEMPLATE_def by (rule text_lines_format [where ks = "[''MODULE'']"]) (code_simp, assumption)

lemma format_EXAMPLE_CC_TEMPLATE: "set [''MODULE''] \<subseteq> set (dict_keys kw) \<Longrightarrow> \<exists>s. py_format kw EXAMPLE_CC_TEMPLATE = Inr s"
  unfolding EXAMPLE_CC_TEMPLATE_def by (rule text_lines_format [where ks = "[''MODULE'']"]) (code_simp, assumption)

lemma format_TEST_CC_TEMPLATE: "set [''MODULE'', ''CAPITALIZED'', ''COMPOUND''] \<subseteq> set (dict_keys kw) \<Longrightarrow> \<exists>s. py_format kw TEST_CC_TEMPLATE = Inr s"
  unfolding TEST_CC_TEMPLATE_def by (rule text_lines_format [where ks = "[''MODULE'', ''CAPITALIZED'', ''COMPOUND'']"]) (code_simp, assumption)

lemma format_DOC_RST_TEMPLATE: "set [''MODULE'', ''MODULE_DIR''] \<subseteq> set (dict_keys kw) \<Longrightarrow> \<exists>s. py_format kw DOC_RST_TEMPLATE = Inr s"
  unfolding DOC_RST_TEMPLATE_def by (rule text_lines_format [where ks = "[''MODULE'', ''MODULE_DIR'']"]) (code_simp, assumption)

section \<open>Well formed file systems\<close>

text \<open>Whatever lies in a directory has that directory; a module is made with such a file system.\<close>

definition well_formed :: "fs \<Rightarrow> bool" where
  "well_formed fs \<longleftrightarrow> (\<forall>q \<in> set (dict_keys fs). is_dir (butlast q) fs)"

lemma is_dir_exists: "is_dir p fs \<Longrightarrow> path_exists p fs"
  by (auto simp: is_dir_def path_exists_def dest: dict_get_Some_key)

lemma not_exists_get: "\<not> path_exists p fs \<Longrightarrow> dict_get fs p = None"
  by (simp add: path_exists_def dict_get_None_iff)

lemma not_exists_iff: "\<not> path_exists p fs \<longleftrightarrow> p \<noteq> [] \<and> dict_get fs p = None"
  by (simp add: path_exists_def dict_get_None_iff)

lemma path_exists_set: "path_exists q (dict_set fs p n) \<longleftrightarrow> q = p \<or> path_exists q fs"
  unfolding path_exists_def set_keys_set by blast

lemma get_exists: "dict_get fs p = Some v \<Longrightarrow> path_exists p fs"
  by (auto simp: path_exists_def dest: dict_get_Some_key)

lemma well_formed_parent: "well_formed fs \<Longrightarrow> path_exists q fs \<Longrightarrow> is_dir (butlast q) fs"
  by (auto simp: well_formed_def path_exists_def is_dir_def)

lemma well_formed_below:
  "well_formed fs \<Longrightarrow> \<not> path_exists d fs \<Longrightarrow> dict_get fs (d @ x) = None"
proof (induction x rule: rev_induct)
  case (snoc y ys)
  then have "\<not> path_exists (d @ ys) fs" by (cases "d @ ys = []") (auto simp: path_exists_def dict_get_None_iff)
  then have "\<not> path_exists ((d @ ys) @ [y]) fs"
    using well_formed_parent [OF snoc.prems(1), of "(d @ ys) @ [y]"] is_dir_exists by (auto simp only: butlast_snoc)
  then show ?case by (simp add: not_exists_get)
qed (simp add: not_exists_get)

lemma well_formed_set:
  assumes "well_formed fs" "is_dir (butlast p) fs" "\<not> is_dir p fs"
  shows "well_formed (dict_set fs p n)"
  unfolding well_formed_def
proof
  fix q assume "q \<in> set (dict_keys (dict_set fs p n))"
  then have "q = p \<or> q \<in> set (dict_keys fs)" by (simp only: set_keys_set insert_iff)
  then have "is_dir (butlast q) fs" using assms(1, 2) unfolding well_formed_def by blast
  then show "is_dir (butlast q) (dict_set fs p n)" using assms(3) by (auto simp: is_dir_def)
qed

section \<open>Making a module\<close>

text \<open>What a module consists of: its directories, and its files with their templates.\<close>

definition module_dirs :: "path \<Rightarrow> path list" where
  "module_dirs d = map (\<lambda>x. d @ [x]) [''model'', ''test'', ''helper'', ''examples'', ''doc'']"

definition module_files :: "path \<Rightarrow> string \<Rightarrow> (path \<times> string \<times> (string, string) dict) list" where
  "module_files d n =
     (let m = (''MODULE'', n) in
     [(d @ [''wscript''], WSCRIPT_TEMPLATE, [m]),
      (d @ [''model'', n @ ''.cc''], MODEL_CC_TEMPLATE, [m]),
      (d @ [''model'', n @ ''.h''], MODEL_H_TEMPLATE, [m, (''INCLUDE_GUARD'', guard_name n @ ''_H'')]),
      (d @ [''test'', n @ ''-test-suite.cc''], TEST_CC_TEMPLATE,
         [m, (''CAPITALIZED'', camel_name n), (''COMPOUND'', compound_name n)]),
      (d @ [''helper'', n @ ''-helper.cc''], HELPER_CC_TEMPLATE, [m]),
      (d @ [''helper'', n @ ''-helper.h''], HELPER_H_TEMPLATE, [m, (''INCLUDE_GUARD'', guard_name n @ ''_HELPER_H'')]),
      (d @ [''examples'', ''wscript''], EXAMPLES_WSCRIPT_TEMPLATE, [m]),
      (d @ [''examples'', n @ ''-example.cc''], EXAMPLE_CC_TEMPLATE, [m]),
      (d @ [''doc'', n @ ''.rst''], DOC_RST_TEMPLATE, [m, (''MODULE_DIR'', join_with ''/'' d)])])"

lemma module_files_format: "(p, t, kw) \<in> set (module_files d n) \<Longrightarrow> \<exists>s. py_format kw t = Inr s"
  by (auto simp: module_files_def Let_def intro!: format_WSCRIPT_TEMPLATE format_MODEL_CC_TEMPLATE format_MODEL_H_TEMPLATE
      format_TEST_CC_TEMPLATE format_HELPER_CC_TEMPLATE format_HELPER_H_TEMPLATE format_EXAMPLES_WSCRIPT_TEMPLATE
      format_EXAMPLE_CC_TEMPLATE format_DOC_RST_TEMPLATE)

lemma names_differ: "n @ ''-example.cc'' \<noteq> ''wscript''"
proof
  assume "n @ ''-example.cc'' = ''wscript''"
  then have "last (n @ ''-example.cc'') = last ''wscript''" by (rule arg_cong)
  then show False by simp
qed

lemma module_files_distinct: "distinct (map fst (module_files d n))"
  using names_differ [of n] names_differ [of n, symmetric] by (simp add: module_files_def Let_def)

text \<open>All directories on the way to \<open>d\<close> are there.\<close>

definition dirs_to :: "path \<Rightarrow> fs \<Rightarrow> bool" where
  "dirs_to d fs \<longleftrightarrow> (\<forall>k \<le> length d. is_dir (take k d) fs)"

lemma dirs_to_last: "dirs_to d fs \<Longrightarrow> is_dir d fs"
  by (force simp: dirs_to_def)

lemma dirs_to_snoc: "dirs_to (d @ [x]) fs \<longleftrightarrow> dirs_to d fs \<and> is_dir (d @ [x]) fs"
  by (auto simp: dirs_to_def le_Suc_eq)

lemma dirs_to_set: "dirs_to d fs \<Longrightarrow> \<not> is_dir p fs \<Longrightarrow> dirs_to d (dict_set fs p n)"
  by (auto simp: dirs_to_def is_dir_def)

lemma make_dirs_existing:
  "dirs_to (p @ xs) fs \<Longrightarrow> y \<noteq> [] \<Longrightarrow> make_dirs deny p (xs @ y) fs = make_dirs deny (p @ xs) y fs"
proof (induction xs arbitrary: p)
  case (Cons x xs)
  have "take (Suc (length p)) (p @ x # xs) = p @ [x]" by simp
  then have "is_dir (p @ [x]) fs"
    using Cons.prems(1) unfolding dirs_to_def by (metis add_Suc_right le_add1 length_Cons length_append add_Suc_shift)
  then have "make_dir deny True (p @ [x]) fs = (fs, Inr ())" by (simp add: make_dir_def is_dir_exists)
  then show ?case using Cons.IH [of "p @ [x]"] Cons.prems by (simp add: hseq_def hbind_def)
qed simp

lemma mkdir_below:
  assumes "dirs_to d fs" "\<not> path_exists (d @ [x]) fs"
  shows "mkdir_parents (\<lambda>_. False) (d @ [x]) fs = (dict_set fs (d @ [x]) Dir, Inr ())"
proof -
  have "make_dir (\<lambda>_. False) False (d @ [x]) fs = (dict_set fs (d @ [x]) Dir, Inr ())"
    using assms dirs_to_last [OF assms(1)] by (simp add: make_dir_def)
  then show ?thesis
    using make_dirs_existing [of "[]" d fs "[x]"] assms(1) by (simp add: mkdir_parents_def hseq_def hbind_def hreturn_def)
qed

lemma dict_set_twice: "dict_set (dict_set fs p a) p b = dict_set fs p b"
  by (induction fs) auto

lemma create_file_works:
  assumes "is_dir (butlast p) fs" "\<not> is_dir p fs" "py_format kw t = Inr s"
  shows "create_file (\<lambda>_. False) p t kw fs = (dict_set fs p (File s), Inr ())"
  using assms by (simp add: create_file_def hseq_def [of "open_write _ _"] hbind_def [of "open_write _ _"] open_write_def dict_set_twice)

lemma make_dirs_works:
  assumes "dirs_to p fs" "\<forall>k \<le> length xs. path_exists (p @ take k xs) fs \<longrightarrow> is_dir (p @ take k xs) fs"
    "\<not> path_exists (p @ xs) fs \<or> xs = []" "well_formed fs"
  shows "\<exists>fs'. make_dirs (\<lambda>_. False) p xs fs = (fs', Inr ()) \<and> dirs_to (p @ xs) fs' \<and> well_formed fs' \<and>
           (\<forall>q. dict_get fs' q = (if \<exists>k < length xs. q = p @ take (Suc k) xs then Some Dir else dict_get fs q))"
  using assms
proof (induction xs arbitrary: p fs)
  case (Cons x xs)
  let ?p = "p @ [x]"
  have is_p: "is_dir p fs" using Cons.prems(1) by (rule dirs_to_last)
  have once: "path_exists ?p fs \<Longrightarrow> is_dir ?p fs" using Cons.prems(2) by (auto dest: spec [of _ 1])
  define fs1 where "fs1 = (if path_exists ?p fs then fs else dict_set fs ?p Dir)"
  have step: "make_dir (\<lambda>_. False) (xs \<noteq> []) ?p fs = (fs1, Inr ())"
    using is_p once Cons.prems(3) by (auto simp: make_dir_def fs1_def)
  have get1: "dict_get fs1 q = (if q = ?p then Some Dir else dict_get fs q)" for q
    using once by (auto simp: fs1_def is_dir_def)
  have exists1: "path_exists q fs1 \<longleftrightarrow> q = ?p \<or> path_exists q fs" for q
    by (auto simp: fs1_def path_exists_set)
  have dir1: "is_dir q fs1 \<longleftrightarrow> q = ?p \<or> is_dir q fs" for q
    using get1 [of q] by (auto simp: is_dir_def)
  have dirs: "dirs_to ?p fs1"
    using Cons.prems(1) by (simp add: dirs_to_snoc dir1) (simp add: dirs_to_def dir1)
  have wf: "well_formed fs1"
    using Cons.prems(4) is_p is_dir_exists by (auto simp: fs1_def intro!: well_formed_set)
  have old: "path_exists (?p @ take k xs) fs1 \<longrightarrow> is_dir (?p @ take k xs) fs1" if "k \<le> length xs" for k
    using Cons.prems(2) [rule_format, of "Suc k"] that exists1 dir1 by auto
  have new: "\<not> path_exists (?p @ xs) fs1 \<or> xs = []"
    using Cons.prems(3) exists1 [of "?p @ xs"] by auto
  obtain fs' where run: "make_dirs (\<lambda>_. False) ?p xs fs1 = (fs', Inr ())" "dirs_to (?p @ xs) fs'" "well_formed fs'"
    and get: "\<And>q. dict_get fs' q = (if \<exists>k < length xs. q = ?p @ take (Suc k) xs then Some Dir else dict_get fs1 q)"
    using Cons.IH [OF dirs _ new wf] old by blast
  have "(\<exists>k < length (x # xs). q = p @ take (Suc k) (x # xs)) \<longleftrightarrow> q = ?p \<or> (\<exists>k < length xs. q = ?p @ take (Suc k) xs)" for q
    by (auto simp: less_Suc_eq_0_disj)
  then have "\<forall>q. dict_get fs' q = (if \<exists>k < length (x # xs). q = p @ take (Suc k) (x # xs) then Some Dir else dict_get fs q)"
    unfolding get get1 by (metis (no_types, lifting))
  then show ?case using step run by (simp add: hseq_def hbind_def)
qed (simp add: hreturn_def)

text \<open>What a list of new entries makes of a file system.\<close>

definition store :: "fs \<Rightarrow> (path \<times> node) list \<Rightarrow> fs" where
  "store fs es = foldl (\<lambda>fs (p, v). dict_set fs p v) fs es"

lemma dict_get_store: "dict_get (store fs es) q = (case map_of (rev es) q of Some v \<Rightarrow> Some v | None \<Rightarrow> dict_get fs q)"
  by (induction es rule: rev_induct) (auto simp: store_def)

lemma store_append: "store fs (es1 @ es2) = store (store fs es1) es2"
  by (simp add: store_def)

definition filled :: "string \<Rightarrow> (string, string) dict \<Rightarrow> node" where
  "filled t kw = File (case py_format kw t of Inr s \<Rightarrow> s | Inl e \<Rightarrow> [])"

definition runs_to :: "path \<Rightarrow> (fs, unit) handler \<Rightarrow> (path \<times> node) list \<Rightarrow> bool" where
  "runs_to d m es \<longleftrightarrow> (\<forall>fs. dirs_to d fs \<longrightarrow> (\<forall>p \<in> set (map fst es). dict_get fs p = None) \<longrightarrow> m fs = (store fs es, Inr ()))"

lemma runs_to_seq:
  assumes "runs_to d m es1" "runs_to d n es2" "set (map fst es1) \<inter> set (map fst es2) = {}"
    "\<forall>p \<in> set (map fst es1). length d < length p"
  shows "runs_to d (hseq m n) (es1 @ es2)"
  unfolding runs_to_def
proof (intro allI impI)
  fix fs assume fs: "dirs_to d fs" "\<forall>p \<in> set (map fst (es1 @ es2)). dict_get fs p = None"
  have keep: "dict_get (store fs es1) q = dict_get fs q" if "q \<notin> set (map fst es1)" for q
    using that by (auto simp: dict_get_store split: option.splits dest!: map_of_SomeD) force
  have "dirs_to d (store fs es1)"
    using fs(1) assms(4) keep unfolding dirs_to_def is_dir_def by (metis length_take min_less_iff_conj order_less_irrefl)
  moreover have "\<forall>p \<in> set (map fst es2). dict_get (store fs es1) p = None"
    using fs(2) assms(3) keep by (metis IntI Un_iff emptyE map_append set_append)
  ultimately show "hseq m n fs = (store fs (es1 @ es2), Inr ())"
    using assms(1, 2) fs by (simp add: runs_to_def hseq_def hbind_def store_append)
qed

lemma runs_to_file:
  assumes "\<exists>s. py_format kw t = Inr s"
  shows "runs_to d (create_file (\<lambda>_. False) (d @ [f]) t kw) [(d @ [f], filled t kw)]"
  using assms by (auto simp: runs_to_def store_def filled_def is_dir_def dest: dirs_to_last intro!: create_file_works)

lemma runs_to_part_one:
  assumes "\<exists>s. py_format kw t = Inr s"
  shows "runs_to d (hseq (mkdir_parents (\<lambda>_. False) (d @ [x])) (create_file (\<lambda>_. False) (d @ [x, f]) t kw))
           [(d @ [x], Dir), (d @ [x, f], filled t kw)]"
  unfolding runs_to_def
proof (intro allI impI)
  fix fs assume fs: "dirs_to d fs" "\<forall>p \<in> set (map fst [(d @ [x], Dir), (d @ [x, f], filled t kw)]). dict_get fs p = None"
  then have 1: "mkdir_parents (\<lambda>_. False) (d @ [x]) fs = (dict_set fs (d @ [x]) Dir, Inr ())"
    by (intro mkdir_below) (simp_all add: not_exists_iff)
  obtain s where s: "py_format kw t = Inr s" using assms by blast
  have 2: "create_file (\<lambda>_. False) (d @ [x, f]) t kw (dict_set fs (d @ [x]) Dir) = (dict_set (dict_set fs (d @ [x]) Dir) (d @ [x, f]) (File s), Inr ())"
    using fs(2) s by (intro create_file_works) (auto simp: is_dir_def butlast_append)
  show "hseq (mkdir_parents (\<lambda>_. False) (d @ [x])) (create_file (\<lambda>_. False) (d @ [x, f]) t kw) fs = (store fs [(d @ [x], Dir), (d @ [x, f], filled t kw)], Inr ())"
    using 1 2 s by (simp add: hseq_def hbind_def store_def filled_def)
qed

lemma runs_to_part_two:
  assumes "\<exists>s. py_format kw t = Inr s" "\<exists>s. py_format kw2 t2 = Inr s" "f \<noteq> g"
  shows "runs_to d (hseq (mkdir_parents (\<lambda>_. False) (d @ [x]))
             (hseq (create_file (\<lambda>_. False) (d @ [x, f]) t kw) (create_file (\<lambda>_. False) (d @ [x, g]) t2 kw2)))
           [(d @ [x], Dir), (d @ [x, f], filled t kw), (d @ [x, g], filled t2 kw2)]"
  unfolding runs_to_def
proof (intro allI impI)
  let ?es = "[(d @ [x], Dir), (d @ [x, f], filled t kw), (d @ [x, g], filled t2 kw2)]"
  let ?a = "mkdir_parents (\<lambda>_. False) (d @ [x])" and ?b = "create_file (\<lambda>_. False) (d @ [x, f]) t kw"
    and ?c = "create_file (\<lambda>_. False) (d @ [x, g]) t2 kw2"
  fix fs assume fs: "dirs_to d fs" "\<forall>p \<in> set (map fst ?es). dict_get fs p = None"
  let ?fs1 = "store fs [(d @ [x], Dir), (d @ [x, f], filled t kw)]"
  have 1: "hseq ?a ?b fs = (?fs1, Inr ())" using runs_to_part_one [OF assms(1), of d x f] fs by (simp add: runs_to_def)
  obtain s where s: "py_format kw2 t2 = Inr s" using assms(2) by blast
  have 2: "?c ?fs1 = (dict_set ?fs1 (d @ [x, g]) (File s), Inr ())"
    using fs(2) s assms(3) by (intro create_file_works) (auto simp: is_dir_def butlast_append dict_get_store)
  have "hseq ?a (hseq ?b ?c) fs = hseq (hseq ?a ?b) ?c fs"
    by (simp add: hseq_def hbind_def split: prod.splits sum.splits)
  also have "\<dots> = ?c ?fs1" using 1 by (simp add: hseq_def [of "hseq _ _"] hbind_def)
  finally show "hseq ?a (hseq ?b ?c) fs = (store fs ?es, Inr ())" using 2 s by (simp add: store_def filled_def)
qed

definition part_entries :: "path \<Rightarrow> string \<Rightarrow> (path \<times> node) list" where
  "part_entries d n =
     (let m = (''MODULE'', n) in
     [(d @ [''wscript''], filled WSCRIPT_TEMPLATE [m])] @
     [(d @ [''model''], Dir), (d @ [''model'', n @ ''.cc''], filled MODEL_CC_TEMPLATE [m]),
      (d @ [''model'', n @ ''.h''], filled MODEL_H_TEMPLATE [m, (''INCLUDE_GUARD'', guard_name n @ ''_H'')])] @
     [(d @ [''test''], Dir), (d @ [''test'', n @ ''-test-suite.cc''], filled TEST_CC_TEMPLATE
         [m, (''CAPITALIZED'', camel_name n), (''COMPOUND'', compound_name n)])] @
     [(d @ [''helper''], Dir), (d @ [''helper'', n @ ''-helper.cc''], filled HELPER_CC_TEMPLATE [m]),
      (d @ [''helper'', n @ ''-helper.h''], filled HELPER_H_TEMPLATE [m, (''INCLUDE_GUARD'', guard_name n @ ''_HELPER_H'')])] @
     [(d @ [''examples''], Dir), (d @ [''examples'', ''wscript''], filled EXAMPLES_WSCRIPT_TEMPLATE [m]),
      (d @ [''examples'', n @ ''-example.cc''], filled EXAMPLE_CC_TEMPLATE [m])] @
     [(d @ [''doc''], Dir), (d @ [''doc'', n @ ''.rst''], filled DOC_RST_TEMPLATE [m, (''MODULE_DIR'', join_with ''/'' d)])])"

lemma make_parts_runs: "runs_to d (make_parts (\<lambda>_. False) d n) (part_entries d n)"
  unfolding make_parts_def part_entries_def Let_def make_wscript_def make_model_def make_test_def
    make_helper_def make_examples_def make_doc_def
  apply (intro runs_to_seq runs_to_file runs_to_part_one runs_to_part_two)
  by (simp_all add: format_WSCRIPT_TEMPLATE format_MODEL_CC_TEMPLATE format_MODEL_H_TEMPLATE
      format_TEST_CC_TEMPLATE format_HELPER_CC_TEMPLATE format_HELPER_H_TEMPLATE format_EXAMPLES_WSCRIPT_TEMPLATE
      format_EXAMPLE_CC_TEMPLATE format_DOC_RST_TEMPLATE names_differ [of n, symmetric])

lemma filled_not_Dir: "filled t kw \<noteq> Dir"
  by (simp add: filled_def)

lemma part_entries_split:
  "map (\<lambda>(p, t, kw). (p, filled t kw)) (module_files d n) = filter (\<lambda>e. snd e \<noteq> Dir) (part_entries d n)"
  "map (\<lambda>p. (p, Dir)) (module_dirs d) = filter (\<lambda>e. snd e = Dir) (part_entries d n)"
  by (simp_all add: module_files_def module_dirs_def part_entries_def Let_def filled_not_Dir)

lemma part_entries_distinct: "distinct (map fst (part_entries d n))"
  using names_differ [of n] names_differ [of n, symmetric] by (simp add: part_entries_def Let_def)

lemma part_entries_get: "e \<in> set (part_entries d n) \<Longrightarrow> map_of (rev (part_entries d n)) (fst e) = Some (snd e)"
  by (rule map_of_is_SomeI) (simp_all add: rev_map [symmetric] part_entries_distinct)

lemma part_entries_files:
  assumes "(p, t, kw) \<in> set (module_files d n)"
  shows "map_of (rev (part_entries d n)) p = Some (filled t kw)"
proof -
  have "(p, filled t kw) \<in> set (map (\<lambda>(p, t, kw). (p, filled t kw)) (module_files d n))" using assms by force
  then show ?thesis using part_entries_get unfolding part_entries_split by fastforce
qed

lemma part_entries_dirs:
  assumes "p \<in> set (module_dirs d)"
  shows "map_of (rev (part_entries d n)) p = Some Dir"
proof -
  have "(p, Dir) \<in> set (map (\<lambda>p. (p, Dir)) (module_dirs d))" using assms by force
  then show ?thesis using part_entries_get unfolding part_entries_split(2) [of _ n] by fastforce
qed

lemma keys_split: "set (map fst es) = set (map fst (filter P es)) \<union> set (map fst (filter (\<lambda>e. \<not> P e) es))"
  by auto

lemma part_entries_keys:
  "set (map fst (part_entries d n)) = set (map fst (module_files d n)) \<union> set (module_dirs d)"
proof -
  have "map fst (map (\<lambda>(p, t, kw). (p, filled t kw)) (module_files d n)) = map fst (module_files d n)"
    by (simp add: case_prod_beta)
  moreover have "map fst (map (\<lambda>p. (p, Dir)) (module_dirs d)) = module_dirs d"
    by (simp add: comp_def)
  ultimately show ?thesis
    using keys_split [of "part_entries d n" "\<lambda>e. snd e \<noteq> Dir"] part_entries_split [of d n] by (simp only: not_not)
qed

lemma take_shorter: "length d < length q \<Longrightarrow> q \<noteq> take k d"
  by auto

lemma part_entries_below: "p \<in> set (map fst (part_entries d n)) \<Longrightarrow> \<exists>x. x \<noteq> [] \<and> p = d @ x"
  unfolding part_entries_def Let_def by auto

lemma make_module_success:
  assumes wf: "well_formed fs" and new: "\<not> path_exists (p @ [n]) fs"
    and above: "\<forall>k \<le> length p. path_exists (take k p) fs \<longrightarrow> is_dir (take k p) fs"
  shows "\<exists>fs1. make_module (\<lambda>_. False) (p, n) fs = (store fs1 (part_entries (p @ [n]) n), [Creating (p @ [n])], True) \<and>
           (\<forall>q. dict_get fs1 q = (if \<exists>k \<le> length p. q = take (Suc k) (p @ [n]) then Some Dir else dict_get fs q))"
proof -
  let ?d = "p @ [n]"
  have old: "\<forall>k \<le> length ?d. path_exists ([] @ take k ?d) fs \<longrightarrow> is_dir ([] @ take k ?d) fs"
    using above new by (simp add: le_Suc_eq)
  obtain fs1 where mk: "mkdir_parents (\<lambda>_. False) ?d fs = (fs1, Inr ())" "dirs_to ?d fs1"
    and get: "\<And>q. dict_get fs1 q = (if \<exists>k < length ?d. q = take (Suc k) ?d then Some Dir else dict_get fs q)"
  proof -
    have 1: "dirs_to [] fs" by (simp add: dirs_to_def is_dir_def)
    have 2: "\<not> path_exists ([] @ ?d) fs \<or> ?d = []" using new by simp
    from make_dirs_works [OF 1 old 2 wf] obtain fs1 where f: "make_dirs (\<lambda>_. False) [] ?d fs = (fs1, Inr ())"
      "dirs_to ([] @ ?d) fs1" "\<forall>q. dict_get fs1 q = (if \<exists>k < length ?d. q = [] @ take (Suc k) ?d then Some Dir else dict_get fs q)"
      by (elim exE conjE) blast
    show thesis
    proof (rule that)
      show "mkdir_parents (\<lambda>_. False) ?d fs = (fs1, Inr ())" using f(1) by (simp only: mkdir_parents_def)
      show "dirs_to ?d fs1" using f(2) by (simp only: append_Nil)
      show "dict_get fs1 q = (if \<exists>k < length ?d. q = take (Suc k) ?d then Some Dir else dict_get fs q)" for q
        using f(3) [rule_format, of q] by (simp only: append_Nil)
    qed
  qed
  have "dict_get fs1 q = None" if q: "q \<in> set (map fst (part_entries ?d n))" for q
  proof -
    obtain x where x: "x \<noteq> []" "q = ?d @ x" using part_entries_below [OF q] by blast
    then have "length ?d < length q" by simp
    then have "q \<noteq> take (Suc k) ?d" for k by (rule take_shorter)
    then show ?thesis using get [of q] well_formed_below [OF wf new, of x] x(2) by simp
  qed
  then have "make_parts (\<lambda>_. False) ?d n fs1 = (store fs1 (part_entries ?d n), Inr ())"
    using make_parts_runs [of ?d n] mk(2) unfolding runs_to_def by blast
  then have "make_module (\<lambda>_. False) (p, n) fs = (store fs1 (part_entries ?d n), [Creating ?d], True)"
    using new mk(1) by (simp add: make_module_def Let_def hseq_def hbind_def)
  moreover have "length ?d = Suc (length p)" by simp
  ultimately show ?thesis using get by (intro exI [of _ fs1]) (simp only: less_Suc_eq_le simp_thms)
qed

section \<open>Adding only\<close>

text \<open>Nothing that was there is changed, and what is new lies in the directory \<open>d\<close> or is a directory above it.\<close>

definition adds_below :: "path \<Rightarrow> fs \<Rightarrow> fs \<Rightarrow> bool" where
  "adds_below d fs fs' \<longleftrightarrow> well_formed fs' \<and>
     (\<forall>q. dict_get fs' q = dict_get fs q \<or> take (length d) q = d \<or>
          dict_get fs q = None \<and> dict_get fs' q = Some Dir \<and> (\<exists>k. 0 < k \<and> k < length d \<and> q = take k d))"

lemma adds_below_dir:
  assumes "adds_below d fs0 fs" "0 < k" "k < length d" "dict_get fs (take k d) = None" "is_dir (butlast (take k d)) fs"
  shows "adds_below d fs0 (dict_set fs (take k d) Dir)"
proof -
  have "\<not> is_dir (take k d) fs" using assms(2-4) by (auto simp: is_dir_def)
  then have "well_formed (dict_set fs (take k d) Dir)"
    using assms(1, 5) by (simp add: adds_below_def well_formed_set)
  moreover have "dict_get fs0 (take k d) = None"
  proof -
    have "take (length d) (take k d) \<noteq> d" using assms(3) by (metis length_take min.strict_order_iff not_le take_all_iff nat_less_le min.commute min_less_iff_conj take_take)
    then show ?thesis using assms(1, 4) unfolding adds_below_def by metis
  qed
  ultimately show ?thesis using assms(1-3) unfolding adds_below_def by (auto simp del: map_of_eq_None_iff)
qed

lemma adds_below_under:
  assumes "adds_below d fs0 fs" "take (length d) p = d" "is_dir (butlast p) fs" "\<not> is_dir p fs"
  shows "adds_below d fs0 (dict_set fs p n)"
  using assms unfolding adds_below_def by (auto simp: well_formed_set simp del: map_of_eq_None_iff)

lemma adds_below_make_dir:
  assumes "(0 < k \<and> k < length d \<and> p = take k d) \<or> take (length d) p = d"
  shows "preserves (adds_below d fs0) (make_dir deny eo p)"
  unfolding preserves_def
proof (intro allI impI)
  fix fs assume fs: "adds_below d fs0 fs"
  show "adds_below d fs0 (fst (make_dir deny eo p fs))"
  proof (cases "path_exists p fs \<or> \<not> is_dir (butlast p) fs \<or> deny p")
    case False
    then have "\<not> is_dir p fs" "dict_get fs p = None" using is_dir_exists not_exists_get by blast+
    then have "adds_below d fs0 (dict_set fs p Dir)"
      using assms False adds_below_dir [OF fs, of k] adds_below_under [OF fs] by blast
    then show ?thesis using False by (simp add: make_dir_def)
  qed (use fs in \<open>auto simp: make_dir_def\<close>)
qed

lemma adds_below_make_dirs:
  assumes "d = p @ xs @ y \<or> p @ xs = d @ y" 
  shows "preserves (adds_below d fs0) (make_dirs deny p xs)"
  using assms
proof (induction xs arbitrary: p)
  case (Cons x xs)
  have 1: "(0 < Suc (length p) \<and> Suc (length p) < length d \<and> p @ [x] = take (Suc (length p)) d) \<or> take (length d) (p @ [x]) = d"
    using Cons.prems
  proof
    assume "d = p @ (x # xs) @ y"
    then show ?thesis by (cases "xs @ y") auto
  next
    assume e: "p @ x # xs = d @ y"
    show ?thesis
    proof (cases "length d \<le> Suc (length p)")
      case True
      have "take (length d - length p) (x # xs) = take (length d - length p) [x]"
        using True by (cases "length d - length p") auto
      then have "take (length d) (p @ x # xs) = take (length d) (p @ [x])" by simp
      then show ?thesis using e by simp
    next
      case False
      have "take (Suc (length p)) (p @ x # xs) = take (Suc (length p)) d" using e False by simp
      then show ?thesis using False by simp
    qed
  qed
  have "preserves (adds_below d fs0) (make_dirs deny (p @ [x]) xs)" using Cons.IH [of "p @ [x]"] Cons.prems by simp
  then show ?case using adds_below_make_dir [OF 1] by (simp add: preserves_rules)
qed (simp add: preserves_rules)

lemma adds_below_mkdir: "preserves (adds_below d fs0) (mkdir_parents deny (d @ x))"
  unfolding mkdir_parents_def by (rule adds_below_make_dirs [where y = x]) simp

lemma adds_below_create_file: "x \<noteq> [] \<Longrightarrow> preserves (adds_below d fs0) (create_file deny (d @ x) t kw)"
  unfolding preserves_def
proof (intro allI impI)
  fix fs assume fs: "adds_below d fs0 fs"
  have in_d: "take (length d) (d @ x) = d" by simp
  show "adds_below d fs0 (fst (create_file deny (d @ x) t kw fs))"
  proof (cases "is_dir (d @ x) fs \<or> \<not> is_dir (butlast (d @ x)) fs \<or> deny (d @ x)")
    case False
    let ?fs1 = "dict_set fs (d @ x) (File [])"
    have 1: "adds_below d fs0 (dict_set fs (d @ x) (File s))" for s using fs in_d False by (blast intro: adds_below_under)
    have "fst (create_file deny (d @ x) t kw fs) = (case py_format kw t of Inl e \<Rightarrow> ?fs1 | Inr s \<Rightarrow> dict_set fs (d @ x) (File s))"
      using False by (simp add: create_file_def hseq_def [of "open_write _ _"] hbind_def [of "open_write _ _"] open_write_def dict_set_twice split: sum.splits)
    then show ?thesis using 1 by (simp split: sum.splits)
  qed (use fs in \<open>auto simp: create_file_def hseq_def [of "open_write _ _"] hbind_def [of "open_write _ _"] open_write_def\<close>)
qed

lemma adds_below_make_parts: "preserves (adds_below d fs0) (hseq (mkdir_parents deny d) (make_parts deny d n))"
proof -
  have mk: "preserves (adds_below d fs0) (mkdir_parents deny d)" using adds_below_mkdir [of d fs0 deny "[]"] by simp
  show ?thesis
    unfolding make_parts_def make_wscript_def make_model_def make_test_def make_helper_def make_examples_def make_doc_def
    by (intro preserves_seq mk adds_below_mkdir adds_below_create_file) simp_all
qed

text \<open>Removing the directory takes away what was made in it.\<close>

lemma dict_get_rmtree: "dict_get (rmtree d fs) q = (if take (length d) q = d then None else dict_get fs q)"
  unfolding rmtree_def by (induction fs) auto

lemma path_exists_get: "path_exists p fs \<longleftrightarrow> p = [] \<or> dict_get fs p \<noteq> None"
  by (metis not_exists_iff)

lemma well_formed_get: "well_formed fs \<longleftrightarrow> (\<forall>q. dict_get fs q \<noteq> None \<longrightarrow> is_dir (butlast q) fs)"
  unfolding well_formed_def by (metis dict_get_None_iff)

lemma take_butlast_whole: "take (length d) (butlast q) = d \<Longrightarrow> take (length d) q = d"
  by (metis butlast_conv_take length_take min.cobounded1 take_take min_def)

lemma well_formed_rmtree:
  assumes "well_formed fs"
  shows "well_formed (rmtree d fs)"
  unfolding well_formed_get
proof (intro allI impI)
  fix q assume q: "dict_get (rmtree d fs) q \<noteq> None"
  then have "dict_get fs q \<noteq> None" "take (length d) q \<noteq> d" by (auto simp: dict_get_rmtree split: if_splits)
  then have "is_dir (butlast q) fs" "take (length d) (butlast q) \<noteq> d"
    using assms take_butlast_whole unfolding well_formed_get by blast+
  then show "is_dir (butlast q) (rmtree d fs)" by (simp add: is_dir_def dict_get_rmtree)
qed

lemma make_module_adds:
  assumes "well_formed fs" "make_module deny (p, n) fs = (fs', out, ok)"
  shows "adds_below (p @ [n]) fs fs' \<and> (dict_get fs (p @ [n] @ x) \<noteq> None \<longrightarrow> dict_get fs' (p @ [n] @ x) = dict_get fs (p @ [n] @ x)) \<and>
         (\<not> ok \<longrightarrow> dict_get fs' (p @ [n] @ x) = dict_get fs (p @ [n] @ x))"
proof -
  let ?d = "p @ [n]"
  have here: "adds_below ?d fs fs" using assms(1) by (simp add: adds_below_def)
  show ?thesis
  proof (cases "path_exists ?d fs")
    case True
    then show ?thesis using assms(2) here by (simp add: make_module_def Let_def)
  next
    case False
    have none: "dict_get fs (p @ [n] @ x) = None" using well_formed_below [OF assms(1) False, of x] by simp
    obtain fs1 r where run: "hseq (mkdir_parents deny ?d) (make_parts deny ?d n) fs = (fs1, r)" by force
    then have adds: "adds_below ?d fs fs1" using preservesD [OF adds_below_make_parts here] by (metis fst_conv)
    show ?thesis
    proof (cases r)
      case Inr
      then show ?thesis using assms(2) False run adds none by (simp add: make_module_def Let_def)
    next
      case (Inl e)
      have gone: "adds_below ?d fs (rmtree ?d fs1)"
        using adds unfolding adds_below_def by (auto simp: well_formed_rmtree dict_get_rmtree simp del: map_of_eq_None_iff)
      have none1: "dict_get fs1 (p @ [n] @ x) = None" if "\<not> path_exists ?d fs1"
        using well_formed_below [OF _ that, of x] adds by (simp add: adds_below_def)
      have fs': "fs' = (if path_exists ?d fs1 then rmtree ?d fs1 else fs1)" "\<not> ok"
        using assms(2) False run Inl by (auto simp: make_module_def Let_def)
      have "dict_get fs' (p @ [n] @ x) = None" using none1 by (simp add: fs'(1) dict_get_rmtree)
      then show ?thesis using gone adds none by (simp add: fs'(1))
    qed
  qed
qed

lemma adds_below_cases:
  assumes "adds_below d fs fs'" "dict_get fs' q \<noteq> dict_get fs q"
  obtains (under) x where "q = d @ x"
    | (above) k where "0 < k" "k < length d" "q = take k d" "dict_get fs q = None" "dict_get fs' q = Some Dir"
  using assms unfolding adds_below_def by (metis append_take_drop_id)

text \<open>Every change is a new path under \<open>src\<close> or \<open>contrib\<close>, below which its first name is an allowed one.\<close>

definition source_path :: "path \<Rightarrow> bool" where
  "source_path q \<longleftrightarrow> (\<exists>base y. q = base # y \<and> base \<in> {''src'', ''contrib''} \<and> (y \<noteq> [] \<longrightarrow> allowed_name (hd y)))"

definition only_adds :: "fs \<Rightarrow> fs \<Rightarrow> bool" where
  "only_adds fs fs' \<longleftrightarrow> well_formed fs' \<and>
     (\<forall>q. dict_get fs' q \<noteq> dict_get fs q \<longrightarrow> dict_get fs q = None \<and> source_path q)"

lemma only_adds_trans: "only_adds fs fs1 \<Longrightarrow> only_adds fs1 fs2 \<Longrightarrow> only_adds fs fs2"
  unfolding only_adds_def by metis

definition good_module :: "path \<times> string \<Rightarrow> bool" where
  "good_module m \<longleftrightarrow>
     (\<exists>base rest. fst m = base # rest \<and> base \<in> {''src'', ''contrib''} \<and> list_all allowed_name (rest @ [snd m]))"

lemma good_module_paths:
  assumes "good_module (p, n)"
  shows "source_path (p @ [n] @ x)" "0 < k \<Longrightarrow> source_path (take k (p @ [n]))"
proof -
  obtain base rest where m: "p = base # rest" "base \<in> {''src'', ''contrib''}" "list_all allowed_name (rest @ [n])"
    using assms by (auto simp: good_module_def)
  have hd: "allowed_name (hd ((rest @ [n]) @ y))" for y using m(3) by (cases rest) auto
  show "source_path (p @ [n] @ x)" using m(1, 2) hd [of x] unfolding source_path_def by auto
  assume "0 < k"
  then obtain j where k: "k = Suc j" by (cases k) auto
  have "take j (rest @ [n]) \<noteq> [] \<longrightarrow> hd (take j (rest @ [n])) = hd (rest @ [n])" by (cases j; cases rest) auto
  then show "source_path (take k (p @ [n]))" using m(1, 2) hd [of "[]"] k unfolding source_path_def by fastforce
qed

lemma make_module_only_adds:
  assumes "good_module (p, n)" "well_formed fs" "make_module deny (p, n) fs = (fs', out, ok)"
  shows "only_adds fs fs'"
  unfolding only_adds_def
proof (intro conjI allI impI)
  show "well_formed fs'" using make_module_adds [OF assms(2, 3)] by (simp add: adds_below_def)
  fix q assume q: "dict_get fs' q \<noteq> dict_get fs q"
  have below: "adds_below (p @ [n]) fs fs'" using make_module_adds [OF assms(2, 3)] by simp
  show "dict_get fs q = None" using below q
  proof (cases rule: adds_below_cases)
    case (under x)
    then show ?thesis using q make_module_adds [OF assms(2, 3), of x] by auto
  qed
  show "source_path q" using below q
  proof (cases rule: adds_below_cases)
    case (under x)
    then show ?thesis using good_module_paths(1) [OF assms(1)] by simp
  next
    case (above k)
    then show ?thesis using good_module_paths(2) [OF assms(1) above(1)] by (simp only:)
  qed
qed

lemma make_modules_only_adds:
  "list_all good_module ms \<Longrightarrow> well_formed fs \<Longrightarrow> make_modules deny ms fs = (fs', out, ok) \<Longrightarrow> only_adds fs fs'"
proof (induction ms arbitrary: fs out ok)
  case (Cons m ms)
  obtain p n where m: "m = (p, n)" by force
  obtain fs1 out1 ok1 where 1: "make_module deny (p, n) fs = (fs1, out1, ok1)" by (metis prod_cases3)
  have add1: "only_adds fs fs1" using make_module_only_adds [OF _ Cons.prems(2) 1] Cons.prems(1) m by simp
  show ?case
  proof (cases ok1)
    case True
    obtain fs2 out2 ok2 where 2: "make_modules deny ms fs1 = (fs2, out2, ok2)" by (metis prod_cases3)
    have "fs' = fs2" using Cons.prems(3) 1 2 m True by simp
    then have "only_adds fs1 fs2" using Cons.IH [OF _ _ 2 [folded \<open>fs' = fs2\<close>]] Cons.prems(1) add1 by (simp add: only_adds_def)
    then show ?thesis using Cons.prems(3) 1 2 m True only_adds_trans [OF add1] by simp
  next
    case False
    then show ?thesis using Cons.prems(3) 1 m add1 by simp
  qed
qed (simp add: only_adds_def)

lemma check_name_good:
  assumes "check_name q name = Inr (out, ms)" "pred_option (list_all allowed_name) q"
  shows "list_all good_module ms"
  using assms by (auto simp: check_name_def Let_def good_module_def split: if_splits option.splits)

lemma check_names_good:
  "check_names q names = Inr (out, ms) \<Longrightarrow> pred_option (list_all allowed_name) q \<Longrightarrow> list_all good_module ms"
proof (induction names arbitrary: out ms)
  case (Cons name names)
  obtain out1 ms1 out2 ms2 where "check_name q name = Inr (out1, ms1)" "check_names q names = Inr (out2, ms2)" "ms = ms1 @ ms2"
    using Cons.prems(1) by (auto simp: rbind_def split: sum.splits)
  then show ?case using check_name_good Cons by simp
qed simp

lemma project_parts_allowed: "project_parts project = Inr q \<Longrightarrow> pred_option (list_all allowed_name) q"
  by (auto simp: project_parts_def split: if_splits)

lemma hseq_raises: "m s = (s', Inl e) \<Longrightarrow> hseq m n s = (s', Inl e)"
  by (simp add: hseq_def hbind_def)


section \<open>What the generator promises\<close>

text \<open>When nothing refuses a write, a module whose path is free and whose existing parents are directories is
  made completely: every template is formatted without an error and its text is the contents of its file, the
  five directories and the missing parents are there, and every other path is as it was.\<close>

theorem make_module_creates:
  assumes "well_formed fs" "\<not> path_exists (p @ [n]) fs"
    and "\<forall>k \<le> length p. path_exists (take k p) fs \<longrightarrow> is_dir (take k p) fs"
  shows "\<exists>fs'. make_module (\<lambda>_. False) (p, n) fs = (fs', [Creating (p @ [n])], True) \<and>
    (\<forall>(f, t, kw) \<in> set (module_files (p @ [n]) n). \<exists>s. py_format kw t = Inr s \<and> dict_get fs' f = Some (File s)) \<and>
    (\<forall>f \<in> set (module_dirs (p @ [n])). dict_get fs' f = Some Dir) \<and>
    (\<forall>q. q \<notin> set (map fst (module_files (p @ [n]) n)) \<union> set (module_dirs (p @ [n])) \<longrightarrow>
       dict_get fs' q = (if \<exists>k \<le> length p. q = take (Suc k) (p @ [n]) then Some Dir else dict_get fs q))"
proof -
  let ?d = "p @ [n]" and ?es = "part_entries (p @ [n]) n"
  obtain fs1 where run: "make_module (\<lambda>_. False) (p, n) fs = (store fs1 ?es, [Creating ?d], True)"
    and get: "\<forall>q. dict_get fs1 q = (if \<exists>k \<le> length p. q = take (Suc k) ?d then Some Dir else dict_get fs q)"
    using make_module_success [OF assms] by blast
  have files: "\<exists>s. py_format kw t = Inr s \<and> dict_get (store fs1 ?es) f = Some (File s)"
    if mf: "(f, t, kw) \<in> set (module_files ?d n)" for f t kw
    using module_files_format [OF mf] part_entries_files [OF mf] by (auto simp: dict_get_store filled_def)
  have dirs: "dict_get (store fs1 ?es) f = Some Dir" if "f \<in> set (module_dirs ?d)" for f
    using part_entries_dirs [OF that] by (simp add: dict_get_store)
  have rest: "dict_get (store fs1 ?es) q = dict_get fs1 q" if "q \<notin> set (map fst ?es)" for q
  proof -
    have "map_of (rev ?es) q = None" using that by (simp add: map_of_eq_None_iff)
    then show ?thesis by (simp add: dict_get_store)
  qed
  show ?thesis
    by (intro exI conjI, rule run) (use files dirs rest get part_entries_keys in \<open>blast, blast, metis\<close>)
qed

theorem make_module_creates_witness:
  "well_formed [([''contrib''], Dir)] \<and>
   (\<exists>fs'. make_module (\<lambda>_. False) ([''contrib'', ''team''], ''my-net'') [([''contrib''], Dir)] =
            (fs', [Creating [''contrib'', ''team'', ''my-net'']], True) \<and>
          dict_get fs' [''contrib'', ''team'', ''my-net'', ''doc''] = Some Dir)"
proof -
  have 1: "well_formed [([''contrib''], Dir)]" by (simp add: well_formed_def is_dir_def)
  have 2: "\<not> path_exists ([''contrib'', ''team''] @ [''my-net'']) [([''contrib''], Dir)]" by (simp add: path_exists_def)
  have 3: "\<forall>k \<le> length [''contrib'', ''team'']. path_exists (take k [''contrib'', ''team'']) [([''contrib''], Dir)] \<longrightarrow>
             is_dir (take k [''contrib'', ''team'']) [([''contrib''], Dir)]"
    by (auto simp: path_exists_def is_dir_def)
  show ?thesis using 1 make_module_creates [OF 1 2 3] by (auto simp: module_dirs_def)
qed



text \<open>C15 Whatever the arguments, and whatever fails on the way, the script changes or removes nothing that was
  there: what is new lies below \<open>src\<close> or \<open>contrib\<close>, in a directory with an allowed name.\<close>

theorem create_main_only_adds:
  assumes "well_formed fs" "create_main deny project names fs = (fs', r)" "dict_get fs' q \<noteq> dict_get fs q"
  shows "dict_get fs q = None \<and>
         (\<exists>base x y. q = base # x # y \<and> base \<in> {''src'', ''contrib''} \<and> allowed_name x)"
proof -
  let ?names = "rbind (project_parts project) (\<lambda>q. check_names q names)"
  obtain out ms out2 ok where run: "?names = Inr (out, ms)" "make_modules deny ms fs = (fs', out2, ok)"
    and tops: "is_dir [''src''] fs" "is_dir [''contrib''] fs"
    using assms(2, 3) by (auto simp: create_main_def split: if_splits sum.splits prod.splits)
  have "list_all good_module ms"
    using run(1) check_names_good project_parts_allowed by (auto simp: rbind_eq_Inr)
  then have "only_adds fs fs'" using make_modules_only_adds assms(1) run(2) by blast
  then have q: "dict_get fs q = None" "source_path q" using assms(3) by (auto simp: only_adds_def)
  then obtain base z where z: "q = base # z" "base \<in> {''src'', ''contrib''}" "z \<noteq> [] \<longrightarrow> allowed_name (hd z)"
    by (auto simp: source_path_def)
  have "z \<noteq> []" using tops q(1) z(1, 2) by (auto simp: is_dir_def)
  then show ?thesis using q(1) z by (cases z) auto
qed

theorem create_main_only_adds_witness:
  "\<exists>fs' r. create_main (\<lambda>_. False) [] [''m''] [([''src''], Dir), ([''contrib''], Dir)] = (fs', r) \<and>
     dict_get fs' [''contrib'', ''m''] = Some Dir \<and> allowed_name ''m''"
proof -
  let ?fs = "[([''src''], Dir), ([''contrib''], Dir)]"
  have wf: "well_formed ?fs" by (simp add: well_formed_def is_dir_def)
  have names: "check_names None [''m''] = Inr ([], [([''contrib''], ''m'')])" "project_parts [] = Inr None" by code_simp+
  have new: "\<not> path_exists ([''contrib''] @ [''m'']) ?fs" and above: "\<forall>k \<le> length [''contrib'']. path_exists (take k [''contrib'']) ?fs \<longrightarrow> is_dir (take k [''contrib'']) ?fs"
    by (auto simp: path_exists_def is_dir_def le_Suc_eq)
  from make_module_success [OF wf new above]
  obtain fs1 where run1: "make_module (\<lambda>_. False) ([''contrib''], ''m'') ?fs =
      (store fs1 (part_entries ([''contrib''] @ [''m'']) ''m''), [Creating ([''contrib''] @ [''m''])], True)"
    and get1: "\<forall>q. dict_get fs1 q = (if \<exists>k \<le> length [''contrib'']. q = take (Suc k) ([''contrib''] @ [''m'']) then Some Dir else dict_get ?fs q)"
    by (elim exE conjE) blast
  let ?fs2 = "store fs1 (part_entries [''contrib'', ''m''] ''m'')"
  have "\<exists>k \<le> length [''contrib'']. [''contrib'', ''m''] = take (Suc k) ([''contrib''] @ [''m''])" by (intro exI [of _ 1]) simp
  then have here: "dict_get fs1 [''contrib'', ''m''] = Some Dir" using get1 [rule_format, of "[''contrib'', ''m'']"] by (simp only: if_True)
  have "[''contrib'', ''m''] \<notin> set (map fst (part_entries [''contrib'', ''m''] ''m''))"
    using part_entries_below [of "[''contrib'', ''m'']" "[''contrib'', ''m'']" "''m''"] by blast
  then have "map_of (rev (part_entries [''contrib'', ''m''] ''m'')) [''contrib'', ''m''] = None"
    by (simp add: map_of_eq_None_iff)
  then have made: "dict_get ?fs2 [''contrib'', ''m''] = Some Dir" using here by (simp add: dict_get_store)
  obtain r where run: "create_main (\<lambda>_. False) [] [''m''] ?fs = (?fs2, r)"
    using names run1 by (simp add: create_main_def is_dir_def)
  then show ?thesis
    using made create_main_only_adds [OF wf run, of "[''contrib'', ''m'']"] by auto
qed

section \<open>Names that surprise\<close>

lemma allowed_name_newline: "allowed_name (''net'' @ newline)" "\<not> allowed_name (''net'' @ newline @ ''x'')"
  by code_simp+

lemma check_name_bare_src: "check_name q ''contrib'' = Inl IndexError" "check_name None ''src/'' = Inl IndexError"
proof -
  show "check_name None ''src/'' = Inl IndexError" by code_simp
  have "strip_slashes ''contrib'' = ''contrib''" "path_parts ''contrib'' = [''contrib'']" by code_simp+
  then show "check_name q ''contrib'' = Inl IndexError" by (simp add: check_name_def)
qed

lemma check_name_drops_second_part: "check_name None ''team/net'' = Inr ([], [([''contrib''], ''team'')])"
  by code_simp

lemma create_main_fails_with_zero:
  "let r = create_main (\<lambda>_. True) [] [''net''] [([''src''], Dir), ([''contrib''], Dir)]
   in r = ([([''src''], Dir), ([''contrib''], Dir)], Inr [Creating [''contrib'', ''net''], Creation_failed ''net'']) \<and> create_status (snd r) = 0"
proof -
  let ?fs = "[([''src''], Dir), ([''contrib''], Dir)]"
  have names: "check_names None [''net''] = Inr ([], [([''contrib''], ''net'')])" "project_parts [] = Inr None" by code_simp+
  have 1: "mkdir_parents (\<lambda>_. True) [''contrib'', ''net''] ?fs = (?fs, Inl (os_error ''PermissionError''))" by code_simp
  have "hseq (mkdir_parents (\<lambda>_. True) [''contrib'', ''net'']) (make_parts (\<lambda>_. True) [''contrib'', ''net''] ''net'') ?fs =
          (?fs, Inl (os_error ''PermissionError''))"
    by (rule hseq_raises, rule 1)
  then have 2: "make_module (\<lambda>_. True) ([''contrib''], ''net'') ?fs = (?fs, [Creating [''contrib'', ''net''], Creation_failed ''net''], False)"
    by (simp add: make_module_def path_exists_def)
  have "create_main (\<lambda>_. True) [] [''net''] ?fs = (?fs, Inr [Creating [''contrib'', ''net''], Creation_failed ''net''])"
    using names 2 by (simp add: create_main_def is_dir_def)
  then show ?thesis by (simp add: create_status_def)
qed

end
