(* ===== verification/Binding_Custom.thy ===== *)
theory Binding_Custom
  imports Py_Regex
begin

text \<open>
  \<open>bindings/python/ns3modulegen_core_customizations.py\<close>: what is told to the generator of the bindings about smart
  pointers, callbacks, the construction of objects and default values.  The generator itself (pybindgen) is not part
  of the sources: which types it knows is a parameter, and the code that is written is a list of lines.
\<close>

section \<open>Smart pointers\<close>

text \<open>\<open>(ns3::|::ns3::|)Ptr<([^>]+)>\s*$\<close>\<close>

definition not_gt :: "char \<Rightarrow> bool" where
  "not_gt c \<longleftrightarrow> c \<noteq> CHR ''>''"

definition match_ptr_body :: "string \<Rightarrow> string option" where
  "match_ptr_body s =
     Option.bind (match_lit ''Ptr<'' s) (\<lambda>s1. Option.bind (match_run not_gt s1) (\<lambda>(w, s2).
     Option.bind (match_lit ''>'' s2) (\<lambda>s3. if list_all py_space s3 then Some w else None)))"

definition match_ptr :: "string \<Rightarrow> string option" where
  "match_ptr s =
     (case Option.bind (match_lit ''ns3::'' s) match_ptr_body of
        Some w \<Rightarrow> Some w
      | None \<Rightarrow>
          (case Option.bind (match_lit ''::ns3::'' s) match_ptr_body of Some w \<Rightarrow> Some w | None \<Rightarrow> match_ptr_body s))"

text \<open>\<open>_get_untransformed_type_traits\<close>\<close>

definition drop_const :: "string \<Rightarrow> string \<times> bool" where
  "drop_const n =
     (let (n1, c1) = (if startswith n ''const '' then (drop 6 n, True) else (n, False))
      in if endswith n1 '' const'' then (take (length n1 - 6) n1, True) else (n1, c1))"

definition untransformed_type_traits :: "string \<Rightarrow> string option \<times> bool" where
  "untransformed_type_traits name =
     (case match_ptr name of
        None \<Rightarrow> (None, False)
      | Some g \<Rightarrow>
          (case drop_const (strip g) of (n, is_const) \<Rightarrow>
             let new_name = n @ '' *''
             in (Some (if startswith new_name ''::'' then drop 2 new_name else new_name), is_const)))"

text \<open>The kinds of type handlers, and the arguments that \<open>create_type_handler\<close> passes: the original type, the corrected
  one, and the keyword that is set to \<open>False\<close>.\<close>

datatype handler_kind = Parameter_handler | Return_handler | Other_handler

definition create_type_handler :: "handler_kind \<Rightarrow> string \<Rightarrow> (string \<times> string \<times> string) result" where
  "create_type_handler kind name =
     rbind (case kind of
              Parameter_handler \<Rightarrow> Inr ''transfer_ownership''
            | Return_handler \<Rightarrow> Inr ''caller_owns_return''
            | Other_handler \<Rightarrow> Inl AssertionError) (\<lambda>keyword.
       (case untransformed_type_traits name of
          (None, _) \<Rightarrow> Inl TypeError
        | (Some orig, is_const) \<Rightarrow>
            let base = take (length orig - 2) orig
            in Inr (orig, (if is_const then ''ns3::Ptr< '' @ base @ '' const >'' else ''ns3::Ptr< '' @ base @ '' >''), keyword)))"

definition untransform :: "string \<Rightarrow> string \<Rightarrow> string" where
  "untransform ctype expression = ''const_cast<'' @ ctype @ ''> (ns3::PeekPointer ('' @ expression @ ''))''"

definition transform :: "string \<Rightarrow> string \<Rightarrow> string result" where
  "transform ctype expression =
     (if ctype = [] then Inl IndexError
      else if last ctype \<noteq> CHR ''*'' then Inl AssertionError
      else Inr (''ns3::Ptr< '' @ butlast ctype @ '' > ('' @ expression @ '')''))"

section \<open>Callbacks\<close>


definition callback_class :: "nat \<Rightarrow> string" where
  "callback_class i = ''PythonCallbackImpl'' @ nat_str i"







definition code_generation_error :: py_exn where
  "code_generation_error = OtherError ''CodeGenerationError''"



section \<open>Objects and default values\<close>

record cpp_class =
  cc_full_name :: string
  cc_cannot_be_constructed :: bool
  cc_incomplete_type :: bool

text \<open>The first message has two places and one value: making it raises \<open>TypeError\<close>.\<close>

definition ns3_object_instance_creation_function :: "cpp_class \<Rightarrow> string \<Rightarrow> string \<Rightarrow> string \<Rightarrow> string list result" where
  "ns3_object_instance_creation_function c lvalue parameters construct_type_name =
     (if lvalue = [] \<or> startswith lvalue ''None'' then Inl AssertionError
      else if cc_cannot_be_constructed c then Inl TypeError
      else if cc_incomplete_type c then Inl code_generation_error
      else Inr [lvalue @ '' = new '' @ construct_type_name @ ''('' @ parameters @ '');'', lvalue @ ''->Ref ();''])"

record cpp_param =
  cp_is_ref :: bool
  cp_class_name :: string
  cp_default_value :: "string option"
  cp_default_value_type :: "string option"

definition attribute_param :: "cpp_param \<Rightarrow> cpp_param" where
  "attribute_param p =
     (if cp_is_ref p \<and> cp_class_name p = ''AttributeValue'' \<and> cp_default_value p \<noteq> None \<and> cp_default_value_type p = None
      then p \<lparr> cp_default_value_type := Some ''ns3::EmptyAttributeValue'' \<rparr> else p)"

text \<open>The classes with their methods and the parameters of these.\<close>

definition Attribute_customizations :: "cpp_param list list list \<Rightarrow> cpp_param list list list" where
  "Attribute_customizations classes = map (map (map attribute_param)) classes"

definition add_std_ios_openmode :: "string list" where
  "add_std_ios_openmode =
     map (\<lambda>f. ''PyModule_AddIntConstant(m, (char *) '' @ quote @ ''STD_IOS_'' @ map upper_char f @ quote @ '', std::ios::'' @ f @ '');'')
       [''in'', ''out'', ''ate'', ''app'', ''trunc'', ''binary'']"

section \<open>The normal form of a smart pointer\<close>

definition spaces :: "string \<Rightarrow> bool" where
  "spaces s \<longleftrightarrow> list_all py_space s"

definition pointee :: "string \<Rightarrow> bool" where
  "pointee t \<longleftrightarrow> t \<noteq> [] \<and> list_all (\<lambda>c. not_gt c \<and> \<not> py_space c) t \<and> \<not> startswith t ''::'' \<and> t \<noteq> ''const''"

datatype const_place = No_const | Const_before | Const_after

fun with_const :: "const_place \<Rightarrow> string \<Rightarrow> string" where
  "with_const No_const t = t"
| "with_const Const_before t = ''const '' @ t"
| "with_const Const_after t = t @ '' const''"

definition pointer_text :: "string \<Rightarrow> string \<Rightarrow> const_place \<Rightarrow> string \<Rightarrow> string \<Rightarrow> string \<Rightarrow> string" where
  "pointer_text prefix a place t b c = prefix @ ''Ptr<'' @ (a @ with_const place t @ b) @ ''>'' @ c"

lemma match_ptr_text:
  assumes "w \<noteq> []" "list_all not_gt w" "spaces c" "prefix \<in> {''ns3::'', ''::ns3::'', []}"
  shows "match_ptr (prefix @ ''Ptr<'' @ w @ ''>'' @ c) = Some w"
proof -
  have "match_run not_gt (w @ ''>'' @ c) = Some (w, ''>'' @ c)" using assms by (intro match_run_app) (auto simp: not_gt_def)
  then have body: "match_ptr_body (''Ptr<'' @ w @ ''>'' @ c) = Some w"
    using assms(3) unfolding match_ptr_body_def by (simp only: match_lit_app bind.simps prod.case spaces_def if_True)
  have none: "match_lit ''ns3::'' (''Ptr<'' @ w @ ''>'' @ c) = None" "match_lit ''::ns3::'' (''Ptr<'' @ w @ ''>'' @ c) = None"
    "match_lit ''ns3::'' (''::ns3::'' @ ''Ptr<'' @ w @ ''>'' @ c) = None" by (simp_all add: match_lit_Cons)
  show ?thesis
    using assms(4) body none unfolding match_ptr_def
    by (elim insertE emptyE) (simp_all only: match_lit_app bind.simps option.case append_Nil)
qed

lemma spaces_not_gt: "spaces s \<Longrightarrow> list_all not_gt s"
  unfolding spaces_def by (erule list.pred_mono_strong) (auto simp: not_gt_def py_space_def)

lemma strip_pad: "spaces a \<Longrightarrow> spaces b \<Longrightarrow> t \<noteq> [] \<Longrightarrow> \<not> py_space (hd t) \<Longrightarrow> \<not> py_space (last t) \<Longrightarrow> strip (a @ t @ b) = t"
proof -
  assume a: "spaces a" "spaces b" "t \<noteq> []" "\<not> py_space (hd t)" "\<not> py_space (last t)"
  have "dropWhile py_space (a @ t @ b) = t @ b" using a by (cases t) (auto simp: spaces_def list_all_iff dropWhile_append2)
  moreover have "dropWhile py_space (rev b @ rev t) = rev t"
    using takeWhile_until [of py_space "rev b" "rev t"] a by (simp add: spaces_def hd_rev)
  ultimately show "strip (a @ t @ b) = t" by (simp add: strip_def lstrip_def rstrip_def)
qed

lemma no_space_starts: "list_all (\<lambda>c. \<not> py_space c) n \<Longrightarrow> startswith (n @ '' const'') ''const '' \<Longrightarrow> n = ''const''"
proof -
  assume n: "list_all (\<lambda>c. \<not> py_space c) n" and "startswith (n @ '' const'') ''const ''"
  then obtain r where "n @ '' const'' = ''const '' @ r" by (auto simp: startswith_iff)
  then have "takeWhile (\<lambda>c. \<not> py_space c) (n @ '' const'') = takeWhile (\<lambda>c. \<not> py_space c) (''const '' @ r)" by (rule arg_cong)
  moreover have "takeWhile (\<lambda>c. \<not> py_space c) (n @ '' const'') = n"
    using n by (subst takeWhile_append2) (auto simp: list_all_iff py_space_def)
  moreover have "takeWhile (\<lambda>c. \<not> py_space c) (''const '' @ r) = ''const''" by (simp add: py_space_def)
  ultimately show "n = ''const''" by simp
qed

lemma drop_const_text:
  assumes "list_all (\<lambda>c. \<not> py_space c) t" "t \<noteq> ''const''"
  shows "drop_const (with_const place t) = (t, place \<noteq> No_const)"
proof -
  have sp: "py_space CHR '' ''" by code_simp
  then have no: "CHR '' '' \<notin> set t" using assms(1) by (auto simp: list_all_iff)
  have s: "\<not> startswith t ''const ''" using no by (auto simp: startswith_iff)
  have e: "\<not> endswith t '' const''"
  proof
    assume "endswith t '' const''"
    then obtain r where "rev t = rev '' const'' @ r" by (auto simp: endswith_def startswith_iff)
    then have "CHR '' '' \<in> set (rev t)" by simp
    then show False using no by simp
  qed
  show ?thesis
  proof (cases place)
    case Const_after
    have "\<not> startswith (t @ '' const'') ''const ''" using no_space_starts [OF assms(1)] assms(2) by blast
    moreover have "endswith (t @ '' const'') '' const''" by (simp add: endswith_def startswith_def)
    ultimately show ?thesis by (simp add: drop_const_def Const_after)
  qed (use s e in \<open>simp_all add: drop_const_def startswith_def\<close>)
qed

definition corrected_type :: "bool \<Rightarrow> string \<Rightarrow> string" where
  "corrected_type is_const t = ''ns3::Ptr< '' @ t @ (if is_const then '' const >'' else '' >'')"

lemma smart_pointer_handler:
  assumes "pointee t" "colons \<in> {''::'', []}" "prefix \<in> {''ns3::'', ''::ns3::'', []}" "spaces a" "spaces b" "spaces c"
    "kind \<noteq> Other_handler" "colons @ t \<noteq> ''const''"
  shows "\<exists>keyword. create_type_handler kind (pointer_text prefix a place (colons @ t) b c) = Inr (t @ '' *'', corrected_type (place \<noteq> No_const) t, keyword)"
proof -
  define n where "n = colons @ t"
  have ns: "list_all (\<lambda>c. not_gt c \<and> \<not> py_space c) n" "n \<noteq> []" "n \<noteq> ''const''"
    using assms(1,2,8) by (auto simp: n_def pointee_def not_gt_def py_space_def)
  then have sp: "list_all (\<lambda>c. \<not> py_space c) n" and gt: "list_all not_gt n" by (auto simp: list_all_iff)
  have ends: "with_const place n \<noteq> []" "\<not> py_space (hd (with_const place n))" "\<not> py_space (last (with_const place n))"
    using ns sp by (cases place; auto simp: list_all_iff py_space_def)+
  have g: "list_all not_gt (a @ with_const place n @ b)"
  proof -
    have "list_all not_gt (with_const place n)" using gt by (cases place) (simp_all add: not_gt_def)
    then show ?thesis using spaces_not_gt assms(4,5) by simp
  qed
  have m: "match_ptr (pointer_text prefix a place n b c) = Some (a @ with_const place n @ b)"
    unfolding pointer_text_def by (rule match_ptr_text [OF _ g assms(6,3)]) (simp add: ends(1))
  have d: "drop_const (strip (a @ with_const place n @ b)) = (n, place \<noteq> No_const)"
    unfolding strip_pad [OF assms(4,5) ends] by (rule drop_const_text [OF sp ns(3)])
  have "(if startswith (n @ '' *'') ''::'' then drop 2 (n @ '' *'') else n @ '' *'') = t @ '' *''"
  proof (cases "colons = []")
    case True
    then have "\<not> startswith (n @ '' *'') ''::''"
    proof (cases t)
      case (Cons x xs)
      then show ?thesis using assms(1) True by (cases xs) (simp_all add: n_def pointee_def startswith_def)
    qed (use assms(1) in \<open>simp add: pointee_def\<close>)
    then show ?thesis using True by (simp add: n_def)
  qed (use assms(2) in \<open>auto simp: n_def startswith_def\<close>)
  then have "untransformed_type_traits (pointer_text prefix a place n b c) = (Some (t @ '' *''), place \<noteq> No_const)"
    by (simp add: untransformed_type_traits_def m d)
  then show ?thesis
    using assms(7) unfolding n_def by (cases kind) (simp_all add: create_type_handler_def corrected_type_def)
qed

text \<open>However a smart pointer is written, with a prefix, spaces, and \<open>const\<close> before or after the class, its handler gets the
  pointer to the class and one corrected type, and the corrected type is its own corrected type.\<close>

lemma smart_pointer_normal_form:
  assumes "pointee t" "colons \<in> {''::'', []}" "prefix \<in> {''ns3::'', ''::ns3::'', []}" "spaces a" "spaces b" "spaces c"
    "kind \<noteq> Other_handler" "colons @ t \<noteq> ''const''"
  shows "\<exists>keyword. create_type_handler kind (pointer_text prefix a place (colons @ t) b c)
      = Inr (t @ '' *'', corrected_type (place \<noteq> No_const) t, keyword)
    \<and> create_type_handler kind (corrected_type (place \<noteq> No_const) t) = Inr (t @ '' *'', corrected_type (place \<noteq> No_const) t, keyword)"
proof -
  let ?place = "if place = No_const then No_const else Const_after"
  have normal: "corrected_type (place \<noteq> No_const) t = pointer_text ''ns3::'' '' '' ?place ([] @ t) '' '' []"
    by (simp add: corrected_type_def pointer_text_def)
  have "spaces '' ''" "spaces []" by (simp_all add: spaces_def py_space_def)
  moreover have "[] @ t \<noteq> ''const''" using assms(1) by (simp add: pointee_def)
  ultimately have "\<exists>keyword. create_type_handler kind (pointer_text ''ns3::'' '' '' ?place ([] @ t) '' '' [])
      = Inr (t @ '' *'', corrected_type (?place \<noteq> No_const) t, keyword)"
    using assms(1,7) by (intro smart_pointer_handler) simp_all
  moreover have "(?place \<noteq> No_const) = (place \<noteq> No_const)" by simp
  ultimately have "\<exists>keyword. create_type_handler kind (corrected_type (place \<noteq> No_const) t)
      = Inr (t @ '' *'', corrected_type (place \<noteq> No_const) t, keyword)"
    by (simp only: normal [symmetric])
  moreover obtain keyword where k: "create_type_handler kind (pointer_text prefix a place (colons @ t) b c)
      = Inr (t @ '' *'', corrected_type (place \<noteq> No_const) t, keyword)" using smart_pointer_handler [OF assms] by blast
  moreover have "keyword = keyword'" if "create_type_handler kind x = Inr (o1, c1, keyword)" "create_type_handler kind y = Inr (o2, c2, keyword')"
    for x y o1 c1 o2 c2 keyword keyword'
    using that by (cases kind) (auto simp: create_type_handler_def rbind_simps Let_def split: prod.splits option.splits)
  ultimately show ?thesis by metis
qed

section \<open>Callbacks and their classes\<close>






lemma callback_class_inject [simp]: "callback_class i = callback_class j \<longleftrightarrow> i = j"
  by (simp add: callback_class_def)



text \<open>A class that cannot be constructed: the message of the error cannot be made.\<close>

lemma cannot_be_constructed_type_error:
  "cc_cannot_be_constructed c \<Longrightarrow> ns3_object_instance_creation_function c ''obj'' args t = Inl TypeError"
  by (simp add: ns3_object_instance_creation_function_def startswith_def)

text \<open>The default values of attributes get a type, once and for all, and nothing else is changed.\<close>

lemma attribute_customizations_once:
  "Attribute_customizations (Attribute_customizations classes) = Attribute_customizations classes"
  by (simp add: Attribute_customizations_def attribute_param_def comp_def cong: map_cong)

end
