(* ===== verification/Rad_Float.thy ===== *)
theory Rad_Float
  imports Complex_Main Py_Prelude
begin

text \<open>
  The functions of \<open>bindings/python/rad_util.py\<close> on floating point numbers: the area of a polygon, quantiles,
  the removal of outliers, and ranges of floats.  A float is its exact value, a rational number; the
  division of two integers rounds down, as under Python 2, for which the module is written.
\<close>

section \<open>Numbers\<close>

text \<open>\<open>int(x)\<close> cuts off towards zero.\<close>

definition int_of :: "rat \<Rightarrow> int" where
  "int_of x = (if x < 0 then - \<lfloor>- x\<rfloor> else \<lfloor>x\<rfloor>)"

text \<open>\<open>l[i]\<close> with the negative indices of Python.\<close>

definition py_index :: "'a list \<Rightarrow> int \<Rightarrow> 'a result" where
  "py_index l i =
     (let j = (if i < 0 then i + int (length l) else i)
      in if 0 \<le> j \<and> j < int (length l) then Inr (l ! nat j) else Inl IndexError)"

section \<open>Areas of polygons\<close>

text \<open>The sum over the edges of the closed polygon.\<close>

fun edge_sum :: "(int \<times> int) list \<Rightarrow> int" where
  "edge_sum ((x, y) # (x', y') # ps) = x' * y - y' * x + edge_sum ((x', y') # ps)"
| "edge_sum _ = 0"

definition scale_points :: "int \<Rightarrow> (rat \<times> rat) list \<Rightarrow> (int \<times> int) list" where
  "scale_points precision ps = map (\<lambda>(x, y). (int_of (x * of_int precision), int_of (y * of_int precision))) ps"

definition close_polygon :: "(int \<times> int) list \<Rightarrow> (int \<times> int) list" where
  "close_polygon ps = (if last ps \<noteq> hd ps then ps @ [hd ps] else ps)"

text \<open>The list of the caller is changed; it is returned with the area.\<close>

definition polygon_area :: "(rat \<times> rat) list \<Rightarrow> int \<Rightarrow> (int \<times> int) list \<times> rat result" where
  "polygon_area points precision =
     (let ps = scale_points precision points
      in if ps = [] then (ps, Inl IndexError)
         else let closed = close_polygon ps; area = \<bar>edge_sum closed div 2\<bar>
              in (closed, if precision = 0 then Inl ZeroDivisionError
                          else Inr (of_int area / of_int (precision ^ 2))))"

section \<open>Quantiles\<close>

definition quantile :: "rat list \<Rightarrow> rat \<Rightarrow> rat result" where
  "quantile l p =
     (let l_sort = sort l; n = int (length l); r = 1 + of_int (n - 1) * p; i = int_of r; f = r - of_int i
      in if i < n then
           rbind (py_index l_sort (i - 1)) (\<lambda>a. rbind (py_index l_sort i) (\<lambda>b. Inr ((1 - f) * a + f * b)))
         else py_index l_sort (i - 1))"

text \<open>The median is computed and not used, but its computation raises for an empty list.\<close>

definition median :: "rat list \<Rightarrow> rat result" where
  "median l_sort =
     (let index = int (length l_sort) div 2
      in if length l_sort mod 2 = 0
         then rbind (py_index l_sort index) (\<lambda>a. rbind (py_index l_sort (index - 1)) (\<lambda>b. Inr ((a + b) / 2)))
         else py_index l_sort index)"

definition trim :: "rat list \<Rightarrow> rat list result" where
  "trim l =
     (let l_sort = sort l
      in rbind (median l_sort) (\<lambda>_. rbind (quantile l_sort (1 / 4)) (\<lambda>q1. rbind (quantile l_sort (3 / 4)) (\<lambda>q3.
         let extra = (q3 - q1) * (3 / 2) in Inr (filter (\<lambda>x. q1 - extra \<le> x \<and> x \<le> q3 + extra) l_sort)))))"

section \<open>Ranges\<close>



section \<open>Areas\<close>

abbreviation rat_point :: "int \<times> int \<Rightarrow> rat \<times> rat" where
  "rat_point \<equiv> \<lambda>(x, y). (of_int x, of_int y)"

lemma int_of_int [simp]: "int_of (of_int i) = i"
  by (simp add: int_of_def flip: of_int_minus)

lemma scale_int_points: "scale_points k (map rat_point ps) = map (\<lambda>(x, y). (x * k, y * k)) ps"
  by (simp add: scale_points_def case_prod_beta flip: of_int_mult)

lemma edge_sum_scaled: "edge_sum (map (\<lambda>(x, y). (x * k, y * k)) ps) = k\<^sup>2 * edge_sum ps"
  by (induction ps rule: edge_sum.induct) (simp_all add: algebra_simps power2_eq_square)

definition cross :: "int \<times> int \<Rightarrow> int \<times> int \<Rightarrow> int" where
  "cross p q = fst q * snd p - snd q * fst p"

lemma edge_sum_cross: "edge_sum (p # q # ps) = cross p q + edge_sum (q # ps)"
  by (cases p; cases q) (simp add: cross_def)

lemma edge_sum_single: "edge_sum [p] = 0"
  by (cases p) simp

lemma edge_sum_snoc: "ps \<noteq> [] \<Longrightarrow> edge_sum (ps @ [q]) = edge_sum ps + cross (last ps) q"
proof (induction ps rule: list_nonempty_induct)
  case (cons p ps)
  then obtain r rs where "ps = r # rs" by (cases ps) auto
  then show ?case using cons by (simp add: edge_sum_cross)
qed (simp add: edge_sum_cross edge_sum_single)

lemma edge_sum_rev: "edge_sum (rev ps) = - edge_sum ps"
proof (induction ps)
  case (Cons p ps)
  show ?case
  proof (cases ps)
    case (Cons q qs)
    have "edge_sum (rev ps @ [p]) = edge_sum (rev ps) + cross q p"
      using Cons by (subst edge_sum_snoc) (simp_all add: last_rev)
    then show ?thesis using Cons Cons.IH by (simp add: edge_sum_cross cross_def)
  qed (simp add: edge_sum_single)
qed simp

text \<open>Twice the area of the closed polygon, with the sign of its orientation.\<close>

definition double_area :: "(int \<times> int) list \<Rightarrow> int" where
  "double_area ps = edge_sum (ps @ [hd ps])"

lemma edge_sum_close: "ps \<noteq> [] \<Longrightarrow> edge_sum (close_polygon ps) = double_area ps"
  by (auto simp: close_polygon_def double_area_def edge_sum_snoc cross_def)

lemma double_area_rev: "ps \<noteq> [] \<Longrightarrow> double_area (rev ps) = - double_area ps"
  by (simp add: double_area_def edge_sum_snoc edge_sum_rev hd_rev last_rev cross_def)

lemma edge_sum_moved:
  "ps \<noteq> [] \<Longrightarrow> edge_sum (map (\<lambda>(x, y). (x + a, y + b)) ps)
     = edge_sum ps + b * (fst (last ps) - fst (hd ps)) - a * (snd (last ps) - snd (hd ps))"
proof (induction ps rule: list_nonempty_induct)
  case (cons p ps)
  then obtain r rs where "ps = r # rs" by (cases ps) auto
  then show ?case using cons by (simp add: edge_sum_cross cross_def case_prod_beta algebra_simps)
qed (simp add: edge_sum_single case_prod_beta)

lemma double_area_moved: "ps \<noteq> [] \<Longrightarrow> double_area (map (\<lambda>(x, y). (x + a, y + b)) ps) = double_area ps"
  using edge_sum_moved [of "ps @ [hd ps]" a b] by (simp add: double_area_def hd_map case_prod_beta hd_append)

lemma map_hd_snoc: "ps \<noteq> [] \<Longrightarrow> map f (ps @ [hd ps]) = map f ps @ [hd (map f ps)]"
  by (simp add: hd_map)

lemma double_area_scaled: "ps \<noteq> [] \<Longrightarrow> double_area (map (\<lambda>(x, y). (x * k, y * k)) ps) = k\<^sup>2 * double_area ps"
  unfolding double_area_def using map_hd_snoc [of ps "\<lambda>(x, y). (x * k, y * k)"] edge_sum_scaled [of k "ps @ [hd ps]"] by simp

lemma even_half: "even k \<Longrightarrow> rat_of_int \<bar>k\<^sup>2 * d div 2\<bar> = of_int (k\<^sup>2) * \<bar>of_int d\<bar> / 2"
  by (elim evenE) (simp add: power_mult_distrib abs_mult)

lemma area_unscaled: "even k \<Longrightarrow> k \<noteq> 0 \<Longrightarrow> rat_of_int \<bar>k\<^sup>2 * d div 2\<bar> / of_int (k\<^sup>2) = \<bar>of_int d\<bar> / 2"
  by (simp only: even_half) simp

lemma polygon_area_int:
  assumes "ps \<noteq> []" "even k" "k \<noteq> 0"
  shows "snd (polygon_area (map rat_point ps) k) = Inr (\<bar>of_int (double_area ps)\<bar> / 2)"
proof -
  have "snd (polygon_area (map rat_point ps) k) = Inr (of_int \<bar>edge_sum (close_polygon (map (\<lambda>(x, y). (x * k, y * k)) ps)) div 2\<bar> / of_int (k\<^sup>2))"
    using assms(1,3) by (simp add: polygon_area_def scale_int_points Let_def)
  also have "\<dots> = Inr (\<bar>of_int (double_area ps)\<bar> / 2)"
    using assms by (simp only: edge_sum_close double_area_scaled area_unscaled map_is_Nil_conv not_False_eq_True)
  finally show ?thesis .
qed

text \<open>For integer vertices and an even precision other than zero the area is exact: it is half of the sum over
  the edges, however the polygon is oriented and wherever it lies.\<close>

theorem polygon_area_exact:
  assumes "ps \<noteq> []" "even k" "k \<noteq> 0"
  shows "snd (polygon_area (map rat_point ps) k) = Inr (\<bar>of_int (edge_sum (ps @ [hd ps]))\<bar> / 2)
    \<and> snd (polygon_area (map rat_point (rev ps)) k) = snd (polygon_area (map rat_point ps) k)
    \<and> snd (polygon_area (map rat_point (map (\<lambda>(x, y). (x + a, y + b)) ps)) k) = snd (polygon_area (map rat_point ps) k)"
  using assms
  by (simp add: polygon_area_int double_area_rev double_area_moved del: map_map) (simp add: double_area_def)

theorem polygon_area_exact_witness:
  "snd (polygon_area [(0, 0), (0, 1), (1, 1), (1, 2), (2, 2), (2, 0)] 100) = Inr 3"
  using polygon_area_exact [of "[(0, 0), (0, 1), (1, 1), (1, 2), (2, 2), (2, 0)]" 100 0 0] by simp

text \<open>Otherwise the rounding depends on the orientation, and since the list of the caller is scaled, the second
  call on the same list gives another area.\<close>

lemma polygon_area_orientation:
  "snd (polygon_area (map rat_point [(0, 0), (1, 0), (0, 1)]) 1) = Inr 1"
  "snd (polygon_area (map rat_point [(0, 0), (0, 1), (1, 0)]) 1) = Inr 0"
  by code_simp+

lemma polygon_area_changes_list:
  "polygon_area [(0, 0), (0, 2), (2, 2), (2, 0)] 10 = ([(0, 0), (0, 20), (20, 20), (20, 0), (0, 0)], Inr 4)"
  "snd (polygon_area (map rat_point [(0, 0), (0, 20), (20, 20), (20, 0), (0, 0)]) 10) = Inr 400"
  by code_simp+

section \<open>Quantiles\<close>

lemma py_index_in: "0 \<le> i \<Longrightarrow> i < int (length l) \<Longrightarrow> py_index l i = Inr (l ! nat i)"
  by (simp add: py_index_def)

text \<open>The position of a quantile in the sorted list, and the two elements it lies between.\<close>

definition quantile_pos :: "rat list \<Rightarrow> rat \<Rightarrow> rat" where
  "quantile_pos l p = of_int (int (length l) - 1) * p"

definition quantile_at :: "rat list \<Rightarrow> rat \<Rightarrow> rat" where
  "quantile_at s h =
     (let k = nat \<lfloor>h\<rfloor>; f = h - of_int \<lfloor>h\<rfloor>; k' = min (k + 1) (length s - 1) in (1 - f) * s ! k + f * s ! k')"

lemma floor_of_nat_le: "h \<le> of_nat m \<Longrightarrow> \<lfloor>h :: rat\<rfloor> \<le> int m"
  using floor_mono [of h "of_nat m"] by simp

lemma nat_floor_le: "h \<le> of_nat m \<Longrightarrow> nat \<lfloor>h :: rat\<rfloor> \<le> m"
  using floor_of_nat_le by (simp add: nat_le_iff)

lemma quantile_pos_bounds:
  assumes "l \<noteq> []" "0 \<le> p" "p \<le> 1"
  shows "0 \<le> quantile_pos l p" "quantile_pos l p \<le> of_nat (length l - 1)"
proof -
  have n: "rat_of_int (int (length l) - 1) = of_nat (length l - 1)" using assms(1) by (cases l) simp_all
  show "0 \<le> quantile_pos l p" using assms(2) unfolding quantile_pos_def n by simp
  show "quantile_pos l p \<le> of_nat (length l - 1)"
    using mult_left_mono [OF assms(3), of "of_nat (length l - 1)"] unfolding quantile_pos_def n by simp
qed

lemma quantile_value:
  assumes "l \<noteq> []" "0 \<le> p" "p \<le> 1"
  shows "quantile l p = Inr (quantile_at (sort l) (quantile_pos l p))"
proof -
  let ?h = "quantile_pos l p" and ?n = "int (length l)"
  note b = quantile_pos_bounds [OF assms]
  define k where "k = \<lfloor>?h\<rfloor>"
  have k: "0 \<le> k" "k \<le> ?n - 1"
  proof -
    show "0 \<le> k" using b(1) by (simp add: k_def)
    show "k \<le> ?n - 1" using floor_of_nat_le [OF b(2)] assms(1) by (cases l) (simp_all add: k_def)
  qed
  have h: "of_int (?n - 1) * p = ?h" by (simp only: quantile_pos_def)
  have i: "int_of (1 + of_int (?n - 1) * p) = 1 + k" and f: "1 + of_int (?n - 1) * p - of_int (1 + k) = ?h - of_int k"
    unfolding h using b(1) by (simp_all add: int_of_def k_def)
  show ?thesis
  proof (cases "k = ?n - 1")
    case True
    have "?h = of_int k"
    proof (rule order_antisym)
      show "?h \<le> of_int k" using b(2) True assms(1) by (cases l) simp_all
    qed (simp add: k_def)
    then have "quantile_at (sort l) ?h = sort l ! nat k" by (simp add: quantile_at_def k_def [symmetric])
    then show ?thesis using True k unfolding quantile_def Let_def i by (simp add: py_index_in)
  next
    case False
    then have "min (nat k + 1) (length (sort l) - 1) = nat (k + 1)" using k by simp
    moreover have "quantile l p = Inr ((1 - (?h - of_int k)) * sort l ! nat k + (?h - of_int k) * sort l ! nat (k + 1))"
      using False k unfolding quantile_def Let_def i f by (simp add: py_index_in add.commute)
    ultimately show ?thesis by (simp add: quantile_at_def k_def [symmetric] Let_def)
  qed
qed

lemma nat_step: "0 \<le> a \<Longrightarrow> a < b \<Longrightarrow> nat a + 1 \<le> nat b"
  by linarith

lemma sorted_hd_Min: "sorted s \<Longrightarrow> s \<noteq> [] \<Longrightarrow> hd s = Min (set s)"
  by (rule Min_eqI [symmetric]) (auto simp: neq_Nil_conv)

lemma sorted_last_Max: "sorted s \<Longrightarrow> s \<noteq> [] \<Longrightarrow> last s = Max (set s)"
  by (rule Max_eqI [symmetric]) (auto simp: in_set_conv_nth last_conv_nth intro!: sorted_nth_mono, metis diff_less length_greater_0_conv zero_less_one One_nat_def)

lemma mix_bounds:
  fixes a b f :: rat
  assumes "a \<le> b" "0 \<le> f" "f \<le> 1"
  shows "a \<le> (1 - f) * a + f * b" "(1 - f) * a + f * b \<le> b"
proof -
  have "0 \<le> f * (b - a)" "0 \<le> (1 - f) * (b - a)" using assms by simp_all
  then show "a \<le> (1 - f) * a + f * b" "(1 - f) * a + f * b \<le> b" by (simp_all add: algebra_simps)
qed

lemma quantile_at_between:
  assumes "sorted s" "0 \<le> h" "h \<le> of_nat (length s - 1)" "s \<noteq> []"
  shows "s ! nat \<lfloor>h\<rfloor> \<le> quantile_at s h" "quantile_at s h \<le> s ! min (nat \<lfloor>h\<rfloor> + 1) (length s - 1)"
proof -
  have "nat \<lfloor>h\<rfloor> \<le> length s - 1" using assms(3) by (rule nat_floor_le)
  then have "s ! nat \<lfloor>h\<rfloor> \<le> s ! min (nat \<lfloor>h\<rfloor> + 1) (length s - 1)"
    using assms(1,4) by (intro sorted_nth_mono) (auto simp: min_less_iff_disj)
  moreover have "0 \<le> h - of_int \<lfloor>h\<rfloor>" "h - of_int \<lfloor>h\<rfloor> \<le> 1" by linarith+
  ultimately show "s ! nat \<lfloor>h\<rfloor> \<le> quantile_at s h" "quantile_at s h \<le> s ! min (nat \<lfloor>h\<rfloor> + 1) (length s - 1)"
    unfolding quantile_at_def Let_def by (rule mix_bounds)+
qed

lemma quantile_at_mono:
  assumes "sorted s" "0 \<le> h" "h \<le> h'" "h' \<le> of_nat (length s - 1)" "s \<noteq> []"
  shows "quantile_at s h \<le> quantile_at s h'"
proof (cases "\<lfloor>h\<rfloor> = \<lfloor>h'\<rfloor>")
  case True
  have "nat \<lfloor>h\<rfloor> \<le> length s - 1" using order_trans [OF assms(3,4)] by (rule nat_floor_le)
  then have "s ! nat \<lfloor>h\<rfloor> \<le> s ! min (nat \<lfloor>h\<rfloor> + 1) (length s - 1)"
    using assms(1,5) by (intro sorted_nth_mono) (auto simp: min_less_iff_disj)
  then have "0 \<le> (h' - h) * (s ! min (nat \<lfloor>h\<rfloor> + 1) (length s - 1) - s ! nat \<lfloor>h\<rfloor>)" using assms(3) by simp
  then show ?thesis by (simp add: quantile_at_def Let_def True algebra_simps)
next
  case False
  have le: "\<lfloor>h\<rfloor> \<le> \<lfloor>h'\<rfloor>" using assms(3) by (rule floor_mono)
  then have "nat \<lfloor>h\<rfloor> + 1 \<le> nat \<lfloor>h'\<rfloor>" using False assms(2) by (intro nat_step) simp_all
  moreover have "nat \<lfloor>h'\<rfloor> \<le> length s - 1" using assms(4) by (rule nat_floor_le)
  ultimately have "s ! min (nat \<lfloor>h\<rfloor> + 1) (length s - 1) \<le> s ! nat \<lfloor>h'\<rfloor>"
    using assms(1,5) by (intro sorted_nth_mono) (auto simp: le_less_trans)
  then show ?thesis
    using quantile_at_between(2) [OF assms(1,2) order_trans [OF assms(3,4)] assms(5)]
      quantile_at_between(1) [OF assms(1) order_trans [OF assms(2,3)] assms(4,5)] by simp
qed

lemma quantile_at_range:
  assumes "sorted s" "0 \<le> h" "h \<le> of_nat (length s - 1)" "s \<noteq> []"
  shows "hd s \<le> quantile_at s h" "quantile_at s h \<le> last s"
proof -
  have k: "nat \<lfloor>h\<rfloor> < length s" using nat_floor_le [OF assms(3)] assms(4) by (cases s) simp_all
  have "s ! 0 \<le> s ! nat \<lfloor>h\<rfloor>" "s ! min (nat \<lfloor>h\<rfloor> + 1) (length s - 1) \<le> s ! (length s - 1)"
    using assms(1,4) k by (auto intro!: sorted_nth_mono)
  then show "hd s \<le> quantile_at s h" "quantile_at s h \<le> last s"
    using quantile_at_between [OF assms] assms(4) by (simp_all add: hd_conv_nth last_conv_nth)
qed

text \<open>Quantiles of a list that is not empty, for \<open>p\<close> between 0 and 1: they lie between the least and the
  greatest element, are these for 0 and 1, grow with \<open>p\<close>, and do not depend on the order of the list.\<close>

theorem quantile_monotone:
  assumes "l \<noteq> []" "0 \<le> p" "p \<le> p'" "p' \<le> 1" "mset l' = mset l"
  shows "\<exists>q q'. quantile l p = Inr q \<and> quantile l' p' = Inr q' \<and> Min (set l) \<le> q \<and> q \<le> q' \<and> q' \<le> Max (set l)
    \<and> quantile l 0 = Inr (Min (set l)) \<and> quantile l 1 = Inr (Max (set l))"
proof -
  let ?s = "sort l" and ?h = "quantile_pos l p" and ?h' = "quantile_pos l p'"
  have s: "sorted ?s" by simp
  have s2: "?s \<noteq> []" using assms(1) by (metis length_0_conv length_sort)
  note s = s s2
  have l': "sort l' = ?s" "length l' = length l" "l' \<noteq> []"
  proof -
    show "sort l' = ?s" by (rule properties_for_sort) (simp_all add: assms(5))
    show "length l' = length l" using assms(5) by (rule mset_eq_length)
    then show "l' \<noteq> []" using assms(1) by auto
  qed
  have hd: "hd ?s = Min (set l)" "last ?s = Max (set l)"
    using sorted_hd_Min [OF s] sorted_last_Max [OF s] by simp_all
  have q: "quantile l p = Inr (quantile_at ?s ?h)" "quantile l' p' = Inr (quantile_at ?s ?h')"
    using quantile_value [of l p] quantile_value [of l' p'] assms l' by (simp_all add: quantile_pos_def)
  have b: "0 \<le> ?h" "?h \<le> ?h'" "?h' \<le> of_nat (length ?s - 1)" "?h \<le> of_nat (length ?s - 1)" "0 \<le> ?h'"
    using quantile_pos_bounds [of l p] quantile_pos_bounds [of l p'] assms
    by (auto simp: quantile_pos_def intro!: mult_left_mono) (cases l; simp)
  have n: "nat (int (length l) - 1) = length l - Suc 0" by linarith
  have e: "quantile l 0 = Inr (hd ?s)" "quantile l 1 = Inr (last ?s)"
    using quantile_value [of l 0] quantile_value [of l 1] assms(1) s(2)
    by (auto simp: quantile_pos_def quantile_at_def Let_def hd_conv_nth last_conv_nth n)
  show ?thesis
    using q e quantile_at_mono [OF s(1) b(1-3) s(2)] quantile_at_range [OF s(1) b(1,4) s(2)]
      quantile_at_range [OF s(1) b(5,3) s(2)] by (simp add: hd)
qed

theorem quantile_monotone_witness:
  "\<exists>q q'. quantile [4, 1, 3, 2] (1 / 4) = Inr q \<and> quantile [1, 2, 3, 4] (3 / 4) = Inr q' \<and> 1 \<le> q \<and> q \<le> q' \<and> q' \<le> 4"
proof -
  have "mset [1, 2, 3, 4 :: rat] = mset [4, 1, 3, 2]" by (simp add: add_mset_commute)
  from quantile_monotone [OF _ _ _ _ this, of "1 / 4" "3 / 4"] show ?thesis by auto
qed

text \<open>Values of \<open>p\<close> outside: the index -1 is the last element.\<close>

lemma quantile_outside: "quantile [1, 2] (- 1) = Inr 2" "quantile [1, 2] 3 = Inl IndexError" "quantile [] (1 / 4) = Inl IndexError"
  by code_simp+

section \<open>Outliers\<close>

text \<open>Trimming a list that is not empty: what stays is, sorted, every value within one and a half times the
  range between the quartiles of them; all values between the quartiles stay.\<close>

theorem trim_keeps_quartiles:
  assumes "l \<noteq> []"
  shows "\<exists>q1 q3. quantile l (1 / 4) = Inr q1 \<and> quantile l (3 / 4) = Inr q3 \<and> q1 \<le> q3
    \<and> trim l = Inr (filter (\<lambda>x. q1 - 3 / 2 * (q3 - q1) \<le> x \<and> x \<le> q3 + 3 / 2 * (q3 - q1)) (sort l))
    \<and> (\<forall>x \<in> set l. q1 \<le> x \<and> x \<le> q3 \<longrightarrow> x \<in> set (filter (\<lambda>x. q1 - 3 / 2 * (q3 - q1) \<le> x \<and> x \<le> q3 + 3 / 2 * (q3 - q1)) (sort l)))"
proof -
  let ?q = "\<lambda>p. quantile_at (sort l) (quantile_pos l p)"
  have s: "sort (sort l) = sort l" by (rule properties_for_sort) simp_all
  have "sort l \<noteq> []" using assms by (metis length_0_conv length_sort)
  have q: "quantile l p = Inr (?q p)" "quantile (sort l) p = Inr (?q p)" if "0 \<le> p" "p \<le> 1" for p
    using quantile_value [OF assms that] quantile_value [OF \<open>sort l \<noteq> []\<close> that] by (simp_all add: s quantile_pos_def)
  have le: "?q (1 / 4) \<le> ?q (3 / 4)"
  proof (rule quantile_at_mono)
    show "quantile_pos l (1 / 4) \<le> quantile_pos l (3 / 4)"
      using quantile_pos_bounds [OF assms, of "1 / 2"] by (simp add: quantile_pos_def)
  qed (use quantile_pos_bounds [OF assms] \<open>sort l \<noteq> []\<close> in auto)
  have "\<not> isl (median (sort l))"
  proof -
    have "0 < length l" using assms by simp
    then show ?thesis by (auto simp: median_def Let_def py_index_def)
  qed
  then obtain m where m: "median (sort l) = Inr m" by (cases "median (sort l)") simp_all
  have t: "trim l = Inr (filter (\<lambda>x. ?q (1 / 4) - 3 / 2 * (?q (3 / 4) - ?q (1 / 4)) \<le> x \<and> x \<le> ?q (3 / 4) + 3 / 2 * (?q (3 / 4) - ?q (1 / 4))) (sort l))"
    using m q(2) [of "1 / 4"] q(2) [of "3 / 4"] by (auto simp: trim_def Let_def mult.commute)
  have d: "0 \<le> 3 / 2 * (?q (3 / 4) - ?q (1 / 4))" using le by simp
  have keep: "x \<in> set (filter (\<lambda>x. ?q (1 / 4) - 3 / 2 * (?q (3 / 4) - ?q (1 / 4)) \<le> x \<and> x \<le> ?q (3 / 4) + 3 / 2 * (?q (3 / 4) - ?q (1 / 4))) (sort l))"
    if "x \<in> set l" "?q (1 / 4) \<le> x" "x \<le> ?q (3 / 4)" for x
  proof -
    have "?q (1 / 4) - 3 / 2 * (?q (3 / 4) - ?q (1 / 4)) \<le> x" "x \<le> ?q (3 / 4) + 3 / 2 * (?q (3 / 4) - ?q (1 / 4))"
      using that(2,3) d by linarith+
    then show ?thesis using that(1) by (simp only: set_filter set_sort mem_Collect_eq simp_thms)
  qed
  show ?thesis
    by (intro exI [of _ "?q (1 / 4)"] exI [of _ "?q (3 / 4)"] conjI ballI impI) (use q(1) le t keep in auto)
qed

theorem trim_keeps_quartiles_witness:
  "\<exists>l. trim [1, 2, 3, 100] = Inr l \<and> 2 \<in> set l"
proof -
  have "quantile [1, 2, 3, 100] (1 / 4) = Inr (7 / 4)" "quantile [1, 2, 3, 100] (3 / 4) = Inr (109 / 4)" by code_simp+
  then show ?thesis using trim_keeps_quartiles [of "[1, 2, 3, 100]"] by auto
qed

section \<open>Ranges of floats\<close>





end
