(* ===== verification/Viz_Monitors.thy ===== *)
theory Viz_Monitors
  imports Complex_Main Py_Handler
begin

text \<open>
  The parts of the visualizer (\<open>src/visualizer/visualizer\<close>) that keep state of their own: the registry of
  \<open>base.py\<close>, the statistics of \<open>plugins/interface_statistics.py\<close> and the links of
  \<open>plugins/wifi_intrastructure_link.py\<close>.  The simulator, the canvas and the node objects are not part of this
  code: what they answer is a parameter, and the calls that attach a link to a node or detach it are recorded in their
  order.  Floats are their exact values.
\<close>

section \<open>Statistics of interfaces\<close>

record iface_stats =
  tx_packets :: int
  tx_bytes :: int
  rx_packets :: int
  rx_bytes :: int

record net_dev_stats = iface_stats +
  tx_packet_rate :: rat
  tx_bit_rate :: rat
  rx_packet_rate :: rat
  rx_bit_rate :: rat

definition NODE_STATISTICS_MEMORY :: nat where
  "NODE_STATISTICS_MEMORY = 10"

text \<open>The samples of each node, oldest first; a sample has one entry for each interface.\<close>

type_synonym statistics = "(nat, iface_stats list list) dict"

function forget_old :: "'a list \<Rightarrow> 'a list" where
  "forget_old l = (if NODE_STATISTICS_MEMORY < length l then forget_old (tl l) else l)"
  by pat_completeness auto
termination by (relation "measure length") (auto simp: NODE_STATISTICS_MEMORY_def)

declare forget_old.simps [simp del]

definition add_sample :: "statistics \<Rightarrow> nat \<times> iface_stats list \<Rightarrow> statistics" where
  "add_sample st s =
     (let old = (case dict_get st (fst s) of None \<Rightarrow> [] | Some l \<Rightarrow> l)
      in dict_set st (fst s) (forget_old (old @ [snd s])))"

text \<open>\<open>simulation_periodic_update\<close>\<close>

definition collect_statistics :: "(nat \<times> iface_stats list) list \<Rightarrow> statistics \<Rightarrow> statistics" where
  "collect_statistics samples st = foldl add_sample st samples"

definition rate :: "int \<Rightarrow> int \<Rightarrow> rat \<Rightarrow> rat result" where
  "rate now before k = (if k = 0 then Inl ZeroDivisionError else Inr (of_int (now - before) / k))"

definition iface_rates :: "iface_stats list \<Rightarrow> rat \<Rightarrow> nat \<times> iface_stats \<Rightarrow> net_dev_stats result" where
  "iface_rates first k p =
     (case p of (i, s) \<Rightarrow>
        if length first \<le> i then Inl IndexError
        else let b = first ! i
             in rbind (rate (tx_packets s) (tx_packets b) k) (\<lambda>tp. rbind (rate (rx_packets s) (rx_packets b) k) (\<lambda>rp.
                rbind (rate (tx_bytes s * 8) (tx_bytes b * 8) k) (\<lambda>tb. rbind (rate (rx_bytes s * 8) (rx_bytes b * 8) k) (\<lambda>rb.
                  Inr \<lparr> tx_packets = tx_packets s, tx_bytes = tx_bytes s, rx_packets = rx_packets s, rx_bytes = rx_bytes s,
                        tx_packet_rate = tp, tx_bit_rate = tb, rx_packet_rate = rp, rx_bit_rate = rb \<rparr>)))))"

definition get_interface_statistics :: "rat \<Rightarrow> statistics \<Rightarrow> nat \<Rightarrow> net_dev_stats list result" where
  "get_interface_statistics sample_period st node_id =
     (case dict_get st node_id of
        None \<Rightarrow> Inr []
      | Some l \<Rightarrow>
          if length l < NODE_STATISTICS_MEMORY then Inr []
          else if length l \<noteq> NODE_STATISTICS_MEMORY then Inl AssertionError
          else rmap (iface_rates (hd l) (sample_period * of_nat (NODE_STATISTICS_MEMORY - 1))) (enumerate 0 (last l)))"

section \<open>Wireless links\<close>

text \<open>A link between a station and its access point; \<open>wl_points\<close> are the ends of the two lines.\<close>

record wifi_link =
  wl_sta :: "nat option"
  wl_ap :: "nat option"
  wl_visible :: bool
  wl_points :: "((rat \<times> rat) \<times> (rat \<times> rat)) option"

datatype link_call = Add_link nat nat | Remove_link nat nat

text \<open>Links are numbered in the order of their creation; \<open>wm_calls\<close> are the calls of nodes, with the node first.\<close>

record wifi_monitor =
  wm_access_points :: "(string, nat) dict"
  wm_stations :: "(nat \<times> nat \<times> nat) list"
  wm_links :: "wifi_link list"
  wm_calls :: "link_call list"

definition new_monitor :: wifi_monitor where
  "new_monitor = \<lparr> wm_access_points = [], wm_stations = [], wm_links = [], wm_calls = [] \<rparr>"

definition set_link :: "nat \<Rightarrow> (wifi_link \<Rightarrow> wifi_link) \<Rightarrow> wifi_monitor \<Rightarrow> wifi_monitor" where
  "set_link l f m = m \<lparr> wm_links := (wm_links m)[l := f (wm_links m ! l)] \<rparr>"

definition call :: "link_call \<Rightarrow> wifi_monitor \<Rightarrow> wifi_monitor" where
  "call c m = m \<lparr> wm_calls := wm_calls m @ [c] \<rparr>"

definition update_points :: "(nat \<Rightarrow> rat \<times> rat) \<Rightarrow> nat \<Rightarrow> wifi_monitor \<Rightarrow> wifi_monitor" where
  "update_points position l m =
     set_link l (\<lambda>w. case (wl_sta w, wl_ap w) of
                       (Some a, Some b) \<Rightarrow> w \<lparr> wl_points := Some (position a, position b) \<rparr> | _ \<Rightarrow> w) m"

definition set_ap :: "(nat \<Rightarrow> rat \<times> rat) \<Rightarrow> nat option \<Rightarrow> nat \<Rightarrow> wifi_monitor \<Rightarrow> wifi_monitor" where
  "set_ap position ap l m =
     (let old = wl_ap (wm_links m ! l)
      in if ap = old then m
         else
           let m1 = (case old of None \<Rightarrow> m | Some n \<Rightarrow> call (Remove_link n l) m);
               m2 = set_link l (\<lambda>w. w \<lparr> wl_ap := ap \<rparr>) m1;
               m3 = (case ap of
                       None \<Rightarrow> set_link l (\<lambda>w. w \<lparr> wl_visible := False \<rparr>) m2
                     | Some n \<Rightarrow> set_link l (\<lambda>w. w \<lparr> wl_visible := True \<rparr>) (call (Add_link n l) m2))
           in update_points position l m3)"

text \<open>A new link has no access point; \<open>set_ap(None)\<close> returns at once, so that the link is visible at first.\<close>

definition new_wifi_link :: "nat \<Rightarrow> wifi_link" where
  "new_wifi_link sta = \<lparr> wl_sta = Some sta, wl_ap = None, wl_visible = True, wl_points = None \<rparr>"

definition destroy_link :: "nat \<Rightarrow> wifi_monitor \<Rightarrow> wifi_monitor" where
  "destroy_link l = set_link l (\<lambda>w. w \<lparr> wl_sta := None, wl_ap := None \<rparr>)"

text \<open>The devices of the nodes, in the order in which they are scanned.\<close>

datatype device = Station nat | Access_point string | Other_device

definition scan_device :: "wifi_monitor \<Rightarrow> nat \<times> device \<Rightarrow> wifi_monitor" where
  "scan_device m p =
     (case p of
        (node, Station dev) \<Rightarrow>
          m \<lparr> wm_stations := wm_stations m @ [(dev, node, length (wm_links m))],
              wm_links := wm_links m @ [new_wifi_link node] \<rparr>
      | (node, Access_point bssid) \<Rightarrow> m \<lparr> wm_access_points := dict_set (wm_access_points m) bssid node \<rparr>
      | (node, Other_device) \<Rightarrow> m)"

definition scan_nodes :: "(nat \<times> device) list \<Rightarrow> wifi_monitor \<Rightarrow> wifi_monitor" where
  "scan_nodes devices m =
     (let m1 = fold (\<lambda>(dev, node, l). destroy_link l) (wm_stations m) m
      in foldl scan_device (m1 \<lparr> wm_access_points := [], wm_stations := [] \<rparr>) devices)"

text \<open>What a station answers: the address of its access point, if the link is up.\<close>

type_synonym radio = "nat \<Rightarrow> string option"

definition no_bssid :: string where
  "no_bssid = ''00:00:00:00:00:00''"

fun update_stations :: "(nat \<Rightarrow> rat \<times> rat) \<Rightarrow> radio \<Rightarrow> (nat \<times> nat \<times> nat) list \<Rightarrow> (wifi_monitor, unit) handler" where
  "update_stations position radio [] m = (m, Inr ())"
| "update_stations position radio ((dev, node, l) # ss) m =
     (case radio dev of
        None \<Rightarrow> update_stations position radio ss (set_ap position None l m)
      | Some bssid \<Rightarrow>
          if bssid = no_bssid then update_stations position radio ss (set_ap position None l m)
          else (case dict_get (wm_access_points m) bssid of
                  None \<Rightarrow> (m, Inl KeyError)
                | Some ap \<Rightarrow> update_stations position radio ss (set_ap position (Some ap) l m)))"

definition update_links :: "(nat \<Rightarrow> rat \<times> rat) \<Rightarrow> radio \<Rightarrow> (wifi_monitor, unit) handler" where
  "update_links position radio m = update_stations position radio (wm_stations m) m"

definition update_view :: "(nat \<Rightarrow> rat \<times> rat) \<Rightarrow> wifi_monitor \<Rightarrow> wifi_monitor" where
  "update_view position m = fold (\<lambda>(dev, node, l). update_points position l) (wm_stations m) m"

section \<open>Traits, coordinates and plugins\<close>

record traits =
  is_wireless :: "bool option"
  is_virtual :: bool

definition new_traits :: "bool option \<Rightarrow> bool \<Rightarrow> traits result" where
  "new_traits wireless virt =
     (if virt \<or> wireless \<noteq> None then Inr \<lparr> is_wireless = wireless, is_virtual = virt \<rparr> else Inl AssertionError)"

text \<open>A lookup, with the registry afterwards and whether a warning was written.\<close>

definition lookup_netdevice_traits :: "string \<Rightarrow> (string, traits) dict \<Rightarrow> (string, traits) dict \<times> traits \<times> bool" where
  "lookup_netdevice_traits c reg =
     (case dict_get reg c of
        Some t \<Rightarrow> (reg, t, False)
      | None \<Rightarrow> let t = \<lparr> is_wireless = Some True, is_virtual = False \<rparr> in (dict_set reg c t, t, True))"

definition PIXELS_PER_METER :: rat where
  "PIXELS_PER_METER = 3"

definition transform_point_simulation_to_canvas :: "rat \<times> rat \<Rightarrow> rat \<times> rat" where
  "transform_point_simulation_to_canvas p = (fst p * PIXELS_PER_METER, snd p * PIXELS_PER_METER)"

definition transform_point_canvas_to_simulation :: "rat \<times> rat \<Rightarrow> rat \<times> rat" where
  "transform_point_canvas_to_simulation p = (fst p / PIXELS_PER_METER, snd p / PIXELS_PER_METER)"

text \<open>A plugin module has a name for its \<open>register\<close>, if it has one, and whether it can be called.\<close>

record viz_base =
  vb_plugins :: "string list"
  vb_modules :: "(string, string) dict"
  vb_loaded :: bool
  vb_sys_path :: "string list"

definition register_plugin :: "string \<times> bool \<Rightarrow> string \<Rightarrow> string option \<Rightarrow> (viz_base, unit) handler" where
  "register_plugin f name module_name v =
     (if \<not> snd f then (v, Inl AssertionError)
      else (v \<lparr> vb_plugins := vb_plugins v @ [fst f],
                vb_modules := (case module_name of None \<Rightarrow> vb_modules v | Some m \<Rightarrow> dict_set (vb_modules v) name m) \<rparr>, Inr ()))"

text \<open>\<open>os.path.splitext\<close>: the extension begins at the last dot that a character other than a dot precedes.\<close>

definition split_ext :: "string \<Rightarrow> string \<times> string" where
  "split_ext f =
     (let tail = takeWhile (\<lambda>c. c \<noteq> CHR ''.'') (rev f); front = take (length f - length tail - 1) f
      in if CHR ''.'' \<in> set f \<and> (\<exists>c \<in> set front. c \<noteq> CHR ''.'') then (front, CHR ''.'' # rev tail) else (f, []))"

definition import_error :: py_exn where
  "import_error = OtherError ''ImportError''"

fun load_files :: "(string \<Rightarrow> (string \<times> bool) option result) \<Rightarrow> string list \<Rightarrow> (viz_base, unit) handler" where
  "load_files imports [] v = (v, Inr ())"
| "load_files imports (f # fs) v =
     (case split_ext f of (name, ext) \<Rightarrow>
        if ext \<noteq> ''.py'' then load_files imports fs v
        else (case imports name of
                Inl e \<Rightarrow> if e = import_error then load_files imports fs v else (v, Inl e)
              | Inr None \<Rightarrow> load_files imports fs v
              | Inr (Some func) \<Rightarrow> hseq (register_plugin func name (Some name)) (load_files imports fs) v))"

definition load_plugins :: "string \<Rightarrow> (string \<Rightarrow> (string \<times> bool) option result) \<Rightarrow> string list \<Rightarrow> (viz_base, unit) handler" where
  "load_plugins plugins_dir imports listing v =
     (if vb_loaded v then (v, Inr ())
      else hseq (load_files imports listing) (hset (\<lambda>u. u \<lparr> vb_sys_path := vb_sys_path v \<rparr>))
             (v \<lparr> vb_loaded := True, vb_sys_path := plugins_dir # vb_sys_path v \<rparr>))"

section \<open>The window of samples\<close>

lemma forget_old_drop: "forget_old l = drop (length l - NODE_STATISTICS_MEMORY) l"
proof (induction l rule: forget_old.induct)
  case (1 l)
  show ?case
  proof (cases "NODE_STATISTICS_MEMORY < length l")
    case True
    then obtain x xs where "l = x # xs" by (cases l) auto
    then show ?thesis using 1 True by (subst forget_old.simps) (simp add: Suc_diff_le)
  qed (subst forget_old.simps, simp)
qed

text \<open>All samples of a node, in the order in which they came.\<close>

definition node_samples :: "nat \<Rightarrow> (nat \<times> iface_stats list) list \<Rightarrow> iface_stats list list" where
  "node_samples n hist = map snd (filter (\<lambda>s. fst s = n) hist)"

lemma node_samples_simps [simp]:
  "node_samples n [] = []" "node_samples n (hist @ [s]) = node_samples n hist @ (if fst s = n then [snd s] else [])"
  by (simp_all add: node_samples_def)

lemma drop_again: "drop (length (drop (length h - k) h @ [x]) - k) (drop (length h - k) h @ [x]) = drop (length (h @ [x]) - k) (h @ [x])"
proof (cases "length h \<le> k")
  case False
  show ?thesis
  proof (cases k)
    case (Suc j)
    then have "length h - j = Suc (length h - Suc j)" using False by simp
    then show ?thesis using Suc False by (simp add: drop_Suc drop_tl)
  qed simp
qed simp

lemma collected:
  "dict_get (collect_statistics hist []) n =
     (let h = node_samples n hist in if h = [] then None else Some (drop (length h - NODE_STATISTICS_MEMORY) h))"
proof (induction hist rule: rev_induct)
  case Nil
  then show ?case by (simp add: collect_statistics_def)
next
  case (snoc s hist)
  have "collect_statistics (hist @ [s]) [] = add_sample (collect_statistics hist []) s" by (simp add: collect_statistics_def)
  then show ?case
    using snoc.IH drop_again [of "node_samples n hist" NODE_STATISTICS_MEMORY "snd s"]
    by (auto simp: add_sample_def Let_def forget_old_drop)
qed

lemma collect_all_updates: "foldl (\<lambda>st u. collect_statistics u st) st updates = collect_statistics (concat updates) st"
  by (induction updates arbitrary: st) (simp_all add: collect_statistics_def)

text \<open>C27 Whatever samples came in, the statistics of a node are those of the last ten of its samples: none until there are
  ten, then the last sample with the rates between the tenth last and the last one.  The assertion on the number of
  samples never fails.\<close>

theorem statistics_window:
  "get_interface_statistics period (foldl (\<lambda>st u. collect_statistics u st) [] updates) n =
     (let h = node_samples n (concat updates)
      in if length h < 10 then Inr [] else rmap (iface_rates (h ! (length h - 10)) (period * 9)) (enumerate 0 (last h)))"
proof -
  let ?h = "node_samples n (concat updates)"
  show ?thesis
  proof (cases "length ?h < 10")
    case True
    then show ?thesis
      by (auto simp: get_interface_statistics_def collect_all_updates collected Let_def NODE_STATISTICS_MEMORY_def)
  next
    case False
    then have "hd (drop (length ?h - 10) ?h) = ?h ! (length ?h - 10)" "last (drop (length ?h - 10) ?h) = last ?h" "?h \<noteq> []"
      by (auto simp: hd_drop_conv_nth)
    then show ?thesis
      using False by (simp add: get_interface_statistics_def collect_all_updates collected Let_def NODE_STATISTICS_MEMORY_def)
  qed
qed

text \<open>An interface that was added since the tenth last sample has no value to compare with.\<close>

lemma added_interface_fails: "length first < length (last l) \<Longrightarrow> \<exists>i s. (i, s) \<in> set (enumerate 0 (last l)) \<and> iface_rates first k (i, s) = Inl IndexError"
  by (rule exI [of _ "length first"], rule exI [of _ "last l ! length first"])
    (simp add: iface_rates_def in_set_enumerate_eq)

section \<open>Links stay attached to their access points\<close>

text \<open>The node that a link is attached to after some calls, if they are in order: a link is attached to one node at a time
  and detached from that one.\<close>

fun attach_call :: "nat \<Rightarrow> link_call \<Rightarrow> nat option \<Rightarrow> nat option option" where
  "attach_call l (Add_link n k) a = (if k \<noteq> l then Some a else if a = None then Some (Some n) else None)"
| "attach_call l (Remove_link n k) a = (if k \<noteq> l then Some a else if a = Some n then Some None else None)"

definition attached :: "nat \<Rightarrow> link_call list \<Rightarrow> nat option option" where
  "attached l calls = foldl (\<lambda>a c. Option.bind a (attach_call l c)) (Some None) calls"

fun call_link :: "link_call \<Rightarrow> nat" where
  "call_link (Add_link n l) = l"
| "call_link (Remove_link n l) = l"

lemma attached_snoc: "attached l (calls @ [c]) = Option.bind (attached l calls) (attach_call l c)"
  by (simp add: attached_def)

lemma attached_Nil [simp]: "attached l [] = Some None"
  by (simp add: attached_def)

lemma attach_other [simp]: "call_link c \<noteq> l \<Longrightarrow> attach_call l c a = Some a"
  by (cases c) simp_all

lemma attached_other: "call_link c \<noteq> l \<Longrightarrow> attached l (calls @ [c]) = attached l calls"
  by (cases "attached l calls") (simp_all add: attached_snoc)

lemma attached_unused: "\<forall>c \<in> set calls. call_link c \<noteq> l \<Longrightarrow> attached l calls = Some None"
  by (induction calls rule: rev_induct) (simp_all add: attached_snoc)

inductive wifi_reachable :: "wifi_monitor \<Rightarrow> bool" where
  start: "wifi_reachable new_monitor"
| scan: "wifi_reachable m \<Longrightarrow> wifi_reachable (scan_nodes devices m)"
| update: "wifi_reachable m \<Longrightarrow> wifi_reachable (fst (update_links position radio m))"
| view: "wifi_reachable m \<Longrightarrow> wifi_reachable (update_view position m)"

text \<open>What holds of the link of a station, and of the monitor.\<close>

definition link_ok :: "wifi_monitor \<Rightarrow> nat \<times> nat \<times> nat \<Rightarrow> bool" where
  "link_ok m s = (case s of (dev, node, l) \<Rightarrow>
     l < length (wm_links m) \<and> wl_sta (wm_links m ! l) = Some node \<and> attached l (wm_calls m) = Some (wl_ap (wm_links m ! l))
     \<and> (\<forall>ap. wl_ap (wm_links m ! l) = Some ap \<longrightarrow> wl_visible (wm_links m ! l) \<and> ap \<in> snd ` set (wm_access_points m)))"

definition wifi_inv :: "wifi_monitor \<Rightarrow> bool" where
  "wifi_inv m \<longleftrightarrow>
     list_all (link_ok m) (wm_stations m) \<and> distinct (map (snd \<circ> snd) (wm_stations m))
     \<and> (\<forall>l. attached l (wm_calls m) \<noteq> None) \<and> (\<forall>c \<in> set (wm_calls m). call_link c < length (wm_links m))"

lemma set_link_simps [simp]:
  "wm_stations (set_link l f m) = wm_stations m" "wm_access_points (set_link l f m) = wm_access_points m"
  "wm_calls (set_link l f m) = wm_calls m" "length (wm_links (set_link l f m)) = length (wm_links m)"
  "k \<noteq> l \<Longrightarrow> wm_links (set_link l f m) ! k = wm_links m ! k"
  "l < length (wm_links m) \<Longrightarrow> wm_links (set_link l f m) ! l = f (wm_links m ! l)"
  by (simp_all add: set_link_def)

lemma call_simps [simp]:
  "wm_stations (call c m) = wm_stations m" "wm_access_points (call c m) = wm_access_points m"
  "wm_calls (call c m) = wm_calls m @ [c]" "wm_links (call c m) = wm_links m"
  by (simp_all add: call_def)

lemma update_points_simps [simp]:
  "wm_stations (update_points position l m) = wm_stations m" "wm_access_points (update_points position l m) = wm_access_points m"
  "wm_calls (update_points position l m) = wm_calls m" "length (wm_links (update_points position l m)) = length (wm_links m)"
  "wl_ap (wm_links (update_points position l m) ! k) = wl_ap (wm_links m ! k)"
  "wl_sta (wm_links (update_points position l m) ! k) = wl_sta (wm_links m ! k)"
  "wl_visible (wm_links (update_points position l m) ! k) = wl_visible (wm_links m ! k)"
  by (cases "l < length (wm_links m)"; cases "k = l"; auto simp: update_points_def set_link_def list_update_beyond split: option.splits)+

lemma set_ap_frame [simp]:
  "wm_stations (set_ap position ap l m) = wm_stations m" "wm_access_points (set_ap position ap l m) = wm_access_points m"
  "length (wm_links (set_ap position ap l m)) = length (wm_links m)"
  by (auto simp: set_ap_def Let_def split: option.splits)

text \<open>A link gets an access point.\<close>

lemma set_ap_link:
  assumes "l < length (wm_links m)"
  shows "wl_ap (wm_links (set_ap position ap l m) ! l) = ap"
    "wl_sta (wm_links (set_ap position ap l m) ! l) = wl_sta (wm_links m ! l)"
    "ap \<noteq> wl_ap (wm_links m ! l) \<Longrightarrow> wl_visible (wm_links (set_ap position ap l m) ! l) = (ap \<noteq> None)"
    "ap = wl_ap (wm_links m ! l) \<Longrightarrow> set_ap position ap l m = m"
  using assms by (auto simp: set_ap_def Let_def split: option.splits)

lemma set_ap_others:
  assumes "k \<noteq> l"
  shows "wl_ap (wm_links (set_ap position ap l m) ! k) = wl_ap (wm_links m ! k)"
    "wl_sta (wm_links (set_ap position ap l m) ! k) = wl_sta (wm_links m ! k)"
    "wl_visible (wm_links (set_ap position ap l m) ! k) = wl_visible (wm_links m ! k)"
    "attached k (wm_calls (set_ap position ap l m)) = attached k (wm_calls m)"
proof -
  have "attached k (calls @ [Add_link n l]) = attached k calls" "attached k (calls @ [Remove_link n l]) = attached k calls" for calls n
    using assms by (simp_all add: attached_other)
  note a = this this [of "calls @ [c]" for calls c, simplified]
  show "wl_ap (wm_links (set_ap position ap l m) ! k) = wl_ap (wm_links m ! k)"
    "wl_sta (wm_links (set_ap position ap l m) ! k) = wl_sta (wm_links m ! k)"
    "wl_visible (wm_links (set_ap position ap l m) ! k) = wl_visible (wm_links m ! k)"
    "attached k (wm_calls (set_ap position ap l m)) = attached k (wm_calls m)"
    using assms by (auto simp: set_ap_def Let_def a split: option.splits)
qed

lemma set_ap_attached:
  "attached l (wm_calls m) = Some (wl_ap (wm_links m ! l)) \<Longrightarrow> attached l (wm_calls (set_ap position ap l m)) = Some ap"
  by (auto simp: set_ap_def Let_def attached_snoc split: option.splits)

lemma set_ap_calls: "c \<in> set (wm_calls (set_ap position ap l m)) \<Longrightarrow> c \<in> set (wm_calls m) \<or> call_link c = l"
  by (auto simp: set_ap_def Let_def split: option.splits if_splits)

lemma set_ap_inv:
  assumes inv: "wifi_inv m" and s: "(dev, node, l) \<in> set (wm_stations m)"
    and ap: "\<forall>a. ap = Some a \<longrightarrow> a \<in> snd ` set (wm_access_points m)"
  shows "wifi_inv (set_ap position ap l m)"
proof -
  have l: "l < length (wm_links m)" "attached l (wm_calls m) = Some (wl_ap (wm_links m ! l))"
    using inv s by (auto simp: wifi_inv_def link_ok_def list_all_iff)
  have "link_ok (set_ap position ap l m) x" if "x \<in> set (wm_stations m)" for x
  proof -
    obtain dev' node' k where x: "x = (dev', node', k)" by (cases x)
    have ok: "link_ok m x" using inv that by (simp add: wifi_inv_def list_all_iff)
    show ?thesis
    proof (cases "k = l")
      case True
      show ?thesis
      proof (cases "ap = wl_ap (wm_links m ! l)")
        case True
        then show ?thesis using ok set_ap_link(4) [OF l(1)] by simp
      next
        case False
        then show ?thesis
          using ok ap set_ap_link [OF l(1), where position = position and ap = ap] set_ap_attached [OF l(2)] \<open>k = l\<close> by (auto simp: link_ok_def x)
      qed
    next
      case False
      then show ?thesis using ok by (auto simp: link_ok_def x set_ap_others)
    qed
  qed
  moreover have "attached k (wm_calls (set_ap position ap l m)) \<noteq> None" for k
    using inv set_ap_attached [OF l(2)] set_ap_others(4) [of k l] by (cases "k = l") (auto simp: wifi_inv_def)
  ultimately show ?thesis using inv l(1) set_ap_calls by (fastforce simp: wifi_inv_def list_all_iff)
qed

lemma update_stations_inv:
  assumes "wifi_inv m" "set ss \<subseteq> set (wm_stations m)"
  shows "wifi_inv (fst (update_stations position radio ss m))"
  using assms
proof (induction ss arbitrary: m)
  case (Cons s ss)
  obtain dev node l where s: "s = (dev, node, l)" by (cases s)
  have none: "wifi_inv (set_ap position None l m)" using Cons.prems by (intro set_ap_inv) (auto simp: s)
  have some: "wifi_inv (set_ap position (Some a) l m)" if "dict_get (wm_access_points m) b = Some a" for a b
    using Cons.prems map_of_SomeD [OF that] by (intro set_ap_inv) (force simp: s)+
  show ?case using Cons.IH none some Cons.prems by (auto simp: s split: option.splits)
qed simp

lemma link_ok_destroy: "l \<noteq> k \<Longrightarrow> link_ok (destroy_link k m) (dev, node, l) = link_ok m (dev, node, l)"
  by (simp add: link_ok_def destroy_link_def)

lemma fold_inv: "(\<And>x s. P s \<Longrightarrow> P (f x s)) \<Longrightarrow> P s \<Longrightarrow> P (fold f xs s)"
  by (induction xs arbitrary: s) simp_all

lemma view_inv: "wifi_inv m \<Longrightarrow> wifi_inv (update_view position m)"
  unfolding update_view_def by (rule fold_inv) (auto simp: wifi_inv_def list_all_iff link_ok_def split: prod.splits)

text \<open>A scan starts with a monitor that has no stations; the links that were there get no calls any more.\<close>

definition scan_inv :: "wifi_monitor \<Rightarrow> bool" where
  "scan_inv m \<longleftrightarrow> (\<forall>l. attached l (wm_calls m) \<noteq> None) \<and> (\<forall>c \<in> set (wm_calls m). call_link c < length (wm_links m))"

lemma scan_inv_new: "scan_inv m \<Longrightarrow> attached (length (wm_links m)) (wm_calls m) = Some None"
  by (rule attached_unused) (auto simp: scan_inv_def)

lemma scan_device_inv: "wifi_inv m \<and> (\<forall>s \<in> set (wm_stations m). wl_ap (wm_links m ! snd (snd s)) = None)
  \<Longrightarrow> wifi_inv (scan_device m p) \<and> (\<forall>s \<in> set (wm_stations (scan_device m p)). wl_ap (wm_links (scan_device m p) ! snd (snd s)) = None)"
proof -
  assume a: "wifi_inv m \<and> (\<forall>s \<in> set (wm_stations m). wl_ap (wm_links m ! snd (snd s)) = None)"
  then have new: "attached (length (wm_links m)) (wm_calls m) = Some None"
    by (intro scan_inv_new) (simp add: wifi_inv_def scan_inv_def)
  obtain node d where p: "p = (node, d)" by (cases p)
  have lt: "snd (snd s) < length (wm_links m)" if "s \<in> set (wm_stations m)" for s
    using a that by (cases s) (auto simp: wifi_inv_def list_all_iff link_ok_def)
  show ?thesis
  proof (cases d)
    case (Station dev)
    have new_link: "length (wm_links m) \<notin> (snd \<circ> snd) ` set (wm_stations m)" using lt by force
    have "link_ok (scan_device m p) s" if "s \<in> set (wm_stations m)" for s
      using a that lt [OF that] by (cases s) (auto simp: wifi_inv_def list_all_iff link_ok_def scan_device_def p Station nth_append)
    moreover have "link_ok (scan_device m p) (dev, node, length (wm_links m))"
      using new by (simp add: link_ok_def scan_device_def p Station new_wifi_link_def)
    ultimately show ?thesis
      using a lt new_link by (simp add: wifi_inv_def list_all_iff scan_device_def p Station nth_append new_wifi_link_def less_SucI)
  next
    case (Access_point b)
    then show ?thesis using a by (auto simp: wifi_inv_def list_all_iff link_ok_def scan_device_def p)
  qed (use a in \<open>simp add: scan_device_def p\<close>)
qed

lemma scan_nodes_inv: "wifi_inv m \<Longrightarrow> wifi_inv (scan_nodes devices m)"
proof -
  assume m: "wifi_inv m"
  define m1 where "m1 = fold (\<lambda>(dev, node, l). destroy_link l) (wm_stations m) m"
  have "scan_inv m" using m by (simp add: wifi_inv_def scan_inv_def)
  then have "scan_inv m1" unfolding m1_def by (rule fold_inv [rotated]) (auto simp: scan_inv_def destroy_link_def)
  then have start: "wifi_inv (m1 \<lparr> wm_access_points := [], wm_stations := [] \<rparr>)" by (simp add: wifi_inv_def scan_inv_def)
  have "wifi_inv (foldl scan_device k devices)" if "wifi_inv k \<and> (\<forall>s \<in> set (wm_stations k). wl_ap (wm_links k ! snd (snd s)) = None)" for k
    using that
  proof (induction devices arbitrary: k)
    case (Cons p devices)
    show ?case using Cons.IH [OF scan_device_inv [OF Cons.prems]] by simp
  qed simp
  from this [OF conjI [OF start]] show ?thesis by (simp add: scan_nodes_def m1_def [symmetric])
qed

lemma reachable_inv: "wifi_reachable m \<Longrightarrow> wifi_inv m"
proof (induction rule: wifi_reachable.induct)
  case start
  show ?case by (simp add: wifi_inv_def new_monitor_def)
next
  case (update m position radio)
  then show ?case unfolding update_links_def by (intro update_stations_inv) simp_all
qed (auto intro: scan_nodes_inv view_inv)

text \<open>C23 In every state that scans, updates and redraws lead to, updates that raised included: the calls of the nodes are in
  order, that is a link is attached to one node at a time and detached from that node; and the link of a station is
  attached to the node that it names as its access point, which is one of the last scan, and then it is visible.\<close>

theorem wifi_links_attached:
  assumes "wifi_reachable m" "(dev, node, l) \<in> set (wm_stations m)"
  shows "attached k (wm_calls m) \<noteq> None \<and> attached l (wm_calls m) = Some (wl_ap (wm_links m ! l))
    \<and> wl_sta (wm_links m ! l) = Some node
    \<and> (\<forall>ap. wl_ap (wm_links m ! l) = Some ap \<longrightarrow> wl_visible (wm_links m ! l) \<and> ap \<in> snd ` set (wm_access_points m))"
  using reachable_inv [OF assms(1)] assms(2) by (auto simp: wifi_inv_def link_ok_def list_all_iff)

definition sample_scan :: wifi_monitor where
  "sample_scan = scan_nodes [(1, Station 11), (2, Access_point ''A''), (3, Station 13)] new_monitor"

definition sample_radio :: radio where
  "sample_radio = (\<lambda>d. if d = 11 then Some ''A'' else None)"

theorem wifi_links_attached_witness:
  "attached 0 (wm_calls (fst (update_links (\<lambda>_. (0, 0)) sample_radio sample_scan))) = Some (Some 2)"
proof -
  let ?m = "fst (update_links (\<lambda>_. (0, 0)) sample_radio sample_scan)"
  have "wifi_reachable ?m" unfolding sample_scan_def by (intro wifi_reachable.intros)
  moreover have "(11, 1, 0) \<in> set (wm_stations ?m)" by code_simp
  moreover have "wl_ap (wm_links ?m ! 0) = Some 2" by code_simp
  ultimately show ?thesis using wifi_links_attached [of ?m 11 1 0] by metis
qed

text \<open>The access point that a station should have, and whether its address is unknown.\<close>

definition station_ap :: "radio \<Rightarrow> (string, nat) dict \<Rightarrow> nat \<Rightarrow> nat option" where
  "station_ap radio aps dev = (case radio dev of None \<Rightarrow> None | Some b \<Rightarrow> if b = no_bssid then None else dict_get aps b)"

definition unknown_ap :: "radio \<Rightarrow> (string, nat) dict \<Rightarrow> nat \<Rightarrow> bool" where
  "unknown_ap radio aps dev \<longleftrightarrow> (\<exists>b. radio dev = Some b \<and> b \<noteq> no_bssid \<and> dict_get aps b = None)"

lemma update_stations_step:
  "update_stations position radio ((dev, node, l) # ss) m =
     (if unknown_ap radio (wm_access_points m) dev then (m, Inl KeyError)
      else update_stations position radio ss (set_ap position (station_ap radio (wm_access_points m) dev) l m))"
  by (auto simp: unknown_ap_def station_ap_def split: option.splits)

lemma update_stations_exact:
  assumes "distinct (map (snd \<circ> snd) ss)" "\<forall>s \<in> set ss. snd (snd s) < length (wm_links m)"
    "\<forall>s \<in> set ss. \<not> unknown_ap radio (wm_access_points m) (fst s)"
  shows "\<exists>m'. update_stations position radio ss m = (m', Inr ())
    \<and> (\<forall>s \<in> set ss. wl_ap (wm_links m' ! snd (snd s)) = station_ap radio (wm_access_points m) (fst s))
    \<and> (\<forall>k. k \<notin> (snd \<circ> snd) ` set ss \<longrightarrow> wl_ap (wm_links m' ! k) = wl_ap (wm_links m ! k))"
  using assms
proof (induction ss arbitrary: m)
  case (Cons s ss)
  obtain dev node l where s: "s = (dev, node, l)" by (cases s)
  let ?m = "set_ap position (station_ap radio (wm_access_points m) dev) l m"
  have l: "l < length (wm_links m)" "l \<notin> (snd \<circ> snd) ` set ss" using Cons.prems by (auto simp: s)
  obtain m' where m': "update_stations position radio ss ?m = (m', Inr ())"
    "\<forall>s \<in> set ss. wl_ap (wm_links m' ! snd (snd s)) = station_ap radio (wm_access_points m) (fst s)"
    "\<forall>k. k \<notin> (snd \<circ> snd) ` set ss \<longrightarrow> wl_ap (wm_links m' ! k) = wl_ap (wm_links ?m ! k)"
    using Cons.IH [of ?m] Cons.prems by (auto simp: s)
  have "wl_ap (wm_links m' ! l) = station_ap radio (wm_access_points m) dev" using m'(3) l set_ap_link(1) [OF l(1)] by simp
  moreover have "wl_ap (wm_links m' ! k) = wl_ap (wm_links m ! k)" if "k \<notin> (snd \<circ> snd) ` set (s # ss)" for k
    using m'(3) that set_ap_others(1) [of k l] by (simp add: s)
  moreover have "\<not> unknown_ap radio (wm_access_points m) dev" using Cons.prems(3) by (simp add: s)
  ultimately show ?case using m'(1,2) by (intro exI [of _ m']) (simp add: s update_stations_step del: update_stations.simps)
qed simp

lemma update_stations_fails:
  "(\<exists>s \<in> set ss. unknown_ap radio (wm_access_points m) (fst s)) \<Longrightarrow> snd (update_stations position radio ss m) = Inl KeyError"
proof (induction ss arbitrary: m)
  case (Cons s ss)
  obtain dev node l where s: "s = (dev, node, l)" by (cases s)
  then show ?case
    using Cons.IH [of "set_ap position (station_ap radio (wm_access_points m) dev) l m"] Cons.prems
    by (cases "unknown_ap radio (wm_access_points m) dev") (simp_all add: update_stations_step del: update_stations.simps)
qed simp

text \<open>C24 An update raises exactly when a station has an access point that no scan has found.  Otherwise each station's link
  leads to the node of its access point, and to none when the link is down or the station is not associated.\<close>

theorem wifi_update_exact:
  assumes "wifi_reachable m"
  shows "if \<exists>(dev, node, l) \<in> set (wm_stations m). unknown_ap radio (wm_access_points m) dev
    then snd (update_links position radio m) = Inl KeyError
    else \<exists>m'. update_links position radio m = (m', Inr ()) \<and>
      (\<forall>(dev, node, l) \<in> set (wm_stations m). wl_ap (wm_links m' ! l) = station_ap radio (wm_access_points m) dev)"
proof (cases "\<exists>s \<in> set (wm_stations m). unknown_ap radio (wm_access_points m) (fst s)")
  case True
  then show ?thesis using update_stations_fails [OF True, of position] by (auto simp: update_links_def)
next
  case False
  have i: "distinct (map (snd \<circ> snd) (wm_stations m))" "\<forall>s \<in> set (wm_stations m). snd (snd s) < length (wm_links m)"
    using reachable_inv [OF assms] by (auto simp: wifi_inv_def list_all_iff link_ok_def)
  from update_stations_exact [OF i, of radio position] False show ?thesis by (fastforce simp: update_links_def)
qed

theorem wifi_update_exact_witness:
  "\<exists>m'. update_links (\<lambda>_. (0, 0)) sample_radio sample_scan = (m', Inr ()) \<and> wl_ap (wm_links m' ! 0) = Some 2"
proof -
  have r: "wifi_reachable sample_scan" unfolding sample_scan_def by (intro wifi_reachable.intros)
  have s: "wm_stations sample_scan = [(11, 1, 0), (13, 3, 1)]" "wm_access_points sample_scan = [(''A'', 2)]" by code_simp+
  show ?thesis
    using wifi_update_exact [OF r, of sample_radio "\<lambda>_. (0, 0)"] unfolding s
    by (auto simp: unknown_ap_def station_ap_def sample_radio_def no_bssid_def)
qed

text \<open>A station with an unknown access point ends the update: the stations after it are not looked at.\<close>

lemma unknown_access_point_stops:
  "radio d1 = Some b \<Longrightarrow> b \<noteq> no_bssid \<Longrightarrow> dict_get (wm_access_points m) b = None \<Longrightarrow>
   update_stations position radio ((d1, n1, l1) # ss) m = (m, Inl KeyError)"
  by simp

text \<open>A scan destroys the links without detaching them: a node keeps the links that it had.\<close>

lemma scan_keeps_attached: "wm_calls (scan_nodes devices m) = wm_calls m"
proof -
  have "wm_calls (fold (\<lambda>(dev, node, l). destroy_link l) ss m) = wm_calls m" for ss
    by (induction ss arbitrary: m) (auto simp: destroy_link_def)
  moreover have "wm_calls (foldl scan_device k devices) = wm_calls k" for k
    by (induction devices arbitrary: k) (auto simp: scan_device_def split: prod.splits device.splits)
  ultimately show ?thesis by (simp add: scan_nodes_def)
qed

section \<open>The registry\<close>

lemma traits_lookup_again:
  "lookup_netdevice_traits c reg = (reg', t, w) \<Longrightarrow> lookup_netdevice_traits c reg' = (reg', t, False)"
  by (auto simp: lookup_netdevice_traits_def Let_def split: option.splits)

lemma canvas_round_trip:
  "transform_point_canvas_to_simulation (transform_point_simulation_to_canvas p) = p"
  by (simp add: transform_point_canvas_to_simulation_def transform_point_simulation_to_canvas_def PIXELS_PER_METER_def)

lemma register_plugin_keeps: "register_plugin f name mn v = (v', r) \<Longrightarrow> vb_loaded v' = vb_loaded v \<and> vb_sys_path v' = vb_sys_path v"
  by (auto simp: register_plugin_def split: if_splits)

lemma load_files_keeps:
  "load_files imports fs v = (v', r) \<Longrightarrow> vb_loaded v' = vb_loaded v \<and> vb_sys_path v' = vb_sys_path v"
proof (induction fs arbitrary: v)
  case (Cons f fs)
  obtain name ext where f: "split_ext f = (name, ext)" by fastforce
  show ?case
  proof (cases "ext = ''.py'' \<and> (\<exists>g. imports name = Inr (Some g))")
    case True
    then obtain g where g: "ext = ''.py''" "imports name = Inr (Some g)" by blast
    obtain u e where u: "register_plugin g name (Some name) v = (u, e)" by fastforce
    show ?thesis
      using Cons.prems Cons.IH [of u] register_plugin_keeps [OF u] by (cases e) (simp_all add: f g hseq_def hbind_def u)
  next
    case False
    then have "load_files imports (f # fs) v = load_files imports fs v \<or> fst (load_files imports (f # fs) v) = v"
      by (auto simp: f split: sum.splits option.splits)
    then show ?thesis using Cons.prems Cons.IH [of v] by auto
  qed
qed simp

lemma load_plugins_path:
  assumes "load_plugins plugins_dir imports listing v = (v', Inr ())"
  shows "vb_sys_path v' = vb_sys_path v \<and> vb_loaded v'"
proof (cases "vb_loaded v")
  case False
  obtain u e where u: "load_files imports listing (v \<lparr> vb_loaded := True, vb_sys_path := plugins_dir # vb_sys_path v \<rparr>) = (u, e)"
    by fastforce
  have "v' = u \<lparr> vb_sys_path := vb_sys_path v \<rparr>"
    using assms False by (cases e) (simp_all add: load_plugins_def hseq_def hbind_def u)
  then show ?thesis using load_files_keeps [OF u] by simp
qed (use assms in \<open>simp add: load_plugins_def\<close>)

text \<open>A plugin that fails with another exception ends the loading: the search path keeps the directory of the plugins, the
  plugins after it are not loaded, and a second call does nothing.\<close>

lemma broken_plugin:
  "load_plugins ''p'' (\<lambda>m. if m = ''bad'' then Inl ValueError else Inr (Some (m, True))) [''bad.py'', ''good.py'']
      \<lparr> vb_plugins = [], vb_modules = [], vb_loaded = False, vb_sys_path = [''s''] \<rparr>
   = (\<lparr> vb_plugins = [], vb_modules = [], vb_loaded = True, vb_sys_path = [''p'', ''s''] \<rparr>, Inl ValueError)"
  by code_simp

end
