(* ===== verification/Py_Float.thy ===== *)
theory Py_Float
  imports Complex_Main Py_Prelude
begin

text \<open>
  Floats and their texts; the values are exact rational numbers.  \<open>int(s)\<close> and \<open>float(s)\<close> read decimal notation, without
  the names of infinities and the underscores that Python allows; \<open>round(x, n)\<close> is that of Python 2, which rounds a half
  away from zero, and \<open>%.nf\<close> takes the even one of two nearest numbers.
\<close>

section \<open>Reading\<close>

text \<open>A conversion of an absent value raises \<open>TypeError\<close>.\<close>

definition type_error :: "string option \<Rightarrow> (string \<Rightarrow> 'a result) \<Rightarrow> 'a result" where
  "type_error v f = (case v of None \<Rightarrow> Inl TypeError | Some s \<Rightarrow> f s)"

definition signed :: "string \<Rightarrow> bool \<times> string" where
  "signed s =
     (case s of [] \<Rightarrow> (False, []) | c # r \<Rightarrow> if c = CHR ''-'' then (True, r) else if c = CHR ''+'' then (False, r) else (False, s))"

definition parse_int :: "string \<Rightarrow> int result" where
  "parse_int s =
     (case signed (strip s) of (neg, ds) \<Rightarrow>
        if ds \<noteq> [] \<and> list_all is_digit ds then Inr (if neg then - int (nat_of_str ds) else int (nat_of_str ds))
        else Inl ValueError)"

text \<open>\<open>float(s)\<close>: digits with a point and an exponent.\<close>

definition parse_exponent :: "string \<Rightarrow> int option" where
  "parse_exponent s =
     (case s of
        [] \<Rightarrow> Some 0
      | e # r \<Rightarrow>
          if e = CHR ''e'' \<or> e = CHR ''E'' then
            (case signed r of (neg, ds) \<Rightarrow>
               if ds \<noteq> [] \<and> list_all is_digit ds then Some (if neg then - int (nat_of_str ds) else int (nat_of_str ds)) else None)
          else None)"

definition power10 :: "int \<Rightarrow> rat" where
  "power10 e = (if 0 \<le> e then 10 ^ nat e else 1 / 10 ^ nat (- e))"

definition parse_float :: "string \<Rightarrow> rat result" where
  "parse_float s =
     (case signed (strip s) of (neg, t) \<Rightarrow>
        let whole = takeWhile is_digit t; r1 = dropWhile is_digit t;
            (frac, r2) = (if startswith r1 ''.'' then (takeWhile is_digit (tl r1), dropWhile is_digit (tl r1)) else ([], r1))
        in if whole @ frac = [] then Inl ValueError
           else (case parse_exponent r2 of
                   None \<Rightarrow> Inl ValueError
                 | Some e \<Rightarrow>
                     let v = of_int (int (nat_of_str (whole @ frac))) * power10 (e - int (length frac))
                     in Inr (if neg then - v else v)))"

section \<open>Rounding\<close>

definition round_even :: "rat \<Rightarrow> int" where
  "round_even x =
     (let n = \<lfloor>x\<rfloor>; r = x - of_int n in if r < 1 / 2 then n else if 1 / 2 < r then n + 1 else if even n then n else n + 1)"

definition round_away :: "rat \<Rightarrow> int" where
  "round_away x = (if x < 0 then - \<lfloor>- x + 1 / 2\<rfloor> else \<lfloor>x + 1 / 2\<rfloor>)"

definition py_round :: "rat \<Rightarrow> nat \<Rightarrow> rat" where
  "py_round x dp = of_int (round_away (x * 10 ^ dp)) / 10 ^ dp"

lemma round_even_near: "\<bar>of_int (round_even x) - x\<bar> \<le> 1 / 2"
proof -
  have "of_int \<lfloor>x\<rfloor> \<le> x" "x < of_int \<lfloor>x\<rfloor> + 1" by linarith+
  then show ?thesis by (auto simp: round_even_def Let_def)
qed

lemma round_even_ge: "of_int n \<le> x \<Longrightarrow> n \<le> round_even x"
proof -
  assume "of_int n \<le> x"
  then have "of_int n - 1 / 2 \<le> (of_int (round_even x) :: rat)" using round_even_near [of x] by linarith
  then have "(of_int (n - 1) :: rat) < of_int (round_even x)" by simp
  then show ?thesis by linarith
qed

lemma round_even_less: "x < of_int n - 1 / 2 \<Longrightarrow> round_even x < n"
proof -
  assume "x < of_int n - 1 / 2"
  then have "(of_int (round_even x) :: rat) < of_int n" using round_even_near [of x] by linarith
  then show ?thesis by linarith
qed

lemma round_even_eqI:
  assumes "of_int n - 1 / 2 < x" "x < of_int n + 1 / 2"
  shows "round_even x = n"
proof -
  have "(of_int (round_even x) :: rat) \<le> x + 1 / 2" "x - 1 / 2 \<le> of_int (round_even x)"
    using round_even_near [of x] by linarith+
  with assms have "(of_int n :: rat) - 1 < of_int (round_even x)" "(of_int (round_even x) :: rat) < of_int n + 1"
    by linarith+
  then have "n - 1 < round_even x" "round_even x < n + 1" by linarith+
  then show ?thesis by simp
qed

lemma round_away_eq: "0 \<le> x \<Longrightarrow> round_away x = n \<longleftrightarrow> of_int n \<le> x + 1 / 2 \<and> x + 1 / 2 < of_int n + 1"
  by (simp add: round_away_def floor_eq_iff)

section \<open>Printing\<close>

definition pad_zeros :: "nat \<Rightarrow> string \<Rightarrow> string" where
  "pad_zeros n s = replicate (n - length s) CHR ''0'' @ s"

definition py_fixed :: "nat \<Rightarrow> rat \<Rightarrow> string" where
  "py_fixed dp x =
     (let n = nat (round_even (\<bar>x\<bar> * 10 ^ dp))
      in (if x < 0 then ''-'' else []) @ nat_str (n div 10 ^ dp)
         @ (if dp = 0 then [] else ''.'' @ pad_zeros dp (nat_str (n mod 10 ^ dp))))"

text \<open>The number that a reader of the text sees.\<close>

definition shown :: "nat \<Rightarrow> rat \<Rightarrow> rat" where
  "shown dp x = of_int (round_even (x * 10 ^ dp)) / 10 ^ dp"

lemma shown_near: "\<bar>shown dp x - x\<bar> \<le> 1 / (2 * 10 ^ dp)"
proof -
  have "shown dp x - x = (of_int (round_even (x * 10 ^ dp)) - x * 10 ^ dp) / 10 ^ dp"
    by (simp add: shown_def diff_divide_distrib)
  then have "\<bar>shown dp x - x\<bar> = \<bar>of_int (round_even (x * 10 ^ dp)) - x * 10 ^ dp\<bar> / 10 ^ dp"
    by (simp add: abs_divide)
  also have "\<dots> \<le> (1 / 2) / 10 ^ dp" using round_even_near by (intro divide_right_mono) auto
  finally show ?thesis by simp
qed

text \<open>The digits of the text, with the point taken out, are those of the shown number times the power of ten.\<close>

lemma foldl_digits: "foldl (\<lambda>n c. 10 * n + digit_val c) m b = m * 10 ^ length b + foldl (\<lambda>n c. 10 * n + digit_val c) 0 b"
proof (induction b arbitrary: m)
  case Nil
  show ?case by simp
next
  case (Cons c b)
  let ?f = "\<lambda>m. foldl (\<lambda>n c. 10 * n + digit_val c) m b"
  have "?f (10 * m + digit_val c) = (10 * m + digit_val c) * 10 ^ length b + ?f 0"
    "?f (digit_val c) = digit_val c * 10 ^ length b + ?f 0"
    by (rule Cons.IH)+
  moreover have "(10 * m + d) * p + f = m * (10 * p) + (d * p + f)" for d p f :: nat by (simp add: algebra_simps)
  ultimately show ?case unfolding foldl_Cons length_Cons power_Suc by (simp only: mult_0_right add_0)
qed

lemma nat_of_str_append: "nat_of_str (a @ b) = nat_of_str a * 10 ^ length b + nat_of_str b"
  unfolding nat_of_str_def foldl_append by (rule foldl_digits)

lemma length_nat_str: "n < 10 ^ Suc k \<Longrightarrow> length (nat_str n) \<le> Suc k"
proof (induction k arbitrary: n)
  case 0
  have "nat_str n = [digit_char n]" using 0 by (subst nat_str.simps) simp
  then show ?case by simp
next
  case (Suc k)
  show ?case
  proof (cases "n < 10")
    case True
    have "nat_str n = [digit_char n]" using True by (subst nat_str.simps) simp
    then show ?thesis by simp
  next
    case False
    have "n div 10 < 10 ^ Suc k" using Suc.prems by (intro less_mult_imp_div_less) (simp add: mult.commute)
    then have "length (nat_str (n div 10)) \<le> Suc k" by (rule Suc.IH)
    moreover have "nat_str n = nat_str (n div 10) @ [digit_char (n mod 10)]" using False by (subst nat_str.simps) simp
    ultimately show ?thesis by simp
  qed
qed

lemma py_fixed_digits:
  assumes "0 \<le> x"
  shows "of_nat (nat_of_str (filter (\<lambda>c. c \<noteq> CHR ''.'') (py_fixed dp x))) = shown dp x * 10 ^ dp"
proof -
  define n where "n = nat (round_even (x * 10 ^ dp))"
  have n: "of_nat n = shown dp x * 10 ^ dp"
  proof -
    have "0 \<le> round_even (x * 10 ^ dp)" using assms by (intro round_even_ge) simp
    then show ?thesis by (simp add: n_def shown_def)
  qed
  have digits: "filter (\<lambda>c. c \<noteq> CHR ''.'') (nat_str k) = nat_str k" for k
  proof -
    have "\<forall>c \<in> set (nat_str k). is_digit c" using nat_str_digits [of k] by (simp add: list_all_iff)
    then have "\<forall>c \<in> set (nat_str k). c \<noteq> CHR ''.''" by (auto simp: is_digit_def)
    then show ?thesis by (simp add: filter_id_conv)
  qed
  have zeros: "nat_of_str (replicate j CHR ''0'' @ s) = nat_of_str s" for j s
    by (induction j) (simp_all add: nat_of_str_def digit_val_def)
  show ?thesis
  proof (cases "dp = 0")
    case True
    then show ?thesis using assms n by (simp add: py_fixed_def Let_def digits n_def)
  next
    case False
    have len: "length (pad_zeros dp (nat_str (n mod 10 ^ dp))) = dp"
      using length_nat_str [of "n mod 10 ^ dp" "dp - 1"] False by (simp add: pad_zeros_def)
    have "filter (\<lambda>c. c \<noteq> CHR ''.'') (py_fixed dp x) = nat_str (n div 10 ^ dp) @ pad_zeros dp (nat_str (n mod 10 ^ dp))"
      using assms False by (simp add: py_fixed_def Let_def n_def [symmetric] digits pad_zeros_def)
    then have "nat_of_str (filter (\<lambda>c. c \<noteq> CHR ''.'') (py_fixed dp x)) = n div 10 ^ dp * 10 ^ dp + n mod 10 ^ dp"
      by (simp add: nat_of_str_append len) (simp add: pad_zeros_def zeros)
    then show ?thesis using n by (metis div_mult_mod_eq)
  qed
qed

text \<open>The text is read back as the shown number.\<close>

lemma py_fixed_nonneg:
  assumes "0 \<le> x"
  obtains w r where "py_fixed dp x = w @ r" "w \<noteq> []" "list_all is_digit w" "dp = 0 \<Longrightarrow> r = []"
    "dp \<noteq> 0 \<Longrightarrow> \<exists>z. r = CHR ''.'' # z \<and> length z = dp \<and> list_all is_digit z"
proof -
  define n where "n = nat (round_even (x * 10 ^ dp))"
  have "length (pad_zeros dp (nat_str (n mod 10 ^ dp))) = dp" if "dp \<noteq> 0"
    using length_nat_str [of "n mod 10 ^ dp" "dp - 1"] that by (simp add: pad_zeros_def)
  moreover have "list_all is_digit (pad_zeros dp (nat_str k))" for k
    using nat_str_digits [of k] by (auto simp: pad_zeros_def list_all_iff is_digit_def)
  ultimately show thesis
    using assms nat_str_digits [of "n div 10 ^ dp"]
    by (intro that [of "nat_str (n div 10 ^ dp)" "if dp = 0 then [] else ''.'' @ pad_zeros dp (nat_str (n mod 10 ^ dp))"])
      (simp_all add: py_fixed_def Let_def n_def)
qed

lemma takeWhile_digits: "list_all is_digit w \<Longrightarrow> takeWhile is_digit (w @ c # r) = w @ takeWhile is_digit (c # r)"
  "list_all is_digit w \<Longrightarrow> dropWhile is_digit (w @ c # r) = dropWhile is_digit (c # r)"
  by (simp_all add: list_all_iff)

lemma parse_float_digits:
  assumes "w \<noteq> []" "list_all is_digit w" "list_all is_digit z" "z \<noteq> []"
  shows "parse_float w = Inr (of_nat (nat_of_str w))"
    "parse_float (w @ CHR ''.'' # z) = Inr (of_nat (nat_of_str (w @ z)) / 10 ^ length z)"
proof -
  have digits: "is_digit (hd w)" "is_digit (last w)" "is_digit (last z)" "takeWhile is_digit w = w" "dropWhile is_digit w = []"
    "takeWhile is_digit z = z" "dropWhile is_digit z = []"
    using assms by (simp_all add: list_all_iff takeWhile_eq_all_conv dropWhile_eq_Nil_conv)
  then have "hd w \<noteq> CHR ''-''" "hd w \<noteq> CHR ''+''" "\<not> is_digit CHR ''.''" by (auto simp: is_digit_def)
  then have s: "signed w = (False, w)" "signed (w @ CHR ''.'' # z) = (False, w @ CHR ''.'' # z)" "\<not> is_digit CHR ''.''"
    using assms by (cases w; simp add: signed_def)+
  have "strip w = w" "strip (w @ CHR ''.'' # z) = w @ CHR ''.'' # z"
    using assms digits by (intro strip_text; simp add: digit_not_space)+
  then show "parse_float w = Inr (of_nat (nat_of_str w))"
    "parse_float (w @ CHR ''.'' # z) = Inr (of_nat (nat_of_str (w @ z)) / 10 ^ length z)"
    by (simp_all add: parse_float_def Let_def startswith_def takeWhile_digits parse_exponent_def power10_def assms s digits)
qed

theorem parse_float_fixed:
  assumes "0 \<le> x"
  shows "parse_float (py_fixed dp x) = Inr (shown dp x)"
proof -
  obtain w r where t: "py_fixed dp x = w @ r" "w \<noteq> []" "list_all is_digit w" "dp = 0 \<Longrightarrow> r = []"
    "dp \<noteq> 0 \<Longrightarrow> \<exists>z. r = CHR ''.'' # z \<and> length z = dp \<and> list_all is_digit z"
    using py_fixed_nonneg [OF assms] by metis
  have keep: "filter (\<lambda>c. c \<noteq> CHR ''.'') s = s" if "list_all is_digit s" for s
    using that by (auto simp: filter_id_conv list_all_iff is_digit_def)
  show ?thesis
  proof (cases "dp = 0")
    case True
    then show ?thesis
      using py_fixed_digits [OF assms, of dp] parse_float_digits(1) [OF t(2,3,3,2)] t keep by simp
  next
    case False
    with t(5) obtain z where z: "r = CHR ''.'' # z" "length z = dp" "list_all is_digit z" by blast
    then have "z \<noteq> []" using False by auto
    then have "parse_float (py_fixed dp x) = Inr (of_nat (nat_of_str (w @ z)) / 10 ^ dp)"
      using parse_float_digits(2) [OF t(2,3) z(3)] t(1) z by simp
    moreover have "of_nat (nat_of_str (w @ z)) = shown dp x * 10 ^ dp"
      using py_fixed_digits [OF assms, of dp] t(1,3) z keep by simp
    ultimately show ?thesis by simp
  qed
qed

section \<open>Significant digits\<close>

text \<open>The exponent of the first decimal digit of a positive number, from the digits of its whole part or of its inverse.\<close>

definition decimal_exponent :: "rat \<Rightarrow> int" where
  "decimal_exponent x =
     (if 1 \<le> x then int (length (nat_str (nat \<lfloor>x\<rfloor>))) - 1 else - int (length (nat_str (nat (\<lceil>1 / x\<rceil> - 1)))))"

text \<open>The digits of a number as a whole number of \<open>p\<close> digits, and the exponent of the first one; the rounding may carry.\<close>

definition significant :: "nat \<Rightarrow> rat \<Rightarrow> nat \<times> int" where
  "significant p x =
     (let e = decimal_exponent x; n = nat (round_even (x * power10 (int p - 1 - e)))
      in if n = 10 ^ p then (10 ^ (p - 1), e + 1) else (n, e))"

definition strip_zeros :: "string \<Rightarrow> string" where
  "strip_zeros s = rev (dropWhile (\<lambda>c. c = CHR ''0'') (rev s))"

text \<open>
  \<open>%.ng\<close>: no exponent is printed where it is from -4 to below the number of digits; the zeros at the end of the fraction
  are left out.
\<close>

definition py_general :: "nat \<Rightarrow> rat \<Rightarrow> string" where
  "py_general figures x =
     (if x = 0 then ''0''
      else
        let p = max 1 figures; (n, e) = significant p \<bar>x\<bar>; ds = nat_str n;
            whole_frac = (if - 4 \<le> e \<and> e < int p
                          then (if 0 \<le> e then (take (nat e + 1) ds, drop (nat e + 1) ds) else (''0'', replicate (nat (- e) - 1) CHR ''0'' @ ds))
                          else (take 1 ds, drop 1 ds));
            frac = strip_zeros (snd whole_frac);
            ex = (if - 4 \<le> e \<and> e < int p then []
                  else ''e'' @ (if e < 0 then ''-'' else ''+'') @ pad_zeros 2 (nat_str (nat \<bar>e\<bar>)))
        in (if x < 0 then ''-'' else []) @ fst whole_frac @ (if frac = [] then [] else ''.'' @ frac) @ ex)"

lemma nat_str_length_bounds: "0 < n \<Longrightarrow> 10 ^ (length (nat_str n) - 1) \<le> n \<and> n < 10 ^ length (nat_str n)"
proof (induction n rule: nat_str.induct)
  case (1 n)
  show ?case
  proof (cases "n < 10")
    case True
    then have "nat_str n = [digit_char n]" by (subst nat_str.simps) simp
    then show ?thesis using True 1 by simp
  next
    case False
    then have "nat_str n = nat_str (n div 10) @ [digit_char (n mod 10)]" by (subst nat_str.simps) simp
    then have l: "length (nat_str n) = Suc (length (nat_str (n div 10)))" by simp
    obtain k where k: "length (nat_str (n div 10)) = Suc k" by (cases "nat_str (n div 10)") auto
    have "10 ^ k \<le> n div 10" "n div 10 < 10 ^ Suc k" using 1 False k by auto
    moreover from this(1) have "10 * 10 ^ k \<le> 10 * (n div 10)" by (rule mult_le_mono2)
    moreover have "10 * (n div 10) \<le> n" by simp
    moreover from calculation(2) have "10 * Suc (n div 10) \<le> 10 * 10 ^ Suc k" by (intro mult_le_mono2) (rule Suc_leI)
    moreover have "n < 10 * Suc (n div 10)" by presburger
    ultimately show ?thesis unfolding l k by (auto simp del: mult_Suc_right)
  qed
qed

lemma decimal_exponent_bounds:
  assumes "0 < x"
  shows "power10 (decimal_exponent x) \<le> x \<and> x < power10 (decimal_exponent x + 1)"
proof (cases "1 \<le> x")
  case True
  define n where "n = nat \<lfloor>x\<rfloor>"
  obtain k where k: "length (nat_str n) = Suc k" by (cases "nat_str n") auto
  have "of_nat n \<le> x" "x < of_nat n + 1" "0 < n" using True by (simp_all add: n_def) linarith+
  moreover have "10 ^ k \<le> n" "n + 1 \<le> 10 ^ Suc k" using nat_str_length_bounds [OF \<open>0 < n\<close>] k by simp_all
  moreover from this have "(10 ^ k :: rat) \<le> of_nat n" "(of_nat n + 1 :: rat) \<le> 10 ^ Suc k"
    using of_nat_mono [of "10 ^ k" n, where 'a = rat] of_nat_mono [of "n + 1" "10 ^ Suc k", where 'a = rat] by simp_all
  ultimately have "10 ^ k \<le> x" "x < 10 ^ Suc k" by linarith+
  then show ?thesis using True k by (simp add: decimal_exponent_def power10_def n_def nat_add_distrib)
next
  case False
  define n where "n = nat (\<lceil>1 / x\<rceil> - 1)"
  have y: "1 < 1 / x" using False assms by simp
  then have "1 < \<lceil>1 / x\<rceil>" by (simp add: less_ceiling_iff)
  then have n: "of_nat n < 1 / x" "1 / x \<le> of_nat n + 1" "0 < n" unfolding n_def by (simp_all, linarith+)
  obtain k where k: "length (nat_str n) = Suc k" by (cases "nat_str n") auto
  have "10 ^ k \<le> n" "n + 1 \<le> 10 ^ Suc k" using nat_str_length_bounds [OF n(3)] k by simp_all
  then have "(10 ^ k :: rat) \<le> of_nat n" "(of_nat n + 1 :: rat) \<le> 10 ^ Suc k"
    using of_nat_mono [of "10 ^ k" n, where 'a = rat] of_nat_mono [of "n + 1" "10 ^ Suc k", where 'a = rat] by simp_all
  then have "10 ^ k < 1 / x" "1 / x \<le> 10 ^ Suc k" using n by linarith+
  then have "x < 1 / 10 ^ k" "1 / 10 ^ Suc k \<le> x" using assms by (simp_all add: field_simps)
  moreover have "power10 (- int (Suc k)) = 1 / 10 ^ Suc k" by (simp add: power10_def nat_add_distrib)
  moreover have "power10 (- int (Suc k) + 1) = 1 / 10 ^ k" by (simp add: power10_def)
  moreover have "decimal_exponent x = - int (Suc k)" using False k by (simp add: decimal_exponent_def n_def)
  ultimately show ?thesis by simp
qed

lemma power10_int: "power10 e = 10 powi e"
  by (cases "0 \<le> e") (simp_all add: power10_def power_int_def power_one_over inverse_eq_divide)

lemma power10_add: "power10 (a + b) = power10 a * power10 b"
  by (simp add: power10_int power_int_add)

lemma power10_pos [simp]: "0 < power10 e"
  by (simp add: power10_int)

lemma power10_nat: "power10 (int k) = 10 ^ k"
  by (simp add: power10_int)

text \<open>The digits are as many as asked for, and their value is the nearest one.\<close>

lemma significant_near:
  assumes "0 < x" "0 < p" "significant p x = (n, e)"
  shows "10 ^ (p - 1) \<le> n" "n < 10 ^ p"
    "\<bar>of_nat n * power10 (e + 1 - int p) - x\<bar> \<le> power10 (decimal_exponent x + 1 - int p) / 2"
proof -
  define d where "d = decimal_exponent x"
  define y where "y = x * power10 (int p - 1 - d)"
  define m where "m = nat (round_even y)"
  have scaled: "x = y * power10 (d + 1 - int p)"
    by (simp add: y_def mult.assoc flip: power10_add) (simp add: power10_def)
  have "power10 d * power10 (int p - 1 - d) \<le> y" "y < power10 (d + 1) * power10 (int p - 1 - d)"
    using decimal_exponent_bounds [OF assms(1)] unfolding y_def d_def by (simp_all add: mult_right_mono mult_strict_right_mono)
  then have y: "10 ^ (p - 1) \<le> y" "y < 10 ^ p"
    using assms(2) by (simp_all add: of_nat_diff flip: power10_add power10_nat)
  have "of_int (10 ^ (p - 1)) \<le> y" using y(1) by simp
  then have low: "10 ^ (p - 1) \<le> round_even y" by (rule round_even_ge)
  have near: "\<bar>of_int (round_even y) - y\<bar> \<le> 1 / 2" by (rule round_even_near)
  have "(of_int (round_even y) :: rat) < 10 ^ p + 1" using near y(2) by linarith
  then have "(of_int (round_even y) :: rat) < of_int (10 ^ p + 1)" by simp
  then have high: "round_even y \<le> 10 ^ p" by (simp only: of_int_less_iff)
  have pos: "0 \<le> round_even y" using low by (meson order_trans zero_le_numeral zero_le_power)
  have mi: "int m = round_even y" "(of_nat m :: rat) = of_int (round_even y)" using pos by (simp_all add: m_def)
  have "int (10 ^ (p - 1)) \<le> int m" "int m \<le> int (10 ^ p)" using low high mi(1) by simp_all
  then have m: "10 ^ (p - 1) \<le> m" "m \<le> 10 ^ p" by (simp_all only: of_nat_le_iff)
  have "\<bar>of_nat m * power10 (d + 1 - int p) - x\<bar> = \<bar>of_int (round_even y) - y\<bar> * power10 (d + 1 - int p)"
    unfolding mi(2) scaled by (simp only: abs_mult abs_of_pos [OF power10_pos] left_diff_distrib [symmetric])
  also have "\<dots> \<le> 1 / 2 * power10 (d + 1 - int p)" using near by (rule mult_right_mono) (rule less_imp_le [OF power10_pos])
  finally have val: "\<bar>of_nat m * power10 (d + 1 - int p) - x\<bar> \<le> power10 (d + 1 - int p) / 2" by simp
  have s: "(n, e) = (if m = 10 ^ p then (10 ^ (p - 1), d + 1) else (m, d))"
    using assms(3) unfolding significant_def Let_def m_def y_def d_def by (rule sym)
  have "10 ^ p = 10 * (10 ^ (p - 1) :: nat)" "(10 ^ p :: rat) = 10 * 10 ^ (p - 1)" using assms(2) by (cases p; simp)+
  moreover have "power10 (d + 1 + 1 - int p) = 10 * power10 (d + 1 - int p)"
  proof -
    have "d + 1 + 1 - int p = 1 + (d + 1 - int p)" by simp
    then show ?thesis by (simp only: power10_add) (simp add: power10_def [of 1])
  qed
  ultimately show "10 ^ (p - 1) \<le> n" "n < 10 ^ p"
    "\<bar>of_nat n * power10 (e + 1 - int p) - x\<bar> \<le> power10 (decimal_exponent x + 1 - int p) / 2"
    using s m val unfolding d_def [symmetric] by (auto split: if_splits simp: mult.assoc mult.left_commute)
qed

lemma py_general_examples:
  "py_general 3 (1234 / 10) = ''123''" "py_general 2 (999 / 1000) = ''1''" "py_general 4 (3 / 2) = ''1.5''"
  "py_general 2 (- 1234) = ''-1.2e+03''" "py_general 1 (1 / 100) = ''0.01''"
  by code_simp+

lemma py_fixed_examples:
  "py_fixed 2 (1 / 3) = ''0.33''" "py_fixed 2 (- 2 / 3) = ''-0.67''" "py_fixed 2 (1 / 8) = ''0.12''" "py_fixed 2 20 = ''20.00''"
  "py_fixed 0 (5 / 2) = ''2''" "py_fixed 4 (1 / 100) = ''0.0100''"
  by code_simp+

end
