(* ===== verification/Flow_Results.thy ===== *)
theory Flow_Results
  imports Test_Report Py_Float
begin

text \<open>
  \<open>src/flow-monitor/examples/flowmon-parse-results.py\<close>: the flows of a simulation are read from the XML tree that the
  flow monitor writes, and printed.  The XML parser is left out: a document is its tree, as in \<open>Test_Report\<close>.  Floats are their exact
  values; the texts of numbers are in decimal notation, without the names of infinities and the underscores that
  Python allows.
\<close>

section \<open>Numbers\<close>

definition parse_time_ns :: "string option \<Rightarrow> rat result" where
  "parse_time_ns tm =
     (case tm of
        None \<Rightarrow> Inl AttributeError
      | Some t \<Rightarrow> if endswith t ''ns'' then parse_float (take (length t - 2) t) else Inl ValueError)"

section \<open>The tree\<close>

definition attr :: "xml \<Rightarrow> string \<Rightarrow> string option" where
  "attr x k = dict_get (xml_attrs x) k"

definition findall2 :: "string \<Rightarrow> string \<Rightarrow> xml \<Rightarrow> xml list" where
  "findall2 t u x = concat (map (findall u) (findall t x))"

definition float_attr :: "xml \<Rightarrow> string \<Rightarrow> rat result" where
  "float_attr x k = type_error (attr x k) parse_float"

definition int_attr :: "xml \<Rightarrow> string \<Rightarrow> int result" where
  "int_attr x k = type_error (attr x k) parse_int"

section \<open>Flows\<close>

record five_tuple =
  ft_sourceAddress :: "string option"
  ft_destinationAddress :: "string option"
  ft_sourcePort :: int
  ft_destinationPort :: int
  ft_protocol :: int

definition read_five_tuple :: "xml \<Rightarrow> five_tuple result" where
  "read_five_tuple el =
     rbind (int_attr el ''sourcePort'') (\<lambda>sp. rbind (int_attr el ''destinationPort'') (\<lambda>dp. rbind (int_attr el ''protocol'') (\<lambda>pr.
       Inr \<lparr> ft_sourceAddress = attr el ''sourceAddress'', ft_destinationAddress = attr el ''destinationAddress'',
             ft_sourcePort = sp, ft_destinationPort = dp, ft_protocol = pr \<rparr>)))"

type_synonym histogram = "(rat \<times> rat \<times> int) list"

definition read_bin :: "xml \<Rightarrow> (rat \<times> rat \<times> int) result" where
  "read_bin b =
     rbind (float_attr b ''start'') (\<lambda>s. rbind (float_attr b ''width'') (\<lambda>w. rbind (int_attr b ''count'') (\<lambda>c. Inr (s, w, c))))"

definition read_histogram :: "xml \<Rightarrow> histogram result" where
  "read_histogram el = rmap read_bin (findall ''bin'' el)"

record probe_stats =
  pr_probeId :: int
  pr_packets :: int
  pr_bytes :: rat
  pr_delayFromFirstProbe :: rat

text \<open>A five tuple is an attribute that a flow gets later, or never.\<close>

record flow =
  fl_flowId :: int
  fl_rx_duration :: rat
  fl_hopCount :: rat
  fl_delayMean :: "rat option"
  fl_packetSizeMean :: "rat option"
  fl_rxBitrate :: "rat option"
  fl_txBitrate :: "rat option"
  fl_packetLossRatio :: "rat option"
  fl_interruptions :: "histogram option"
  fl_probe_stats :: "probe_stats list"
  fl_fiveTuple :: "five_tuple option"

definition duration :: "xml \<Rightarrow> string \<Rightarrow> string \<Rightarrow> rat result" where
  "duration el last_time first_time =
     rbind (parse_time_ns (attr el last_time)) (\<lambda>b. rbind (parse_time_ns (attr el first_time)) (\<lambda>a.
       Inr ((b - a) * (1 / 1000000000))))"

text \<open>A value that is computed under a condition, and \<open>None\<close> otherwise.\<close>

definition only_if :: "bool \<Rightarrow> 'a result \<Rightarrow> 'a option result" where
  "only_if b v = (if b then rbind v (\<lambda>x. Inr (Some x)) else Inr None)"

definition delay_sum :: "xml \<Rightarrow> rat result" where
  "delay_sum el = type_error (attr el ''delaySum'') (\<lambda>s. parse_float (take (length s - 2) s))"

definition read_flow :: "xml \<Rightarrow> flow result" where
  "read_flow el =
     rbind (int_attr el ''flowId'') (\<lambda>flow_id.
     rbind (float_attr el ''rxPackets'') (\<lambda>rx. rbind (float_attr el ''txPackets'') (\<lambda>tx.
     rbind (duration el ''timeLastTxPacket'' ''timeFirstTxPacket'') (\<lambda>tx_duration.
     rbind (duration el ''timeLastRxPacket'' ''timeFirstRxPacket'') (\<lambda>rx_duration.
     rbind (only_if (rx \<noteq> 0) (float_attr el ''timesForwarded'')) (\<lambda>forwarded.
     rbind (only_if (rx \<noteq> 0) (delay_sum el)) (\<lambda>delay.
     rbind (only_if (rx \<noteq> 0) (float_attr el ''rxBytes'')) (\<lambda>bytes.
     rbind (only_if (0 < rx_duration) (float_attr el ''rxBytes'')) (\<lambda>rx_bytes.
     rbind (only_if (0 < tx_duration) (float_attr el ''txBytes'')) (\<lambda>tx_bytes.
     rbind (float_attr el ''lostPackets'') (\<lambda>lost.
     rbind (if rx = 0 then Inr None
            else if rx + lost = 0 then Inl ZeroDivisionError else Inr (Some (lost / (rx + lost)))) (\<lambda>loss.
     rbind (case xfind ''flowInterruptionsHistogram'' el of None \<Rightarrow> Inr None | Some h \<Rightarrow> rbind (read_histogram h) (\<lambda>x. Inr (Some x))) (\<lambda>hist.
       Inr \<lparr> fl_flowId = flow_id, fl_rx_duration = rx_duration,
             fl_hopCount = (case forwarded of None \<Rightarrow> - 1000 | Some f \<Rightarrow> f / rx + 1),
             fl_delayMean = map_option (\<lambda>d. d / rx * (1 / 1000000000)) delay,
             fl_packetSizeMean = map_option (\<lambda>b. b / rx) bytes,
             fl_rxBitrate = map_option (\<lambda>b. b * 8 / rx_duration) rx_bytes,
             fl_txBitrate = map_option (\<lambda>b. b * 8 / tx_duration) tx_bytes,
             fl_packetLossRatio = loss, fl_interruptions = hist, fl_probe_stats = [], fl_fiveTuple = None \<rparr>)))))))))))))"

section \<open>A simulation\<close>

text \<open>The flows and the dictionary of them: it holds the same objects, here their positions in the list.\<close>

record flow_store =
  fs_flows :: "flow list"
  fs_map :: "(int, nat) dict"

definition add_flow :: "xml \<Rightarrow> flow_store \<Rightarrow> flow_store result" where
  "add_flow el st =
     rbind (read_flow el) (\<lambda>f.
       Inr \<lparr> fs_flows = fs_flows st @ [f], fs_map = dict_set (fs_map st) (fl_flowId f) (length (fs_flows st)) \<rparr>)"

definition change_flow :: "int \<Rightarrow> (flow \<Rightarrow> flow) \<Rightarrow> flow_store \<Rightarrow> flow_store result" where
  "change_flow flow_id f st =
     (case dict_get (fs_map st) flow_id of
        None \<Rightarrow> Inl KeyError
      | Some i \<Rightarrow> Inr (st \<lparr> fs_flows := (fs_flows st)[i := f (fs_flows st ! i)] \<rparr>))"

text \<open>The right hand side of the assignment is read before the flow is looked up.\<close>

definition classify_flow :: "xml \<Rightarrow> flow_store \<Rightarrow> flow_store result" where
  "classify_flow el st =
     rbind (int_attr el ''flowId'') (\<lambda>i. rbind (read_five_tuple el) (\<lambda>t.
       change_flow i (\<lambda>f. f \<lparr> fl_fiveTuple := Some t \<rparr>) st))"

definition read_probe_stats :: "int \<Rightarrow> xml \<Rightarrow> probe_stats result" where
  "read_probe_stats probe el =
     rbind (int_attr el ''packets'') (\<lambda>n. rbind (float_attr el ''bytes'') (\<lambda>b.
     rbind (if 0 < n then rbind (parse_time_ns (attr el ''delayFromFirstProbeSum'')) (\<lambda>d. Inr (d / of_int n)) else Inr 0) (\<lambda>d.
       Inr \<lparr> pr_probeId = probe, pr_packets = n, pr_bytes = b, pr_delayFromFirstProbe = d \<rparr>)))"

definition add_probe_stats :: "int \<Rightarrow> xml \<Rightarrow> flow_store \<Rightarrow> flow_store result" where
  "add_probe_stats probe el st =
     rbind (int_attr el ''flowId'') (\<lambda>i. rbind (read_probe_stats probe el) (\<lambda>s.
       change_flow i (\<lambda>f. f \<lparr> fl_probe_stats := fl_probe_stats f @ [s] \<rparr>) st))"

definition add_probe :: "xml \<Rightarrow> flow_store \<Rightarrow> flow_store result" where
  "add_probe el st =
     rbind (int_attr el ''index'') (\<lambda>p. rfold (add_probe_stats p) (findall ''FlowStats'' el) st)"

definition read_simulation :: "xml \<Rightarrow> flow list result" where
  "read_simulation el =
     (case findall ''Ipv4FlowClassifier'' el of
        [classifier] \<Rightarrow>
          rbind (rfold add_flow (findall2 ''FlowStats'' ''Flow'' el) \<lparr> fs_flows = [], fs_map = [] \<rparr>) (\<lambda>st1.
          rbind (rfold classify_flow (findall ''Flow'' classifier) st1) (\<lambda>st2.
          rbind (rfold add_probe (findall2 ''FlowProbes'' ''FlowProbe'' el) st2) (\<lambda>st3. Inr (fs_flows st3))))
      | _ \<Rightarrow> Inl ValueError)"

section \<open>Printing\<close>

definition tab :: string where
  "tab = [CHR 0x09]"

definition value_line :: "string \<Rightarrow> rat \<Rightarrow> string \<Rightarrow> rat option \<Rightarrow> string" where
  "value_line label scale unit v =
     tab @ label @ '': '' @ (case v of None \<Rightarrow> ''None'' | Some x \<Rightarrow> py_fixed 2 (x * scale) @ unit)"

definition protocol_name :: "int \<Rightarrow> string result" where
  "protocol_name p = (if p = 6 then Inr ''TCP'' else if p = 17 then Inr ''UDP'' else Inl KeyError)"

definition flow_lines :: "flow \<Rightarrow> string list result" where
  "flow_lines f =
     (case fl_fiveTuple f of
        None \<Rightarrow> Inl AttributeError
      | Some t \<Rightarrow>
          rbind (protocol_name (ft_protocol t)) (\<lambda>proto.
            Inr [''FlowID: '' @ int_str (fl_flowId f) @ '' ('' @ proto @ '' '' @ fmt (ft_sourceAddress t) @ ''/''
                   @ int_str (ft_sourcePort t) @ '' --> '' @ fmt (ft_destinationAddress t) @ ''/''
                   @ int_str (ft_destinationPort t) @ '')'',
                 value_line ''TX bitrate'' (1 / 1000) '' kbit/s'' (fl_txBitrate f),
                 value_line ''RX bitrate'' (1 / 1000) '' kbit/s'' (fl_rxBitrate f),
                 value_line ''Mean Delay'' 1000 '' ms'' (fl_delayMean f),
                 value_line ''Packet Loss Ratio'' 100 '' %'' (fl_packetLossRatio f)]))"

text \<open>\<open>main\<close> after the parsing: what is printed about the flows, and the exception that ends it.\<close>

fun print_flows :: "flow list \<Rightarrow> string list \<times> unit result" where
  "print_flows [] = ([], Inr ())"
| "print_flows (f # fs) =
     (case flow_lines f of
        Inl e \<Rightarrow> ([], Inl e)
      | Inr ls \<Rightarrow> (case print_flows fs of (out, r) \<Rightarrow> (ls @ out, r)))"

definition flow_main :: "xml \<Rightarrow> string list \<times> unit result" where
  "flow_main doc =
     (if xml_tag doc \<noteq> ''FlowMonitor'' then ([], Inr ())
      else (case read_simulation doc of Inl e \<Rightarrow> ([], Inl e) | Inr flows \<Rightarrow> print_flows flows))"

section \<open>Loss ratios\<close>

lemma only_if_Inr: "only_if b v = Inr o1 \<longleftrightarrow> (if b then \<exists>x. v = Inr x \<and> o1 = Some x else o1 = None)"
  by (auto simp: only_if_def rbind_simps)

lemma read_flow_loss:
  assumes "read_flow el = Inr f"
  shows "\<exists>rx lost. float_attr el ''rxPackets'' = Inr rx \<and> float_attr el ''lostPackets'' = Inr lost
    \<and> fl_packetLossRatio f = (if rx = 0 then None else Some (lost / (rx + lost))) \<and> int_attr el ''flowId'' = Inr (fl_flowId f)
    \<and> fl_fiveTuple f = None \<and> fl_probe_stats f = []"
  using assms unfolding read_flow_def by (auto simp: rbind_eq_Inr split: if_splits)

text \<open>The loss ratio of a flow is a proportion, and that of a flow that received nothing is none, although all of its
  packets are lost then.\<close>

lemma loss_ratio_bounds:
  assumes "read_flow el = Inr f" "float_attr el ''rxPackets'' = Inr rx" "float_attr el ''lostPackets'' = Inr lost" "0 \<le> rx" "0 \<le> lost"
  shows "if rx = 0 then fl_packetLossRatio f = None else \<exists>r. fl_packetLossRatio f = Some r \<and> 0 \<le> r \<and> r < 1"
proof -
  have "fl_packetLossRatio f = (if rx = 0 then None else Some (lost / (rx + lost)))"
    using read_flow_loss [OF assms(1)] assms(2,3) by auto
  moreover have "0 \<le> lost / (rx + lost) \<and> lost / (rx + lost) < 1" if "rx \<noteq> 0"
    using assms(4,5) that by simp
  ultimately show ?thesis by simp
qed

section \<open>Flows and their addresses\<close>

text \<open>The store finds each identifier; when the identifiers differ, a change of a flow is a change of the list.\<close>

definition store_ok :: "flow_store \<Rightarrow> bool" where
  "store_ok st \<longleftrightarrow>
     (\<forall>i n. dict_get (fs_map st) i = Some n \<longrightarrow> n < length (fs_flows st) \<and> fl_flowId (fs_flows st ! n) = i)
     \<and> fl_flowId ` set (fs_flows st) \<subseteq> set (dict_keys (fs_map st))"

lemma map_update_nth:
  assumes "distinct (map h xs)" "n < length xs"
  shows "xs[n := g (xs ! n)] = map (\<lambda>x. if h x = h (xs ! n) then g x else x) xs"
proof (rule nth_equalityI)
  fix j
  assume j: "j < length (xs[n := g (xs ! n)])"
  then have "h (xs ! j) = h (xs ! n) \<longleftrightarrow> j = n" using nth_eq_iff_index_eq [OF assms(1), of j n] assms(2) by simp
  then show "xs[n := g (xs ! n)] ! j = map (\<lambda>x. if h x = h (xs ! n) then g x else x) xs ! j"
    using j assms(2) by (simp add: nth_list_update)
qed simp

lemma change_flow_map:
  assumes "store_ok st" "distinct (map fl_flowId (fs_flows st))" "change_flow i g st = Inr st'"
  shows "fs_flows st' = map (\<lambda>f. if fl_flowId f = i then g f else f) (fs_flows st) \<and> fs_map st' = fs_map st"
proof -
  obtain n where n: "dict_get (fs_map st) i = Some n" "st' = st \<lparr> fs_flows := (fs_flows st)[n := g (fs_flows st ! n)] \<rparr>"
    using assms(3) by (auto simp: change_flow_def split: option.splits)
  then have "n < length (fs_flows st)" "fl_flowId (fs_flows st ! n) = i" using assms(1) by (auto simp: store_ok_def)
  with map_update_nth [OF assms(2), of n g] n show ?thesis by simp
qed

lemma store_ok_map:
  assumes "store_ok st" "fs_map st' = fs_map st" "map fl_flowId (fs_flows st') = map fl_flowId (fs_flows st)"
  shows "store_ok st'"
proof -
  have l: "length (fs_flows st') = length (fs_flows st)" using assms(3) by (rule map_eq_imp_length_eq)
  have "fl_flowId (fs_flows st' ! n) = fl_flowId (fs_flows st ! n)" if "n < length (fs_flows st)" for n
    using arg_cong [OF assms(3), of "\<lambda>xs. xs ! n"] that l by simp
  moreover have "fl_flowId ` set (fs_flows st') = fl_flowId ` set (fs_flows st)" using assms(3) by (metis set_map)
  ultimately show ?thesis using assms(1,2) l by (auto simp: store_ok_def)
qed

lemma add_flows:
  assumes "rfold add_flow els st = Inr st'" "store_ok st"
  shows "store_ok st' \<and> (\<exists>fs. fs_flows st' = fs_flows st @ fs \<and> list_all2 (\<lambda>el f. read_flow el = Inr f) els fs)"
  using assms
proof (induction els arbitrary: st)
  case (Cons el els)
  obtain f where f: "read_flow el = Inr f" using Cons.prems(1) by (auto simp: add_flow_def rbind_eq_Inr)
  let ?st = "\<lparr> fs_flows = fs_flows st @ [f], fs_map = dict_set (fs_map st) (fl_flowId f) (length (fs_flows st)) \<rparr>"
  have ok: "store_ok ?st"
    using Cons.prems(2) unfolding store_ok_def by (auto simp: nth_append less_SucI simp del: set_map)
  have "add_flow el st = Inr ?st" by (simp add: add_flow_def f)
  then have "rfold add_flow els ?st = Inr st'" using Cons.prems(1) by simp
  from Cons.IH [OF this ok] f show ?case by auto
qed simp

text \<open>The addresses of an identifier: those of its last entry.\<close>

fun entry_of :: "int \<Rightarrow> xml list \<Rightarrow> five_tuple option" where
  "entry_of i [] = None"
| "entry_of i (x # xs) =
     (case entry_of i xs of
        Some t \<Rightarrow> Some t
      | None \<Rightarrow> if int_attr x ''flowId'' = Inr i then (case read_five_tuple x of Inl e \<Rightarrow> None | Inr t \<Rightarrow> Some t) else None)"

definition classified :: "xml list \<Rightarrow> flow \<Rightarrow> flow" where
  "classified xs f = (case entry_of (fl_flowId f) xs of None \<Rightarrow> f | Some t \<Rightarrow> f \<lparr> fl_fiveTuple := Some t \<rparr>)"

lemma classify_flows:
  assumes "rfold classify_flow xs st = Inr st'" "store_ok st" "distinct (map fl_flowId (fs_flows st))"
  shows "fs_flows st' = map (classified xs) (fs_flows st) \<and> fs_map st' = fs_map st"
  using assms
proof (induction xs arbitrary: st)
  case Nil
  then show ?case by (simp add: classified_def)
next
  case (Cons x xs)
  from Cons.prems(1) obtain i t st1 where x: "int_attr x ''flowId'' = Inr i" "read_five_tuple x = Inr t"
    "change_flow i (\<lambda>f. f \<lparr> fl_fiveTuple := Some t \<rparr>) st = Inr st1" "rfold classify_flow xs st1 = Inr st'"
    unfolding rfold.simps rbind_eq_Inr classify_flow_def by blast
  note c = change_flow_map [OF Cons.prems(2,3) x(3)]
  have ids: "map fl_flowId (fs_flows st1) = map fl_flowId (fs_flows st)" using c by simp
  have ok: "store_ok st1" using store_ok_map [OF Cons.prems(2) _ ids] c by simp
  have "fs_flows st' = map (classified xs) (fs_flows st1)" "fs_map st' = fs_map st"
    using Cons.IH [OF x(4) ok, unfolded ids, OF Cons.prems(3)] c by simp_all
  then show ?case using c x(1,2) by (auto simp: classified_def split: option.splits)
qed

text \<open>The probes leave identifiers and addresses as they are.\<close>

definition same_flows :: "flow_store \<Rightarrow> flow_store \<Rightarrow> bool" where
  "same_flows st st' \<longleftrightarrow> map (\<lambda>f. (fl_flowId f, fl_fiveTuple f)) (fs_flows st') = map (\<lambda>f. (fl_flowId f, fl_fiveTuple f)) (fs_flows st)"

lemma same_flows_fold: "(\<And>x s s'. f x s = Inr s' \<Longrightarrow> same_flows s s') \<Longrightarrow> rfold f xs s = Inr s' \<Longrightarrow> same_flows s s'"
  by (induction xs arbitrary: s) (auto simp: rbind_eq_Inr same_flows_def)

lemma map_update_same: "h (g (xs ! n)) = h (xs ! n) \<Longrightarrow> map h (xs[n := g (xs ! n)]) = map h xs"
  by (cases "n < length xs") (simp_all add: map_update list_update_same_conv list_update_beyond)

lemma probe_stats_same: "add_probe_stats p x st = Inr st' \<Longrightarrow> same_flows st st'"
  by (auto simp: add_probe_stats_def rbind_eq_Inr change_flow_def same_flows_def map_update_same split: option.splits)

lemma probes_same: "rfold add_probe xs st = Inr st' \<Longrightarrow> same_flows st st'"
  by (rule same_flows_fold) (auto simp: add_probe_def rbind_eq_Inr intro: same_flows_fold [OF probe_stats_same])

lemma classify_ids: "rfold classify_flow xs st = Inr st' \<Longrightarrow> map fl_flowId (fs_flows st') = map fl_flowId (fs_flows st)"
proof (induction xs arbitrary: st)
  case (Cons x xs)
  from Cons.prems obtain i t st1 where x: "change_flow i (\<lambda>f. f \<lparr> fl_fiveTuple := Some t \<rparr>) st = Inr st1" "rfold classify_flow xs st1 = Inr st'"
    unfolding rfold.simps rbind_eq_Inr classify_flow_def by blast
  have "map fl_flowId (fs_flows st1) = map fl_flowId (fs_flows st)"
    using x(1) by (auto simp: change_flow_def map_update_same split: option.splits)
  then show ?case using Cons.IH [OF x(2)] by simp
qed simp

text \<open>C33 The flows of a simulation are those of the document, in their order.  When their identifiers differ, each of them
  has the addresses of the last entry of the classifier for it, and none if there is no entry.\<close>

theorem simulation_flows:
  assumes "read_simulation el = Inr flows"
  shows "\<exists>classifier. findall ''Ipv4FlowClassifier'' el = [classifier]
    \<and> list_all2 (\<lambda>x f. int_attr x ''flowId'' = Inr (fl_flowId f)) (findall2 ''FlowStats'' ''Flow'' el) flows
    \<and> (distinct (map fl_flowId flows) \<longrightarrow> (\<forall>f \<in> set flows. fl_fiveTuple f = entry_of (fl_flowId f) (findall ''Flow'' classifier)))"
proof -
  let ?es = "findall2 ''FlowStats'' ''Flow'' el"
  obtain classifier st1 st2 st3 where c: "findall ''Ipv4FlowClassifier'' el = [classifier]"
    and 1: "rfold add_flow ?es \<lparr> fs_flows = [], fs_map = [] \<rparr> = Inr st1"
    and 2: "rfold classify_flow (findall ''Flow'' classifier) st1 = Inr st2"
    and 3: "rfold add_probe (findall2 ''FlowProbes'' ''FlowProbe'' el) st2 = Inr st3" "flows = fs_flows st3"
    using assms by (auto simp: read_simulation_def rbind_eq_Inr split: list.splits)
  have ok: "store_ok st1" "list_all2 (\<lambda>x f. read_flow x = Inr f) ?es (fs_flows st1)"
    using add_flows [OF 1] by (auto simp: store_ok_def)
  have same: "map fl_flowId flows = map fl_flowId (fs_flows st2)" "map fl_fiveTuple flows = map fl_fiveTuple (fs_flows st2)"
    using arg_cong [OF probes_same [OF 3(1), unfolded same_flows_def], of "map fst"]
      arg_cong [OF probes_same [OF 3(1), unfolded same_flows_def], of "map snd"] by (simp_all add: 3(2) comp_def)
  have ids: "map fl_flowId flows = map fl_flowId (fs_flows st1)" using classify_ids [OF 2] same(1) by simp
  have "list_all2 (\<lambda>x i. int_attr x ''flowId'' = Inr i) ?es (map fl_flowId (fs_flows st1))"
    using ok(2) read_flow_loss unfolding list_all2_map2 by (auto elim!: list_all2_mono)
  then have "list_all2 (\<lambda>x f. int_attr x ''flowId'' = Inr (fl_flowId f)) ?es flows"
    unfolding ids [symmetric] list_all2_map2 .
  moreover have "fl_fiveTuple f = entry_of (fl_flowId f) (findall ''Flow'' classifier)"
    if d: "distinct (map fl_flowId flows)" and f: "f \<in> set flows" for f
  proof -
    obtain n where n: "n < length flows" "f = flows ! n" using f by (metis in_set_conv_nth)
    have l: "length (fs_flows st1) = length flows" "length (fs_flows st2) = length flows"
      using ids same(1) by (metis length_map)+
    have "fs_flows st2 = map (classified (findall ''Flow'' classifier)) (fs_flows st1)"
      using classify_flows [OF 2 ok(1)] d ids by simp
    moreover have "fl_fiveTuple f = fl_fiveTuple (fs_flows st2 ! n)" "fl_flowId f = fl_flowId (fs_flows st1 ! n)"
      using arg_cong [OF same(2), of "\<lambda>xs. xs ! n"] arg_cong [OF ids, of "\<lambda>xs. xs ! n"] n l by simp_all
    moreover have "fl_fiveTuple (fs_flows st1 ! n) = None"
      using list_all2_nthD2 [OF ok(2), of n] read_flow_loss n l by fastforce
    ultimately show ?thesis using n l by (auto simp: classified_def split: option.splits)
  qed
  ultimately show ?thesis using c by blast
qed

definition sample_entry :: "string \<Rightarrow> xml" where
  "sample_entry proto = Elem ''Flow'' [(''flowId'', ''1''), (''sourceAddress'', ''10.1.1.1''), (''destinationAddress'', ''10.1.1.2''),
     (''protocol'', proto), (''sourcePort'', ''53''), (''destinationPort'', ''9'')] None []"

definition sample_flow :: xml where
  "sample_flow = Elem ''Flow'' [(''flowId'', ''1''), (''rxPackets'', ''4''), (''txPackets'', ''5''), (''lostPackets'', ''1''),
     (''timeFirstTxPacket'', ''+1e9ns''), (''timeLastTxPacket'', ''+2e9ns''), (''timeFirstRxPacket'', ''+1e9ns''),
     (''timeLastRxPacket'', ''+1e9ns''), (''delaySum'', ''+8e6ns''), (''rxBytes'', ''400''), (''txBytes'', ''500''),
     (''timesForwarded'', ''0'')] None []"

definition sample_monitor :: "string \<Rightarrow> xml" where
  "sample_monitor proto = Elem ''FlowMonitor'' [] None
     [Elem ''FlowStats'' [] None [sample_flow], Elem ''Ipv4FlowClassifier'' [] None [sample_entry proto]]"

lemma sample_attrs:
  "int_attr sample_flow ''flowId'' = Inr 1" "float_attr sample_flow ''rxPackets'' = Inr 4" "float_attr sample_flow ''txPackets'' = Inr 5"
  "float_attr sample_flow ''lostPackets'' = Inr 1" "float_attr sample_flow ''rxBytes'' = Inr 400"
  "float_attr sample_flow ''txBytes'' = Inr 500" "float_attr sample_flow ''timesForwarded'' = Inr 0"
  "parse_time_ns (attr sample_flow ''timeFirstTxPacket'') = Inr 1000000000" "parse_time_ns (attr sample_flow ''timeLastTxPacket'') = Inr 2000000000"
  "parse_time_ns (attr sample_flow ''timeFirstRxPacket'') = Inr 1000000000" "parse_time_ns (attr sample_flow ''timeLastRxPacket'') = Inr 1000000000"
  "delay_sum sample_flow = Inr 8000000" "xfind ''flowInterruptionsHistogram'' sample_flow = None"
  by code_simp+

lemma sample_classified: "read_flow sample_flow = Inr f \<Longrightarrow>
  classify_flow (sample_entry ''17'') \<lparr> fs_flows = [f], fs_map = [(1, 0)] \<rparr> =
    rbind (read_five_tuple (sample_entry ''17'')) (\<lambda>t. Inr \<lparr> fs_flows = [f \<lparr> fl_fiveTuple := Some t \<rparr>], fs_map = [(1, 0)] \<rparr>)"
proof -
  have "int_attr (sample_entry ''17'') ''flowId'' = Inr 1" by code_simp
  then show ?thesis by (simp add: classify_flow_def change_flow_def)
qed

theorem simulation_flows_witness:
  "\<exists>f. read_simulation (sample_monitor ''17'') = Inr [f] \<and> fl_flowId f = 1 \<and> map_option ft_destinationPort (fl_fiveTuple f) = Some 9"
proof -
  have "\<exists>f. read_flow sample_flow = Inr f" by (simp add: read_flow_def duration_def only_if_def sample_attrs)
  then obtain f where r: "read_flow sample_flow = Inr f" ..
  then have id: "fl_flowId f = 1" using read_flow_loss [OF r] by (simp add: sample_attrs)
  have d: "findall2 ''FlowStats'' ''Flow'' (sample_monitor ''17'') = [sample_flow]"
    "findall ''Ipv4FlowClassifier'' (sample_monitor ''17'') = [Elem ''Ipv4FlowClassifier'' [] None [sample_entry ''17'']]"
    "findall ''Flow'' (Elem ''Ipv4FlowClassifier'' [] None [sample_entry ''17'']) = [sample_entry ''17'']"
    by (simp_all add: sample_monitor_def sample_flow_def sample_entry_def findall2_def findall_def)
  have p: "findall2 ''FlowProbes'' ''FlowProbe'' (sample_monitor ''17'') = []"
    by (simp add: sample_monitor_def findall2_def findall_def)
  have "\<not> isl (read_five_tuple (sample_entry ''17''))" by code_simp
  then obtain t where t: "read_five_tuple (sample_entry ''17'') = Inr t" by (cases "read_five_tuple (sample_entry ''17'')") simp_all
  have i: "int_attr (sample_entry ''17'') ''flowId'' = Inr 1" by code_simp
  from t obtain flows where f: "read_simulation (sample_monitor ''17'') = Inr flows"
    by (simp add: read_simulation_def d p r id add_flow_def sample_classified [OF r])
  have "map_option ft_destinationPort (entry_of 1 [sample_entry ''17'']) = Some 9" by code_simp
  then have e: "ft_destinationPort t = 9" by (simp add: i t)
  show ?thesis using simulation_flows [OF f] by (auto simp: d f sample_attrs list_all2_Cons1 e i t)
qed

text \<open>A flow of another protocol than TCP and UDP, or without an entry in the classifier, ends the output.\<close>

lemma other_flow_ends_output:
  "fl_fiveTuple f = None \<Longrightarrow> print_flows (f # fs) = ([], Inl AttributeError)"
  "fl_fiveTuple f = Some t \<Longrightarrow> ft_protocol t = 1 \<Longrightarrow> print_flows (f # fs) = ([], Inl KeyError)"
  by (simp_all add: flow_lines_def protocol_name_def)

end
