(* ===== verification/Ns3_Build.thy ===== *)
theory Ns3_Build
  imports Py_Path
begin

text \<open>
  The build of the top \<open>wscript\<close> with the methods that \<open>src/wscript\<close> adds to the build context: which
  modules are built, which task generators are taken out again, and which programs and scripts can be run.
  A task generator of waf is a record with the attributes that these scripts read and write; \<open>get_tgen_by_name\<close> and
  the scripts of the modules, which call the methods, are parameters.
\<close>

section \<open>The modules that are needed\<close>

text \<open>
  The state of the loop over the dependencies: the enabled modules, the enabled contributed modules and the
  flag \<open>changed\<close>.  The two lists of all modules are \<open>known\<close> and \<open>contrib\<close>; \<open>tgen_use\<close> is the attribute \<open>use\<close> of the
  task generator of a name, nothing when there is none, or an exception of the search.
\<close>

type_synonym closing = "string list \<times> string list \<times> bool"

definition add_dependency :: "string list \<Rightarrow> string list \<Rightarrow> string \<Rightarrow> closing \<Rightarrow> closing result" where
  "add_dependency known contrib dep st =
     (case st of (modules, contribModules, changed) \<Rightarrow>
        if \<not> startswith dep ''ns3-'' then Inr st
        else if dep \<notin> set modules \<and> dep \<notin> set contribModules then
          (if dep \<in> set known then Inr (modules @ [dep], contribModules, True)
           else if dep \<in> set contrib then Inr (modules, contribModules @ [dep], True)
           else Inl (sys_exit 1))
        else Inr st)"

definition add_dependencies :: "string list \<Rightarrow> string list \<Rightarrow> (string \<Rightarrow> string list option result)
    \<Rightarrow> string \<Rightarrow> closing \<Rightarrow> closing result" where
  "add_dependencies known contrib tgen_use module st =
     rbind (tgen_use module) (\<lambda>module_obj.
       case module_obj of None \<Rightarrow> Inl ValueError
       | Some use \<Rightarrow> rfold (add_dependency known contrib) use st)"

text \<open>One pass over the modules that were enabled when it began.\<close>

definition dependency_pass :: "string list \<Rightarrow> string list \<Rightarrow> (string \<Rightarrow> string list option result)
    \<Rightarrow> string list \<times> string list \<Rightarrow> ((string list \<times> string list) \<times> bool) result" where
  "dependency_pass known contrib tgen_use enabled =
     (case enabled of (modules, contribModules) \<Rightarrow>
        rbind (rfold (add_dependencies known contrib tgen_use) (modules @ contribModules) (modules, contribModules, False))
          (\<lambda>(modules', contribModules', changed). Inr ((modules', contribModules'), changed)))"

definition all_enabled :: "string list \<times> string list \<Rightarrow> string set" where
  "all_enabled enabled = set (fst enabled) \<union> set (snd enabled)"

text \<open>What a module needs, as a relation.\<close>

definition needs :: "(string \<Rightarrow> string list option result) \<Rightarrow> (string \<times> string) set" where
  "needs tgen_use = {(m, d). \<exists>use. tgen_use m = Inr (Some use) \<and> d \<in> set use \<and> startswith d ''ns3-''}"

lemma needs_image_iff:
  "d \<in> needs f `` A \<longleftrightarrow> (\<exists>m \<in> A. \<exists>use. f m = Inr (Some use) \<and> d \<in> set use \<and> startswith d ''ns3-'')"
  by (auto simp: needs_def)

text \<open>What one dependency, the dependencies of one module and a whole pass add.\<close>

lemma add_dependency_Inl:
  assumes "add_dependency known contrib dep (ms, cs, ch) = Inl e"
  shows "e = sys_exit 1 \<and> startswith dep ''ns3-'' \<and> dep \<notin> set ms \<union> set cs \<union> set known \<union> set contrib"
  using assms by (auto simp: add_dependency_def split: if_splits)

lemma added_trans:
  assumes "\<exists>xs ys. ms1 = ms @ xs \<and> cs1 = cs @ ys \<and> set xs \<subseteq> K \<and> set ys \<subseteq> C
             \<and> distinct (xs @ ys) \<and> set (xs @ ys) \<inter> (set ms \<union> set cs) = {}"
    and "\<exists>xs ys. ms2 = ms1 @ xs \<and> cs2 = cs1 @ ys \<and> set xs \<subseteq> K \<and> set ys \<subseteq> C
             \<and> distinct (xs @ ys) \<and> set (xs @ ys) \<inter> (set ms1 \<union> set cs1) = {}"
  shows "\<exists>xs ys. ms2 = ms @ xs \<and> cs2 = cs @ ys \<and> set xs \<subseteq> K \<and> set ys \<subseteq> C
             \<and> distinct (xs @ ys) \<and> set (xs @ ys) \<inter> (set ms \<union> set cs) = {}"
proof -
  obtain xs ys where 1: "ms1 = ms @ xs" "cs1 = cs @ ys" "set xs \<subseteq> K" "set ys \<subseteq> C"
    "distinct (xs @ ys)" "set (xs @ ys) \<inter> (set ms \<union> set cs) = {}" using assms(1) by blast
  obtain us vs where 2: "ms2 = ms1 @ us" "cs2 = cs1 @ vs" "set us \<subseteq> K" "set vs \<subseteq> C"
    "distinct (us @ vs)" "set (us @ vs) \<inter> (set ms1 \<union> set cs1) = {}" using assms(2) by blast
  show ?thesis
    by (rule exI [of _ "xs @ us"], rule exI [of _ "ys @ vs"]) (use 1 2 in auto)
qed

text \<open>The same three facts for a list of steps that each have them.\<close>

definition adds :: "string set \<Rightarrow> string set \<Rightarrow> string set \<Rightarrow> closing \<Rightarrow> closing \<Rightarrow> bool" where
  "adds K C new st st' \<longleftrightarrow>
     (case (st, st') of ((ms, cs, ch), (ms', cs', ch')) \<Rightarrow>
        set ms' \<union> set cs' = set ms \<union> set cs \<union> new
        \<and> (ch' \<longleftrightarrow> ch \<or> set ms' \<union> set cs' \<noteq> set ms \<union> set cs)
        \<and> (\<exists>xs ys. ms' = ms @ xs \<and> cs' = cs @ ys \<and> set xs \<subseteq> K \<and> set ys \<subseteq> C
             \<and> distinct (xs @ ys) \<and> set (xs @ ys) \<inter> (set ms \<union> set cs) = {}))"

lemma adds_refl: "adds K C {} st st"
  by (cases st) (simp add: adds_def)

lemma adds_trans:
  assumes "adds K C A st st1" and "adds K C B st1 st2"
  shows "adds K C (A \<union> B) st st2"
proof -
  obtain ms cs ch where st: "st = (ms, cs, ch)" by (cases st)
  obtain ms1 cs1 ch1 where st1: "st1 = (ms1, cs1, ch1)" by (cases st1)
  obtain ms2 cs2 ch2 where st2: "st2 = (ms2, cs2, ch2)" by (cases st2)
  have s1: "set ms1 \<union> set cs1 = set ms \<union> set cs \<union> A" "ch1 \<longleftrightarrow> ch \<or> set ms1 \<union> set cs1 \<noteq> set ms \<union> set cs"
    and s2: "set ms2 \<union> set cs2 = set ms1 \<union> set cs1 \<union> B" "ch2 \<longleftrightarrow> ch1 \<or> set ms2 \<union> set cs2 \<noteq> set ms1 \<union> set cs1"
    using assms unfolding adds_def st st1 st2 by auto
  have sets: "set ms2 \<union> set cs2 = set ms \<union> set cs \<union> (A \<union> B)" using s1(1) s2(1) by blast
  have flag: "ch2 \<longleftrightarrow> ch \<or> set ms2 \<union> set cs2 \<noteq> set ms \<union> set cs"
    unfolding s2(2) s1(2) using s1(1) s2(1) by blast
  have grow: "\<exists>xs ys. ms2 = ms @ xs \<and> cs2 = cs @ ys \<and> set xs \<subseteq> K \<and> set ys \<subseteq> C
             \<and> distinct (xs @ ys) \<and> set (xs @ ys) \<inter> (set ms \<union> set cs) = {}"
    using assms unfolding adds_def st st1 st2 prod.case by (intro added_trans [of ms1 ms cs1 cs K C ms2 cs2]) blast+
  show ?thesis unfolding adds_def st st2 prod.case using sets flag grow by blast
qed

lemma rfold_closing:
  assumes "\<And>x s s'. x \<in> set xs \<Longrightarrow> f x s = Inr s' \<Longrightarrow> adds K C (new x) s s'" and "rfold f xs st = Inr st'"
  shows "adds K C (\<Union>x \<in> set xs. new x) st st'"
  using assms
proof (induction xs arbitrary: st)
  case Nil
  then show ?case by (simp add: adds_refl)
next
  case (Cons x xs)
  from Cons.prems(2) obtain s where s: "f x st = Inr s" "rfold f xs s = Inr st'" by (auto simp: rbind_eq_Inr)
  have "adds K C (new x) st s" using Cons.prems(1) s(1) by simp
  moreover have "adds K C (\<Union>x \<in> set xs. new x) s st'" using Cons.IH [OF _ s(2)] Cons.prems(1) by simp
  ultimately show ?case by (auto dest: adds_trans)
qed

lemma add_dependency_adds:
  assumes "add_dependency known contrib dep st = Inr st'"
  shows "adds (set known) (set contrib - set known) (if startswith dep ''ns3-'' then {dep} else {}) st st'"
proof -
  obtain ms cs ch where st: "st = (ms, cs, ch)" by (cases st)
  consider (other) "\<not> startswith dep ''ns3-''" "st' = st"
    | (there) "startswith dep ''ns3-''" "dep \<in> set ms \<union> set cs" "st' = st"
    | (mod) "startswith dep ''ns3-''" "dep \<notin> set ms \<union> set cs" "dep \<in> set known" "st' = (ms @ [dep], cs, True)"
    | (con) "startswith dep ''ns3-''" "dep \<notin> set ms \<union> set cs" "dep \<in> set contrib - set known" "st' = (ms, cs @ [dep], True)"
    using assms unfolding add_dependency_def st by (auto split: if_splits)
  then show ?thesis
  proof cases
    case other
    then show ?thesis by (simp add: adds_refl)
  next
    case there
    then show ?thesis by (auto simp: adds_def st)
  next
    case mod
    then show ?thesis by (auto simp: adds_def st)
  next
    case con
    then show ?thesis by (auto simp: adds_def st)
  qed
qed

lemma add_dependencies_adds:
  assumes "add_dependencies known contrib tgen_use m st = Inr st'"
  shows "adds (set known) (set contrib - set known) (needs tgen_use `` {m}) st st'"
proof -
  from assms obtain use where use: "tgen_use m = Inr (Some use)" "rfold (add_dependency known contrib) use st = Inr st'"
    by (auto simp: add_dependencies_def rbind_eq_Inr split: option.splits)
  have "(\<Union>d \<in> set use. if startswith d ''ns3-'' then {d} else {}) = needs tgen_use `` {m}"
    using use(1) by (auto simp: needs_def)
  then show ?thesis
    using rfold_closing [of use "add_dependency known contrib" _ _ "\<lambda>d. if startswith d ''ns3-'' then {d} else {}",
        OF add_dependency_adds use(2)] by simp
qed

lemma pass_adds:
  assumes "dependency_pass known contrib tgen_use (ms, cs) = Inr ((ms', cs'), ch)"
  shows "adds (set known) (set contrib - set known) (needs tgen_use `` (set ms \<union> set cs)) (ms, cs, False) (ms', cs', ch)"
proof -
  have "rfold (add_dependencies known contrib tgen_use) (ms @ cs) (ms, cs, False) = Inr (ms', cs', ch)"
    using assms by (auto simp: dependency_pass_def rbind_eq_Inr)
  from rfold_closing [OF add_dependencies_adds this]
  have "adds (set known) (set contrib - set known) (\<Union>m \<in> set (ms @ cs). needs tgen_use `` {m}) (ms, cs, False) (ms', cs', ch)" .
  moreover have "(\<Union>m \<in> set (ms @ cs). needs tgen_use `` {m}) = needs tgen_use `` (set ms \<union> set cs)" by auto
  ultimately show ?thesis by simp
qed

lemma pass_facts:
  assumes "dependency_pass known contrib tgen_use enabled = Inr (enabled', ch)"
  shows pass_all_enabled: "all_enabled enabled' = all_enabled enabled \<union> needs tgen_use `` all_enabled enabled"
    and pass_flag: "ch \<longleftrightarrow> all_enabled enabled' \<noteq> all_enabled enabled"
    and pass_known: "all_enabled enabled' \<subseteq> all_enabled enabled \<union> (set known \<union> set contrib)"
proof -
  obtain ms cs where en: "enabled = (ms, cs)" by (cases enabled)
  obtain ms' cs' where en': "enabled' = (ms', cs')" by (cases enabled')
  note * = pass_adds [OF assms [unfolded en en']]
  show "all_enabled enabled' = all_enabled enabled \<union> needs tgen_use `` all_enabled enabled"
    "ch \<longleftrightarrow> all_enabled enabled' \<noteq> all_enabled enabled"
    using * by (simp_all add: adds_def all_enabled_def en en')
  from * obtain xs ys where "ms' = ms @ xs" "cs' = cs @ ys" "set xs \<subseteq> set known" "set ys \<subseteq> set contrib - set known"
    unfolding adds_def prod.case by blast
  then show "all_enabled enabled' \<subseteq> all_enabled enabled \<union> (set known \<union> set contrib)"
    by (auto simp: all_enabled_def en en')
qed

lemma pass_failure:
  assumes "dependency_pass known contrib tgen_use (ms, cs) = Inl e"
  shows "(\<exists>m \<in> set ms \<union> set cs. tgen_use m = Inl e \<or> tgen_use m = Inr None \<and> e = ValueError)
    \<or> e = sys_exit 1 \<and> \<not> needs tgen_use `` (set ms \<union> set cs) \<subseteq> set ms \<union> set cs \<union> set known \<union> set contrib"
proof -
  have run: "rfold (add_dependencies known contrib tgen_use) (ms @ cs) (ms, cs, False) = Inl e"
    using assms by (auto simp: dependency_pass_def rbind_eq_Inl)
  obtain pre m post st where split: "ms @ cs = pre @ m # post"
    and pre: "rfold (add_dependencies known contrib tgen_use) pre (ms, cs, False) = Inr st"
    and fail: "add_dependencies known contrib tgen_use m st = Inl e"
    using rfold_Inl_split [OF run] by blast
  have m: "m \<in> set ms \<union> set cs" using split by (metis in_set_conv_decomp set_append)
  obtain ms1 cs1 ch1 where st: "st = (ms1, cs1, ch1)" by (cases st)
  have sub1: "set ms \<union> set cs \<subseteq> set ms1 \<union> set cs1"
    using rfold_closing [OF add_dependencies_adds pre] by (auto simp: adds_def st)
  show ?thesis
  proof (cases "\<exists>use. tgen_use m = Inr (Some use)")
    case False
    then show ?thesis using fail m by (auto simp: add_dependencies_def rbind_eq_Inl split: option.splits)
  next
    case True
    then obtain use where use: "tgen_use m = Inr (Some use)" by blast
    with fail have "rfold (add_dependency known contrib) use st = Inl e" by (simp add: add_dependencies_def)
    from rfold_Inl_split [OF this] obtain pre d post st2 where d: "use = pre @ d # post"
      and pre2: "rfold (add_dependency known contrib) pre st = Inr st2"
      and fail2: "add_dependency known contrib d st2 = Inl e" by blast
    obtain ms2 cs2 ch2 where st2: "st2 = (ms2, cs2, ch2)" by (cases st2)
    have sub2: "set ms1 \<union> set cs1 \<subseteq> set ms2 \<union> set cs2"
      using rfold_closing [OF add_dependency_adds pre2] by (auto simp: adds_def st st2)
    from add_dependency_Inl [OF fail2 [unfolded st2]] sub1 sub2
    have "e = sys_exit 1" "startswith d ''ns3-''" "d \<notin> set ms \<union> set cs \<union> set known \<union> set contrib" by auto
    moreover have "d \<in> needs tgen_use `` (set ms \<union> set cs)"
      unfolding needs_image_iff
      by (rule bexI [OF _ m], rule exI [of _ use]) (use use d calculation(2) in simp)
    ultimately show ?thesis by blast
  qed
qed

lemma pass_enables_more:
  assumes "dependency_pass known contrib tgen_use enabled = Inr (enabled', True)"
  shows "card (set known \<union> set contrib - all_enabled enabled') < card (set known \<union> set contrib - all_enabled enabled)"
proof -
  have "all_enabled enabled \<subset> all_enabled enabled'" using pass_all_enabled [OF assms] pass_flag [OF assms] by blast
  then have "set known \<union> set contrib - all_enabled enabled' \<subset> set known \<union> set contrib - all_enabled enabled"
    using pass_known [OF assms] by blast
  then show ?thesis by (rule psubset_card_mono [rotated]) simp
qed

text \<open>The loop \<open>while changed\<close>: every pass that changes something enables a module of the finite lists.\<close>

function close_dependencies :: "string list \<Rightarrow> string list \<Rightarrow> (string \<Rightarrow> string list option result)
    \<Rightarrow> string list \<times> string list \<Rightarrow> (string list \<times> string list) result" where
  "close_dependencies known contrib tgen_use enabled =
     (case dependency_pass known contrib tgen_use enabled of
        Inl e \<Rightarrow> Inl e
      | Inr (enabled', changed) \<Rightarrow>
          if changed then close_dependencies known contrib tgen_use enabled' else Inr enabled')"
  by pat_completeness auto

termination
  by (relation "measure (\<lambda>(known, contrib, tgen_use, enabled). card (set known \<union> set contrib - all_enabled enabled))")
    (auto dest: pass_enables_more)

declare close_dependencies.simps [simp del]

section \<open>Passes that saturate a set\<close>

text \<open>
  A loop whose pass adds the successors of what it found at its beginning, and says whether that changed
  anything, ends with everything that can be reached; when a pass fails, so does the loop.
\<close>

locale saturating_pass =
  fixes pass :: "'s \<Rightarrow> ('s \<times> bool) result"
    and items :: "'s \<Rightarrow> 'a set"
    and succ :: "('a \<times> 'a) set"
    and universe :: "'a set"
  assumes pass_adds_successors: "pass s = Inr (s', ch) \<Longrightarrow> items s' = items s \<union> succ `` items s"
    and pass_tells_change: "pass s = Inr (s', ch) \<Longrightarrow> ch \<longleftrightarrow> items s' \<noteq> items s"
    and pass_stays: "pass s = Inr (s', ch) \<Longrightarrow> items s' \<subseteq> items s \<union> universe"
begin

inductive settles :: "'s \<Rightarrow> 's result \<Rightarrow> bool" where
  failed: "pass s = Inl e \<Longrightarrow> settles s (Inl e)"
| stop: "pass s = Inr (s', False) \<Longrightarrow> settles s (Inr s')"
| again: "pass s = Inr (s', True) \<Longrightarrow> settles s' r \<Longrightarrow> settles s r"

lemma pass_within: "pass s = Inr (s', ch) \<Longrightarrow> items s \<subseteq> items s' \<and> items s' \<subseteq> succ\<^sup>* `` items s"
  using pass_adds_successors [of s s' ch] by auto

lemma reach_pass: "pass s = Inr (s', ch) \<Longrightarrow> succ\<^sup>* `` items s' = succ\<^sup>* `` items s"
  using pass_adds_successors [of s s' ch] by (auto intro: converse_rtrancl_into_rtrancl)

lemma settles_reach: "settles s (Inr t) \<Longrightarrow> items t = succ\<^sup>* `` items s"
proof (induction s "Inr t :: 's result" rule: settles.induct)
  case (stop s)
  have eq: "items t = items s" using pass_tells_change [OF stop] by simp
  then have closed: "succ `` items t \<subseteq> items t" using pass_adds_successors [OF stop] by auto
  have "y \<in> items t" if "(x, y) \<in> succ\<^sup>*" "x \<in> items t" for x y
    using that by (induction rule: rtrancl_induct) (use closed in auto)
  then show ?case using eq by auto
next
  case (again s s')
  then show ?case using reach_pass by blast
qed

lemma settles_stays: "settles s (Inr t) \<Longrightarrow> items t \<subseteq> items s \<union> universe"
proof (induction s "Inr t :: 's result" rule: settles.induct)
  case (again s s')
  then show ?case using pass_stays [OF again(1)] by blast
qed (rule pass_stays)

lemma settles_failure:
  "settles s (Inl e) \<Longrightarrow>
     \<exists>t. items s \<subseteq> items t \<and> items t \<subseteq> items s \<union> universe \<and> items t \<subseteq> succ\<^sup>* `` items s \<and> pass t = Inl e"
proof (induction s "Inl e :: 's result" rule: settles.induct)
  case (failed s)
  then show ?case by blast
next
  case (again s s')
  then obtain t where "items s' \<subseteq> items t" "items t \<subseteq> items s' \<union> universe" "items t \<subseteq> succ\<^sup>* `` items s'" "pass t = Inl e" by blast
  moreover have "items s \<subseteq> items t" using pass_within [OF again(1)] calculation(1) by blast
  moreover have "items t \<subseteq> items s \<union> universe" using pass_stays [OF again(1)] calculation(2) by blast
  moreover have "items t \<subseteq> succ\<^sup>* `` items s" using reach_pass [OF again(1)] calculation(3) by simp
  ultimately show ?case by (intro exI [of _ t] conjI)
qed

end

interpretation module_closure: saturating_pass "dependency_pass known contrib tgen_use" all_enabled "needs tgen_use" "set known \<union> set contrib"
  for known contrib tgen_use
  by unfold_locales (rule pass_all_enabled pass_flag pass_known, assumption)+

lemma close_settles:
  "module_closure.settles known contrib tgen_use enabled (close_dependencies known contrib tgen_use enabled)"
proof (induction known contrib tgen_use enabled rule: close_dependencies.induct)
  case (1 known contrib tgen_use enabled)
  show ?case
  proof (cases "dependency_pass known contrib tgen_use enabled")
    case (Inl e)
    then show ?thesis by (subst close_dependencies.simps) (simp add: module_closure.settles.failed)
  next
    case (Inr r)
    obtain enabled' changed where r: "r = (enabled', changed)" by (cases r)
    show ?thesis
    proof (cases changed)
      case True
      then show ?thesis
        using module_closure.settles.again [OF Inr [unfolded r True [THEN eqTrueI]] 1 [OF Inr r [symmetric] True]] Inr r
        by (subst close_dependencies.simps) simp
    next
      case False
      then show ?thesis
        using module_closure.settles.stop Inr r by (subst close_dependencies.simps) simp
    qed
  qed
qed

lemma close_within:
  assumes "close_dependencies known contrib tgen_use enabled = Inr closed"
  shows "all_enabled closed \<subseteq> all_enabled enabled \<union> set known \<union> set contrib"
  using module_closure.settles_stays close_settles [of known contrib tgen_use enabled] unfolding assms Un_assoc by blast

lemma close_reach:
  assumes "close_dependencies known contrib tgen_use enabled = Inr closed"
  shows "all_enabled closed = (needs tgen_use)\<^sup>* `` all_enabled enabled"
  using module_closure.settles_reach close_settles [of known contrib tgen_use enabled] unfolding assms by blast

lemma close_closed:
  assumes "close_dependencies known contrib tgen_use enabled = Inr closed"
  shows "needs tgen_use `` all_enabled closed \<subseteq> all_enabled closed"
  unfolding close_reach [OF assms] by (auto intro: rtrancl_into_rtrancl)

text \<open>When every module has a task generator, the loop over the dependencies always ends.  It ends with exactly the
  modules that the enabled ones need directly or indirectly, if these are all modules of the two lists; if
  one is not, and only then, the build exits with status 1.\<close>

lemma close_dependencies_decides:
  assumes "\<forall>m \<in> all_enabled enabled \<union> set known \<union> set contrib. \<exists>use. tgen_use m = Inr (Some use)"
  shows "if (needs tgen_use)\<^sup>* `` all_enabled enabled \<subseteq> all_enabled enabled \<union> set known \<union> set contrib
    then \<exists>closed. close_dependencies known contrib tgen_use enabled = Inr closed
           \<and> all_enabled closed = (needs tgen_use)\<^sup>* `` all_enabled enabled
    else close_dependencies known contrib tgen_use enabled = Inl (sys_exit 1)"
proof (cases "close_dependencies known contrib tgen_use enabled")
  case (Inr closed)
  show ?thesis using close_reach [OF Inr] close_within [OF Inr] Inr by simp
next
  case (Inl e)
  from module_closure.settles_failure [OF close_settles [of known contrib tgen_use enabled, unfolded Inl]]
  obtain t where t: "all_enabled enabled \<subseteq> all_enabled t" "all_enabled t \<subseteq> all_enabled enabled \<union> (set known \<union> set contrib)"
      "all_enabled t \<subseteq> (needs tgen_use)\<^sup>* `` all_enabled enabled"
    and fail: "dependency_pass known contrib tgen_use t = Inl e" by blast
  obtain ms cs where ms: "t = (ms, cs)" by (cases t)
  have gens: "\<exists>use. tgen_use m = Inr (Some use)" if "m \<in> set ms \<union> set cs" for m
    using assms t(2) that unfolding all_enabled_def ms by auto
  then have *: "(\<exists>m \<in> set ms \<union> set cs. tgen_use m = Inl e \<or> tgen_use m = Inr None \<and> e = ValueError) = False" by fastforce
  have "e = sys_exit 1" and out: "\<not> needs tgen_use `` all_enabled t \<subseteq> all_enabled t \<union> set known \<union> set contrib"
    using pass_failure [OF fail [unfolded ms]] unfolding * by (simp_all add: all_enabled_def ms)
  moreover have "needs tgen_use `` all_enabled t \<subseteq> (needs tgen_use)\<^sup>* `` all_enabled enabled"
    using t(3) by (auto intro: rtrancl_into_rtrancl)
  ultimately show ?thesis using Inl t(1) by auto
qed

section \<open>Task generators\<close>

text \<open>
  The attributes that the scripts look at.  An object is told from another by its number; \<open>features\<close> is the text
  given at the creation, which waf splits later; an attribute that need not be there is an option or a flag.
\<close>

record tgen =
  tg_id :: nat
  tg_name :: string
  tg_features :: string
  tg_target :: string
  tg_path :: string
  tg_module :: string
  tg_use :: "string list"
  ns3_module_dependencies :: "string list option"
  is_ns3_program :: bool
  is_ns3_module :: bool
  is_ns3_module_test_library :: bool
  tg_module_name :: string
  tg_mode :: "string option"

record bld_config =
  APP :: string
  VER :: string
  BUILD_SUFFIX :: string
  ALL_MODULES :: "string list"
  ALL_CONTRIBUTED_MODULES :: "string list"
  TESTS_ENABLED :: bool
  SUDO_ENABLED :: bool
  cwd_dir :: string
  launch_dir :: string

record bld_state =
  groups :: "tgen list list"
  current_group :: nat
  next_id :: nat
  enabled_modules :: "string list \<times> string list"
  NS3_MODULES_WITH_TEST_LIBRARIES :: "(string \<times> string) list"
  NS3_ENABLED_MODULE_TEST_LIBRARIES :: "string list"
  NS3_SCRIPT_DEPENDENCIES :: "(string \<times> string list) list"
  NS3_RUNNABLE_PROGRAMS :: "string list"
  NS3_RUNNABLE_SCRIPTS :: "string list"

definition ns3_prefix :: "string \<Rightarrow> string" where
  "ns3_prefix name = ''ns3-'' @ name"

definition object_name :: "bld_config \<Rightarrow> string \<Rightarrow> string" where
  "object_name cfg name = APP cfg @ VER cfg @ ''-'' @ name @ BUILD_SUFFIX cfg"

text \<open>A new task generator, made in the directory \<open>path\<close>, goes into the current group.\<close>

definition new_tgen :: "string \<Rightarrow> string \<Rightarrow> bld_state \<Rightarrow> tgen" where
  "new_tgen path features s =
     \<lparr> tg_id = next_id s, tg_name = '''', tg_features = features, tg_target = '''', tg_path = path, tg_module = '''',
       tg_use = [], ns3_module_dependencies = None, is_ns3_program = False, is_ns3_module = False,
       is_ns3_module_test_library = False, tg_module_name = '''', tg_mode = None \<rparr>"

definition add_tgen :: "tgen \<Rightarrow> bld_state \<Rightarrow> bld_state" where
  "add_tgen t s =
     s \<lparr> groups := (groups s)[current_group s := groups s ! current_group s @ [t]], next_id := next_id s + 1 \<rparr>"

text \<open>
  A module is followed by the generator of its \<open>.pc\<close> file; \<open>up\<close> is the way from the directory of the module to the top.
  A test library is a module under another name that loses the attribute \<open>is_ns3_module\<close>.
\<close>

definition module_tgen :: "bld_config \<Rightarrow> bool \<Rightarrow> string \<Rightarrow> string \<Rightarrow> string \<Rightarrow> string list \<Rightarrow> bld_state \<Rightarrow> tgen" where
  "module_tgen cfg static path up name dependencies s =
     (new_tgen path (if static then ''cxx cxxstlib ns3module'' else ''cxx cxxshlib ns3module'') s)
       \<lparr> tg_name := ns3_prefix name,
         tg_target := up @ ''/lib/ns'' @ VER cfg @ ''-'' @ name @ BUILD_SUFFIX cfg,
         tg_use := map ns3_prefix dependencies, is_ns3_module := True \<rparr>"

definition add_pcfile :: "string \<Rightarrow> string \<Rightarrow> bld_state \<Rightarrow> bld_state" where
  "add_pcfile path module s = add_tgen ((new_tgen path ''ns3pcfile'' s) \<lparr> tg_module := module \<rparr>) s"

definition create_ns3_module :: "bld_config \<Rightarrow> bool \<Rightarrow> string \<Rightarrow> string \<Rightarrow> string \<Rightarrow> string list \<Rightarrow> bld_state \<Rightarrow> bld_state" where
  "create_ns3_module cfg static path up name dependencies s =
     add_pcfile path (ns3_prefix name) (add_tgen (module_tgen cfg static path up name dependencies s) s)"

definition create_ns3_module_test_library :: "bld_config \<Rightarrow> bool \<Rightarrow> string \<Rightarrow> string \<Rightarrow> string \<Rightarrow> bld_state \<Rightarrow> bld_state" where
  "create_ns3_module_test_library cfg static path up name s =
     (let library_name = name @ ''-test'';
          library = module_tgen cfg static path up library_name [name] s;
          library' = library \<lparr> tg_features := tg_features library @ '' ns3testlib'', is_ns3_module := False,
                       is_ns3_module_test_library := True, tg_module_name := ns3_prefix name \<rparr>;
          s' = add_pcfile path (ns3_prefix library_name) (add_tgen library' s)
      in s' \<lparr> NS3_MODULES_WITH_TEST_LIBRARIES :=
               NS3_MODULES_WITH_TEST_LIBRARIES s' @ [(tg_module_name library', tg_name library')] \<rparr>)"

definition program_tgen :: "bld_config \<Rightarrow> string \<Rightarrow> string \<Rightarrow> string list \<Rightarrow> bld_state \<Rightarrow> tgen" where
  "program_tgen cfg path name dependencies s =
     (new_tgen path ''cxx cxxprogram'' s)
       \<lparr> is_ns3_program := True, tg_name := name, tg_target := object_name cfg name,
         ns3_module_dependencies := Some (map ns3_prefix dependencies), tg_use := map ns3_prefix dependencies \<rparr>"

definition create_ns3_program :: "bld_config \<Rightarrow> string \<Rightarrow> string \<Rightarrow> string list \<Rightarrow> bld_state \<Rightarrow> bld_state" where
  "create_ns3_program cfg path name dependencies s = add_tgen (program_tgen cfg path name dependencies s) s"

text \<open>A program with the suid bit has a group of its own and no list of dependencies.\<close>

definition create_suid_program :: "bld_config \<Rightarrow> string \<Rightarrow> string \<Rightarrow> bld_state \<Rightarrow> bld_state" where
  "create_suid_program cfg path name s =
     (let s1 = s \<lparr> groups := groups s @ [[]], current_group := length (groups s) \<rparr>;
          s2 = add_tgen ((new_tgen path ''cxx cxxprogram'' s1)
                 \<lparr> is_ns3_program := True, tg_name := name, tg_target := object_name cfg name \<rparr>) s1
      in s2 \<lparr> current_group := current_group s \<rparr>)"

definition register_ns3_script :: "string \<Rightarrow> string list \<Rightarrow> bld_state \<Rightarrow> bld_state" where
  "register_ns3_script name dependencies s =
     s \<lparr> NS3_SCRIPT_DEPENDENCIES := NS3_SCRIPT_DEPENDENCIES s @ [(name, map ns3_prefix dependencies)] \<rparr>"

text \<open>
  The programs in the directory \<open>scratch\<close>, whose entries say whether they are directories: one program for a
  directory, one for a file \<open>.cc\<close>, linked with all enabled modules.  Their target is their name alone.
\<close>

definition add_scratch_program :: "bld_config \<Rightarrow> string \<Rightarrow> string list \<Rightarrow> string \<Rightarrow> string \<Rightarrow> bld_state \<Rightarrow> bld_state" where
  "add_scratch_program cfg top_dir modules dir name s =
     add_tgen ((program_tgen cfg top_dir name modules s) \<lparr> tg_path := dir, tg_target := name, tg_name := name \<rparr>) s"

definition add_scratch_entry :: "bld_config \<Rightarrow> string \<Rightarrow> string list \<Rightarrow> string \<times> bool \<Rightarrow> bld_state \<Rightarrow> bld_state" where
  "add_scratch_entry cfg top_dir modules entry s =
     (case entry of (filename, is_dir) \<Rightarrow>
        if startswith filename ''.'' \<or> filename = ''CVS'' then s
        else if is_dir then
          add_scratch_program cfg top_dir modules (path_join (path_join top_dir ''scratch'') filename) filename s
        else if endswith filename ''.cc'' then
          add_scratch_program cfg top_dir modules (path_join top_dir ''scratch'')
            (take (length filename - length ''.cc'') filename) s
        else s)"

definition add_scratch_programs :: "bld_config \<Rightarrow> string \<Rightarrow> (string \<times> bool) list option \<Rightarrow> bld_state \<Rightarrow> bld_state" where
  "add_scratch_programs cfg top_dir entries s =
     (let modules = map (drop (length ''ns3-'')) (fst (enabled_modules s) @ snd (enabled_modules s))
      in case entries of None \<Rightarrow> s | Some es \<Rightarrow> fold (add_scratch_entry cfg top_dir modules) es s)"

section \<open>Taking out what is not built\<close>

definition get_all_task_gen :: "bld_state \<Rightarrow> tgen list" where
  "get_all_task_gen s = concat (groups s)"

text \<open>The first object with that identity is removed, in the first group that has it.\<close>

fun remove_tgen :: "nat \<Rightarrow> tgen list \<Rightarrow> tgen list" where
  "remove_tgen i [] = []"
| "remove_tgen i (t # ts) = (if tg_id t = i then ts else t # remove_tgen i ts)"

fun exclude_from :: "nat \<Rightarrow> tgen list list \<Rightarrow> tgen list list" where
  "exclude_from i [] = []"
| "exclude_from i (g # gs) = (if i \<in> tg_id ` set g then remove_tgen i g # gs else g # exclude_from i gs)"

definition exclude_taskgen :: "tgen \<Rightarrow> bld_state \<Rightarrow> bld_state" where
  "exclude_taskgen obj s = s \<lparr> groups := exclude_from (tg_id obj) (groups s) \<rparr>"

definition find_ns3_module :: "bld_state \<Rightarrow> string \<Rightarrow> tgen result" where
  "find_ns3_module s name =
     (case find (\<lambda>obj. is_ns3_module obj \<and> tg_name obj = name) (get_all_task_gen s) of
        None \<Rightarrow> Inl KeyError | Some obj \<Rightarrow> Inr obj)"

definition set_mode_remove :: "tgen \<Rightarrow> bld_state \<Rightarrow> bld_state" where
  "set_mode_remove obj s =
     s \<lparr> groups := map (map (\<lambda>t. if tg_id t = tg_id obj then t \<lparr> tg_mode := Some ''remove'' \<rparr> else t)) (groups s) \<rparr>"

definition disabled :: "string list \<times> string list \<Rightarrow> string \<Rightarrow> bool" where
  "disabled enabled name \<longleftrightarrow> name \<notin> set (fst enabled) \<and> name \<notin> set (snd enabled)"

definition runnable_path :: "bld_config \<Rightarrow> tgen \<Rightarrow> string" where
  "runnable_path cfg obj =
     path_join (relpath (cwd_dir cfg) (tg_path obj) (abspath (cwd_dir cfg) (launch_dir cfg)))
       (object_name cfg (tg_name obj))"

text \<open>
  The checks of one object, in their order.  The path of a record of this model is already the one in the build
  directory.
\<close>

definition check_program :: "bld_config \<Rightarrow> string list \<times> string list \<Rightarrow> tgen \<Rightarrow> bld_state \<Rightarrow> bld_state" where
  "check_program cfg enabled obj s =
     (case ns3_module_dependencies obj of
        None \<Rightarrow> s
      | Some deps \<Rightarrow>
          if list_ex (disabled enabled) deps then exclude_taskgen obj s
          else s \<lparr> NS3_RUNNABLE_PROGRAMS := NS3_RUNNABLE_PROGRAMS s @ [runnable_path cfg obj] \<rparr>)"

definition check_object :: "bld_config \<Rightarrow> string list \<times> string list \<Rightarrow> tgen \<Rightarrow> bld_state \<Rightarrow> bld_state" where
  "check_object cfg enabled obj s =
     (let off = disabled enabled (ns3_prefix (tg_module obj));
          has = (\<lambda>f. contains_str f (tg_features obj));
          drop_if = (\<lambda>b st. if b then exclude_taskgen obj st else st);
          remove_if = (\<lambda>b st. if b then set_mode_remove obj st else st);
          s1 = remove_if (has ''ns3moduleheader'' \<and> off) s;
          s2 = check_program cfg enabled obj s1;
          s3 = drop_if (is_ns3_module obj \<and> disabled enabled (tg_name obj)) s2;
          s4 = drop_if (is_ns3_module_test_library obj \<and> (\<not> TESTS_ENABLED cfg \<or> disabled enabled (tg_module_name obj))) s3;
          s5 = remove_if (has ''ns3header'' \<and> off) s4;
          s6 = remove_if (has ''ns3privateheader'' \<and> off) s5;
          s7 = drop_if (has ''ns3pcfile'' \<and> disabled enabled (tg_module obj)) s6;
          s8 = drop_if (contains_str ''pybindgen'' (tg_name obj) \<and> off) s7
      in drop_if (has ''pyext'' \<and> off) s8)"

definition exclude_disabled :: "bld_config \<Rightarrow> bld_state \<Rightarrow> bld_state" where
  "exclude_disabled cfg s = fold (check_object cfg (enabled_modules s)) (get_all_task_gen s) s"

text \<open>The scripts: \<open>modules\<close> is only assigned when some module is enabled.\<close>

definition any_enabled :: "bld_state \<Rightarrow> bool" where
  "any_enabled s \<longleftrightarrow> fst (enabled_modules s) \<noteq> [] \<or> snd (enabled_modules s) \<noteq> []"

definition determine_script :: "bool \<Rightarrow> string \<times> string list \<Rightarrow> bld_state \<Rightarrow> bld_state result" where
  "determine_script bound entry s =
     (case entry of (script, dependencies) \<Rightarrow>
        if dependencies \<noteq> [] \<and> \<not> bound then Inl UnboundLocalError
        else if list_ex (disabled (enabled_modules s)) dependencies then Inr s
        else Inr (s \<lparr> NS3_RUNNABLE_SCRIPTS := NS3_RUNNABLE_SCRIPTS s @ [script] \<rparr>))"

definition determine_scripts :: "bld_state \<Rightarrow> bld_state result" where
  "determine_scripts s = rfold (determine_script (any_enabled s)) (NS3_SCRIPT_DEPENDENCIES s) s"

section \<open>The build\<close>

definition enable_needed :: "bld_config \<Rightarrow> (string \<Rightarrow> tgen option result) \<Rightarrow> bld_state \<Rightarrow> bld_state result" where
  "enable_needed cfg get_tgen_by_name s =
     rbind (close_dependencies (ALL_MODULES cfg) (ALL_CONTRIBUTED_MODULES cfg)
              (\<lambda>m. rbind (get_tgen_by_name m) (\<lambda>obj. Inr (map_option tg_use obj))) (enabled_modules s)) (\<lambda>enabled.
       let libs = map snd (filter (\<lambda>(module, testlib). \<not> disabled enabled module) (NS3_MODULES_WITH_TEST_LIBRARIES s))
       in Inr (s \<lparr> enabled_modules := enabled,
                NS3_ENABLED_MODULE_TEST_LIBRARIES :=
                  NS3_ENABLED_MODULE_TEST_LIBRARIES s @ (if TESTS_ENABLED cfg then libs else []) \<rparr>))"

text \<open>
  The scripts of the modules run first, those of the examples after the modules are known; they are the
  parameters \<open>recurse_modules\<close> and \<open>recurse_examples\<close>.
\<close>

definition build_modules :: "bld_config \<Rightarrow> (bld_state \<Rightarrow> string \<Rightarrow> tgen option result) \<Rightarrow> (bld_state \<Rightarrow> bld_state result)
    \<Rightarrow> (bld_state \<Rightarrow> bld_state result) \<Rightarrow> string \<Rightarrow> (string \<times> bool) list option \<Rightarrow> bld_state \<Rightarrow> bld_state result" where
  "build_modules cfg get_tgen_by_name recurse_modules recurse_examples top_dir scratch s =
     rbind (recurse_modules (s \<lparr> NS3_MODULES_WITH_TEST_LIBRARIES := [], NS3_ENABLED_MODULE_TEST_LIBRARIES := [],
              NS3_SCRIPT_DEPENDENCIES := [], NS3_RUNNABLE_PROGRAMS := [], NS3_RUNNABLE_SCRIPTS := [] \<rparr>)) (\<lambda>s1.
     rbind (if any_enabled s1 then enable_needed cfg (get_tgen_by_name s1) s1 else Inr s1) (\<lambda>s2.
     rbind (recurse_examples s2) (\<lambda>s3.
       let s4 = add_scratch_programs cfg top_dir scratch s3
       in determine_scripts (if any_enabled s4 then exclude_disabled cfg s4 else s4))))"

section \<open>What is taken out\<close>

definition distinct_ids :: "bld_state \<Rightarrow> bool" where
  "distinct_ids s \<longleftrightarrow> distinct (map tg_id (get_all_task_gen s))"

text \<open>When an object stays, and when its headers are removed instead of installed.\<close>

definition stays :: "bld_config \<Rightarrow> string list \<times> string list \<Rightarrow> tgen \<Rightarrow> bool" where
  "stays cfg enabled obj \<longleftrightarrow>
     (case ns3_module_dependencies obj of None \<Rightarrow> True | Some deps \<Rightarrow> \<forall>d \<in> set deps. \<not> disabled enabled d)
     \<and> (is_ns3_module obj \<longrightarrow> \<not> disabled enabled (tg_name obj))
     \<and> (is_ns3_module_test_library obj \<longrightarrow> TESTS_ENABLED cfg \<and> \<not> disabled enabled (tg_module_name obj))
     \<and> (contains_str ''ns3pcfile'' (tg_features obj) \<longrightarrow> \<not> disabled enabled (tg_module obj))
     \<and> (contains_str ''pybindgen'' (tg_name obj) \<or> contains_str ''pyext'' (tg_features obj)
        \<longrightarrow> \<not> disabled enabled (ns3_prefix (tg_module obj)))"

definition withdrawn :: "string list \<times> string list \<Rightarrow> tgen \<Rightarrow> bool" where
  "withdrawn enabled obj \<longleftrightarrow>
     disabled enabled (ns3_prefix (tg_module obj))
     \<and> (contains_str ''ns3moduleheader'' (tg_features obj) \<or> contains_str ''ns3header'' (tg_features obj)
        \<or> contains_str ''ns3privateheader'' (tg_features obj))"

definition final_mode :: "string list \<times> string list \<Rightarrow> tgen \<Rightarrow> tgen" where
  "final_mode enabled obj = (if withdrawn enabled obj then obj \<lparr> tg_mode := Some ''remove'' \<rparr> else obj)"

definition runnable :: "string list \<times> string list \<Rightarrow> tgen \<Rightarrow> bool" where
  "runnable enabled obj \<longleftrightarrow>
     (case ns3_module_dependencies obj of None \<Rightarrow> False | Some deps \<Rightarrow> \<forall>d \<in> set deps. \<not> disabled enabled d)"

lemma stays_iff:
  "stays cfg enabled obj \<longleftrightarrow>
     (\<forall>deps. ns3_module_dependencies obj = Some deps \<longrightarrow> (\<forall>d \<in> set deps. \<not> disabled enabled d))
     \<and> (is_ns3_module obj \<longrightarrow> \<not> disabled enabled (tg_name obj))
     \<and> (is_ns3_module_test_library obj \<longrightarrow> TESTS_ENABLED cfg \<and> \<not> disabled enabled (tg_module_name obj))
     \<and> (contains_str ''ns3pcfile'' (tg_features obj) \<longrightarrow> \<not> disabled enabled (tg_module obj))
     \<and> (contains_str ''pybindgen'' (tg_name obj) \<or> contains_str ''pyext'' (tg_features obj)
        \<longrightarrow> \<not> disabled enabled (ns3_prefix (tg_module obj)))"
  by (cases "ns3_module_dependencies obj") (simp_all add: stays_def del: contains_str.simps)

lemma runnable_iff:
  "runnable enabled obj \<longleftrightarrow> (\<exists>deps. ns3_module_dependencies obj = Some deps \<and> (\<forall>d \<in> set deps. \<not> disabled enabled d))"
  by (cases "ns3_module_dependencies obj") (simp_all add: runnable_def)

text \<open>The effect of one object on the groups, in a normal form that is closed under composition.\<close>

definition mark :: "bool \<Rightarrow> tgen \<Rightarrow> tgen" where
  "mark b t = (if b then t \<lparr> tg_mode := Some ''remove'' \<rparr> else t)"

lemma mark_id [simp]: "tg_id (mark b t) = tg_id t"
  by (simp add: mark_def)

lemma mark_mark [simp]: "mark b (mark c t) = mark (c \<or> b) t"
  by (simp add: mark_def)

lemma mark_False [simp]: "mark False t = t"
  by (simp add: mark_def)

definition touch :: "bool \<Rightarrow> bool \<Rightarrow> nat \<Rightarrow> tgen list list \<Rightarrow> tgen list list" where
  "touch keep remove i gs = map (\<lambda>g. map (\<lambda>t. mark (tg_id t = i \<and> remove) t) (filter (\<lambda>t. tg_id t \<noteq> i \<or> keep) g)) gs"

lemma touch_nothing [simp]: "touch True False i gs = gs"
  by (simp add: touch_def map_idI)

lemma mark_filter:
  "map (\<lambda>t. mark (b2 (tg_id t)) t) (filter (\<lambda>t. k2 (tg_id t)) (map (\<lambda>t. mark (b1 (tg_id t)) t) (filter (\<lambda>t. k1 (tg_id t)) g)))
   = map (\<lambda>t. mark (b1 (tg_id t) \<or> b2 (tg_id t)) t) (filter (\<lambda>t. k1 (tg_id t) \<and> k2 (tg_id t)) g)"
  by (simp only: filter_map comp_def map_map mark_id mark_mark filter_filter)

lemma touch_touch [simp]: "touch k2 r2 i (touch k1 r1 i gs) = touch (k1 \<and> k2) (r1 \<or> r2) i gs"
proof -
  have "map (\<lambda>t. mark (tg_id t = i \<and> r2) t) (filter (\<lambda>t. tg_id t \<noteq> i \<or> k2)
          (map (\<lambda>t. mark (tg_id t = i \<and> r1) t) (filter (\<lambda>t. tg_id t \<noteq> i \<or> k1) g)))
      = map (\<lambda>t. mark (tg_id t = i \<and> (r1 \<or> r2)) t) (filter (\<lambda>t. tg_id t \<noteq> i \<or> (k1 \<and> k2)) g)" for g
    unfolding mark_filter [of "\<lambda>j. j = i \<and> r2" "\<lambda>j. j \<noteq> i \<or> k2" "\<lambda>j. j = i \<and> r1" "\<lambda>j. j \<noteq> i \<or> k1"]
    by (simp only: conj_disj_distribL [symmetric] disj_conj_distribL [symmetric])
  then show ?thesis unfolding touch_def map_map comp_def by (rule map_cong [OF refl])
qed

lemma remove_tgen_filter: "distinct (map tg_id g) \<Longrightarrow> remove_tgen i g = filter (\<lambda>t. tg_id t \<noteq> i) g"
proof (induction g)
  case (Cons t g)
  show ?case
  proof (cases "tg_id t = i")
    case True
    then have "\<forall>u \<in> set g. tg_id u \<noteq> i" using Cons.prems by (force simp: image_iff)
    then show ?thesis using True by (simp add: filter_id_conv)
  next
    case False
    then show ?thesis using Cons by simp
  qed
qed simp

lemma exclude_from_touch: "distinct (map tg_id (concat gs)) \<Longrightarrow> exclude_from i gs = touch False False i gs"
proof (induction gs)
  case Nil
  then show ?case by (simp add: touch_def)
next
  case (Cons g gs)
  show ?case
  proof (cases "i \<in> tg_id ` set g")
    case True
    then have "\<forall>h \<in> set gs. \<forall>t \<in> set h. tg_id t \<noteq> i" using Cons.prems by auto
    then have "filter (\<lambda>t. tg_id t \<noteq> i) h = h" if "h \<in> set gs" for h using that by (simp add: filter_id_conv)
    then have "touch False False i gs = gs" by (simp add: touch_def map_idI)
    then show ?thesis using True Cons.prems by (simp add: touch_def remove_tgen_filter)
  next
    case False
    then have "filter (\<lambda>t. tg_id t \<noteq> i) g = g" by (auto simp: filter_id_conv)
    then show ?thesis using False Cons by (simp add: touch_def)
  qed
qed

lemma ids_touch: "map tg_id (concat (touch k r i gs)) = filter (\<lambda>j. j \<noteq> i \<or> k) (map tg_id (concat gs))"
  by (induction gs) (auto simp: touch_def filter_map comp_def)

lemma distinct_ids_touch [simp]:
  "distinct_ids s \<Longrightarrow> distinct_ids (s \<lparr> groups := touch k r i (groups s) \<rparr>)"
  unfolding distinct_ids_def get_all_task_gen_def by (simp add: ids_touch)

lemma exclude_taskgen_touch:
  "distinct_ids s \<Longrightarrow> exclude_taskgen obj s = s \<lparr> groups := touch False False (tg_id obj) (groups s) \<rparr>"
  by (simp add: exclude_taskgen_def distinct_ids_def get_all_task_gen_def exclude_from_touch)

lemma set_mode_remove_touch: "set_mode_remove obj s = s \<lparr> groups := touch True True (tg_id obj) (groups s) \<rparr>"
  by (simp add: set_mode_remove_def touch_def mark_def)

lemma check_program_touch:
  assumes "distinct_ids s"
  shows "check_program cfg enabled obj s =
     s \<lparr> groups := touch (\<forall>deps. ns3_module_dependencies obj = Some deps \<longrightarrow> (\<forall>d \<in> set deps. \<not> disabled enabled d)) False
                    (tg_id obj) (groups s),
         NS3_RUNNABLE_PROGRAMS := NS3_RUNNABLE_PROGRAMS s
           @ (if runnable enabled obj then [runnable_path cfg obj] else []) \<rparr>"
proof (cases "ns3_module_dependencies obj")
  case None
  then show ?thesis by (simp add: check_program_def runnable_iff)
next
  case (Some deps)
  have eq: "(\<forall>d \<in> set deps. \<not> disabled enabled d) = (\<not> list_ex (disabled enabled) deps)" by (simp add: list_ex_iff)
  show ?thesis
    by (cases "list_ex (disabled enabled) deps")
      (simp_all add: Some check_program_def runnable_iff eq exclude_taskgen_touch [OF assms])
qed

lemma check_object_touch:
  assumes "distinct_ids s"
  shows "check_object cfg enabled obj s =
     s \<lparr> groups := touch (stays cfg enabled obj) (withdrawn enabled obj) (tg_id obj) (groups s),
         NS3_RUNNABLE_PROGRAMS := NS3_RUNNABLE_PROGRAMS s
           @ (if runnable enabled obj then [runnable_path cfg obj] else []) \<rparr>"
proof -
  define i where "i = tg_id obj"
  define app where "app k r ps st = st \<lparr> groups := touch k r i (groups st), NS3_RUNNABLE_PROGRAMS := NS3_RUNNABLE_PROGRAMS st @ ps \<rparr>"
    for k r ps and st :: bld_state
  have ok: "distinct_ids (app k r ps s)" for k r ps
    using distinct_ids_touch [OF assms, of k r i] by (simp add: app_def distinct_ids_def get_all_task_gen_def)
  have drop: "(if b then exclude_taskgen obj (app k r ps s) else app k r ps s) = app (k \<and> \<not> b) r ps s" for b k r ps
    using exclude_taskgen_touch [OF ok] by (auto simp: app_def i_def)
  have remove: "(if b then set_mode_remove obj (app k r ps s) else app k r ps s) = app k (r \<or> b) ps s" for b k r ps
    by (auto simp: app_def i_def set_mode_remove_touch)
  have prog: "check_program cfg enabled obj (app k r [] s) =
      app (k \<and> (\<forall>deps. ns3_module_dependencies obj = Some deps \<longrightarrow> (\<forall>d \<in> set deps. \<not> disabled enabled d))) r
        (if runnable enabled obj then [runnable_path cfg obj] else []) s" for k r
    unfolding check_program_touch [OF ok] by (simp add: app_def i_def)
  have start: "s = app True False [] s" by (simp add: app_def)
  have "check_object cfg enabled obj s = app (stays cfg enabled obj) (withdrawn enabled obj)
      (if runnable enabled obj then [runnable_path cfg obj] else []) s"
    apply (subst start)
    unfolding check_object_def Let_def remove prog drop
    apply (rule arg_cong2 [where f = "\<lambda>k r. app k r (if runnable enabled obj then [runnable_path cfg obj] else []) s"])
     apply (simp only: stays_iff de_Morgan_conj de_Morgan_disj imp_conv_disj not_not simp_thms conj_assoc disj_assoc)
     apply blast
    apply (simp only: withdrawn_def simp_thms)
    apply blast
    done
  then show ?thesis by (simp only: app_def i_def)
qed

lemma fold_check_objects:
  assumes "distinct_ids s"
  shows "fold (check_object cfg enabled) objs s =
     s \<lparr> groups := fold (\<lambda>ob. touch (stays cfg enabled ob) (withdrawn enabled ob) (tg_id ob)) objs (groups s),
         NS3_RUNNABLE_PROGRAMS := NS3_RUNNABLE_PROGRAMS s @ map (runnable_path cfg) (filter (runnable enabled) objs) \<rparr>"
  using assms
proof (induction objs arbitrary: s)
  case Nil
  then show ?case by simp
next
  case (Cons obj objs)
  let ?s = "s \<lparr> groups := touch (stays cfg enabled obj) (withdrawn enabled obj) (tg_id obj) (groups s),
         NS3_RUNNABLE_PROGRAMS := NS3_RUNNABLE_PROGRAMS s
           @ (if runnable enabled obj then [runnable_path cfg obj] else []) \<rparr>"
  have "distinct_ids ?s"
    using distinct_ids_touch [OF Cons.prems] by (simp add: distinct_ids_def get_all_task_gen_def)
  from Cons.IH [OF this] show ?case by (simp add: check_object_touch [OF Cons.prems])
qed

lemma fold_touch:
  "fold (\<lambda>ob. touch (keep ob) (gone ob) (tg_id ob)) objs gs =
   map (\<lambda>g. map (\<lambda>t. mark (\<exists>ob \<in> set objs. tg_id t = tg_id ob \<and> gone ob) t)
               (filter (\<lambda>t. \<forall>ob \<in> set objs. tg_id t = tg_id ob \<longrightarrow> keep ob) g)) gs"
proof (induction objs arbitrary: gs)
  case Nil
  then show ?case by (simp add: map_idI)
next
  case (Cons obj objs)
  have "map (\<lambda>t. mark (\<exists>ob \<in> set objs. tg_id t = tg_id ob \<and> gone ob) t)
          (filter (\<lambda>t. \<forall>ob \<in> set objs. tg_id t = tg_id ob \<longrightarrow> keep ob)
            (map (\<lambda>t. mark (tg_id t = tg_id obj \<and> gone obj) t) (filter (\<lambda>t. tg_id t \<noteq> tg_id obj \<or> keep obj) g)))
      = map (\<lambda>t. mark (\<exists>ob \<in> set (obj # objs). tg_id t = tg_id ob \<and> gone ob) t)
          (filter (\<lambda>t. \<forall>ob \<in> set (obj # objs). tg_id t = tg_id ob \<longrightarrow> keep ob) g)" for g
    unfolding mark_filter [of "\<lambda>j. \<exists>ob \<in> set objs. j = tg_id ob \<and> gone ob"
        "\<lambda>j. \<forall>ob \<in> set objs. j = tg_id ob \<longrightarrow> keep ob"
        "\<lambda>j. j = tg_id obj \<and> gone obj" "\<lambda>j. j \<noteq> tg_id obj \<or> keep obj"]
    by (rule map_cong [OF filter_cong [OF refl]]) (auto intro: arg_cong2 [of _ _ _ _ mark])
  then show ?case unfolding fold.simps o_apply Cons.IH unfolding touch_def map_map by (subst o_def) (rule map_cong [OF refl])
qed

lemma exclude_disabled_effect:
  assumes "distinct_ids s"
  shows "exclude_disabled cfg s =
     s \<lparr> groups := map (\<lambda>g. map (final_mode (enabled_modules s)) (filter (stays cfg (enabled_modules s)) g)) (groups s),
         NS3_RUNNABLE_PROGRAMS := NS3_RUNNABLE_PROGRAMS s
           @ map (runnable_path cfg) (filter (runnable (enabled_modules s)) (get_all_task_gen s)) \<rparr>"
proof -
  let ?en = "enabled_modules s"
  have same: "ob = t" if "ob \<in> set (get_all_task_gen s)" "t \<in> set (get_all_task_gen s)" "tg_id t = tg_id ob" for ob t
    using assms that by (auto simp: distinct_ids_def distinct_map dest: inj_onD)
  have "map (\<lambda>t. mark (\<exists>ob \<in> set (get_all_task_gen s). tg_id t = tg_id ob \<and> withdrawn ?en ob) t)
          (filter (\<lambda>t. \<forall>ob \<in> set (get_all_task_gen s). tg_id t = tg_id ob \<longrightarrow> stays cfg ?en ob) g)
      = map (final_mode ?en) (filter (stays cfg ?en) g)" if "g \<in> set (groups s)" for g
  proof (rule map_cong)
    have mem: "t \<in> set (get_all_task_gen s)" if "t \<in> set g" for t
      using that \<open>g \<in> set (groups s)\<close> by (auto simp: get_all_task_gen_def)
    show "filter (\<lambda>t. \<forall>ob \<in> set (get_all_task_gen s). tg_id t = tg_id ob \<longrightarrow> stays cfg ?en ob) g = filter (stays cfg ?en) g"
    proof (rule filter_cong [OF refl])
      fix t assume "t \<in> set g"
      then have t: "t \<in> set (get_all_task_gen s)" by (rule mem)
      show "(\<forall>ob \<in> set (get_all_task_gen s). tg_id t = tg_id ob \<longrightarrow> stays cfg ?en ob) = stays cfg ?en t"
        using same [OF _ t] t by metis
    qed
    fix t assume "t \<in> set (filter (stays cfg ?en) g)"
    then have t: "t \<in> set (get_all_task_gen s)" using mem by simp
    have "(\<exists>ob \<in> set (get_all_task_gen s). tg_id t = tg_id ob \<and> withdrawn ?en ob) = withdrawn ?en t"
    proof
      assume "\<exists>ob \<in> set (get_all_task_gen s). tg_id t = tg_id ob \<and> withdrawn ?en ob"
      then obtain ob where ob: "ob \<in> set (get_all_task_gen s)" "tg_id t = tg_id ob" "withdrawn ?en ob" by blast
      from same [OF ob(1) t ob(2)] ob(3) show "withdrawn ?en t" by simp
    qed (use t in blast)
    then show "mark (\<exists>ob \<in> set (get_all_task_gen s). tg_id t = tg_id ob \<and> withdrawn ?en ob) t = final_mode ?en t"
      by (simp add: final_mode_def mark_def)
  qed
  then have "fold (\<lambda>ob. touch (stays cfg ?en ob) (withdrawn ?en ob) (tg_id ob)) (get_all_task_gen s) (groups s)
      = map (\<lambda>g. map (final_mode ?en) (filter (stays cfg ?en) g)) (groups s)"
    unfolding fold_touch by (rule map_cong [OF refl])
  then show ?thesis unfolding exclude_disabled_def fold_check_objects [OF assms] by simp
qed

text \<open>C17 After the checks of all objects each group keeps, in their order, exactly the generators that need no disabled
  module (the programs by their list of dependencies, modules, test libraries, \<open>.pc\<close> files and Python bindings by their
  module, and test libraries only when tests are built); the headers of a disabled module are marked for removal; and
  the runnable programs are extended by exactly the programs all of whose modules are enabled.\<close>

theorem exclude_disabled_exact:
  assumes "distinct_ids s"
  shows "exclude_disabled cfg s =
     s \<lparr> groups := map (\<lambda>g. map (final_mode (enabled_modules s)) (filter (stays cfg (enabled_modules s)) g)) (groups s),
         NS3_RUNNABLE_PROGRAMS := NS3_RUNNABLE_PROGRAMS s
           @ map (runnable_path cfg) (filter (runnable (enabled_modules s)) (get_all_task_gen s)) \<rparr>"
  by (rule exclude_disabled_effect [OF assms])

section \<open>What is built fits together\<close>

text \<open>
  The generators of modules as \<open>create_ns3_module\<close> makes them: nothing but the list of the enabled modules decides
  whether such a one stays.
\<close>

definition plain_module :: "tgen \<Rightarrow> bool" where
  "plain_module t \<longleftrightarrow>
     is_ns3_module t \<and> ns3_module_dependencies t = None \<and> \<not> is_ns3_module_test_library t
     \<and> tg_features t \<in> {''cxx cxxshlib ns3module'', ''cxx cxxstlib ns3module''} \<and> \<not> contains_str ''pybindgen'' (tg_name t)"

lemma plain_module_stays: "plain_module t \<Longrightarrow> stays cfg enabled t \<longleftrightarrow> \<not> disabled enabled (tg_name t)"
proof -
  assume t: "plain_module t"
  then have "\<not> contains_str ''ns3pcfile'' (tg_features t)" "\<not> contains_str ''pyext'' (tg_features t)"
    by (auto simp: plain_module_def startswith_def)
  with t show ?thesis by (auto simp: plain_module_def stays_iff)
qed

lemma module_tgen_plain: "\<not> contains_str ''pybindgen'' (ns3_prefix name) \<Longrightarrow> plain_module (module_tgen cfg static path up name deps s)"
  by (simp add: plain_module_def module_tgen_def new_tgen_def del: contains_str.simps)

lemma final_mode_fields [simp]:
  "tg_name (final_mode en t) = tg_name t" "is_ns3_module (final_mode en t) = is_ns3_module t"
  "tg_use (final_mode en t) = tg_use t" "ns3_module_dependencies (final_mode en t) = ns3_module_dependencies t"
  by (simp_all add: final_mode_def)

lemma get_all_exclude_disabled:
  "distinct_ids s \<Longrightarrow>
   set (get_all_task_gen (exclude_disabled cfg s))
   = final_mode (enabled_modules s) ` {t \<in> set (get_all_task_gen s). stays cfg (enabled_modules s) t}"
  using exclude_disabled_effect [of s cfg] by (auto simp: get_all_task_gen_def)

lemma disabled_iff: "disabled enabled name \<longleftrightarrow> name \<notin> all_enabled enabled"
  by (simp add: disabled_def all_enabled_def)

text \<open>The libraries that a generator is linked with.\<close>

definition linked_modules :: "tgen \<Rightarrow> string set" where
  "linked_modules t =
     {d. startswith d ''ns3-'' \<and> (is_ns3_module t \<and> d \<in> set (tg_use t)
         \<or> (\<exists>deps. ns3_module_dependencies t = Some deps \<and> d \<in> set deps))}"

text \<open>C5 When the loop over the dependencies returns and every module has a task generator, then after the exclusion of what
  is disabled no module and no program is left that is to be linked with a module whose generator was
  taken out.\<close>

theorem kept_is_linkable:
  assumes ids: "distinct_ids s"
    and plain: "\<forall>t \<in> set (get_all_task_gen s). is_ns3_module t \<longrightarrow> plain_module t \<and> tgen_use (tg_name t) = Inr (Some (tg_use t))"
    and gens: "\<forall>m \<in> all_enabled en0 \<union> set (ALL_MODULES cfg) \<union> set (ALL_CONTRIBUTED_MODULES cfg).
      \<exists>t \<in> set (get_all_task_gen s). is_ns3_module t \<and> tg_name t = m"
    and closed: "close_dependencies (ALL_MODULES cfg) (ALL_CONTRIBUTED_MODULES cfg) tgen_use en0 = Inr (enabled_modules s)"
    and kept: "t \<in> set (get_all_task_gen (exclude_disabled cfg s))" and d: "d \<in> linked_modules t"
  shows "\<exists>m \<in> set (get_all_task_gen (exclude_disabled cfg s)). is_ns3_module m \<and> tg_name m = d"
proof -
  let ?en = "enabled_modules s"
  obtain t0 where t0: "t0 \<in> set (get_all_task_gen s)" "stays cfg ?en t0" "t = final_mode ?en t0"
    using kept unfolding get_all_exclude_disabled [OF ids] by blast
  have "d \<in> all_enabled ?en"
  proof (cases "is_ns3_module t0 \<and> d \<in> set (tg_use t0)")
    case True
    have "tg_name t0 \<in> all_enabled ?en" using t0(2) True by (auto simp: stays_iff disabled_iff)
    moreover have "(tg_name t0, d) \<in> needs tgen_use"
      using plain t0(1) True d unfolding needs_def linked_modules_def by auto
    ultimately show ?thesis using close_closed [OF closed] by blast
  next
    case False
    then obtain deps where "ns3_module_dependencies t0 = Some deps" "d \<in> set deps"
      using d t0(3) by (auto simp: linked_modules_def)
    then show ?thesis using t0(2) by (auto simp: stays_iff disabled_iff)
  qed
  then obtain m where m: "m \<in> set (get_all_task_gen s)" "is_ns3_module m" "tg_name m = d"
    using gens close_within [OF closed] by blast
  then have "stays cfg ?en m" using plain plain_module_stays [of m cfg ?en] \<open>d \<in> all_enabled ?en\<close> by (simp add: disabled_iff)
  then have "final_mode ?en m \<in> set (get_all_task_gen (exclude_disabled cfg s))"
    unfolding get_all_exclude_disabled [OF ids] using m(1) by blast
  then show ?thesis using m by (intro bexI [of _ "final_mode ?en m"]) simp_all
qed

section \<open>Scripts and the limits of the build\<close>

text \<open>With some module enabled, exactly the registered scripts whose modules are all enabled become runnable, in the order
  of their registration; with none, a script that needs a module ends the build with an exception.\<close>

theorem runnable_scripts_exact:
  "determine_scripts s =
     (if any_enabled s then
        Inr (s \<lparr> NS3_RUNNABLE_SCRIPTS := NS3_RUNNABLE_SCRIPTS s
                 @ map fst (filter (\<lambda>(_, deps). \<forall>d \<in> set deps. d \<in> all_enabled (enabled_modules s)) (NS3_SCRIPT_DEPENDENCIES s)) \<rparr>)
      else if \<exists>entry \<in> set (NS3_SCRIPT_DEPENDENCIES s). snd entry \<noteq> [] then Inl UnboundLocalError
      else Inr (s \<lparr> NS3_RUNNABLE_SCRIPTS := NS3_RUNNABLE_SCRIPTS s @ map fst (NS3_SCRIPT_DEPENDENCIES s) \<rparr>))"
proof -
  have bound: "rfold (determine_script True) es s = Inr (s \<lparr> NS3_RUNNABLE_SCRIPTS := NS3_RUNNABLE_SCRIPTS s
      @ map fst (filter (\<lambda>(_, deps). \<forall>d \<in> set deps. d \<in> all_enabled (enabled_modules s)) es) \<rparr>)" for es and s :: bld_state
  proof (induction es arbitrary: s)
    case (Cons e es)
    obtain script deps where e: "e = (script, deps)" by (cases e)
    show ?case
    proof (cases "\<forall>d \<in> set deps. d \<in> all_enabled (enabled_modules s)")
      case True
      then have "\<not> list_ex (disabled (enabled_modules s)) deps" by (simp add: list_ex_iff disabled_iff)
      then show ?thesis using True Cons by (simp add: e determine_script_def)
    next
      case False
      then have "list_ex (disabled (enabled_modules s)) deps" by (simp add: list_ex_iff disabled_iff)
      moreover have "(\<forall>d \<in> set deps. d \<in> all_enabled (enabled_modules s)) = False" using False by simp
      ultimately show ?thesis using Cons by (simp add: e determine_script_def del: not_all)
    qed
  qed simp
  have unbound: "rfold (determine_script False) es s =
      (if \<exists>entry \<in> set es. snd entry \<noteq> [] then Inl UnboundLocalError
       else Inr (s \<lparr> NS3_RUNNABLE_SCRIPTS := NS3_RUNNABLE_SCRIPTS s @ map fst es \<rparr>))" for es and s :: bld_state
  proof (induction es arbitrary: s)
    case (Cons e es)
    then show ?case by (cases e; cases "snd e = []") (simp_all add: determine_script_def)
  qed simp
  show ?thesis by (simp add: determine_scripts_def bound unbound del: rfold.simps)
qed

text \<open>
  When no module is enabled, nothing is excluded: every generator stays, and no program is listed.
\<close>

lemma nothing_enabled_builds_all:
  assumes "recurse_modules (s \<lparr> NS3_MODULES_WITH_TEST_LIBRARIES := [], NS3_ENABLED_MODULE_TEST_LIBRARIES := [],
              NS3_SCRIPT_DEPENDENCIES := [], NS3_RUNNABLE_PROGRAMS := [], NS3_RUNNABLE_SCRIPTS := [] \<rparr>) = Inr s1"
    and "\<not> any_enabled s1" and "NS3_SCRIPT_DEPENDENCIES s1 = []"
  shows "build_modules cfg get_tgen recurse_modules Inr top_dir None s = Inr s1"
  using assms by (simp add: build_modules_def add_scratch_programs_def runnable_scripts_exact)

text \<open>A program of \<open>scratch\<close> is built under its own name, but listed under the name that other programs have.\<close>

lemma path_basename_join:
  assumes that: "CHR ''/'' \<notin> set b" "b \<noteq> []"
  shows "path_basename (path_join a b) = b"
proof -
  have no: "\<not> startswith b ''/''" using that by (cases b) (auto simp: startswith_def)
  have "takeWhile (\<lambda>c. c \<noteq> CHR ''/'') (rev b) = rev b" unfolding takeWhile_eq_all_conv using that(1) by auto
  then have "path_basename b = b" unfolding path_basename_def by (simp only: rev_rev_ident)
  moreover have "path_basename (a @ b) = b" if "endswith a ''/''"
  proof -
    have "\<exists>c. rev a = rev ''/'' @ c" using that unfolding endswith_def startswith_iff .
    then obtain c where "rev a = rev ''/'' @ c" ..
    then have "a = rev c @ ''/''" by (metis rev_append rev_rev_ident)
    then show ?thesis using path_basename_append [OF \<open>CHR ''/'' \<notin> set b\<close>, of "rev c"] by simp
  qed
  ultimately show ?thesis using no path_basename_append [OF that(1)] by (auto simp: path_join_def)
qed

lemma basename_runnable_path:
  assumes "CHR ''/'' \<notin> set (object_name cfg (tg_name obj))"
  shows "path_basename (runnable_path cfg obj) = object_name cfg (tg_name obj)"
  unfolding runnable_path_def by (rule path_basename_join [OF assms]) (simp add: object_name_def)

lemma scratch_program_listed:
  assumes "CHR ''/'' \<notin> set (object_name cfg name)"
    and obj: "obj = (program_tgen cfg top_dir name modules s) \<lparr> tg_path := dir, tg_target := name, tg_name := name \<rparr>"
  shows "path_basename (runnable_path cfg obj) = object_name cfg name \<and> object_name cfg name \<noteq> tg_target obj"
proof
  show "path_basename (runnable_path cfg obj) = object_name cfg name"
    using basename_runnable_path [of cfg obj] assms by simp
  have "length (object_name cfg name) > length name" by (simp add: object_name_def)
  then show "object_name cfg name \<noteq> tg_target obj" using obj by auto
qed

section \<open>An example\<close>

definition sample_bld :: bld_config where
  "sample_bld = \<lparr> APP = ''ns'', VER = ''3'', BUILD_SUFFIX = '''',
     ALL_MODULES = [''ns3-c'', ''ns3-n'', ''ns3-l''], ALL_CONTRIBUTED_MODULES = [], TESTS_ENABLED = True, SUDO_ENABLED = False,
     cwd_dir = ''/b'', launch_dir = ''/b'' \<rparr>"

definition empty_build :: bld_state where
  "empty_build = \<lparr> groups = [[]], current_group = 0, next_id = 0, enabled_modules = ([''ns3-n''], []),
     NS3_MODULES_WITH_TEST_LIBRARIES = [], NS3_ENABLED_MODULE_TEST_LIBRARIES = [], NS3_SCRIPT_DEPENDENCIES = [],
     NS3_RUNNABLE_PROGRAMS = [], NS3_RUNNABLE_SCRIPTS = [] \<rparr>"

text \<open>The module \<open>n\<close> needs \<open>c\<close>, \<open>l\<close> needs \<open>n\<close>; one program needs \<open>n\<close>, the other \<open>l\<close>.\<close>

definition sample_build :: bld_state where
  "sample_build =
     (let s1 = create_ns3_module sample_bld False ''/b'' ''.'' ''c'' [] empty_build;
          s2 = create_ns3_module sample_bld False ''/b'' ''.'' ''n'' [''c''] s1;
          s3 = create_ns3_module sample_bld False ''/b'' ''.'' ''l'' [''n''] s2;
          s4 = create_ns3_program sample_bld ''/b/e'' ''p'' [''n''] s3;
          s5 = create_ns3_program sample_bld ''/b/e'' ''q'' [''l''] s4
      in s5 \<lparr> enabled_modules := ([''ns3-n'', ''ns3-c''], []) \<rparr>)"

definition sample_use :: "string \<Rightarrow> string list option result" where
  "sample_use m = (if m = ''ns3-c'' then Inr (Some []) else if m = ''ns3-n'' then Inr (Some [''ns3-c''])
     else if m = ''ns3-l'' then Inr (Some [''ns3-n'']) else Inl KeyError)"

lemma sample_closed:
  "close_dependencies (ALL_MODULES sample_bld) (ALL_CONTRIBUTED_MODULES sample_bld) sample_use ([''ns3-n''], [])
   = Inr (enabled_modules sample_build)"
  by code_simp

lemma sample_needs:
  "(needs sample_use)\<^sup>* `` {''ns3-n''} = {''ns3-n'', ''ns3-c''}"
proof -
  have hyp: "\<forall>m \<in> all_enabled ([''ns3-n''], []) \<union> set [''ns3-c'', ''ns3-n'', ''ns3-l''] \<union> set []. \<exists>use. sample_use m = Inr (Some use)"
    by (simp add: sample_use_def all_enabled_def)
  have run: "close_dependencies [''ns3-c'', ''ns3-n'', ''ns3-l''] [] sample_use ([''ns3-n''], []) = Inr ([''ns3-n'', ''ns3-c''], [])"
    by code_simp
  from close_dependencies_decides [OF hyp] show ?thesis
    unfolding run by (auto simp: all_enabled_def split: if_splits)
qed

theorem exclude_disabled_exact_witness:
  "distinct_ids sample_build
   \<and> NS3_RUNNABLE_PROGRAMS (exclude_disabled sample_bld sample_build) = [''e/ns3-p'']"
proof
  show ids: "distinct_ids sample_build" by code_simp
  have "map (runnable_path sample_bld) (filter (runnable (enabled_modules sample_build)) (get_all_task_gen sample_build)) = [''e/ns3-p'']"
    by code_simp
  moreover have "NS3_RUNNABLE_PROGRAMS sample_build = []" by code_simp
  ultimately show "NS3_RUNNABLE_PROGRAMS (exclude_disabled sample_bld sample_build) = [''e/ns3-p'']"
    using exclude_disabled_exact [OF ids, of sample_bld] by simp
qed

theorem kept_is_linkable_witness:
  "\<exists>m \<in> set (get_all_task_gen (exclude_disabled sample_bld sample_build)). is_ns3_module m \<and> tg_name m = ''ns3-n''"
proof (rule kept_is_linkable [OF _ _ _ sample_closed])
  show "distinct_ids sample_build" by code_simp
  show "\<forall>t \<in> set (get_all_task_gen sample_build). is_ns3_module t
      \<longrightarrow> plain_module t \<and> sample_use (tg_name t) = Inr (Some (tg_use t))" by code_simp
  show "\<forall>m \<in> all_enabled ([''ns3-n''], []) \<union> set (ALL_MODULES sample_bld) \<union> set (ALL_CONTRIBUTED_MODULES sample_bld).
      \<exists>t \<in> set (get_all_task_gen sample_build). is_ns3_module t \<and> tg_name t = m" by code_simp
  show "program_tgen sample_bld ''/b/e'' ''p'' [''n''] (empty_build \<lparr> next_id := 6 \<rparr>)
      \<in> set (get_all_task_gen (exclude_disabled sample_bld sample_build))" by code_simp
  show "''ns3-n'' \<in> linked_modules (program_tgen sample_bld ''/b/e'' ''p'' [''n''] (empty_build \<lparr> next_id := 6 \<rparr>))"
    by (simp add: linked_modules_def program_tgen_def new_tgen_def ns3_prefix_def startswith_def)
qed

end
