(* ===== verification/Ns3_Modules.thy ===== *)
theory Ns3_Modules
  imports Ns3_Build "HOL-Library.List_Lexorder" "HOL-Library.Char_ord"
begin

text \<open>
  The modules in \<open>src\<close> and \<open>contrib\<close> (\<open>src/wscript\<close>, \<open>contrib/wscript\<close>): which directories are modules, the header that
  includes all headers of a module, and the \<open>.pc\<close> file of its library.
\<close>

section \<open>Directories that are modules\<close>

datatype tree_node = File_node | Dir_node "(string \<times> tree_node) list"

text \<open>The modules of \<open>src\<close>: directories of the list with a \<open>wscript\<close>, sorted; then those that are built.\<close>

definition entry_skipped :: "string \<Rightarrow> bool" where
  "entry_skipped name \<longleftrightarrow> startswith name ''.'' \<or> name = ''CVS''"

definition all_modules :: "(string \<times> tree_node) list \<Rightarrow> string list" where
  "all_modules entries =
     sort (concat (map (\<lambda>(name, nd). if entry_skipped name then []
             else (case nd of File_node \<Rightarrow> [] | Dir_node cs \<Rightarrow> if ''wscript'' \<in> set (map fst cs) then [name] else []))
       entries))"

definition src_modules_built :: "string list \<Rightarrow> string list \<Rightarrow> string list" where
  "src_modules_built modules not_built =
     fold (\<lambda>nb ms. let nb' = (if nb = ''ns3tcp'' \<or> nb = ''ns3wifi'' then ''test/'' @ nb else nb)
                   in if nb' \<in> set ms then remove1 nb' ms else ms) not_built modules"

text \<open>
  The modules of \<open>contrib\<close>, which may be grouped in directories without a \<open>wscript\<close>: a queue of entries, each with the
  path of its directory.
\<close>

definition contrib_skipped :: "string \<Rightarrow> bool" where
  "contrib_skipped name \<longleftrightarrow> name = [] \<or> hd name = CHR ''.'' \<or> endswith name ''CVS''"

type_synonym contrib_entry = "string list \<times> string \<times> tree_node"

primrec node_weight :: "tree_node \<Rightarrow> nat" where
  "node_weight File_node = 1"
| "node_weight (Dir_node cs) = Suc (sum_list (map snd (map (map_prod id node_weight) cs)))"

abbreviation queue_weight :: "contrib_entry list \<Rightarrow> nat" where
  "queue_weight q \<equiv> sum_list (map (\<lambda>(p, n, nd). node_weight nd) q)"

definition child_entries :: "string list \<Rightarrow> (string \<times> tree_node) list \<Rightarrow> contrib_entry list" where
  "child_entries path cs = map (\<lambda>(m, d). (path, m, d)) cs"

lemma queue_weight_children: "queue_weight (child_entries path cs) = sum_list (map snd (map (map_prod id node_weight) cs))"
  by (simp add: child_entries_def comp_def case_prod_unfold)

lemma node_weight_positive [simp]: "0 < node_weight nd"
  by (cases nd) simp_all

function (sequential) contrib_search :: "contrib_entry list \<Rightarrow> string list list \<Rightarrow> string list list" where
  "contrib_search [] modules = modules"
| "contrib_search ((parent, name, nd) # entries) modules =
     (if contrib_skipped name then contrib_search entries modules
      else (case nd of
              File_node \<Rightarrow> contrib_search entries modules
            | Dir_node cs \<Rightarrow>
                if ''wscript'' \<in> set (map fst cs) then contrib_search entries (modules @ [parent @ [name]])
                else contrib_search (entries @ child_entries (parent @ [name]) cs) modules))"
  by pat_completeness auto

termination
  by (relation "measure (\<lambda>(q, ms). queue_weight q)") (auto simp: queue_weight_children simp del: map_map)

definition find_contrib_modules :: "(string \<times> tree_node) list \<Rightarrow> string list" where
  "find_contrib_modules cs = sort (map (join_with ''/'') (contrib_search (child_entries [] cs) []))"

text \<open>The reference: the uppermost directories with a \<open>wscript\<close>, by recursion over the tree.\<close>

primrec modules_below :: "tree_node \<Rightarrow> string list \<Rightarrow> string list list" where
  "modules_below File_node path = []"
| "modules_below (Dir_node cs) path =
     (if ''wscript'' \<in> set (map fst cs) then [path]
      else concat (map (\<lambda>(m, below). if contrib_skipped m then [] else below (path @ [m]))
                     (map (map_prod id modules_below) cs)))"

definition entry_modules :: "contrib_entry \<Rightarrow> string list list" where
  "entry_modules e = (case e of (parent, name, nd) \<Rightarrow> if contrib_skipped name then [] else modules_below nd (parent @ [name]))"

lemma entry_modules_children:
  "concat (map entry_modules (child_entries path cs))
   = concat (map (\<lambda>(m, below). if contrib_skipped m then [] else below (path @ [m])) (map (map_prod id modules_below) cs))"
  by (simp add: child_entries_def entry_modules_def comp_def case_prod_unfold cong: if_cong)

lemma contrib_search_mset:
  "mset (contrib_search q modules) = mset modules + mset (concat (map entry_modules q))"
proof (induction q modules rule: contrib_search.induct)
  case (1 modules)
  then show ?case by simp
next
  case (2 parent name nd entries modules)
  show ?case
  proof (cases "contrib_skipped name")
    case True
    then show ?thesis using 2 by (simp add: entry_modules_def)
  next
    case False
    show ?thesis
    proof (cases nd)
      case File_node
      then show ?thesis using False 2 by (simp add: entry_modules_def)
    next
      case (Dir_node cs)
      show ?thesis
      proof (cases "''wscript'' \<in> set (map fst cs)")
        case True
        then show ?thesis using False Dir_node 2(3) by (simp add: entry_modules_def del: set_map)
      next
        case no: False
        have "concat (map entry_modules (child_entries (parent @ [name]) cs)) = entry_modules (parent, name, nd)"
          unfolding entry_modules_children using False no by (simp add: entry_modules_def Dir_node del: set_map map_map)
        then show ?thesis using False no Dir_node 2(4) by (simp add: ac_simps del: set_map)
      qed
    qed
  qed
qed

text \<open>C16 The search with a queue finds, whatever the directories are, exactly the uppermost directories with a \<open>wscript\<close> whose
  path has no skipped name, each once for each place in the tree, in sorted order: it is equal to the recursion over
  the tree followed by sorting.\<close>

theorem contrib_modules_found:
  "find_contrib_modules cs
   = sort (map (join_with ''/'') (concat (map (\<lambda>(name, nd). if contrib_skipped name then [] else modules_below nd [name]) cs)))"
proof -
  have "concat (map entry_modules (child_entries [] cs))
      = concat (map (\<lambda>(name, nd). if contrib_skipped name then [] else modules_below nd [name]) cs)"
    by (simp add: child_entries_def entry_modules_def comp_def case_prod_unfold cong: if_cong)
  then have "mset (contrib_search (child_entries [] cs) [])
      = mset (concat (map (\<lambda>(name, nd). if contrib_skipped name then [] else modules_below nd [name]) cs))"
    by (simp add: contrib_search_mset)
  then show ?thesis
    unfolding find_contrib_modules_def by (intro properties_for_sort [symmetric]) (simp_all add: mset_map)
qed

section \<open>The header of a module\<close>

definition module_macro :: "string \<Rightarrow> string" where
  "module_macro module = map (\<lambda>c. if c = CHR ''-'' then CHR ''_'' else c) (map upper_char module)"

definition header_include :: "string \<Rightarrow> string" where
  "header_include header = ''#include '' @ quote @ header @ quote @ newline"

definition module_header_top :: "string \<Rightarrow> string" where
  "module_header_top module =
     newline @ ''#ifdef NS3_MODULE_COMPILATION'' @ newline
     @ ''# error '' @ quote @ ''Do not include ns3 module aggregator headers from other modules; these are meant only for end user scripts.''
     @ quote @ newline @ ''#endif'' @ newline @ newline @ ''#ifndef NS3_MODULE_'' @ module_macro module @ newline @ ''    '' @ newline"

definition gen_module_header :: "string \<Rightarrow> string list \<Rightarrow> string" where
  "gen_module_header module inputs =
     module_header_top module @ newline @ ''// Module headers:'' @ newline
     @ concat (map header_include (sort (map path_basename inputs))) @ ''#endif'' @ newline"

text \<open>
  The inputs: the base names of the headers of all header objects of the module; it is an error when there is no such
  object, and no task is made when there are no headers or the module is gone.
\<close>

record header_object =
  ho_features :: string
  ho_module :: string
  ho_headers :: "string list"

definition module_header_inputs :: "string \<Rightarrow> header_object list \<Rightarrow> string list result" where
  "module_header_inputs module objs =
     (let mine = filter (\<lambda>ob. contains_str ''ns3header'' (ho_features ob) \<and> ho_module ob = module) objs
      in if mine = [] then Inl (OtherError ''WafError'')
         else Inr (concat (map (\<lambda>ob. map path_basename (sort (ho_headers ob))) mine)))"

text \<open>The order in which the headers were given does not matter, and each is included once for each time it was given.\<close>

theorem module_header_order:
  assumes "mset (map path_basename inputs) = mset (map path_basename inputs')"
  shows "gen_module_header module inputs = gen_module_header module inputs'"
  unfolding gen_module_header_def using properties_for_sort [of "sort (map path_basename inputs')" "map path_basename inputs"] assms
  by (simp add: mset_map)

theorem module_header_order_witness:
  "gen_module_header ''m'' [''ns3/b.h'', ''ns3/a.h''] = gen_module_header ''m'' [''a.h'', ''b.h'']"
proof (rule module_header_order)
  have "map path_basename [''ns3/b.h'', ''ns3/a.h''] = [''b.h'', ''a.h'']" "map path_basename [''a.h'', ''b.h''] = [''a.h'', ''b.h'']"
    by code_simp+
  then show "mset (map path_basename [''ns3/b.h'', ''ns3/a.h'']) = mset (map path_basename [''a.h'', ''b.h''])"
    by (simp only: mset.simps add_mset_commute)
qed

section \<open>The \<open>.pc\<close> file of a module\<close>

text \<open>
  The variables of waf for a use variable, and the patterns such as \<open>-l%s\<close> as functions.
\<close>

record pc_env =
  pc_static :: bool
  pc_path_st :: "string \<Rightarrow> string"
  pc_lib_st :: "string \<Rightarrow> string"
  pc_marker :: string
  LIBPATH_ST :: "string \<Rightarrow> string"
  LIB_ST :: "string \<Rightarrow> string"
  CPPPATH_ST :: "string \<Rightarrow> string"
  DEFINES_ST :: "string \<Rightarrow> string"
  LIBPATH_of :: "string \<Rightarrow> string list"
  LINKFLAGS_of :: "string \<Rightarrow> string list"
  LIB_of :: "string \<Rightarrow> string list"
  CFLAGS_of :: "string \<Rightarrow> string list"
  CXXFLAGS_of :: "string \<Rightarrow> string list"
  DEFINES_of :: "string \<Rightarrow> string list"
  INCLUDES_of :: "string \<Rightarrow> string list"
  LIBS :: "string list"
  PREFIX :: string
  INCLUDEDIR :: string
  LIBDIR :: string

definition self_libs :: "pc_env \<Rightarrow> string \<Rightarrow> string \<Rightarrow> string list" where
  "self_libs env name libdir =
     [pc_path_st env libdir] @ (if pc_marker env = '''' then [] else [pc_marker env]) @ [pc_lib_st env name]"

definition dep_lib :: "pc_env \<Rightarrow> string \<Rightarrow> string list" where
  "dep_lib env dep =
     concat (map (\<lambda>path. [LIBPATH_ST env path] @ LINKFLAGS_of env dep) (LIBPATH_of env dep)) @ map (LIB_ST env) (LIB_of env dep)"

text \<open>A text that is added to a list with \<open>+=\<close> adds its characters.\<close>

definition pc_libs :: "bld_config \<Rightarrow> pc_env \<Rightarrow> string \<Rightarrow> string list \<Rightarrow> string list" where
  "pc_libs cfg env name use =
     self_libs env (object_name cfg (drop 4 name)) ''${libdir}'' @ concat (map (dep_lib env) use)
     @ concat (map (\<lambda>dep. map (\<lambda>c. [c]) (LIB_ST env dep)) (LIBS env))"

definition pc_cflags :: "pc_env \<Rightarrow> string list \<Rightarrow> string list \<Rightarrow> string list" where
  "pc_cflags env export_includes use =
     [CPPPATH_ST env ''${includedir}''] @ map (CPPPATH_ST env) export_includes
     @ concat (map (\<lambda>dep. CFLAGS_of env dep @ CXXFLAGS_of env dep @ map (DEFINES_ST env) (DEFINES_of env dep)
                          @ map (CPPPATH_ST env) (INCLUDES_of env dep)) use)"

definition pc_requires :: "bld_config \<Rightarrow> string list \<Rightarrow> string list" where
  "pc_requires cfg use =
     map (\<lambda>dep. ''libns'' @ VER cfg @ ''-'' @ drop 4 dep @ BUILD_SUFFIX cfg) (filter (\<lambda>dep. startswith dep ''ns3-'') use)"

definition generate_pcfile :: "bld_config \<Rightarrow> pc_env \<Rightarrow> string \<Rightarrow> string list \<Rightarrow> string list \<Rightarrow> string" where
  "generate_pcfile cfg env name use export_includes =
     text_lines
       [''prefix='' @ PREFIX env, ''libdir='' @ LIBDIR env, ''includedir='' @ INCLUDEDIR env @ ''/'' @ APP cfg @ VER cfg, '''',
        ''Name: lib'' @ name, ''Description: ns-3 module '' @ name, ''Version: '' @ VER cfg,
        ''Libs: '' @ join_with '' '' (pc_libs cfg env name use),
        ''Cflags: '' @ join_with '' '' (pc_cflags env export_includes use),
        ''Requires: '' @ join_with '' '' (pc_requires cfg use)]"

definition pc_filename :: "tgen \<Rightarrow> string" where
  "pc_filename module = ''lib'' @ path_basename (tg_target module) @ ''.pc''"

text \<open>What a module requires are the \<open>.pc\<close> files of the modules that it depends on.\<close>

theorem pc_requires_files:
  assumes "\<forall>dep \<in> set deps. CHR ''/'' \<notin> set (''ns'' @ VER cfg @ ''-'' @ dep @ BUILD_SUFFIX cfg)"
  shows "map (\<lambda>r. r @ ''.pc'') (pc_requires cfg (tg_use (module_tgen cfg static path up name deps s)))
    = map (\<lambda>dep. pc_filename (module_tgen cfg static path' up' dep deps' s')) deps"
proof -
  have "''libns'' @ VER cfg @ ''-'' @ drop 4 (ns3_prefix dep) @ BUILD_SUFFIX cfg @ ''.pc''
      = pc_filename (module_tgen cfg static path' up' dep deps' s')" if "dep \<in> set deps" for dep
  proof -
    have "path_basename ((up' @ ''/lib'') @ ''/'' @ ''ns'' @ VER cfg @ ''-'' @ dep @ BUILD_SUFFIX cfg)
        = ''ns'' @ VER cfg @ ''-'' @ dep @ BUILD_SUFFIX cfg"
      by (rule path_basename_append) (use assms that in blast)
    then show ?thesis by (simp add: pc_filename_def module_tgen_def ns3_prefix_def)
  qed
  then show ?thesis
    by (auto simp: pc_requires_def module_tgen_def filter_map comp_def ns3_prefix_def startswith_def)
qed

theorem pc_requires_files_witness:
  "map (\<lambda>r. r @ ''.pc'') (pc_requires sample_bld (tg_use (module_tgen sample_bld False ''/b'' ''.'' ''n'' [''c''] empty_build)))
   = [pc_filename (module_tgen sample_bld False ''/b'' ''.'' ''c'' [] empty_build)]"
  using pc_requires_files [of "[''c'']" sample_bld False "''/b''" "''.''" "''n''" empty_build "''/b''" "''.''" "[]" empty_build]
  by (simp add: sample_bld_def)

text \<open>A library of \<open>LIBS\<close> ends up as single characters.\<close>

lemma pc_libs_characters:
  "LIBS env = [dep] \<Longrightarrow> \<exists>front. pc_libs cfg env name use = front @ map (\<lambda>c. [c]) (LIB_ST env dep)"
  by (simp add: pc_libs_def)

text \<open>The macro that guards the header of a module is never defined, so that the guard has no effect.\<close>

lemma header_guard_undefined:
  "contains_str ''#ifndef NS3_MODULE_A_B'' (gen_module_header ''a-b'' [''x.h''])
   \<and> \<not> contains_str ''#define'' (gen_module_header ''a-b'' [''x.h''])"
  by code_simp

end
