(* ===== verification/Ns3_Configure.thy ===== *)
theory Ns3_Configure
  imports Config_Files "HOL-Library.List_Lexorder" "HOL-Library.Char_ord"
begin

text \<open>
  The decisions of \<open>configure\<close> in the top \<open>wscript\<close>: the optional features and their report, the libraries of boost,
  the C++ standard, the enabled modules and those that are not built, tests and examples.  The tests that
  waf makes, for a flag of the compiler or for boost, are parameters.
\<close>

section \<open>Optional features\<close>

text \<open>The name, the caption, whether the feature was enabled, and the reason when it was not.\<close>

type_synonym feature = "string \<times> string \<times> bool \<times> string"

definition report_optional_feature :: "string \<Rightarrow> string \<Rightarrow> bool \<Rightarrow> string \<Rightarrow> feature list \<Rightarrow> feature list" where
  "report_optional_feature name caption was_enabled reason_not_enabled features =
     features @ [(name, caption, was_enabled, reason_not_enabled)]"

fun check_optional_feature :: "string \<Rightarrow> feature list \<Rightarrow> bool result" where
  "check_optional_feature name [] = Inl KeyError"
| "check_optional_feature name ((name1, caption, was_enabled, reason_not_enabled) # features) =
     (if name1 = name then Inr was_enabled else check_optional_feature name features)"

text \<open>The lines of \<open>print_config\<close>; \<open>colors\<close> gives the control sequence of a colour.\<close>

definition ljust :: "nat \<Rightarrow> string \<Rightarrow> string" where
  "ljust n s = s @ replicate (n - length s) CHR '' ''"

definition config_line :: "(string \<Rightarrow> string) \<Rightarrow> string \<Rightarrow> string \<Rightarrow> string \<Rightarrow> string" where
  "config_line colors caption color status =
     ljust 30 caption @ '': '' @ colors color @ status @ colors ''NORMAL'' @ newline"

definition feature_line :: "(string \<Rightarrow> string) \<Rightarrow> feature \<Rightarrow> string" where
  "feature_line colors f =
     (case f of (name, caption, was_enabled, reason_not_enabled) \<Rightarrow>
        if was_enabled then config_line colors caption ''GREEN'' ''enabled''
        else config_line colors caption ''RED'' (''not enabled ('' @ reason_not_enabled @ '')''))"

definition print_config :: "(string \<Rightarrow> string) \<Rightarrow> string \<Rightarrow> string \<Rightarrow> feature list \<Rightarrow> string" where
  "print_config colors profile out_dir features =
     ''---- Summary of optional NS-3 features:'' @ newline
     @ config_line colors ''Build profile'' ''GREEN'' profile
     @ config_line colors ''Build directory'' ''GREEN'' out_dir
     @ concat (map (feature_line colors) (sort_key (\<lambda>s. fst (snd s)) features))"

text \<open>
  The build profile is the option, or is looked up in the lock file, whose options are a printed dictionary
  that is cut at every comma and every colon.
\<close>

fun profile_option :: "string list \<Rightarrow> string option result" where
  "profile_option [] = Inr None"
| "profile_option (x # xs) =
     (case split_on CHR '':'' x of
        [optkey, optval] \<Rightarrow>
          if lstrip optkey = [CHR 0x27] @ ''build_profile'' @ [CHR 0x27]
          then Inr (Some (filter (\<lambda>c. c \<noteq> CHR 0x27) (lstrip optval)))
          else profile_option xs
      | _ \<Rightarrow> Inl ValueError)"

fun profile_lines :: "string list \<Rightarrow> string result" where
  "profile_lines [] = Inr ''not found''"
| "profile_lines (line # ls) =
     (if startswith line ''options ='' then
        rbind (profile_option (split_on CHR '','' (concat (tl (split_once CHR ''='' line))))) (\<lambda>found.
          case found of Some p \<Rightarrow> Inr p | None \<Rightarrow> profile_lines ls)
      else profile_lines ls)"

definition get_build_profile :: "string option \<Rightarrow> string list \<Rightarrow> string result" where
  "get_build_profile env_profile lockfile =
     (case env_profile of Some p \<Rightarrow> Inr p | None \<Rightarrow> profile_lines lockfile)"

section \<open>Boost\<close>

record boost_conf =
  INCLUDES_BOOST :: "string list"
  LIB_BOOST :: "string list"
  boost_libs :: "string list"
  OPTIONAL_FEATURES :: "feature list"
  MODULES_NOT_BUILT :: "string list"
  CPPFLAGS :: "string list"

definition require_boost_incs :: "string \<Rightarrow> string \<Rightarrow> bool \<Rightarrow> boost_conf \<Rightarrow> bool \<times> boost_conf" where
  "require_boost_incs module caption required conf =
     (if INCLUDES_BOOST conf \<noteq> [] then (True, conf)
      else if \<not> required then (False, conf)
      else (False, conf \<lparr> OPTIONAL_FEATURES := report_optional_feature module caption False
                            ''boost headers required but not found'' (OPTIONAL_FEATURES conf),
                          MODULES_NOT_BUILT := MODULES_NOT_BUILT conf @ [module] \<rparr>))"

text \<open>\<open>list_text\<close> is the representation of a list of texts.\<close>

definition conf_missing_boost_libs :: "(string list \<Rightarrow> string) \<Rightarrow> string \<Rightarrow> string \<Rightarrow> string list \<Rightarrow> bool \<Rightarrow> boost_conf
    \<Rightarrow> string list \<times> boost_conf" where
  "conf_missing_boost_libs list_text module caption libs required conf =
     (case require_boost_incs module caption required conf of (have, conf1) \<Rightarrow>
        if \<not> have then (libs, conf1)
        else
          let missing = filter (\<lambda>lib. lib \<notin> set (boost_libs conf1)) libs
          in if required \<and> missing \<noteq> [] then
               (missing, conf1 \<lparr> OPTIONAL_FEATURES := report_optional_feature module caption False
                   (if LIB_BOOST conf1 = [] then ''No boost libraries were found''
                    else ''Required boost libraries not found, missing: '' @ list_text missing) (OPTIONAL_FEATURES conf1),
                  MODULES_NOT_BUILT := MODULES_NOT_BUILT conf1 @ [module] \<rparr>)
             else (missing, conf1))"

definition boost_lib_name :: "string \<Rightarrow> string" where
  "boost_lib_name lib =
     (let lib1 = (if startswith lib ''boost_'' then drop 6 lib else lib)
      in if endswith lib1 ''-mt'' then take (length lib1 - 3) lib1 else lib1)"

text \<open>A set is a list without repetitions, whose order is that of its enumeration \<open>enum\<close>.\<close>

definition get_boost_libs :: "(string list \<Rightarrow> string list) \<Rightarrow> string list \<Rightarrow> string list" where
  "get_boost_libs enum libs = enum (remdups (map boost_lib_name libs))"

text \<open>
  The search of boost for the required libraries gives the include directories and the libraries.  Required
  libraries that were found get a preprocessor symbol.
\<close>

definition configure_boost :: "(string list \<Rightarrow> string list) \<Rightarrow> (string list \<Rightarrow> string list \<times> string list) \<Rightarrow> string list
    \<Rightarrow> boost_conf \<Rightarrow> boost_conf" where
  "configure_boost enum check_boost required_libs conf =
     (let required = enum (remdups required_libs);
          (incs, libs) = check_boost required;
          conf1 = conf \<lparr> INCLUDES_BOOST := incs, LIB_BOOST := libs \<rparr>;
          conf2 = (if incs \<noteq> [] then conf1 \<lparr> CPPFLAGS := CPPFLAGS conf1 @ [''-DHAVE_BOOST''] \<rparr> else conf1)
      in if libs = [] then conf2
         else (let names = get_boost_libs enum libs
               in conf2 \<lparr> boost_libs := names,
                    CPPFLAGS := CPPFLAGS conf2
                      @ map (\<lambda>lib. ''-DHAVE_BOOST_'' @ map upper_char lib) (filter (\<lambda>lib. lib \<in> set required) names) \<rparr>))"

section \<open>Profile and compiler\<close>

definition append_unique :: "string \<Rightarrow> string list \<Rightarrow> string list" where
  "append_unique x xs = (if x \<in> set xs then xs else xs @ [x])"

definition profile_defines :: "string \<Rightarrow> bool \<Rightarrow> bool \<Rightarrow> string list \<Rightarrow> string list" where
  "profile_defines profile enable_logs enable_asserts defines =
     (let d1 = defines @ (if profile = ''debug'' then [''NS3_BUILD_PROFILE_DEBUG'', ''NS3_ASSERT_ENABLE'', ''NS3_LOG_ENABLE''] else []);
          d2 = d1 @ (if profile = ''release'' then [''NS3_BUILD_PROFILE_RELEASE''] else []);
          d3 = d2 @ (if profile = ''optimized'' then [''NS3_BUILD_PROFILE_OPTIMIZED''] else []);
          d4 = (if enable_logs then append_unique ''NS3_LOG_ENABLE'' d3 else d3)
      in if enable_asserts then append_unique ''NS3_ASSERT_ENABLE'' d4 else d4)"

definition configured_suffix :: "string \<Rightarrow> string" where
  "configured_suffix profile = (if profile = ''release'' then '''' else ''-'' @ profile)"

text \<open>The order of tuples, and the version check of gcc.\<close>

fun tuple_less :: "nat list \<Rightarrow> nat list \<Rightarrow> bool" where
  "tuple_less xs [] \<longleftrightarrow> False"
| "tuple_less [] (y # ys) \<longleftrightarrow> True"
| "tuple_less (x # xs) (y # ys) \<longleftrightarrow> x < y \<or> x = y \<and> tuple_less xs ys"

definition gcc_too_old :: "string \<Rightarrow> nat list \<Rightarrow> bool" where
  "gcc_too_old cxx_name version \<longleftrightarrow> cxx_name = ''gcc'' \<and> tuple_less version [7, 0, 0]"

section \<open>The C++ standard\<close>

text \<open>The last flag \<open>-std=\<close> in \<open>CXXFLAGS\<close>.\<close>

definition cxx_standard_env :: "string list \<Rightarrow> string" where
  "cxx_standard_env flags = foldl (\<lambda>std flag. if take 5 flag = ''-std='' then flag else std) '''' flags"

text \<open>The standard, the new flags and whether a warning is printed.\<close>

definition choose_cxx_standard :: "string list \<Rightarrow> string option \<Rightarrow> string \<times> string list \<times> bool" where
  "choose_cxx_standard flags option =
     (let env_std = cxx_standard_env flags;
          given = (case option of None \<Rightarrow> '''' | Some s \<Rightarrow> s)
      in if env_std = '''' \<and> given \<noteq> '''' then (given, flags @ [given], False)
         else if env_std \<noteq> '''' \<and> given = '''' then (env_std, flags, False)
         else if env_std \<noteq> '''' \<and> given \<noteq> '''' \<and> env_std \<noteq> given then (given, remove1 env_std flags @ [given], True)
         else if env_std \<noteq> '''' \<and> given \<noteq> '''' \<and> env_std = given then (given, flags, False)
         else (''-std=c++17'', flags @ [''-std=c++17''], False))"

definition configure_cxx_standard :: "(string \<Rightarrow> bool) \<Rightarrow> string list \<Rightarrow> string option \<Rightarrow> string list result" where
  "configure_cxx_standard check_compilation_flag flags option =
     (case choose_cxx_standard flags option of (std, flags', warned) \<Rightarrow>
        if check_compilation_flag std then Inr flags' else Inl (OtherError ''ConfigurationError''))"

section \<open>Enabled modules\<close>

text \<open>
  The lists of the configuration.  Without a choice the enabled lists \<^emph>\<open>are\<close> the lists of all modules: the same
  objects, so that a removal from the one is a removal from the other.  The option \<open>--enable-modules\<close> is the empty
  text when it is not given.
\<close>

record module_lists =
  NS3_MODULES :: "string list"
  NS3_CONTRIBUTED_MODULES :: "string list"
  enabled_list :: "string list"
  enabled_contributed :: "string list"
  same_objects :: bool

definition select_module :: "string list \<Rightarrow> string list \<Rightarrow> string \<Rightarrow> string list \<times> string list \<Rightarrow> string list \<times> string list" where
  "select_module modules contributed name sel =
     (case sel of (ms, cs) \<Rightarrow>
        if name \<in> set modules \<and> startswith name ''ns3-'' then (ms @ [name], cs)
        else if ''ns3-'' @ name \<in> set modules then (ms @ [''ns3-'' @ name], cs)
        else if name \<in> set contributed \<and> startswith name ''ns3-'' then (ms, cs @ [name])
        else if ''ns3-'' @ name \<in> set contributed then (ms, cs @ [''ns3-'' @ name])
        else (ms, cs))"

definition select_modules :: "string list \<Rightarrow> string list \<Rightarrow> string list \<Rightarrow> module_lists" where
  "select_modules modules contributed names =
     (case fold (select_module modules contributed) names ([], []) of (ms, cs) \<Rightarrow>
        \<lparr> NS3_MODULES = modules, NS3_CONTRIBUTED_MODULES = contributed,
          enabled_list = ms, enabled_contributed = cs, same_objects = False \<rparr>)"

definition set_enabled_modules :: "string \<Rightarrow> string list \<Rightarrow> string list \<Rightarrow> string list \<Rightarrow> module_lists result" where
  "set_enabled_modules option from_file modules contributed =
     (if option \<noteq> [] then Inr (select_modules modules contributed (split_on CHR '','' option))
      else
        (case from_file of
           [] \<Rightarrow> Inl IndexError
         | first # rest \<Rightarrow>
             if first = ''all_modules'' then
               Inr \<lparr> NS3_MODULES = modules, NS3_CONTRIBUTED_MODULES = contributed,
                     enabled_list = modules, enabled_contributed = contributed, same_objects = True \<rparr>
             else Inr (select_modules modules contributed from_file)))"

text \<open>\<open>list.remove\<close> takes the first of equal members only.\<close>

definition remove_not_built :: "string \<Rightarrow> module_lists \<Rightarrow> module_lists result" where
  "remove_not_built not_built ls =
     (let name = ''ns3-'' @ not_built
      in if name \<in> set (enabled_list ls) then
           (let ls' = ls \<lparr> enabled_list := remove1 name (enabled_list ls),
                           NS3_MODULES := (if same_objects ls then remove1 name (NS3_MODULES ls) else NS3_MODULES ls) \<rparr>
            in if enabled_list ls' = [] then
                 Inl (OtherError (''WafError: Exiting because the '' @ not_built
                        @ '' module can not be built and it was the only one enabled.''))
               else Inr ls')
         else if name \<in> set (enabled_contributed ls) then
           Inr (ls \<lparr> enabled_contributed := remove1 name (enabled_contributed ls),
                     NS3_CONTRIBUTED_MODULES := (if same_objects ls then remove1 name (NS3_CONTRIBUTED_MODULES ls)
                                                 else NS3_CONTRIBUTED_MODULES ls) \<rparr>)
         else Inr ls)"

definition configure_modules :: "string \<Rightarrow> string list \<Rightarrow> string list \<Rightarrow> string list \<Rightarrow> bool \<Rightarrow> string list
    \<Rightarrow> module_lists result" where
  "configure_modules option from_file modules contributed static_darwin not_built =
     rbind (set_enabled_modules option from_file modules contributed)
       (rfold remove_not_built (not_built @ (if static_darwin then [''template''] else [])))"

text \<open>Tests and examples: the decision and the text that is reported with it.\<close>

definition decide_enabled :: "string \<Rightarrow> string \<Rightarrow> bool \<Rightarrow> bool \<Rightarrow> bool \<Rightarrow> bool \<Rightarrow> bool \<times> string" where
  "decide_enabled enable_text disable_text enable disable from_file file_exists =
     (if enable then (True, enable_text)
      else if disable then (False, disable_text)
      else (from_file,
            if file_exists then ''based on configuration file''
            else if from_file then ''defaults to enabled'' else ''defaults to disabled''))"

definition decide_tests :: "bool \<Rightarrow> bool \<Rightarrow> ns3rc \<Rightarrow> bool \<times> string" where
  "decide_tests enable disable rc =
     decide_enabled ''option --enable-tests selected'' ''option --disable-tests selected'' enable disable
       (tests_enabled rc) (config_file_exists rc)"

definition decide_examples :: "bool \<Rightarrow> bool \<Rightarrow> ns3rc \<Rightarrow> bool \<times> string" where
  "decide_examples enable disable rc =
     decide_enabled ''option --enable-examples selected'' ''option --disable-examples selected'' enable disable
       (examples_enabled rc) (config_file_exists rc)"

definition example_directories :: "string list \<Rightarrow> string list" where
  "example_directories entries = filter (\<lambda>d. \<not> startswith d ''.'' \<and> d \<noteq> ''CVS'') entries"

section \<open>Properties of the configuration\<close>

lemma check_reported:
  "check_optional_feature name (report_optional_feature name caption enabled reason features)
   = (if list_ex (\<lambda>f. fst f = name) features then check_optional_feature name features else Inr enabled)"
proof (induction features)
  case (Cons f features)
  then show ?case by (cases f) (simp add: report_optional_feature_def)
qed (simp add: report_optional_feature_def)

text \<open>The flags without those that choose a standard.\<close>

definition other_flags :: "string list \<Rightarrow> string list" where
  "other_flags flags = filter (\<lambda>flag. take 5 flag \<noteq> ''-std='') flags"

lemma cxx_standard_env_append [simp]:
  "cxx_standard_env (flags @ [flag]) = (if take 5 flag = ''-std='' then flag else cxx_standard_env flags)"
  by (simp add: cxx_standard_env_def)

lemma cxx_standard_env_member:
  "cxx_standard_env flags \<noteq> '''' \<Longrightarrow> cxx_standard_env flags \<in> set flags \<and> take 5 (cxx_standard_env flags) = ''-std=''"
  by (induction flags rule: rev_induct) (auto simp: cxx_standard_env_def)

lemma other_flags_remove1: "take 5 flag = ''-std='' \<Longrightarrow> other_flags (remove1 flag flags) = other_flags flags"
  by (induction flags) (auto simp: other_flags_def)

text \<open>C30 The option wins over \<open>CXXFLAGS\<close>, which wins over the default; the chosen standard is the last one among the new
  flags, the one that a compiler takes, and the other flags stay as they are, whenever the option, if given, is a
  flag \<open>-std=\<close>.  A warning is printed only when two different standards were given.\<close>

theorem cxx_standard_effective:
  assumes "\<forall>s. option = Some s \<longrightarrow> s = '''' \<or> take 5 s = ''-std=''"
    and "choose_cxx_standard flags option = (std, flags', warned)"
  shows "cxx_standard_env flags' = std \<and> other_flags flags' = other_flags flags
    \<and> std = (case option of Some (c # s) \<Rightarrow> c # s
             | _ \<Rightarrow> if cxx_standard_env flags \<noteq> '''' then cxx_standard_env flags else ''-std=c++17'')
    \<and> (warned \<longleftrightarrow> (\<exists>s. option = Some s \<and> s \<noteq> '''' \<and> cxx_standard_env flags \<notin> {'''', s}))"
proof -
  define given where "given = (case option of None \<Rightarrow> '''' | Some s \<Rightarrow> s)"
  have flag: "take 5 given = ''-std=''" if "given \<noteq> ''''"
    using assms(1) that by (auto simp: given_def split: option.splits)
  have mem: "take 5 (cxx_standard_env flags) = ''-std=''" if "cxx_standard_env flags \<noteq> ''''"
    using cxx_standard_env_member [OF that] ..
  have opt: "(case option of Some (c # s) \<Rightarrow> c # s | _ \<Rightarrow> e) = (if given = '''' then e else given)" for e
    by (auto simp: given_def split: option.splits list.splits)
  have warn: "(\<exists>s. option = Some s \<and> s \<noteq> '''' \<and> e \<notin> {'''', s}) \<longleftrightarrow> given \<noteq> '''' \<and> e \<noteq> '''' \<and> e \<noteq> given" for e
    by (auto simp: given_def split: option.splits)
  note choice = assms(2) [unfolded choose_cxx_standard_def Let_def, folded given_def]
  have other: "other_flags (flags' @ [x]) = other_flags flags'" if "take 5 x = ''-std=''" for flags' x
    using that by (simp add: other_flags_def)
  show ?thesis
    unfolding opt warn
  proof (cases "given = []"; cases "cxx_standard_env flags = []")
    assume "given = []" "cxx_standard_env flags = []"
    then show "cxx_standard_env flags' = std \<and> other_flags flags' = other_flags flags
      \<and> std = (if given = [] then if cxx_standard_env flags \<noteq> [] then cxx_standard_env flags else ''-std=c++17'' else given)
      \<and> (warned \<longleftrightarrow> given \<noteq> [] \<and> cxx_standard_env flags \<noteq> [] \<and> cxx_standard_env flags \<noteq> given)"
      using choice by (auto simp: other)
  next
    assume "given = []" "cxx_standard_env flags \<noteq> []"
    then show "cxx_standard_env flags' = std \<and> other_flags flags' = other_flags flags
      \<and> std = (if given = [] then if cxx_standard_env flags \<noteq> [] then cxx_standard_env flags else ''-std=c++17'' else given)
      \<and> (warned \<longleftrightarrow> given \<noteq> [] \<and> cxx_standard_env flags \<noteq> [] \<and> cxx_standard_env flags \<noteq> given)"
      using choice by auto
  next
    assume "given \<noteq> []" "cxx_standard_env flags = []"
    then show "cxx_standard_env flags' = std \<and> other_flags flags' = other_flags flags
      \<and> std = (if given = [] then if cxx_standard_env flags \<noteq> [] then cxx_standard_env flags else ''-std=c++17'' else given)
      \<and> (warned \<longleftrightarrow> given \<noteq> [] \<and> cxx_standard_env flags \<noteq> [] \<and> cxx_standard_env flags \<noteq> given)"
      using choice flag by (auto simp: other)
  next
    assume "given \<noteq> []" "cxx_standard_env flags \<noteq> []"
    then show "cxx_standard_env flags' = std \<and> other_flags flags' = other_flags flags
      \<and> std = (if given = [] then if cxx_standard_env flags \<noteq> [] then cxx_standard_env flags else ''-std=c++17'' else given)
      \<and> (warned \<longleftrightarrow> given \<noteq> [] \<and> cxx_standard_env flags \<noteq> [] \<and> cxx_standard_env flags \<noteq> given)"
      using choice flag mem by (cases "cxx_standard_env flags = given") (auto simp: other other_flags_remove1)
  qed
qed

theorem cxx_standard_effective_witness:
  "choose_cxx_standard [''-O2'', ''-std=c++14''] (Some ''-std=c++20'') = (''-std=c++20'', [''-O2'', ''-std=c++20''], True)
   \<and> cxx_standard_env [''-O2'', ''-std=c++20''] = ''-std=c++20''"
proof -
  have run: "choose_cxx_standard [''-O2'', ''-std=c++14''] (Some ''-std=c++20'') = (''-std=c++20'', [''-O2'', ''-std=c++20''], True)"
    by code_simp
  show ?thesis using run cxx_standard_effective [OF _ run] by simp
qed

text \<open>An option that is the bare name of a standard does not replace the one that \<open>CXXFLAGS\<close> chooses first.\<close>

lemma bare_standard_name:
  "choose_cxx_standard [''-std=c++14''] (Some ''c++14'') = (''c++14'', [''c++14''], True)"
  by code_simp

text \<open>Selected modules are modules of the lists, whatever names were asked for; other names are ignored.\<close>

lemma select_module_known:
  "set ms \<subseteq> set modules \<and> set cs \<subseteq> set contributed \<Longrightarrow>
   (case select_module modules contributed name (ms, cs) of (ms', cs') \<Rightarrow> set ms' \<subseteq> set modules \<and> set cs' \<subseteq> set contributed)"
  by (simp add: select_module_def)

lemma fold_select_known:
  "set (fst sel) \<subseteq> set modules \<and> set (snd sel) \<subseteq> set contributed \<Longrightarrow>
   (case fold (select_module modules contributed) names sel of
      (ms', cs') \<Rightarrow> set ms' \<subseteq> set modules \<and> set cs' \<subseteq> set contributed)"
proof (induction names arbitrary: sel)
  case Nil
  then show ?case by (simp add: case_prod_unfold)
next
  case (Cons name names)
  have "case select_module modules contributed name (fst sel, snd sel) of
      (ms', cs') \<Rightarrow> set ms' \<subseteq> set modules \<and> set cs' \<subseteq> set contributed"
    using Cons.prems by (rule select_module_known)
  then show ?case using Cons.IH [of "select_module modules contributed name sel"] by (simp add: case_prod_unfold)
qed

lemma select_modules_known:
  "set (enabled_list (select_modules modules contributed names)) \<subseteq> set modules
   \<and> set (enabled_contributed (select_modules modules contributed names)) \<subseteq> set contributed"
  using fold_select_known [of "([], [])" modules contributed names] by (simp add: select_modules_def case_prod_unfold)

lemma set_enabled_known:
  assumes "set_enabled_modules option from_file modules contributed = Inr ls"
  shows "set (enabled_list ls) \<subseteq> set modules \<and> set (enabled_contributed ls) \<subseteq> set contributed"
proof -
  consider names where "ls = select_modules modules contributed names"
    | "enabled_list ls = modules" "enabled_contributed ls = contributed"
    using assms by (cases from_file) (auto simp: set_enabled_modules_def split: if_splits)
  then show ?thesis by cases (simp_all add: select_modules_known)
qed

lemma unknown_names_enable_nothing:
  assumes "\<forall>name \<in> set names. name \<notin> set (modules @ contributed) \<and> ''ns3-'' @ name \<notin> set (modules @ contributed)"
  shows "enabled_list (select_modules modules contributed names) = []
    \<and> enabled_contributed (select_modules modules contributed names) = []"
proof -
  have "fold (select_module modules contributed) names sel = sel" for sel
    using assms by (induction names arbitrary: sel) (auto simp: select_module_def)
  then show ?thesis by (simp add: select_modules_def)
qed

definition not_built_names :: "string list \<Rightarrow> string set" where
  "not_built_names not_built = (\<lambda>n. ''ns3-'' @ n) ` set not_built"

lemma remove_not_built_effect:
  assumes "remove_not_built nb ls = Inr ls'" and dist: "distinct (enabled_list ls @ enabled_contributed ls)"
  shows "enabled_list ls' = filter (\<lambda>m. m \<noteq> ''ns3-'' @ nb) (enabled_list ls)
    \<and> enabled_contributed ls' = filter (\<lambda>m. m \<noteq> ''ns3-'' @ nb) (enabled_contributed ls)"
proof -
  define n where "n = ''ns3-'' @ nb"
  have keep: "filter (\<lambda>m. m \<noteq> n) xs = xs" if "n \<notin> set xs" for xs
    using that by (induction xs) auto
  have rem: "remove1 n xs = filter (\<lambda>m. m \<noteq> n) xs" if "distinct xs" for xs
    using that by (induction xs) (auto simp: keep)
  note run = assms(1) [unfolded remove_not_built_def Let_def, folded n_def]
  consider "n \<in> set (enabled_list ls)" "n \<notin> set (enabled_contributed ls)" | "n \<notin> set (enabled_list ls)" "n \<in> set (enabled_contributed ls)"
    | "n \<notin> set (enabled_list ls)" "n \<notin> set (enabled_contributed ls)"
    using dist by auto
  then show ?thesis
    unfolding n_def [symmetric]
    by cases (use run dist rem keep in \<open>auto split: if_splits\<close>)
qed

text \<open>C29 When the selected modules are distinct and the configuration succeeds, the enabled modules are exactly the
  selected ones that can be built, in their order; they are modules of the two lists of all modules.\<close>

theorem configured_modules_exact:
  assumes "set_enabled_modules option from_file modules contributed = Inr sel"
    and "distinct (enabled_list sel @ enabled_contributed sel)"
    and "configure_modules option from_file modules contributed static_darwin not_built = Inr ls"
  shows "let missing = not_built_names (not_built @ (if static_darwin then [''template''] else []))
    in enabled_list ls = filter (\<lambda>m. m \<notin> missing) (enabled_list sel)
       \<and> enabled_contributed ls = filter (\<lambda>m. m \<notin> missing) (enabled_contributed sel)
       \<and> set (enabled_list ls) \<subseteq> set modules \<and> set (enabled_contributed ls) \<subseteq> set contributed"
proof -
  have "enabled_list ls' = filter (\<lambda>m. m \<notin> not_built_names nbs) (enabled_list ls0)
      \<and> enabled_contributed ls' = filter (\<lambda>m. m \<notin> not_built_names nbs) (enabled_contributed ls0)"
    if "rfold remove_not_built nbs ls0 = Inr ls'" "distinct (enabled_list ls0 @ enabled_contributed ls0)" for nbs ls0 ls'
    using that
  proof (induction nbs arbitrary: ls0)
    case Nil
    then show ?case by (simp add: not_built_names_def)
  next
    case (Cons nb nbs)
    then obtain ls1 where ls1: "remove_not_built nb ls0 = Inr ls1" "rfold remove_not_built nbs ls1 = Inr ls'"
      by (auto simp: rbind_eq_Inr)
    have eff: "enabled_list ls1 = filter (\<lambda>m. m \<noteq> ''ns3-'' @ nb) (enabled_list ls0)"
      "enabled_contributed ls1 = filter (\<lambda>m. m \<noteq> ''ns3-'' @ nb) (enabled_contributed ls0)"
      using remove_not_built_effect [OF ls1(1) Cons.prems(2)] by auto
    have "distinct (enabled_list ls1 @ enabled_contributed ls1)" using Cons.prems(2) by (auto simp: eff)
    from Cons.IH [OF ls1(2) this] show ?case by (simp add: eff not_built_names_def conj_commute)
  qed
  from this [of _ sel ls] show ?thesis
    using assms set_enabled_known [OF assms(1)] by (auto simp: configure_modules_def Let_def)
qed

text \<open>A module that was asked for twice is removed once, and stays enabled although it cannot be built.\<close>

lemma not_built_twice_stays:
  "configure_modules ''a,ns3-a,b'' [] [''ns3-a'', ''ns3-b''] [] False [''a'']
   = Inr \<lparr> NS3_MODULES = [''ns3-a'', ''ns3-b''], NS3_CONTRIBUTED_MODULES = [], enabled_list = [''ns3-a'', ''ns3-b''],
          enabled_contributed = [], same_objects = False \<rparr>"
  by code_simp

text \<open>With all modules enabled, a module that cannot be built also leaves the list of all modules.\<close>

lemma all_modules_lose_not_built:
  "configure_modules '''' [''all_modules''] [''ns3-a'', ''ns3-b''] [] False [''a'']
   = Inr \<lparr> NS3_MODULES = [''ns3-b''], NS3_CONTRIBUTED_MODULES = [], enabled_list = [''ns3-b''],
          enabled_contributed = [], same_objects = True \<rparr>"
  by code_simp

theorem configured_modules_exact_witness:
  "configure_modules ''a,b'' [] [''ns3-a'', ''ns3-b''] [] False [''a'']
   = Inr \<lparr> NS3_MODULES = [''ns3-a'', ''ns3-b''], NS3_CONTRIBUTED_MODULES = [], enabled_list = [''ns3-b''],
          enabled_contributed = [], same_objects = False \<rparr>
   \<and> not_built_names [''a''] = {''ns3-a''} \<and> [''ns3-b''] = filter (\<lambda>m. m \<notin> {''ns3-a''}) [''ns3-a'', ''ns3-b'']"
proof -
  let ?sel = "\<lparr> NS3_MODULES = [''ns3-a'', ''ns3-b''], NS3_CONTRIBUTED_MODULES = [],
       enabled_list = [''ns3-a'', ''ns3-b''], enabled_contributed = [], same_objects = False \<rparr>"
  have sel: "set_enabled_modules ''a,b'' [] [''ns3-a'', ''ns3-b''] [] = Inr ?sel" by code_simp
  have run: "configure_modules ''a,b'' [] [''ns3-a'', ''ns3-b''] [] False [''a'']
   = Inr (?sel \<lparr> enabled_list := [''ns3-b''] \<rparr>)" by code_simp
  have names: "not_built_names [''a''] = {''ns3-a''}" by (simp add: not_built_names_def)
  show ?thesis using configured_modules_exact [OF sel _ run] run by (simp add: names)
qed

text \<open>Without the headers of boost a module that asks for no library gets the answer that nothing is missing.\<close>

lemma no_boost_no_libs:
  "INCLUDES_BOOST conf = [] \<Longrightarrow>
   fst (conf_missing_boost_libs list_text module caption [] True conf) = []
   \<and> module \<in> set (MODULES_NOT_BUILT (snd (conf_missing_boost_libs list_text module caption [] True conf)))"
  by (simp add: conf_missing_boost_libs_def require_boost_incs_def)

text \<open>A colon in another option, or the option at the beginning of the dictionary, spoils the search for the profile.\<close>

lemma profile_colon:
  "profile_lines [''options = {'' @ [CHR 0x27] @ ''prefix'' @ [CHR 0x27] @ '': a:b,c:d''] = Inl ValueError"
  by code_simp

lemma profile_first:
  "profile_lines [''options = {'' @ [CHR 0x27] @ ''build_profile'' @ [CHR 0x27] @ '': x}''] = Inr ''not found''"
  by code_simp

text \<open>A version of gcc that is given by its first number alone counts as older than the minimum.\<close>

lemma gcc_seven_alone: "gcc_too_old ''gcc'' [7] \<and> \<not> gcc_too_old ''gcc'' [7, 0, 0]"
  by code_simp

lemma gcc_version_checked: "length version = 3 \<Longrightarrow> \<not> gcc_too_old ''gcc'' version \<longleftrightarrow> 7 \<le> hd version"
  by (cases version; cases "tl version"; cases "tl (tl version)") (auto simp: gcc_too_old_def)

end
