(* ===== verification/Ns3_Shutdown.thy ===== *)
theory Ns3_Shutdown
  imports Ns3_Build Ns3_Configure
begin

text \<open>
  What the top \<open>wscript\<close> does after a build: the lists of built modules, the file \<open>build-status.py\<close> that \<open>test.py\<close>
  reads with \<open>get_list_from_file\<close>, and the requests that come last.
\<close>

section \<open>Names in three columns\<close>

definition column_text :: "nat \<Rightarrow> nat \<Rightarrow> string \<Rightarrow> string" where
  "column_text n i name = (if i mod 3 = 2 \<or> i = n - 1 then name @ newline else ljust 25 name @ '' '')"

definition print_module_names :: "string list \<Rightarrow> string" where
  "print_module_names names =
     concat (map (\<lambda>(i, name). column_text (length names) i name) (enumerate 0 (sort names)))"

text \<open>The reference: rows of three names, each row with one end of line.\<close>

fun rows_of_three :: "'a list \<Rightarrow> 'a list list" where
  "rows_of_three [] = []"
| "rows_of_three [a] = [[a]]"
| "rows_of_three [a, b] = [[a, b]]"
| "rows_of_three (a # b # c # xs) = [a, b, c] # rows_of_three xs"

definition row_text :: "string list \<Rightarrow> string" where
  "row_text row = concat (map (\<lambda>name. ljust 25 name @ '' '') (butlast row)) @ last row @ newline"

lemma columns_are_rows:
  "i mod 3 = 0 \<Longrightarrow> n = i + length names \<Longrightarrow>
   concat (map (\<lambda>(j, name). column_text n j name) (enumerate i names)) = concat (map row_text (rows_of_three names))"
proof (induction names arbitrary: i rule: rows_of_three.induct)
  case 1
  then show ?case by simp
next
  case (2 a)
  then show ?case by (simp add: column_text_def row_text_def)
next
  case (3 a b)
  then have "i mod 3 \<noteq> 2" "i \<noteq> n - 1" by simp_all
  with 3 show ?case by (simp add: column_text_def row_text_def)
next
  case (4 a b c xs)
  have "Suc i mod 3 \<noteq> 2" "Suc (Suc i) mod 3 = 2" "i mod 3 \<noteq> 2" "Suc (Suc (Suc i)) mod 3 = 0" using 4(2) by presburger+
  moreover have "i \<noteq> n - 1" "Suc i \<noteq> n - 1" using 4(3) by simp_all
  ultimately show ?case using 4(1) [of "Suc (Suc (Suc i))"] 4(3) by (simp add: column_text_def row_text_def)
qed

text \<open>The loop over the positions prints the sorted names in rows of three, in columns of 25 characters.\<close>

theorem module_names_in_rows:
  "print_module_names names = concat (map row_text (rows_of_three (sort names)))"
  unfolding print_module_names_def by (rule columns_are_rows) simp_all

section \<open>Lists of texts as Python writes them\<close>

definition repr_hex :: "nat \<Rightarrow> char" where
  "repr_hex d = (if d < 10 then char_of (48 + d) else char_of (87 + d))"

text \<open>
  \<open>repr\<close> of a text of characters below 256: the quote is the apostrophe, unless the text has one and no double
  quote.
\<close>

definition repr_quote :: "string \<Rightarrow> char" where
  "repr_quote s = (if CHR 0x27 \<in> set s \<and> CHR 0x22 \<notin> set s then CHR 0x22 else CHR 0x27)"

definition repr_char :: "char \<Rightarrow> char \<Rightarrow> string" where
  "repr_char q c =
     (let n = of_char c :: nat
      in if c = q \<or> c = CHR 0x5C then [CHR 0x5C, c]
         else if n = 10 then [CHR 0x5C, CHR ''n'']
         else if n = 13 then [CHR 0x5C, CHR ''r'']
         else if n = 9 then [CHR 0x5C, CHR ''t'']
         else if n < 32 \<or> 127 \<le> n \<and> n \<le> 160 \<or> n = 173 then [CHR 0x5C, CHR ''x'', repr_hex (n div 16), repr_hex (n mod 16)]
         else [c])"

definition py_repr :: "string \<Rightarrow> string" where
  "py_repr s = [repr_quote s] @ concat (map (repr_char (repr_quote s)) s) @ [repr_quote s]"

definition list_repr :: "string list \<Rightarrow> string" where
  "list_repr xs = ''['' @ join_with '', '' (map py_repr xs) @ '']''"

section \<open>The end of a build\<close>

definition built_name :: "string list \<Rightarrow> string \<Rightarrow> string" where
  "built_name bindings name = drop (length ''ns3-'') name @ (if name \<in> set bindings then '''' else '' (no Python)'')"

definition built_modules_text :: "string list \<Rightarrow> string list \<Rightarrow> string list \<times> string list \<Rightarrow> string" where
  "built_modules_text bindings not_built enabled =
     newline @ ''Modules built:'' @ newline
     @ print_module_names (map (built_name bindings) (fst enabled @ snd enabled)) @ newline
     @ (if not_built \<noteq> [] then
          ''Modules not built (see ns-3 tutorial for explanation):'' @ newline @ print_module_names not_built @ newline
        else '''')"

definition build_status_text :: "string list \<Rightarrow> string list \<Rightarrow> string" where
  "build_status_text programs scripts =
     ''#! /usr/bin/env python3'' @ newline @ newline
     @ ''# Programs that are runnable.'' @ newline @ ''ns3_runnable_programs = '' @ list_repr programs @ newline @ newline
     @ ''# Scripts that are runnable.'' @ newline @ ''ns3_runnable_scripts = '' @ list_repr scripts @ newline @ newline"

text \<open>
  The actions of \<open>shutdown\<close> in their order; each may raise an exception, by the parameter \<open>perform\<close>, and a program that
  was run ends the command with status 0.
\<close>

datatype action =
    Print_text string
  | Write_file string string
  | Lcov_report
  | Lcov_zerocounters
  | Run_program string
  | Run_python_program string
  | Raise_exit py_exn
  | Check_shell

record shutdown_options =
  so_lcov_report :: bool
  so_lcov_zerocounters :: bool
  so_run :: string
  so_pyrun :: string
  so_shell :: bool
  so_check :: bool

definition shutdown_actions :: "shutdown_options \<Rightarrow> bool \<Rightarrow> string list \<Rightarrow> string list \<Rightarrow> string \<Rightarrow> bld_state \<Rightarrow> action list" where
  "shutdown_actions opts print_modules bindings not_built out_dir s =
     (if print_modules then [Print_text (built_modules_text bindings not_built (enabled_modules s))] else [])
     @ [Write_file (path_join out_dir ''build-status.py'')
          (build_status_text (NS3_RUNNABLE_PROGRAMS s) (NS3_RUNNABLE_SCRIPTS s))]
     @ (if so_lcov_report opts then [Lcov_report] else [])
     @ (if so_lcov_zerocounters opts then [Lcov_zerocounters] else [])
     @ (if so_run opts \<noteq> [] then [Run_program (so_run opts), Raise_exit (sys_exit 0)] else [])
     @ (if so_pyrun opts \<noteq> [] then [Run_python_program (so_pyrun opts), Raise_exit (sys_exit 0)] else [])
     @ (if so_shell opts then [Raise_exit (OtherError ''WafError'')] else [])
     @ (if so_check opts then [Raise_exit (OtherError ''WafError'')] else [])
     @ [Check_shell]"

fun run_actions :: "(action \<Rightarrow> py_exn option) \<Rightarrow> action list \<Rightarrow> action list \<times> py_exn option" where
  "run_actions perform [] = ([], None)"
| "run_actions perform (a # as) =
     (case a of
        Raise_exit e \<Rightarrow> ([], Some e)
      | _ \<Rightarrow> (case perform a of
                Some e \<Rightarrow> ([a], Some e)
              | None \<Rightarrow> (case run_actions perform as of (done, r) \<Rightarrow> (a # done, r))))"

text \<open>
  Inside \<open>./waf shell\<close> the two search paths of the environment must be those of the configuration.
\<close>

definition check_shell :: "(string, string) dict \<Rightarrow> string list \<Rightarrow> string list \<Rightarrow> unit result" where
  "check_shell environ module_path executable_path =
     (case (dict_get environ ''NS3_MODULE_PATH'', dict_get environ ''NS3_EXECUTABLE_PATH'') of
        (Some found_modpath, Some found_execpath) \<Rightarrow>
          if found_modpath \<noteq> join_with '':'' module_path \<or> join_with '':'' executable_path \<noteq> found_execpath
          then Inl (OtherError ''WafError'') else Inr ()
      | _ \<Rightarrow> Inr ())"

section \<open>The status file is read back\<close>

lemma repr_char_plain:
  assumes "x \<in> {CHR 0x23, CHR 0x0A}" "q \<noteq> x" "c \<noteq> CHR 0x23"
  shows "x \<notin> set (repr_char q c)"
proof -
  have "repr_hex d \<noteq> x" if "d < 16" for d
  proof -
    have "\<forall>d \<in> set [0..<16]. repr_hex d \<noteq> CHR 0x23 \<and> repr_hex d \<noteq> CHR 0x0A" by code_simp
    moreover have "d \<in> set [0..<16]" using that by simp
    ultimately show ?thesis using assms(1) by blast
  qed
  moreover have "of_char c div 16 < (16 :: nat)" using nat_of_char_less_256 [of c] by linarith
  ultimately have hx: "repr_hex (of_char c div 16) \<noteq> x" "repr_hex (of_char c mod 16) \<noteq> x" by simp_all
  show ?thesis
  proof (cases "c = CHR 0x0A")
    case True
    then show ?thesis using assms(1,2) by (auto simp: repr_char_def)
  next
    case False
    then have "c \<noteq> x" using assms(1,3) by auto
    then show ?thesis using assms(1) hx by (auto simp: repr_char_def Let_def)
  qed
qed

lemma py_repr_plain:
  assumes "CHR 0x23 \<notin> set s"
  shows "CHR 0x23 \<notin> set (py_repr s)" "CHR 0x0A \<notin> set (py_repr s)"
proof -
  have free: "x \<notin> set (py_repr s)" if x: "x \<in> {CHR 0x23, CHR 0x0A}" for x
  proof -
    have q: "repr_quote s \<noteq> x" using x by (auto simp: repr_quote_def)
    have "x \<notin> set (repr_char (repr_quote s) c)" if "c \<in> set s" for c
    proof -
      have "c \<noteq> CHR 0x23" using assms that by auto
      with x q show ?thesis by (rule repr_char_plain)
    qed
    then show ?thesis using q unfolding py_repr_def by simp
  qed
  show "CHR 0x23 \<notin> set (py_repr s)" "CHR 0x0A \<notin> set (py_repr s)" by (rule free; simp)+
qed

lemma join_with_free: "x \<notin> set sep \<Longrightarrow> \<forall>w \<in> set ws. x \<notin> set w \<Longrightarrow> x \<notin> set (join_with sep ws)"
  by (induction sep ws rule: join_with.induct) auto

lemma list_repr_plain:
  assumes "\<forall>s \<in> set xs. CHR 0x23 \<notin> set s"
  shows "CHR 0x23 \<notin> set (list_repr xs)" "CHR 0x0A \<notin> set (list_repr xs)"
  using join_with_free [of "CHR 0x23" "'', ''" "map py_repr xs"] join_with_free [of "CHR 0x0A" "'', ''" "map py_repr xs"]
    assms py_repr_plain by (auto simp: list_repr_def)

lemma readlines_line: "CHR 0x0A \<notin> set l \<Longrightarrow> readlines (l @ newline @ s) = (l @ newline) # readlines s"
  by (induction l) auto

text \<open>The lines of the status file.\<close>

definition status_line :: "string \<Rightarrow> string list \<Rightarrow> string" where
  "status_line name xs = name @ '' = '' @ list_repr xs @ newline"

lemma readlines_status:
  assumes "\<forall>s \<in> set programs. CHR 0x23 \<notin> set s" "\<forall>s \<in> set scripts. CHR 0x23 \<notin> set s"
  shows "readlines (build_status_text programs scripts) =
    [''#! /usr/bin/env python3'' @ newline, newline, ''# Programs that are runnable.'' @ newline,
     status_line ''ns3_runnable_programs'' programs, newline, ''# Scripts that are runnable.'' @ newline,
     status_line ''ns3_runnable_scripts'' scripts, newline]"
proof -
  have n: "readlines (newline @ s) = newline # readlines s" for s by simp
  have 1: "readlines (''#! /usr/bin/env python3'' @ newline @ s) = (''#! /usr/bin/env python3'' @ newline) # readlines s" for s
    by (rule readlines_line) simp
  have 2: "readlines (''# Programs that are runnable.'' @ newline @ s) = (''# Programs that are runnable.'' @ newline) # readlines s" for s
    by (rule readlines_line) simp
  have 3: "readlines (''# Scripts that are runnable.'' @ newline @ s) = (''# Scripts that are runnable.'' @ newline) # readlines s" for s
    by (rule readlines_line) simp
  have 4: "readlines (''ns3_runnable_programs = '' @ list_repr programs @ newline @ s)
      = (''ns3_runnable_programs = '' @ list_repr programs @ newline) # readlines s" for s
    using readlines_line [of "''ns3_runnable_programs = '' @ list_repr programs" s] list_repr_plain(2) [OF assms(1)] by simp
  have 5: "readlines (''ns3_runnable_scripts = '' @ list_repr scripts @ newline @ s)
      = (''ns3_runnable_scripts = '' @ list_repr scripts @ newline) # readlines s" for s
    using readlines_line [of "''ns3_runnable_scripts = '' @ list_repr scripts" s] list_repr_plain(2) [OF assms(2)] by simp
  have 6: "readlines newline = [newline]" by simp
  show ?thesis unfolding build_status_text_def 1 n 2 4 3 5 6 by (simp add: status_line_def)
qed

lemma no_name_in_short:
  assumes "length l < length name"
  shows "\<not> contains_str name l"
  using assms by (auto simp: contains_str_iff)

lemma list_lines_skip_one:
  "\<not> contains_str name (remove_comment l) \<Longrightarrow> list_lines ev name (l # ls) [] False = list_lines ev name ls [] False"
  by (simp add: Let_def)

lemma list_lines_status:
  assumes "CHR 0x23 \<notin> set name" "CHR ''='' \<notin> set name" "\<forall>s \<in> set xs. CHR 0x23 \<notin> set s"
  shows "list_lines ev name (status_line name xs # ls) [] False = ev (list_repr xs)"
proof -
  let ?l = "status_line name xs"
  have "CHR 0x23 \<notin> set ?l" using assms(1) list_repr_plain(1) [OF assms(3)] by (simp add: status_line_def)
  then have comment: "remove_comment ?l = ?l" by (auto simp: remove_comment_def takeWhile_eq_all_conv)
  have has: "contains_str name ?l" unfolding contains_str_iff status_line_def by (metis append_Nil)
  have close: "CHR '']'' \<in> set ?l" by (simp add: status_line_def list_repr_def)
  have "split_once CHR ''='' ?l = [name @ '' '', '' '' @ list_repr xs @ newline]"
  proof -
    have "takeWhile (\<lambda>x. x \<noteq> CHR ''='') ((name @ '' '') @ CHR ''='' # r) = name @ '' ''"
      "dropWhile (\<lambda>x. x \<noteq> CHR ''='') ((name @ '' '') @ CHR ''='' # r) = CHR ''='' # r" for r
      using assms(2) by (auto simp: takeWhile_append dropWhile_append)
    then show ?thesis by (simp add: split_once_def status_line_def)
  qed
  moreover have "strip ('' '' @ list_repr xs @ newline) = list_repr xs"
    by (simp add: strip_def lstrip_def rstrip_def list_repr_def py_space_def)
  ultimately have "eval_right ev ?l = ev (list_repr xs)" by (simp add: eval_right_def)
  then show ?thesis using comment has close by (simp add: Let_def)
qed

lemma status_lists_read:
  assumes "\<forall>s \<in> set programs. CHR 0x23 \<notin> set s" "\<forall>s \<in> set scripts. CHR 0x23 \<notin> set s"
    and "\<not> contains_str ''ns3_runnable_scripts'' (status_line ''ns3_runnable_programs'' programs)"
  shows "get_list_from_file ev (Some (readlines (build_status_text programs scripts))) ''ns3_runnable_programs''
         = ev (list_repr programs)
    \<and> get_list_from_file ev (Some (readlines (build_status_text programs scripts))) ''ns3_runnable_scripts''
         = ev (list_repr scripts)"
proof -
  have c: "remove_comment (''#! /usr/bin/env python3'' @ newline) = ''''" "remove_comment (''# Programs that are runnable.'' @ newline) = ''''"
    "remove_comment (''# Scripts that are runnable.'' @ newline) = ''''" "remove_comment newline = newline"
    by (simp_all add: remove_comment_def)
  have e: "\<not> contains_str ''ns3_runnable_programs'' ''''" "\<not> contains_str ''ns3_runnable_programs'' newline"
    "\<not> contains_str ''ns3_runnable_scripts'' ''''" "\<not> contains_str ''ns3_runnable_scripts'' newline"
    by (rule no_name_in_short; simp)+
  have "CHR 0x23 \<notin> set (status_line ''ns3_runnable_programs'' programs)"
    using list_repr_plain(1) [OF assms(1)] by (simp add: status_line_def)
  then have "remove_comment (status_line ''ns3_runnable_programs'' programs) = status_line ''ns3_runnable_programs'' programs"
    unfolding remove_comment_def takeWhile_eq_all_conv by auto
  then have p: "\<not> contains_str ''ns3_runnable_scripts'' (remove_comment (status_line ''ns3_runnable_programs'' programs))"
    using assms(3) by simp
  note skip = list_lines_skip_one [of "''ns3_runnable_programs''"] list_lines_skip_one [of "''ns3_runnable_scripts''"]
  show ?thesis
    unfolding get_list_from_file_def readlines_status [OF assms(1,2)] option.case
    by (simp only: skip c e p not_False_eq_True simp_thms list_lines_status [OF _ _ assms(1)] list_lines_status [OF _ _ assms(2)])
      (simp add: list_lines_status assms(1,2) del: list_lines.simps)
qed

lemmas status_programs_read = status_lists_read [THEN conjunct1]

text \<open>C36 The status file that a build leaves gives \<open>test.py\<close> back, through \<open>get_list_from_file\<close>, the lists that were written: what
  it evaluates is exactly Python's own text of the runnable programs, and of the runnable scripts, if no name has a
  \<open>#\<close> and no name of a program has the name of the second list in it.\<close>

theorem build_status_read_back:
  assumes "\<forall>s \<in> set programs. CHR 0x23 \<notin> set s" "\<forall>s \<in> set scripts. CHR 0x23 \<notin> set s"
    and "\<not> contains_str ''ns3_runnable_scripts'' (status_line ''ns3_runnable_programs'' programs)"
  shows "get_list_from_file ev (Some (readlines (build_status_text programs scripts))) ''ns3_runnable_programs''
         = ev (list_repr programs)
    \<and> get_list_from_file ev (Some (readlines (build_status_text programs scripts))) ''ns3_runnable_scripts''
         = ev (list_repr scripts)"
  by (rule status_lists_read [OF assms])

theorem build_status_read_back_witness:
  "get_list_from_file (\<lambda>s. if s = list_repr [''p''] then Inr [''p''] else Inl ValueError)
     (Some (readlines (build_status_text [''p''] [''s.py'']))) ''ns3_runnable_programs'' = Inr [''p'']"
proof -
  have r: "list_repr [''p''] = [CHR ''['', CHR 0x27, CHR ''p'', CHR 0x27, CHR '']'']" by code_simp
  have "\<not> contains_str ''ns3_runnable_scripts'' (status_line ''ns3_runnable_programs'' [''p''])"
    unfolding status_line_def r by (simp add: startswith_def)
  then show ?thesis
    using build_status_read_back [of "[''p'']" "[''s.py'']" "\<lambda>s. if s = list_repr [''p''] then Inr [''p''] else Inl ValueError"]
    by simp
qed

text \<open>A \<open>#\<close> in the name of a program, as a directory in \<open>scratch\<close> may have, is taken for a comment: the rest of the line is lost,
  and what is evaluated runs on to the end of the second list.\<close>

lemma hash_in_program_name:
  "get_list_from_file Inr (Some (readlines (build_status_text [''#''] []))) ''ns3_runnable_programs''
   = Inr (''['' @ [CHR 0x27] @ newline @ ''ns3_runnable_scripts = []'')"
proof -
  have p: "list_repr [''#''] = [CHR ''['', CHR 0x27, CHR 0x23, CHR 0x27, CHR '']'']" "list_repr [] = ''[]''" by code_simp+
  show ?thesis
    unfolding build_status_text_def p
    by (simp add: get_list_from_file_def remove_comment_def startswith_def Let_def eval_right_def split_once_def
        strip_def lstrip_def rstrip_def py_space_def)
qed

section \<open>From the configuration to the build\<close>

text \<open>The enabled modules stay among all modules, also when the lists are the same objects.\<close>

lemma remove_not_built_known:
  assumes "remove_not_built nb ls = Inr ls'"
    and "set (enabled_list ls) \<subseteq> set (NS3_MODULES ls) \<and> set (enabled_contributed ls) \<subseteq> set (NS3_CONTRIBUTED_MODULES ls)
      \<and> (same_objects ls \<longrightarrow> enabled_list ls = NS3_MODULES ls \<and> enabled_contributed ls = NS3_CONTRIBUTED_MODULES ls)"
  shows "set (enabled_list ls') \<subseteq> set (NS3_MODULES ls') \<and> set (enabled_contributed ls') \<subseteq> set (NS3_CONTRIBUTED_MODULES ls')
      \<and> (same_objects ls' \<longrightarrow> enabled_list ls' = NS3_MODULES ls' \<and> enabled_contributed ls' = NS3_CONTRIBUTED_MODULES ls')"
proof -
  define n where "n = ''ns3-'' @ nb"
  have sub: "x \<in> set xs" if "x \<in> set (remove1 n xs)" for x and xs :: "string list"
    using that by (induction xs) (auto split: if_splits)
  show ?thesis
    using assms(1) [unfolded remove_not_built_def Let_def, folded n_def] assms(2)
    by (cases "same_objects ls")
      (auto split: if_splits dest!: sub)
qed

lemma configure_modules_known:
  assumes "configure_modules option from_file modules contributed static_darwin not_built = Inr ls"
  shows "set (enabled_list ls) \<subseteq> set (NS3_MODULES ls)" "set (enabled_contributed ls) \<subseteq> set (NS3_CONTRIBUTED_MODULES ls)"
proof -
  let ?known = "\<lambda>ls. set (enabled_list ls) \<subseteq> set (NS3_MODULES ls)
      \<and> set (enabled_contributed ls) \<subseteq> set (NS3_CONTRIBUTED_MODULES ls)
      \<and> (same_objects ls \<longrightarrow> enabled_list ls = NS3_MODULES ls \<and> enabled_contributed ls = NS3_CONTRIBUTED_MODULES ls)"
  have loop: "?known ls'" if "rfold remove_not_built nbs ls0 = Inr ls'" "?known ls0" for nbs ls0 ls'
    using that
  proof (induction nbs arbitrary: ls0)
    case (Cons nb nbs)
    then obtain ls1 where "remove_not_built nb ls0 = Inr ls1" "rfold remove_not_built nbs ls1 = Inr ls'"
      by (auto simp: rbind_eq_Inr)
    then show ?case using Cons.IH remove_not_built_known [OF _ Cons.prems(2)] by blast
  qed simp
  obtain sel where sel: "set_enabled_modules option from_file modules contributed = Inr sel"
    and run: "rfold remove_not_built (not_built @ (if static_darwin then [''template''] else [])) sel = Inr ls"
    using assms by (auto simp: configure_modules_def rbind_eq_Inr)
  have "?known (select_modules modules contributed names)" for names
    using select_modules_known [of modules contributed names] by (simp add: select_modules_def case_prod_unfold)
  then have "?known sel" using sel by (cases from_file) (auto simp: set_enabled_modules_def split: if_splits)
  with loop [OF run] show "set (enabled_list ls) \<subseteq> set (NS3_MODULES ls)"
    "set (enabled_contributed ls) \<subseteq> set (NS3_CONTRIBUTED_MODULES ls)" by simp_all
qed

definition tgen_uses :: "(string \<Rightarrow> tgen option result) \<Rightarrow> string \<Rightarrow> string list option result" where
  "tgen_uses get_tgen m = rbind (get_tgen m) (\<lambda>obj. Inr (map_option tg_use obj))"

text \<open>C4 From the configuration to the build: with a generator for every module of the configured lists, the build enables
  exactly the configured modules and what they need, and of the test libraries those of enabled modules if tests are
  built; it exits with status 1 if and only if something that is needed is not in the configured lists.\<close>

theorem configured_build_enables:
  assumes "configure_modules option from_file modules contributed static_darwin not_built = Inr ls"
    and "ALL_MODULES cfg = NS3_MODULES ls" "ALL_CONTRIBUTED_MODULES cfg = NS3_CONTRIBUTED_MODULES ls"
    and "enabled_modules s = (enabled_list ls, enabled_contributed ls)"
    and "\<forall>m \<in> set (NS3_MODULES ls @ NS3_CONTRIBUTED_MODULES ls). \<exists>t. get_tgen m = Inr (Some t)"
    and "needed = (needs (tgen_uses get_tgen))\<^sup>* `` all_enabled (enabled_modules s)"
  shows "if needed \<subseteq> set (NS3_MODULES ls @ NS3_CONTRIBUTED_MODULES ls)
    then \<exists>s'. enable_needed cfg get_tgen s = Inr s' \<and> all_enabled (enabled_modules s') = needed
       \<and> NS3_ENABLED_MODULE_TEST_LIBRARIES s' = NS3_ENABLED_MODULE_TEST_LIBRARIES s
            @ (if TESTS_ENABLED cfg then map snd (filter (\<lambda>(m, lib). m \<in> needed) (NS3_MODULES_WITH_TEST_LIBRARIES s)) else [])
    else enable_needed cfg get_tgen s = Inl (sys_exit 1)"
proof -
  let ?U = "set (NS3_MODULES ls @ NS3_CONTRIBUTED_MODULES ls)" and ?en = "enabled_modules s"
  let ?close = "close_dependencies (ALL_MODULES cfg) (ALL_CONTRIBUTED_MODULES cfg) (tgen_uses get_tgen) ?en"
  have U: "all_enabled ?en \<union> set (ALL_MODULES cfg) \<union> set (ALL_CONTRIBUTED_MODULES cfg) = ?U"
    using configure_modules_known [OF assms(1)] assms(2-4) by (auto simp: all_enabled_def)
  have gens: "\<forall>m \<in> all_enabled ?en \<union> set (ALL_MODULES cfg) \<union> set (ALL_CONTRIBUTED_MODULES cfg).
      \<exists>use. tgen_uses get_tgen m = Inr (Some use)"
    unfolding U using assms(5) by (fastforce simp: tgen_uses_def)
  note decides = close_dependencies_decides [OF gens, folded assms(6), unfolded U]
  have run: "enable_needed cfg get_tgen s = rbind ?close (\<lambda>enabled.
       let libs = map snd (filter (\<lambda>(module, testlib). \<not> disabled enabled module) (NS3_MODULES_WITH_TEST_LIBRARIES s))
       in Inr (s \<lparr> enabled_modules := enabled, NS3_ENABLED_MODULE_TEST_LIBRARIES :=
                  NS3_ENABLED_MODULE_TEST_LIBRARIES s @ (if TESTS_ENABLED cfg then libs else []) \<rparr>))"
    by (simp add: enable_needed_def tgen_uses_def [abs_def])
  show ?thesis
  proof (cases "needed \<subseteq> ?U")
    case True
    then obtain closed where "?close = Inr closed" "all_enabled closed = needed" using decides by auto
    then show ?thesis using True by (simp add: run Let_def disabled_iff)
  next
    case False
    then have "?close = Inl (sys_exit 1)" using decides by simp
    then show ?thesis using False by (simp add: run)
  qed
qed

text \<open>The names of the example: \<open>n\<close> is selected, and needs \<open>c\<close>.\<close>

definition sample_tgen :: "string \<Rightarrow> tgen option result" where
  "sample_tgen m = Inr (find (\<lambda>t. is_ns3_module t \<and> tg_name t = m) (get_all_task_gen sample_build))"

theorem configured_build_enables_witness:
  "\<exists>s'. enable_needed sample_bld sample_tgen empty_build = Inr s'
    \<and> all_enabled (enabled_modules s') = (needs (tgen_uses sample_tgen))\<^sup>* `` {''ns3-n''}"
proof -
  define ls where "ls = \<lparr> NS3_MODULES = ALL_MODULES sample_bld, NS3_CONTRIBUTED_MODULES = [],
    enabled_list = [''ns3-n''], enabled_contributed = [], same_objects = False \<rparr>"
  have conf: "configure_modules ''n'' [] (ALL_MODULES sample_bld) [] False [] = Inr ls" unfolding ls_def by code_simp
  have gens: "\<forall>m \<in> set (NS3_MODULES ls @ NS3_CONTRIBUTED_MODULES ls). \<exists>t. sample_tgen m = Inr (Some t)"
  proof -
    have "\<forall>m \<in> set (ALL_MODULES sample_bld). sample_tgen m \<noteq> Inr None" by code_simp
    then show ?thesis by (auto simp: ls_def sample_tgen_def)
  qed
  have runs: "enable_needed sample_bld sample_tgen empty_build \<noteq> Inl (sys_exit 1)" by code_simp
  have start: "enabled_modules empty_build = (enabled_list ls, enabled_contributed ls)" by (simp add: empty_build_def ls_def)
  have "all_enabled (enabled_modules empty_build) = {''ns3-n''}" by (simp add: empty_build_def all_enabled_def)
  then show ?thesis
    using configured_build_enables [OF conf _ _ start gens refl, of sample_bld] runs
    by (auto simp: ls_def sample_bld_def split: if_splits)
qed

end
