(* ===== verification/Nice_Units.thy ===== *)
theory Nice_Units
  imports Rad_Util Py_Float
begin

text \<open>
  \<open>nice_units\<close> of \<open>bindings/python/rad_util.py\<close> for a float, or for any number in the decimal mode: it is printed with a prefix
  of the SI units or one of the binary prefixes.  The value and the multipliers are exact numbers, so that the quotients of
  neighbouring multipliers are whole, as the code takes them to be; \<open>dp\<close> and \<open>sigfigs\<close> are not negative.  The search of the
  multiplier and the binary table are those of \<open>Rad_Util\<close>.
\<close>

section \<open>The tables\<close>

text \<open>The dictionary, in the order of its sorted keys, with the entry of unity that is added to it.\<close>

definition si_prefixes :: "bool \<Rightarrow> (rat \<times> string \<times> string) list" where
  "si_prefixes use_extra =
     [(1 / 10 ^ 24, ''y'', ''yocto''), (1 / 10 ^ 21, ''z'', ''zepto''), (1 / 10 ^ 18, ''a'', ''atto''),
      (1 / 10 ^ 15, ''f'', ''femto''), (1 / 10 ^ 12, ''p'', ''pico''), (1 / 10 ^ 9, ''n'', ''nano''),
      (1 / 10 ^ 6, ''u'', ''micro''), (1 / 10 ^ 3, ''m'', ''milli'')]
     @ (if use_extra then [(1 / 10 ^ 2, ''c'', ''centi''), (1 / 10, ''d'', ''deci'')] else [])
     @ [(1, '''', '''')]
     @ (if use_extra then [(10, ''da'', ''deka''), (10 ^ 2, ''h'', ''hecto'')] else [])
     @ [(10 ^ 3, ''k'', ''kilo''), (10 ^ 6, ''M'', ''mega''), (10 ^ 9, ''G'', ''giga''), (10 ^ 12, ''T'', ''tera''),
        (10 ^ 15, ''P'', ''peta''), (10 ^ 18, ''E'', ''exa''), (10 ^ 21, ''Z'', ''zetta''), (10 ^ 24, ''Y'', ''yotta'')]"

text \<open>The next multiplier is taken where the value rounds up to it.\<close>

definition carry_index :: "rat list \<Rightarrow> rat \<Rightarrow> nat \<Rightarrow> nat \<Rightarrow> nat" where
  "carry_index ms v dp i =
     (if i < length ms - 1 \<and> py_round (v / ms ! i) dp = py_round (ms ! (i + 1) / ms ! i) dp then i + 1 else i)"

text \<open>A number of significant figures overrides that of the decimal places; nothing is carried then.\<close>

datatype precision = Places nat | Figures nat

definition unit_prefixes :: "bool \<Rightarrow> bool \<Rightarrow> (rat \<times> string \<times> string) list" where
  "unit_prefixes bin use_extra = (if bin then map (\<lambda>(m, names). (of_int m, names)) bin_prefixes else si_prefixes use_extra)"

definition nice_units :: "rat \<Rightarrow> precision \<Rightarrow> string \<Rightarrow> string \<Rightarrow> bool \<Rightarrow> bool \<Rightarrow> bool \<Rightarrow> string result" where
  "nice_units v prec unit space use_extra use_full_name bin =
     (let table = unit_prefixes bin use_extra; ms = map fst table
      in case nice_mult_index ms v of
           None \<Rightarrow> Inl UnboundLocalError
         | Some i \<Rightarrow>
             (case table ! (case prec of Places dp \<Rightarrow> carry_index ms v dp i | Figures n \<Rightarrow> i) of
                (m, symbol, name) \<Rightarrow>
                  Inr ((case prec of Places dp \<Rightarrow> py_fixed dp (v / m) | Figures n \<Rightarrow> py_general n (v / m))
                       @ space @ (if use_full_name then name else symbol) @ unit)))"

text \<open>\<open>pt2str\<close>; \<open>str\<close> of the coordinates is a parameter.\<close>

definition pt2str :: "('a \<Rightarrow> string) \<Rightarrow> 'a \<times> 'a \<Rightarrow> string" where
  "pt2str show_num p = ''('' @ show_num (fst p) @ '', '' @ show_num (snd p) @ '')''"

section \<open>Tables whose steps are whole\<close>










section \<open>The printed number\<close>





lemma nice_units_examples:
  "nice_units (2 / 10 ^ 11) (Places 0) '''' '' '' False False False = Inr ''20 p''"
  "nice_units 999999 (Places 0) ''B'' '' '' False False False = Inr ''1 MB''"
  "nice_units 1234 (Places 2) ''m'' '''' False True False = Inr ''1.23kilom''"
  "nice_units 42 (Places 1) '''' '' '' True True False = Inr ''4.2 deka''"
  "nice_units 1536 (Places 1) ''B'' '' '' False False True = Inr ''1.5 KB''"
  "nice_units 1234 (Figures 3) ''m'' '''' False False False = Inr ''1.23km''"
  by code_simp+

text \<open>Zero and the negative numbers are below every multiplier: they are printed in the smallest one.\<close>

lemma nice_units_negative_yocto:
  "nice_units 0 (Places 0) ''s'' '' '' False False False = Inr ''0 ys''"
  "nice_units (- (1 / 10 ^ 23)) (Places 0) ''s'' '' '' False False False = Inr ''-10 ys''"
  by code_simp+

text \<open>With significant figures a value is not carried to the next multiplier, and is printed with an exponent instead.\<close>

lemma nice_units_figures_exponent:
  "nice_units 999999 (Figures 3) ''B'' '' '' False False False = Inr ''1e+03 kB''"
  "nice_units 123456 (Figures 2) ''B'' '' '' False False False = Inr ''1.2e+02 kB''"
  by code_simp+

end
