(* ===== verification/Py_Csv.thy ===== *)
theory Py_Csv
  imports Py_Float
begin

text \<open>
  \<open>csv.reader\<close> and \<open>csv.DictReader\<close> of the standard library in their default dialect, on the decoded text of a file whose
  line ends are newlines, as \<open>open\<close> translates them.  A field is shorter than the limit of the module; there is no NUL.
\<close>

section \<open>Rows\<close>

text \<open>
  The states of the reader.  A newline inside quotes is part of the field; elsewhere it ends the row.  The field being read
  and the fields of the row are kept in reverse.  At the end of the text a row that has begun is complete.
\<close>

datatype csv_state = Start_Record | Start_Field | In_Field | In_Quoted | Quote_In_Quoted

fun csv_read :: "csv_state \<Rightarrow> string list \<Rightarrow> string \<Rightarrow> string \<Rightarrow> string list list" where
  "csv_read st fields field [] = (if st = Start_Record then [] else [rev (rev field # fields)])"
| "csv_read Start_Record fields field (c # cs) =
     (if c = CHR 0x0A then [] # csv_read Start_Record [] [] cs
      else if c = CHR 0x22 then csv_read In_Quoted [] [] cs
      else if c = CHR '','' then csv_read Start_Field [[]] [] cs
      else csv_read In_Field [] [c] cs)"
| "csv_read Start_Field fields field (c # cs) =
     (if c = CHR 0x0A then rev ([] # fields) # csv_read Start_Record [] [] cs
      else if c = CHR 0x22 then csv_read In_Quoted fields [] cs
      else if c = CHR '','' then csv_read Start_Field ([] # fields) [] cs
      else csv_read In_Field fields [c] cs)"
| "csv_read In_Field fields field (c # cs) =
     (if c = CHR 0x0A then rev (rev field # fields) # csv_read Start_Record [] [] cs
      else if c = CHR '','' then csv_read Start_Field (rev field # fields) [] cs
      else csv_read In_Field fields (c # field) cs)"
| "csv_read In_Quoted fields field (c # cs) =
     (if c = CHR 0x22 then csv_read Quote_In_Quoted fields field cs else csv_read In_Quoted fields (c # field) cs)"
| "csv_read Quote_In_Quoted fields field (c # cs) =
     (if c = CHR 0x22 then csv_read In_Quoted fields (c # field) cs
      else if c = CHR '','' then csv_read Start_Field (rev field # fields) [] cs
      else if c = CHR 0x0A then rev (rev field # fields) # csv_read Start_Record [] [] cs
      else csv_read In_Field fields (c # field) cs)"

definition csv_rows :: "string \<Rightarrow> string list list" where
  "csv_rows s = csv_read Start_Record [] [] s"

text \<open>
  \<open>DictReader\<close>: the first row names the columns, empty rows are skipped, a missing value is \<open>None\<close>, and the last of equal
  names counts.  There are no names in an empty text.
\<close>

definition fieldnames :: "string \<Rightarrow> string list option" where
  "fieldnames s = (case csv_rows s of [] \<Rightarrow> None | r # rs \<Rightarrow> Some r)"

definition dict_rows :: "string \<Rightarrow> string list list" where
  "dict_rows s = filter (\<lambda>r. r \<noteq> []) (drop 1 (csv_rows s))"

definition row_value :: "string list \<Rightarrow> string list \<Rightarrow> string \<Rightarrow> string option option" where
  "row_value names row k =
     map_of (rev (zip names (map Some row @ replicate (length names - length row) None))) k"

section \<open>Plain rows\<close>

definition plain_field :: "string \<Rightarrow> bool" where
  "plain_field f \<longleftrightarrow> CHR 0x0A \<notin> set f \<and> CHR 0x22 \<notin> set f \<and> CHR '','' \<notin> set f"

definition plain_row :: "string list \<Rightarrow> bool" where
  "plain_row r \<longleftrightarrow> r \<noteq> [] \<and> r \<noteq> [[]] \<and> list_all plain_field r"

definition csv_line :: "string list \<Rightarrow> string" where
  "csv_line r = join_with '','' r @ newline"

lemma read_in_field:
  "plain_field f \<Longrightarrow> csv_read In_Field fields g (f @ cs) = csv_read In_Field fields (rev f @ g) cs"
  by (induction f arbitrary: g) (auto simp: plain_field_def)

lemma read_field:
  assumes "plain_field f" "st = Start_Field \<or> st = Start_Record \<and> fields = [] \<and> (f \<noteq> [] \<or> c = CHR '','')"
    "c = CHR '','' \<or> c = CHR 0x0A"
  shows "csv_read st fields [] (f @ c # cs) =
    (if c = CHR '','' then csv_read Start_Field (f # fields) [] cs else rev (f # fields) # csv_read Start_Record [] [] cs)"
proof (cases f)
  case Nil
  then show ?thesis using assms(2,3) by auto
next
  case (Cons a g)
  then have "csv_read st fields [] (f @ c # cs) = csv_read In_Field fields [a] (g @ c # cs)"
    using assms(1,2) by (auto simp: plain_field_def)
  also have "\<dots> = csv_read In_Field fields (rev g @ [a]) (c # cs)"
    using assms(1) Cons by (intro read_in_field) (simp add: plain_field_def)
  finally show ?thesis using assms(3) Cons by auto
qed

lemma read_fields:
  "list_all plain_field r \<Longrightarrow> r \<noteq> [] \<Longrightarrow>
   csv_read Start_Field fields [] (join_with '','' r @ CHR 0x0A # cs) = (rev fields @ r) # csv_read Start_Record [] [] cs"
proof (induction r arbitrary: fields)
  case (Cons w ws)
  show ?case
  proof (cases ws)
    case Nil
    then show ?thesis using Cons.prems read_field [of w Start_Field fields "CHR 0x0A" cs] by simp
  next
    case (Cons v vs)
    then show ?thesis
      using Cons.prems Cons.IH [of "w # fields"]
        read_field [of w Start_Field fields "CHR '',''" "join_with '','' ws @ CHR 0x0A # cs"] by simp
  qed
qed simp

lemma csv_plain_rows: "list_all plain_row rows \<Longrightarrow> csv_rows (concat (map csv_line rows)) = rows"
proof (induction rows)
  case (Cons r rows)
  then obtain w ws where r: "r = w # ws" "plain_field w" "list_all plain_field ws" "w \<noteq> [] \<or> ws \<noteq> []"
    by (cases r) (auto simp: plain_row_def)
  let ?cs = "concat (map csv_line rows)"
  have "csv_read Start_Record [] [] (csv_line r @ ?cs) = r # csv_read Start_Record [] [] ?cs"
  proof (cases ws)
    case Nil
    then show ?thesis using r read_field [of w Start_Record "[]" "CHR 0x0A" ?cs] by (simp add: csv_line_def)
  next
    case (Cons v vs)
    then show ?thesis
      using r read_field [of w Start_Record "[]" "CHR '',''" "join_with '','' ws @ CHR 0x0A # ?cs"]
        read_fields [of ws "[w]" ?cs] by (simp add: csv_line_def)
  qed
  then show ?case using Cons by (simp add: csv_rows_def)
qed (simp add: csv_rows_def)

lemma csv_examples:
  "csv_rows (''a,b'' @ newline @ newline @ ''1,'') = [[''a'', ''b''], [], [''1'', '''']]"
  "csv_rows (quote @ ''x,'' @ quote @ quote @ ''y'' @ newline @ quote @ '',z'') = [[''x,'' @ quote @ ''y'' @ newline, ''z'']]"
  by code_simp+

end
