(* ===== verification/Evac_Compare.thy ===== *)
theory Evac_Compare
  imports Py_Csv
begin

text \<open>
  The scripts of the experiments in \<open>python/python\<close> that need only the standard library: \<open>compare_evac.py\<close> prints the
  difference of the evacuation times of two runs, \<open>hyou.py\<close> makes a table of three comparisons, and \<open>make_CDF.py\<close> computes
  the share of the users that are evacuated at a time.  The texts of the labels are in Japanese; they are
  constructors here.  The file system is a map of the names to the decoded texts.  A dictionary enumerates
  its keys in the order of their insertion, as in Python 3, for which these scripts are written.
\<close>

section \<open>Loading a run\<close>

definition column_of :: "string list \<Rightarrow> string \<Rightarrow> string option" where
  "column_of names k = dict_get (foldl (\<lambda>m name. dict_set m (strip name) name) [] names) k"

definition number_in :: "(string \<Rightarrow> 'a result) \<Rightarrow> string list \<Rightarrow> string \<Rightarrow> string list \<Rightarrow> 'a result" where
  "number_in parse names k row = (case row_value names row k of None \<Rightarrow> Inl KeyError | Some v \<Rightarrow> type_error v parse)"

definition load_row :: "string list \<Rightarrow> string \<Rightarrow> string \<Rightarrow> string list \<Rightarrow> (int, rat) dict \<Rightarrow> (int, rat) dict result" where
  "load_row names uid_key time_key row data =
     rbind (number_in parse_int names uid_key row) (\<lambda>uid.
     rbind (number_in parse_float names time_key row) (\<lambda>t. Inr (dict_set data uid t)))"

definition load_text :: "string \<Rightarrow> (int, rat) dict result" where
  "load_text s =
     (case fieldnames s of
        None \<Rightarrow> Inl TypeError
      | Some names \<Rightarrow>
          (case (column_of names ''userID'', column_of names ''time'') of
             (Some uid_key, Some time_key) \<Rightarrow> rfold (load_row names uid_key time_key) (dict_rows s) []
           | _ \<Rightarrow> Inl ValueError))"

definition load_csv :: "(string \<Rightarrow> string option) \<Rightarrow> string \<Rightarrow> (int, rat) dict result" where
  "load_csv fs name = (case fs name of None \<Rightarrow> Inl (OtherError ''FileNotFoundError'') | Some s \<Rightarrow> load_text s)"

text \<open>In \<open>hyou.py\<close> a missing file is an empty run.\<close>

definition load_csv_or_empty :: "(string \<Rightarrow> string option) \<Rightarrow> string \<Rightarrow> (int, rat) dict result" where
  "load_csv_or_empty fs name = (case fs name of None \<Rightarrow> Inr [] | Some s \<Rightarrow> load_text s)"

section \<open>Comparing two runs\<close>

definition fmt_time :: "rat \<Rightarrow> string" where
  "fmt_time x = (if x = 0 then ''0'' else if 1 \<le> \<bar>x\<bar> then py_fixed 2 x else py_fixed 4 x)"

record tally =
  ta_shorter :: nat
  ta_longer :: nat
  ta_same :: nat
  ta_sum_short :: rat
  ta_sum_long :: rat
  ta_short_list :: "rat list"
  ta_long_list :: "rat list"

definition no_tally :: tally where
  "no_tally = \<lparr> ta_shorter = 0, ta_longer = 0, ta_same = 0, ta_sum_short = 0, ta_sum_long = 0, ta_short_list = [], ta_long_list = [] \<rparr>"

definition tally_step :: "(int, rat) dict \<Rightarrow> int \<times> rat \<Rightarrow> tally \<Rightarrow> tally" where
  "tally_step new_data entry st =
     (case entry of (uid, old_time) \<Rightarrow>
        (case dict_get new_data uid of
           None \<Rightarrow> st
         | Some new_time \<Rightarrow>
             let diff = new_time - old_time
             in if diff < 0 then
                  st\<lparr> ta_shorter := ta_shorter st + 1, ta_sum_short := ta_sum_short st + - diff, ta_short_list := ta_short_list st @ [- diff] \<rparr>
                else if 0 < diff then
                  st\<lparr> ta_longer := ta_longer st + 1, ta_sum_long := ta_sum_long st + diff, ta_long_list := ta_long_list st @ [diff] \<rparr>
                else st\<lparr> ta_same := ta_same st + 1 \<rparr>))"

definition tally_of :: "(int, rat) dict \<Rightarrow> (int, rat) dict \<Rightarrow> tally" where
  "tally_of old_data new_data = fold (tally_step new_data) old_data no_tally"

definition py_max :: "rat list \<Rightarrow> rat" where
  "py_max l = foldl max (hd l) (tl l)"

definition py_min :: "rat list \<Rightarrow> rat" where
  "py_min l = foldl min (hd l) (tl l)"

text \<open>The lines of the output and of the table.\<close>

datatype evac_label =
    Shorter_Users | Longer_Users | Total_Saved | Total_Lost
  | Mean_Saved | Max_Saved | Min_Saved | Mean_Lost | Max_Lost | Min_Lost

definition compare_lines :: "tally \<Rightarrow> (evac_label \<times> string) list" where
  "compare_lines t =
     [(Shorter_Users, nat_str (ta_shorter t)), (Longer_Users, nat_str (ta_longer t)),
      (Total_Saved, fmt_time (ta_sum_short t)), (Total_Lost, fmt_time (ta_sum_long t))]
     @ (if 0 < ta_shorter t
        then [(Mean_Saved, fmt_time (ta_sum_short t / of_nat (ta_shorter t))), (Max_Saved, fmt_time (py_max (ta_short_list t))),
              (Min_Saved, fmt_time (py_min (ta_short_list t)))]
        else [])
     @ (if 0 < ta_longer t
        then [(Mean_Lost, fmt_time (ta_sum_long t / of_nat (ta_longer t))), (Max_Lost, fmt_time (py_max (ta_long_list t))),
              (Min_Lost, fmt_time (py_min (ta_long_list t)))]
        else [])"

definition compare_times :: "(string \<Rightarrow> string option) \<Rightarrow> string \<Rightarrow> string \<Rightarrow> (evac_label \<times> string) list result" where
  "compare_times fs old_file new_file =
     rbind (load_csv fs old_file) (\<lambda>old_data. rbind (load_csv fs new_file) (\<lambda>new_data.
       Inr (compare_lines (tally_of old_data new_data))))"

section \<open>The table\<close>

record evac_stats =
  es_shorter_count :: nat
  es_longer_count :: nat
  es_sum_short :: rat
  es_sum_long :: rat
  es_avg_short :: rat
  es_max_short :: rat
  es_min_short :: rat
  es_avg_long :: rat
  es_max_long :: rat
  es_min_long :: rat

definition get_comparison_stats :: "(int, rat) dict \<Rightarrow> (int, rat) dict \<Rightarrow> evac_stats" where
  "get_comparison_stats old_data new_data =
     (let t = tally_of old_data new_data
      in \<lparr> es_shorter_count = ta_shorter t, es_longer_count = ta_longer t,
           es_sum_short = ta_sum_short t, es_sum_long = ta_sum_long t,
           es_avg_short = (if 0 < ta_shorter t then ta_sum_short t / of_nat (ta_shorter t) else 0),
           es_max_short = (if 0 < ta_shorter t then py_max (ta_short_list t) else 0),
           es_min_short = (if 0 < ta_shorter t then py_min (ta_short_list t) else 0),
           es_avg_long = (if 0 < ta_longer t then ta_sum_long t / of_nat (ta_longer t) else 0),
           es_max_long = (if 0 < ta_longer t then py_max (ta_long_list t) else 0),
           es_min_long = (if 0 < ta_longer t then py_min (ta_long_list t) else 0) \<rparr>)"

definition table_rows :: "(evac_label \<times> (evac_stats \<Rightarrow> string)) list" where
  "table_rows =
     [(Shorter_Users, \<lambda>s. nat_str (es_shorter_count s)), (Longer_Users, \<lambda>s. nat_str (es_longer_count s)),
      (Total_Saved, \<lambda>s. fmt_time (es_sum_short s)), (Total_Lost, \<lambda>s. fmt_time (es_sum_long s)),
      (Mean_Saved, \<lambda>s. fmt_time (es_avg_short s)), (Max_Saved, \<lambda>s. fmt_time (es_max_short s)),
      (Min_Saved, \<lambda>s. fmt_time (es_min_short s)),
      (Mean_Lost, \<lambda>s. fmt_time (es_avg_long s)), (Max_Lost, \<lambda>s. fmt_time (es_max_long s)),
      (Min_Lost, \<lambda>s. fmt_time (es_min_long s))]"

text \<open>The rows of the table: a label and one cell for each of the three comparisons.\<close>

definition generate_latex :: "evac_stats list \<Rightarrow> (evac_label \<times> string list) list result" where
  "generate_latex stats_list =
     (if length stats_list \<noteq> 3 then Inl ValueError
      else Inr (map (\<lambda>(label, cell). (label, map cell stats_list)) table_rows))"

text \<open>The main program; \<open>None\<close> is the message that a run could not be read.\<close>

definition make_table :: "(string \<Rightarrow> string option) \<Rightarrow> string \<Rightarrow> string \<Rightarrow> string \<Rightarrow> (evac_label \<times> string list) list option result" where
  "make_table fs file_wo_uav file_patrol file_focused =
     rbind (load_csv_or_empty fs file_wo_uav) (\<lambda>wo.
     rbind (load_csv_or_empty fs file_patrol) (\<lambda>patrol.
     rbind (load_csv_or_empty fs file_focused) (\<lambda>focused.
       if wo \<noteq> [] \<and> patrol \<noteq> [] \<and> focused \<noteq> [] then
         rbind (generate_latex [get_comparison_stats wo patrol, get_comparison_stats wo focused, get_comparison_stats patrol focused])
           (\<lambda>t. Inr (Some t))
       else Inr None)))"

section \<open>The share of the evacuated users\<close>

definition evac_times :: "string \<Rightarrow> rat list result" where
  "evac_times s =
     (case csv_rows s of
        [] \<Rightarrow> Inl (OtherError ''StopIteration'')
      | header # rows \<Rightarrow> rmap (\<lambda>row. parse_float (row ! 1)) (filter (\<lambda>row. \<not> length row < 2) rows))"

definition cdf_percent :: "nat \<Rightarrow> rat list" where
  "cdf_percent n = map (\<lambda>i. of_nat (i + 1) / of_nat n * 100) [0..<n]"

definition cdf_curve :: "string \<Rightarrow> (rat \<times> rat) list result" where
  "cdf_curve s = rbind (evac_times s) (\<lambda>ts. Inr (zip (sort ts) (cdf_percent (length ts))))"

definition cdf_curves :: "(string \<Rightarrow> string option) \<Rightarrow> string list \<Rightarrow> string list \<Rightarrow> (string \<times> (rat \<times> rat) list) list result" where
  "cdf_curves fs filenames labels =
     (if length filenames \<noteq> length labels then Inl ValueError
      else rmap (\<lambda>(name, label).
             (case fs name of
                None \<Rightarrow> Inl (OtherError ''FileNotFoundError'')
              | Some s \<Rightarrow> rbind (cdf_curve s) (\<lambda>ps. Inr (label, ps)))) (zip filenames labels))"


section \<open>What a comparison computes\<close>

text \<open>The differences of the times of the users that are in both runs, in the order of the old one.\<close>

definition common_diffs :: "(int, rat) dict \<Rightarrow> (int, rat) dict \<Rightarrow> rat list" where
  "common_diffs old new = List.map_filter (\<lambda>(u, o'). map_option (\<lambda>n. n - o') (dict_get new u)) old"

lemma common_diffs_simps [simp]:
  "common_diffs [] new = []"
  "common_diffs ((u, t) # old) new = (case dict_get new u of None \<Rightarrow> common_diffs old new | Some n \<Rightarrow> (n - t) # common_diffs old new)"
  by (simp_all add: common_diffs_def List.map_filter_simps split: option.split)

definition tally_diffs :: "rat list \<Rightarrow> tally" where
  "tally_diffs ds =
     (let short = map uminus (filter (\<lambda>d. d < 0) ds); long = filter (\<lambda>d. 0 < d) ds
      in \<lparr> ta_shorter = length short, ta_longer = length long, ta_same = length (filter (\<lambda>d. d = 0) ds),
           ta_sum_short = sum_list short, ta_sum_long = sum_list long, ta_short_list = short, ta_long_list = long \<rparr>)"

lemma tally_of_diffs: "tally_of old new = tally_diffs (common_diffs old new)"
proof -
  have "fold (tally_step new) old (tally_diffs ds) = tally_diffs (ds @ common_diffs old new)" for ds
  proof (induction old arbitrary: ds)
    case (Cons e old)
    obtain u t where e: "e = (u, t)" by (cases e)
    have "tally_step new (u, t) (tally_diffs ds) = (case dict_get new u of None \<Rightarrow> tally_diffs ds | Some n \<Rightarrow> tally_diffs (ds @ [n - t]))"
      by (auto simp: tally_step_def tally_diffs_def Let_def split: option.split)
    then show ?case using Cons.IH e by (simp split: option.split)
  qed simp
  from this [of "[]"] show ?thesis by (simp add: tally_of_def no_tally_def tally_diffs_def Let_def)
qed

lemma foldl_max_fold: "foldl max x xs = fold max xs (x :: rat)" "foldl min x xs = fold min xs (x :: rat)"
proof (induction xs arbitrary: x)
  case (Cons y ys)
  { case 1 show ?case using Cons.IH(1) by (simp add: max.commute) }
  { case 2 show ?case using Cons.IH(2) by (simp add: min.commute) }
qed simp_all

lemma py_max_Max: "l \<noteq> [] \<Longrightarrow> py_max l = Max (set l)" "l \<noteq> [] \<Longrightarrow> py_min l = Min (set l)"
  by (cases l; simp add: py_max_def py_min_def Max.set_eq_fold Min.set_eq_fold foldl_max_fold del: list.set)+

text \<open>
  The specification: two runs as partial functions, the users who became faster and the time each of them saved.
\<close>

definition faster_users :: "(int \<rightharpoonup> rat) \<Rightarrow> (int \<rightharpoonup> rat) \<Rightarrow> int set" where
  "faster_users old new = {u \<in> dom old \<inter> dom new. the (new u) < the (old u)}"

definition saved_time :: "(int \<rightharpoonup> rat) \<Rightarrow> (int \<rightharpoonup> rat) \<Rightarrow> int \<Rightarrow> rat" where
  "saved_time old new u = the (old u) - the (new u)"

definition spec_stats :: "(int \<rightharpoonup> rat) \<Rightarrow> (int \<rightharpoonup> rat) \<Rightarrow> evac_stats" where
  "spec_stats old new =
     (let F = faster_users old new; S = faster_users new old; saved = saved_time old new; lost = saved_time new old
      in \<lparr> es_shorter_count = card F, es_longer_count = card S, es_sum_short = sum saved F, es_sum_long = sum lost S,
           es_avg_short = (if F = {} then 0 else sum saved F / of_nat (card F)),
           es_max_short = (if F = {} then 0 else Max (saved ` F)), es_min_short = (if F = {} then 0 else Min (saved ` F)),
           es_avg_long = (if S = {} then 0 else sum lost S / of_nat (card S)),
           es_max_long = (if S = {} then 0 else Max (lost ` S)), es_min_long = (if S = {} then 0 else Min (lost ` S)) \<rparr>)"

text \<open>The differences with a property belong to the users whose difference has it, each once.\<close>

lemma common_diffs_users:
  assumes "dict_ok old"
  obtains us where "distinct us"
    "set us = {u \<in> dom (dict_get old) \<inter> dom (dict_get new). P (the (dict_get new u) - the (dict_get old u))}"
    "filter P (common_diffs old new) = map (\<lambda>u. the (dict_get new u) - the (dict_get old u)) us"
proof -
  let ?q = "\<lambda>(u, t). \<exists>n. dict_get new u = Some n \<and> P (n - t)"
  have "filter P (common_diffs l new) = map (\<lambda>u. the (dict_get new u) - the (dict_get old u)) (map fst (filter ?q l))"
    if "set l \<subseteq> set old" for l
    using that
  proof (induction l)
    case (Cons e l)
    obtain u t where e: "e = (u, t)" by (cases e)
    then have "dict_get old u = Some t" using Cons.prems assms by simp
    then show ?case using Cons e by (simp split: option.split)
  qed simp
  moreover have "set (map fst (filter ?q old)) = {u \<in> dom (dict_get old) \<inter> dom (dict_get new). P (the (dict_get new u) - the (dict_get old u))}"
  proof (intro set_eqI iffI)
    fix u assume "u \<in> set (map fst (filter ?q old))"
    then obtain t n where "(u, t) \<in> set old" "dict_get new u = Some n" "P (n - t)" by auto
    then show "u \<in> {u \<in> dom (dict_get old) \<inter> dom (dict_get new). P (the (dict_get new u) - the (dict_get old u))}"
      using assms by (auto simp: map_of_is_SomeI)
  next
    fix u assume "u \<in> {u \<in> dom (dict_get old) \<inter> dom (dict_get new). P (the (dict_get new u) - the (dict_get old u))}"
    then obtain t n where "dict_get old u = Some t" "dict_get new u = Some n" "P (n - t)" by auto
    then show "u \<in> set (map fst (filter ?q old))" by (force dest: map_of_SomeD)
  qed
  moreover have "distinct (map fst (filter ?q old))" using assms by (rule distinct_map_filter)
  ultimately show thesis using that [of "map fst (filter ?q old)"] by blast
qed

lemma sum_list_users: "distinct us \<Longrightarrow> sum_list (map f us) = sum f (set us)"
  by (simp add: sum_list_distinct_conv_sum_set)

lemma comparison_refines:
  assumes "dict_ok old"
  shows "get_comparison_stats old new = spec_stats (dict_get old) (dict_get new)"
proof -
  let ?F = "faster_users (dict_get old) (dict_get new)" and ?S = "faster_users (dict_get new) (dict_get old)"
  obtain fs where fs: "distinct fs" "set fs = {u \<in> dom (dict_get old) \<inter> dom (dict_get new). the (dict_get new u) - the (dict_get old u) < 0}"
    "filter (\<lambda>d. d < 0) (common_diffs old new) = map (\<lambda>u. the (dict_get new u) - the (dict_get old u)) fs"
    by (rule common_diffs_users [OF assms, of new "\<lambda>d. d < 0"])
  obtain ss where ss: "distinct ss" "set ss = {u \<in> dom (dict_get old) \<inter> dom (dict_get new). 0 < the (dict_get new u) - the (dict_get old u)}"
    "filter (\<lambda>d. 0 < d) (common_diffs old new) = map (\<lambda>u. the (dict_get new u) - the (dict_get old u)) ss"
    by (rule common_diffs_users [OF assms, of new "\<lambda>d. 0 < d"])
  have sets: "set fs = ?F" "set ss = ?S" using fs(2) ss(2) by (auto simp: faster_users_def)
  have short: "map uminus (filter (\<lambda>d. d < 0) (common_diffs old new)) = map (saved_time (dict_get old) (dict_get new)) fs"
    using fs(3) by (simp add: saved_time_def)
  have long: "filter (\<lambda>d. 0 < d) (common_diffs old new) = map (saved_time (dict_get new) (dict_get old)) ss"
    using ss(3) by (simp add: saved_time_def)
  have card: "length fs = card ?F" "length ss = card ?S" "fs = [] \<longleftrightarrow> ?F = {}" "ss = [] \<longleftrightarrow> ?S = {}"
    using fs(1) ss(1) sets by (simp_all flip: distinct_card sets)
  have tally: "tally_of old new = \<lparr> ta_shorter = card ?F, ta_longer = card ?S,
      ta_same = length (filter (\<lambda>d. d = 0) (common_diffs old new)),
      ta_sum_short = sum (saved_time (dict_get old) (dict_get new)) ?F,
      ta_sum_long = sum (saved_time (dict_get new) (dict_get old)) ?S,
      ta_short_list = map (saved_time (dict_get old) (dict_get new)) fs,
      ta_long_list = map (saved_time (dict_get new) (dict_get old)) ss \<rparr>"
    unfolding tally_of_diffs tally_diffs_def Let_def short long using fs(1) ss(1) sets card by (simp add: sum_list_users)
  have "0 < card ?F \<longleftrightarrow> ?F \<noteq> {}" "0 < card ?S \<longleftrightarrow> ?S \<noteq> {}"
    unfolding card(1,2) [symmetric] card(3,4) [symmetric] by simp_all
  then show ?thesis
    unfolding get_comparison_stats_def tally spec_stats_def Let_def
    using card(3,4) sets by (auto simp: py_max_Max)
qed

section \<open>Properties of the comparison\<close>

lemma load_row_ok: "load_row names uk tk row data = Inr data' \<Longrightarrow> dict_ok data \<Longrightarrow> dict_ok data'"
  by (auto simp: load_row_def rbind_def distinct_update split: sum.splits)

lemma load_rows_ok: "rfold (load_row names uk tk) rows data = Inr data' \<Longrightarrow> dict_ok data \<Longrightarrow> dict_ok data'"
proof (induction rows arbitrary: data)
  case (Cons row rows)
  then obtain d where "load_row names uk tk row data = Inr d" "rfold (load_row names uk tk) rows d = Inr data'"
    by (auto simp: rbind_def split: sum.splits)
  then show ?case using Cons load_row_ok by blast
qed simp

lemma load_text_ok: "load_text s = Inr data \<Longrightarrow> dict_ok data"
  by (auto simp: load_text_def split: option.splits intro: load_rows_ok)


lemma load_csv_or_empty_ok: "load_csv_or_empty fs name = Inr data \<Longrightarrow> dict_ok data"
  by (auto simp: load_csv_or_empty_def split: option.splits intro: load_text_ok)

text \<open>The time of a user is that of the last of its rows.\<close>

lemma load_rows_last:
  assumes "list_all2 (\<lambda>row (u, t). number_in parse_int names uk row = Inr u \<and> number_in parse_float names tk row = Inr t) rows entries"
  shows "\<exists>data. rfold (load_row names uk tk) rows data0 = Inr data \<and> dict_get data = dict_get (rev entries @ data0)"
  using assms
proof (induction arbitrary: data0 rule: list_all2_induct)
  case (Cons row rows e entries)
  obtain u t where e: "e = (u, t)" by (cases e)
  then have "load_row names uk tk row data0 = Inr (dict_set data0 u t)" using Cons.hyps(1) by (simp add: load_row_def)
  moreover obtain data where "rfold (load_row names uk tk) rows (dict_set data0 u t) = Inr data"
    "dict_get data = dict_get (rev entries @ dict_set data0 u t)" using Cons.IH by blast
  moreover have "dict_get (rev entries @ dict_set data0 u t) = dict_get (rev entries @ (u, t) # data0)"
    by (rule ext) (simp add: map_add_def split: option.split)
  ultimately show ?case using e by simp
qed simp



text \<open>Exchanging the runs exchanges the two halves.\<close>

lemma spec_stats_exchanged:
  "es_shorter_count (spec_stats new old) = es_longer_count (spec_stats old new)"
  "es_sum_short (spec_stats new old) = es_sum_long (spec_stats old new)"
  "es_max_short (spec_stats new old) = es_max_long (spec_stats old new)"
  by (simp_all add: spec_stats_def Let_def)


definition sample_run :: "string \<Rightarrow> string \<Rightarrow> string" where
  "sample_run a b = ''userID, time'' @ newline @ ''7,'' @ a @ newline @ ''9,'' @ b @ newline"

definition sample_runs :: "string \<Rightarrow> string option" where
  "sample_runs = [''old.txt'' \<mapsto> sample_run ''12.5'' ''30'', ''new.txt'' \<mapsto> sample_run ''10'' ''40'']"


lemma sample_runs_compared:
  "compare_times sample_runs ''old.txt'' ''new.txt'' =
     Inr [(Shorter_Users, ''1''), (Longer_Users, ''1''), (Total_Saved, ''2.50''), (Total_Lost, ''10.00''),
          (Mean_Saved, ''2.50''), (Max_Saved, ''2.50''), (Min_Saved, ''2.50''),
          (Mean_Lost, ''10.00''), (Max_Lost, ''10.00''), (Min_Lost, ''10.00'')]"
  by code_simp


section \<open>Properties of the curve\<close>









lemma sample_curve: "cdf_curve (sample_run ''30'' ''12.5'') = Inr [(25 / 2, 50), (30, 100)]"
  by code_simp

section \<open>Reading what was written\<close>

text \<open>A text of \<open>fmt\<close> for a time that is not negative is read back within half a unit of its last place.\<close>

lemma fmt_time_near:
  assumes "0 \<le> x"
  obtains y where "parse_float (fmt_time x) = Inr y" "\<bar>y - x\<bar> \<le> (if 1 \<le> x then 1 / 200 else 1 / 20000)"
proof (cases "x = 0")
  case True
  have "parse_float ''0'' = Inr 0" by code_simp
  then show thesis using True by (intro that [of 0]) (simp_all add: fmt_time_def)
next
  case False
  define dp where "dp = (if 1 \<le> x then 2 else 4 :: nat)"
  have "fmt_time x = py_fixed dp x" using False assms by (simp add: fmt_time_def dp_def)
  then show thesis using parse_float_fixed [OF assms, of dp] shown_near [of dp x] by (intro that [of "shown dp x"]) (simp_all add: dp_def split: if_splits)
qed

lemma parse_int_nat: "parse_int (nat_str n) = Inr (int n)"
proof -
  have d: "list_all is_digit (nat_str n)" by (rule nat_str_digits)
  then have h: "is_digit (hd (nat_str n))" "is_digit (last (nat_str n))" by (simp_all add: list_all_iff)
  then have "hd (nat_str n) \<noteq> CHR ''-''" "hd (nat_str n) \<noteq> CHR ''+''" by (auto simp: is_digit_def)
  then have "signed (nat_str n) = (False, nat_str n)" by (cases "nat_str n") (simp_all add: signed_def)
  moreover have "strip (nat_str n) = nat_str n" using h by (intro strip_text) (simp_all add: digit_not_space)
  ultimately show ?thesis using d by (simp add: parse_int_def)
qed

text \<open>
  A file of the simulation has a line for each user.  Its names may be padded.
\<close>

definition run_text :: "string \<Rightarrow> string \<Rightarrow> nat \<Rightarrow> (nat \<times> rat) list \<Rightarrow> string" where
  "run_text h1 h2 dp entries = concat (map csv_line ([h1, h2] # map (\<lambda>(u, t). [nat_str u, py_fixed dp t]) entries))"

lemma plain_digits: "list_all is_digit s \<Longrightarrow> plain_field s"
  by (auto simp: plain_field_def list_all_iff is_digit_def)

lemma plain_nat: "plain_field (nat_str n)"
  by (rule plain_digits [OF nat_str_digits])

lemma plain_fixed: "0 \<le> t \<Longrightarrow> plain_field (py_fixed dp t)"
proof -
  assume "0 \<le> t"
  then obtain w r where t: "py_fixed dp t = w @ r" "w \<noteq> []" "list_all is_digit w" "dp = 0 \<Longrightarrow> r = []"
    "dp \<noteq> 0 \<Longrightarrow> \<exists>z. r = CHR ''.'' # z \<and> length z = dp \<and> list_all is_digit z"
    using py_fixed_nonneg by metis
  then have "plain_field w" "plain_field r" using plain_digits by (cases "dp = 0"; force simp: plain_field_def)+
  then show ?thesis using t(1) by (simp add: plain_field_def)
qed

lemma run_text_rows:
  assumes "plain_field h1" "plain_field h2" "\<forall>(u, t) \<in> set entries. 0 \<le> t"
  shows "csv_rows (run_text h1 h2 dp entries) = [h1, h2] # map (\<lambda>(u, t). [nat_str u, py_fixed dp t]) entries"
  unfolding run_text_def
  using assms by (intro csv_plain_rows) (auto simp: plain_row_def list_all_iff plain_fixed plain_nat)

theorem run_read_back:
  assumes "plain_field h1" "plain_field h2" "strip h1 = ''userID''" "strip h2 = ''time''" "\<forall>(u, t) \<in> set entries. 0 \<le> t"
  shows "\<exists>data. load_text (run_text h1 h2 dp entries) = Inr data
    \<and> dict_get data = dict_get (rev (map (\<lambda>(u, t). (int u, shown dp t)) entries))"
proof -
  let ?s = "run_text h1 h2 dp entries" and ?rows = "map (\<lambda>(u, t). [nat_str u, py_fixed dp t]) entries"
  have rows: "csv_rows ?s = [h1, h2] # ?rows" using assms by (intro run_text_rows) simp_all
  have ne: "h1 \<noteq> h2" using assms(3,4) by auto
  have f: "fieldnames ?s = Some [h1, h2]" "dict_rows ?s = ?rows"
    using rows by (auto simp: fieldnames_def dict_rows_def filter_id_conv)
  have "list_all2 (\<lambda>row (u, t). number_in parse_int [h1, h2] h1 row = Inr u \<and> number_in parse_float [h1, h2] h2 row = Inr t)
      ?rows (map (\<lambda>(u, t). (int u, shown dp t)) entries)"
    using assms(5) ne
    by (auto simp: list.rel_map list_all2_same number_in_def row_value_def type_error_def parse_int_nat parse_float_fixed split: prod.split)
  from load_rows_last [OF this, of "[]"] show ?thesis
    using f assms(3,4) by (simp add: load_text_def column_of_def)
qed

text \<open>A file without rows ends both scripts in different ways: \<open>compare_evac.py\<close> prints zeros, \<open>hyou.py\<close> a message.\<close>

lemma run_without_rows:
  "load_text ''userID,time'' = Inr []" "compare_lines (tally_of [] new) =
     [(Shorter_Users, ''0''), (Longer_Users, ''0''), (Total_Saved, ''0''), (Total_Lost, ''0'')]"
  "fs a = Some ''userID,time'' \<Longrightarrow> load_csv_or_empty fs b = Inr p \<Longrightarrow> load_csv_or_empty fs c = Inr q \<Longrightarrow> make_table fs a b c = Inr None"
proof -
  show l: "load_text ''userID,time'' = Inr []" by code_simp
  have "nat_str 0 = ''0''" by code_simp
  then show "compare_lines (tally_of [] new) =
     [(Shorter_Users, ''0''), (Longer_Users, ''0''), (Total_Saved, ''0''), (Total_Lost, ''0'')]"
    by (simp add: compare_lines_def tally_of_def no_tally_def fmt_time_def)
  assume "fs a = Some ''userID,time''" "load_csv_or_empty fs b = Inr p" "load_csv_or_empty fs c = Inr q"
  then show "make_table fs a b c = Inr None" using l by (simp add: make_table_def load_csv_or_empty_def)
qed

text \<open>The table of three runs has, in each row, the values of the three comparisons.\<close>

lemma table_exact:
  assumes "load_csv_or_empty fs a = Inr wo" "load_csv_or_empty fs b = Inr patrol" "load_csv_or_empty fs c = Inr focused"
    "wo \<noteq> []" "patrol \<noteq> []" "focused \<noteq> []"
  shows "make_table fs a b c = Inr (Some (map (\<lambda>(label, cell). (label,
    [cell (spec_stats (dict_get wo) (dict_get patrol)), cell (spec_stats (dict_get wo) (dict_get focused)),
     cell (spec_stats (dict_get patrol) (dict_get focused))])) table_rows))"
  using assms load_csv_or_empty_ok [OF assms(1)] load_csv_or_empty_ok [OF assms(2)]
  by (simp add: make_table_def generate_latex_def comparison_refines)

end
