(* ===== verification/Main_Window.thy ===== *)
theory Main_Window
  imports Timeline_Window
begin

text \<open>
  \<open>MainWindow\<close> and \<open>main\<close> of \<open>utils/grid.py\<close>: the window with its three buttons around the widget of \<open>Timeline_Window\<close>, and
  the dialogs in which the file of a picture is chosen.  What the user does with a dialog is an event; the writing of a
  picture is a parameter, which gives the exception where it fails.  The reading of the arguments and of the file by the
  interpreter is in \<open>grid_main\<close>.
\<close>

section \<open>The window\<close>

text \<open>The dialogs stay alive after they are hidden; \<open>__dialog\<close> is the one that was made last.\<close>

record file_dialog =
  dl_shown :: bool
  dl_filename :: "string option"

record main_window =
  mw_render :: widget
  mw_dialogs :: "file_dialog list"
  mw_dialog :: "nat option"
  mw_files :: "(string option \<times> draw_op list) list"
  mw_running :: bool

definition window_of :: "graphic \<Rightarrow> colors \<Rightarrow> main_window" where
  "window_of g cs = \<lparr> mw_render = new_widget g cs, mw_dialogs = [], mw_dialog = None, mw_files = [], mw_running = True \<rparr>"

definition on_render :: "(widget, 'a) handler \<Rightarrow> (main_window, 'a) handler" where
  "on_render m st = (case m (mw_render st) of (w, r) \<Rightarrow> (st \<lparr> mw_render := w \<rparr>, r))"

definition set_smaller_cb :: "(string \<Rightarrow> extents) \<Rightarrow> (main_window, unit) handler" where
  "set_smaller_cb ext = on_render (set_smaller_zoom ext)"

definition set_bigger_cb :: "(string \<Rightarrow> extents) \<Rightarrow> (main_window, unit) handler" where
  "set_bigger_cb ext = on_render (set_bigger_zoom ext)"

definition output_png_cb :: "(main_window, unit) handler" where
  "output_png_cb =
     hset (\<lambda>st. st \<lparr> mw_dialogs := mw_dialogs st @ [\<lparr> dl_shown = True, dl_filename = None \<rparr>],
                     mw_dialog := Some (length (mw_dialogs st)) \<rparr>)"

type_synonym png_writer = "string option \<Rightarrow> draw_op list \<Rightarrow> py_exn option"

definition write_picture :: "png_writer \<Rightarrow> string option \<Rightarrow> draw_op list \<Rightarrow> (main_window, unit) handler" where
  "write_picture save name ops st =
     (case save name ops of
        Some e \<Rightarrow> (st, Inl e)
      | None \<Rightarrow> (st \<lparr> mw_files := mw_files st @ [(name, ops)] \<rparr>, Inr ()))"

definition hide_dialog :: "nat \<Rightarrow> main_window \<Rightarrow> main_window" where
  "hide_dialog d st = st \<lparr> mw_dialogs := (mw_dialogs st)[d := (mw_dialogs st ! d) \<lparr> dl_shown := False \<rparr>] \<rparr>"

text \<open>The name is that of \<open>__dialog\<close>, not that of the dialog \<open>d\<close> that has responded.\<close>

definition dialog_response_cb :: "(string \<Rightarrow> extents) \<Rightarrow> png_writer \<Rightarrow> nat \<Rightarrow> int \<Rightarrow> (main_window, unit) handler" where
  "dialog_response_cb ext save d response =
     (if response = 1 then
        hbind (hread (\<lambda>st. rbind (need (mw_dialog st)) (\<lambda>k. Inr (dl_filename (mw_dialogs st ! k))))) (\<lambda>name.
        hbind (on_render (output_png ext)) (\<lambda>ops.
        hseq (write_picture save name ops) (hset (hide_dialog d))))
      else hreturn ())"

text \<open>The events of the window: those of the widget, the clicks, and what is done with the dialog \<open>d\<close>.\<close>

datatype window_event =
    Widget_event gtk_event
  | Clicked_out
  | Clicked_in
  | Clicked_output
  | Choose_file nat "string option"
  | Respond nat int
  | Destroy

text \<open>The buttons in the order of their packing, with the callbacks that \<open>run\<close> connects.\<close>

definition window_buttons :: "(string \<times> window_event) list" where
  "window_buttons = [(''Zoom Out'', Clicked_out), (''Zoom In'', Clicked_in), (''Output Png'', Clicked_output)]"

definition dialog_open :: "nat \<Rightarrow> main_window \<Rightarrow> bool" where
  "dialog_open d st \<longleftrightarrow> d < length (mw_dialogs st) \<and> dl_shown (mw_dialogs st ! d)"

definition window_step :: "(string \<Rightarrow> extents) \<Rightarrow> png_writer \<Rightarrow> window_event \<Rightarrow> main_window \<Rightarrow> main_window" where
  "window_step ext save ev st =
     (if \<not> mw_running st then st
      else (case ev of
        Widget_event e \<Rightarrow> st \<lparr> mw_render := run_event ext e (mw_render st) \<rparr>
      | Clicked_out \<Rightarrow> fst (set_smaller_cb ext st)
      | Clicked_in \<Rightarrow> fst (set_bigger_cb ext st)
      | Clicked_output \<Rightarrow> fst (output_png_cb st)
      | Choose_file d name \<Rightarrow>
          if dialog_open d st then st \<lparr> mw_dialogs := (mw_dialogs st)[d := (mw_dialogs st ! d) \<lparr> dl_filename := name \<rparr>] \<rparr> else st
      | Respond d r \<Rightarrow> if dialog_open d st then fst (dialog_response_cb ext save d r st) else st
      | Destroy \<Rightarrow> st \<lparr> mw_running := False \<rparr>))"


section \<open>The window and the widget\<close>




section \<open>What the user can reach\<close>




text \<open>The counter of \<open>__dialog\<close> names the newest dialog, and every file that was written shows nothing.\<close>

definition window_ok :: "main_window \<Rightarrow> bool" where
  "window_ok st \<longleftrightarrow>
     mw_dialog st = (if mw_dialogs st = [] then None else Some (length (mw_dialogs st) - 1)) \<and> (\<forall>(n, ops) \<in> set (mw_files st). ops = [])"

lemma window_ok_response: "preserves window_ok (dialog_response_cb ext save d r)"
  unfolding preserves_def
proof (intro allI impI)
  fix st assume ok: "window_ok st"
  have hide: "window_ok (hide_dialog d s) = window_ok s" for s
    by (cases "mw_dialogs s = []") (auto simp: window_ok_def hide_dialog_def)
  have pic: "window_ok (fst (write_picture save name [] s))" if "window_ok s" for name s
    using that by (auto simp: window_ok_def write_picture_def split: option.split)
  have render: "window_ok (s \<lparr> mw_render := w \<rparr>) = window_ok s" for s w by (simp add: window_ok_def)
  have rest: "window_ok (fst (hbind (on_render (output_png ext)) (\<lambda>ops. hseq (write_picture save name ops) (hset (hide_dialog d))) st))"
    for name
  proof (cases "output_png ext (mw_render st)")
    case (Pair w res)
    show ?thesis
    proof (cases res)
      case (Inl e)
      then show ?thesis using Pair ok by (simp add: hbind_def on_render_def render)
    next
      case (Inr ops)
      then have "ops = []" using Pair output_png_blank by simp
      moreover have "window_ok (fst (hseq (write_picture save name []) (hset (hide_dialog d)) s))" if "window_ok s" for s
        using pic [OF that, of name] by (auto simp: hseq_def hbind_def hide split: prod.split sum.split)
      ultimately show ?thesis using Pair Inr ok by (simp add: hbind_def on_render_def render)
    qed
  qed
  show "window_ok (fst (dialog_response_cb ext save d r st))"
    using ok rest by (auto simp: dialog_response_cb_def split: sum.split)
qed

lemma window_ok_render: "window_ok (st \<lparr> mw_render := w \<rparr>) = window_ok st" "window_ok (fst (on_render m st)) = window_ok st"
  by (simp_all add: window_ok_def on_render_def split: prod.split)

lemma window_ok_step: "window_ok st \<Longrightarrow> window_ok (window_step ext save ev st)"
proof (cases ev)
  case (Respond d r)
  assume "window_ok st"
  then show ?thesis using Respond window_ok_response [of ext save d r] by (simp add: window_step_def preserves_def)
next
  case Clicked_output
  assume "window_ok st"
  then show ?thesis using Clicked_output by (simp add: window_step_def output_png_cb_def window_ok_def)
next
  case (Choose_file d name)
  assume "window_ok st"
  then show ?thesis using Choose_file by (simp add: window_step_def window_ok_def)
next
  case Destroy
  assume "window_ok st"
  then show ?thesis using Destroy by (simp add: window_step_def window_ok_def)
qed (simp_all add: window_step_def set_smaller_cb_def set_bigger_cb_def window_ok_render)

lemma window_ok_steps: "window_ok st \<Longrightarrow> window_ok (fold (window_step ext save) wevs st)"
proof (induction wevs arbitrary: st)
  case (Cons ev wevs)
  have "window_ok (window_step ext save ev st)" using Cons.prems by (rule window_ok_step)
  then show ?case unfolding fold_simps(2) by (rule Cons.IH)
qed (simp only: fold_simps(1))

theorem written_files_blank:
  assumes "(n, ops) \<in> set (mw_files (fold (window_step ext save) wevs (window_of g cs)))"
  shows "ops = []"
proof -
  have "window_ok (window_of g cs)" by (simp add: window_ok_def window_of_def)
  then have "window_ok (fold (window_step ext save) wevs (window_of g cs))" by (rule window_ok_steps)
  then have "\<forall>(n, ops) \<in> set (mw_files (fold (window_step ext save) wevs (window_of g cs))). ops = []" unfolding window_ok_def by (rule conjunct2)
  from bspec [OF this assms] show ?thesis by (simp only: prod.case)
qed

text \<open>With two dialogs open, the first one saves under the name that was chosen in the second.\<close>

lemma saves_as_newest:
  assumes "mw_running st" "dialog_open d st" "mw_dialog st = Some k" "output_png ext (mw_render st) = (w, Inr ops)"
  shows "mw_files (window_step ext (\<lambda>n ops. None) (Respond d 1) st) = mw_files st @ [(dl_filename (mw_dialogs st ! k), ops)]"
proof -
  let ?name = "dl_filename (mw_dialogs st ! k)" and ?s1 = "st \<lparr> mw_render := w \<rparr>"
  have "on_render (output_png ext) st = (?s1, Inr ops)" using assms(4) by (simp add: on_render_def)
  moreover have "write_picture (\<lambda>n ops. None) ?name ops ?s1 = (?s1 \<lparr> mw_files := mw_files ?s1 @ [(?name, ops)] \<rparr>, Inr ())"
    by (simp add: write_picture_def)
  ultimately have "fst (dialog_response_cb ext (\<lambda>n ops. None) d 1 st) = hide_dialog d (?s1 \<lparr> mw_files := mw_files ?s1 @ [(?name, ops)] \<rparr>)"
    using assms(3) by (simp add: dialog_response_cb_def hseq_def hbind_def hread_def need_def)
  moreover have "mw_files (hide_dialog d s) = mw_files s" for s by (simp add: hide_dialog_def)
  ultimately show ?thesis using assms(1,2) by (simp add: window_step_def)
qed

lemma window_step_dialogs:
  assumes "mw_running st"
  shows "window_step ext save Clicked_output st =
      st \<lparr> mw_dialogs := mw_dialogs st @ [\<lparr> dl_shown = True, dl_filename = None \<rparr>], mw_dialog := Some (length (mw_dialogs st)) \<rparr>"
    "dialog_open d st \<Longrightarrow> window_step ext save (Choose_file d name) st =
      st \<lparr> mw_dialogs := (mw_dialogs st)[d := (mw_dialogs st ! d) \<lparr> dl_filename := name \<rparr>] \<rparr>"
  using assms by (simp_all add: window_step_def output_png_cb_def)

lemma first_dialog_saves_as_second:
  assumes "mw_running st" "mw_dialogs st = []" "output_png ext (mw_render st) = (w, Inr ops)"
  shows "mw_files (fold (window_step ext (\<lambda>n ops. None))
      [Clicked_output, Choose_file 0 (Some ''a.png''), Clicked_output, Choose_file 1 (Some ''b.png''), Respond 0 1] st)
    = mw_files st @ [(Some ''b.png'', ops)]"
proof -
  let ?d = "\<lambda>n. \<lparr> dl_shown = True, dl_filename = n \<rparr>"
  let ?st = "st \<lparr> mw_dialogs := [?d (Some ''a.png''), ?d (Some ''b.png'')], mw_dialog := Some 1 \<rparr>"
  have "fold (window_step ext (\<lambda>n ops. None))
      [Clicked_output, Choose_file 0 (Some ''a.png''), Clicked_output, Choose_file 1 (Some ''b.png'')] st = ?st"
    using assms(1,2) by (simp add: window_step_dialogs dialog_open_def)
  moreover have "mw_files (window_step ext (\<lambda>n ops. None) (Respond 0 1) ?st) = mw_files ?st @ [(dl_filename (mw_dialogs ?st ! 1), ops)]"
    using assms(1,3) by (intro saves_as_newest [of _ _ _ _ w]) (simp_all add: dialog_open_def)
  ultimately show ?thesis by simp
qed

end
